(* ===== verification/ES_Prelude.thy ===== *)
theory ES_Prelude
  imports Main "HOL-Library.Word"
begin

text \<open>
  Prelude of the development: the machine types of the C code, the \<open>esp_err_t\<close> codes, the
  little-endian byte representation of integers (what \<open>memcpy\<close> of an integer does on the
  target), C strings, and the view of a memory as a function from addresses to bytes.  The
  collection \<open>es_simps\<close> gathers the equations the component proofs simplify with.
\<close>

unbundle bit_operations_syntax

named_theorems es_simps \<open>equations the component proofs simplify with\<close>

section \<open>Machine types\<close>

type_synonym byte = "8 word"
type_synonym u8 = "8 word"
type_synonym u16 = "16 word"
type_synonym u32 = "32 word"
type_synonym u64 = "64 word"
type_synonym i64 = "64 word"  \<comment> \<open>two's complement, read with \<open>sint\<close>\<close>
type_synonym esp_err = "32 word"  \<comment> \<open>\<open>esp_err_t\<close> is an \<open>int\<close>\<close>

section \<open>Error codes (\<open>esp_err.h\<close> and \<open>edgesync.h\<close>)\<close>

abbreviation (input) ESP_OK :: esp_err where "ESP_OK \<equiv> 0"
abbreviation (input) ESP_ERR_NO_MEM :: esp_err where "ESP_ERR_NO_MEM \<equiv> 0x101"
abbreviation (input) ESP_ERR_INVALID_ARG :: esp_err where "ESP_ERR_INVALID_ARG \<equiv> 0x102"
abbreviation (input) EDGESYNC_ERR_QUEUE_FULL :: esp_err where "EDGESYNC_ERR_QUEUE_FULL \<equiv> 0x8A01"
abbreviation (input) EDGESYNC_ERR_STORAGE :: esp_err where "EDGESYNC_ERR_STORAGE \<equiv> 0x8A02"
abbreviation (input) EDGESYNC_ERR_SERIALIZATION :: esp_err where "EDGESYNC_ERR_SERIALIZATION \<equiv> 0x8A03"
abbreviation (input) EDGESYNC_ERR_NOT_INITIALIZED :: esp_err where "EDGESYNC_ERR_NOT_INITIALIZED \<equiv> 0x8A04"
abbreviation (input) EDGESYNC_ERR_ALREADY_STARTED :: esp_err where "EDGESYNC_ERR_ALREADY_STARTED \<equiv> 0x8A05"
abbreviation (input) EDGESYNC_ERR_INVALID_STATE :: esp_err where "EDGESYNC_ERR_INVALID_STATE \<equiv> 0x8A06"
abbreviation (input) EDGESYNC_ERR_MESSAGE_TOO_LARGE :: esp_err where "EDGESYNC_ERR_MESSAGE_TOO_LARGE \<equiv> 0x8A07"
abbreviation (input) EDGESYNC_ERR_STORAGE_CORRUPT :: esp_err where "EDGESYNC_ERR_STORAGE_CORRUPT \<equiv> 0x8A08"
abbreviation (input) EDGESYNC_ERR_NOT_FOUND :: esp_err where "EDGESYNC_ERR_NOT_FOUND \<equiv> 0x8A09"
abbreviation (input) EDGESYNC_ERR_TRANSPORT :: esp_err where "EDGESYNC_ERR_TRANSPORT \<equiv> 0x8A0A"

section \<open>Integers as little-endian bytes\<close>

text \<open>The \<open>n\<close> bytes of an integer in memory order on the (little-endian) target.\<close>

definition le_bytes :: "nat \<Rightarrow> 'a::len word \<Rightarrow> byte list" where
  "le_bytes n w = map (\<lambda>i. ucast (drop_bit (8 * i) w)) [0..<n]"

text \<open>The integer whose bytes in memory are \<open>bs\<close>.\<close>

definition le_word :: "byte list \<Rightarrow> 'a::len word" where
  "le_word bs = foldr (\<lambda>b acc. push_bit 8 acc OR ucast b) bs 0"

lemma length_le_bytes [simp]: "length (le_bytes n w) = n"
  by (simp add: le_bytes_def)

lemma nth_le_bytes: "i < n \<Longrightarrow> le_bytes n w ! i = ucast (drop_bit (8 * i) w)"
  by (simp add: le_bytes_def)

lemma bit_le_word:
  "bit (le_word bs :: 'a::len word) k \<longleftrightarrow>
     k < LENGTH('a) \<and> k div 8 < length bs \<and> bit (bs ! (k div 8)) (k mod 8)"
proof (induction bs arbitrary: k)
  case Nil
  then show ?case by (simp add: le_word_def)
next
  case (Cons b bs)
  have step: "le_word (b # bs) = (push_bit 8 (le_word bs) OR ucast b :: 'a word)"
    by (simp add: le_word_def)
  show ?case
  proof (cases "k < 8")
    case True
    then show ?thesis
      by (auto simp: step bit_or_iff bit_push_bit_iff bit_ucast_iff)
  next
    case False
    then obtain j where j: "k = 8 + j" using le_Suc_ex not_le by blast
    have "\<not> bit b k" using False by (auto dest: bit_imp_le_length)
    moreover have "(8 + j) div 8 = Suc (j div 8)" by simp
    ultimately show ?thesis
      by (auto simp: step bit_or_iff bit_push_bit_iff bit_ucast_iff Cons.IH j)
  qed
qed

lemma le_word_le_bytes:
  assumes "LENGTH('a) \<le> 8 * n"
  shows "le_word (le_bytes n w) = (w :: 'a::len word)"
proof (rule bit_word_eqI)
  fix k assume k: "k < LENGTH('a)"
  then have "k div 8 < n" using assms by linarith
  then show "bit (le_word (le_bytes n w) :: 'a word) k = bit w k"
    using k by (simp add: bit_le_word nth_le_bytes bit_ucast_iff bit_drop_bit_eq)
qed

lemma le_bytes_le_word:
  assumes "length bs = n" "8 * n \<le> LENGTH('a)"
  shows "le_bytes n (le_word bs :: 'a::len word) = bs"
proof (rule nth_equalityI)
  show "length (le_bytes n (le_word bs :: 'a word)) = length bs"
    using assms by simp
next
  fix i assume "i < length (le_bytes n (le_word bs :: 'a word))"
  then have i: "i < n" by simp
  show "le_bytes n (le_word bs :: 'a word) ! i = bs ! i"
  proof (rule bit_word_eqI)
    fix k assume k: "k < LENGTH(8)"
    then have "8 * i + k < LENGTH('a)" using i assms(2) by simp
    then show "bit (le_bytes n (le_word bs :: 'a word) ! i) k = bit (bs ! i) k"
      using i k assms(1)
      by (simp add: nth_le_bytes bit_ucast_iff bit_drop_bit_eq bit_le_word)
  qed
qed

lemma le_word_inject:
  assumes "length bs = length cs" "8 * length bs \<le> LENGTH('a)"
    and "(le_word bs :: 'a::len word) = le_word cs"
  shows "bs = cs"
  using assms le_bytes_le_word [of bs "length bs", where 'a = 'a]
    le_bytes_le_word [of cs "length bs", where 'a = 'a] by simp

section \<open>Exclusive or\<close>

lemma xor_cancel_right [simp]: "(x XOR z = y XOR z) = (x = (y :: 'a::len word))"
  by (metis xor.assoc xor_self_eq xor.right_neutral)

lemma xor_cancel_left [simp]: "(z XOR x = z XOR y) = (x = (y :: 'a::len word))"
  by (metis xor.commute xor_cancel_right)

section \<open>Lists\<close>

lemma take_append_exact [simp]: "length xs = n \<Longrightarrow> take n (xs @ ys) = xs"
  by simp

lemma drop_append_exact [simp]: "length xs = n \<Longrightarrow> drop n (xs @ ys) = ys"
  by simp

lemma sum_list_update_nat:
  fixes f :: "'a \<Rightarrow> nat"
  assumes "k < length xs"
  shows "sum_list (map f (xs[k := x])) + f (xs ! k) = sum_list (map f xs) + f x"
  using assms
proof (induction xs arbitrary: k)
  case Nil
  then show ?case by simp
next
  case (Cons a xs)
  then show ?case by (cases k) auto
qed

section \<open>C strings\<close>

text \<open>
  A \<open>char\<close> buffer is a byte list; the C string in it ends at the first NUL (or with the
  list, whose terminator is then left out).
\<close>

definition c_string :: "byte list \<Rightarrow> byte list" where
  "c_string buf = takeWhile (\<lambda>b. b \<noteq> 0) buf"

lemma c_string_no_nul [simp]: "0 \<notin> set bs \<Longrightarrow> c_string bs = bs"
  unfolding c_string_def by (rule takeWhile_eq_all_conv [THEN iffD2]) auto

lemma c_string_nul_free: "0 \<notin> set (c_string bs)"
  unfolding c_string_def by (metis (full_types) set_takeWhileD)

lemma c_string_length: "length (c_string bs) \<le> length bs"
  unfolding c_string_def by (rule length_takeWhile_le)

section \<open>Memories\<close>

text \<open>A memory (here: the cells of a flash partition) as a function from addresses to bytes.\<close>

type_synonym mem = "nat \<Rightarrow> byte"

definition mem_read :: "mem \<Rightarrow> nat \<Rightarrow> nat \<Rightarrow> byte list" where
  "mem_read m off len = map m [off..<off + len]"

lemma length_mem_read [simp]: "length (mem_read m off len) = len"
  by (simp add: mem_read_def)

lemma nth_mem_read [simp]: "i < len \<Longrightarrow> mem_read m off len ! i = m (off + i)"
  by (simp add: mem_read_def)

lemma mem_read_cong:
  "(\<And>i. off \<le> i \<Longrightarrow> i < off + len \<Longrightarrow> m i = m' i) \<Longrightarrow> mem_read m off len = mem_read m' off len"
  by (simp add: mem_read_def)

lemma mem_read_eqD: "mem_read m off len = bs \<Longrightarrow> i < len \<Longrightarrow> m (off + i) = bs ! i"
  by auto

lemma take_mem_read: "k \<le> len \<Longrightarrow> take k (mem_read m off len) = mem_read m off k"
  by (rule nth_equalityI) auto

lemma drop_mem_read: "drop k (mem_read m off len) = mem_read m (off + k) (len - k)"
  by (rule nth_equalityI) (auto simp: add.assoc)

lemma mem_read_append: "mem_read m off (k + l) = mem_read m off k @ mem_read m (off + k) l"
  by (rule nth_equalityI) (auto simp: nth_append)

lemma mem_read_sub:
  "mem_read m off len = bs \<Longrightarrow> k + l \<le> len \<Longrightarrow> mem_read m (off + k) l = take l (drop k bs)"
  by (rule nth_equalityI) (auto simp: add.assoc)

section \<open>Selection loops\<close>

text \<open>
  The loop both backends use to choose a message: skip the elements that are not eligible,
  keep the first eligible one, replace it by a later one that is better.  The arguments are
  the indices still to visit and the best index so far.
\<close>

fun select_loop :: "('e \<Rightarrow> bool) \<Rightarrow> ('e \<Rightarrow> 'e \<Rightarrow> bool) \<Rightarrow> 'e list \<Rightarrow> nat list \<Rightarrow> nat option \<Rightarrow> nat option" where
  "select_loop ok better xs [] best = best"
| "select_loop ok better xs (i # js) best =
     (if \<not> ok (xs ! i) then select_loop ok better xs js best
      else (case best of
              None \<Rightarrow> select_loop ok better xs js (Some i)
            | Some b \<Rightarrow> select_loop ok better xs js (if better (xs ! i) (xs ! b) then Some i else Some b)))"

text \<open>
  When the comparison is that of a key, the loop returns the first eligible element with the
  least key, and \<open>None\<close> exactly if no element is eligible.
\<close>

definition first_least :: "('e \<Rightarrow> bool) \<Rightarrow> ('e \<Rightarrow> 'k::linorder) \<Rightarrow> 'e list \<Rightarrow> nat \<Rightarrow> nat option \<Rightarrow> bool" where
  "first_least ok key xs n r \<longleftrightarrow> (case r of
     None \<Rightarrow> (\<forall>j<n. \<not> ok (xs ! j))
   | Some b \<Rightarrow> b < n \<and> ok (xs ! b) \<and> (\<forall>j<n. ok (xs ! j) \<longrightarrow> key (xs ! b) \<le> key (xs ! j)) \<and>
       (\<forall>j<b. ok (xs ! j) \<longrightarrow> key (xs ! b) < key (xs ! j)))"

lemma first_least_step:
  assumes "first_least ok key xs n best"
  shows "first_least ok key xs (Suc n)
     (if \<not> ok (xs ! n) then best
      else (case best of None \<Rightarrow> Some n
            | Some b \<Rightarrow> if key (xs ! n) < key (xs ! b) then Some n else Some b))"
  using assms
  by (cases best) (auto simp: first_least_def less_Suc_eq intro: less_imp_le le_less_trans less_le_trans)

lemma select_loop_first_least:
  assumes "\<And>x y. better x y = (key x < (key y :: 'k::linorder))" and "first_least ok key xs n best"
  shows "first_least ok key xs (n + m) (select_loop ok better xs [n..<n + m] best)"
  using assms(2)
proof (induction m arbitrary: n best)
  case 0
  then show ?case by simp
next
  case (Suc m)
  have l: "[n..<n + Suc m] = n # [Suc n..<Suc n + m]"
    by (simp add: upt_conv_Cons del: upt_Suc)
  have "select_loop ok better xs [n..<n + Suc m] best =
        select_loop ok better xs [Suc n..<Suc n + m]
          (if \<not> ok (xs ! n) then best
           else (case best of None \<Rightarrow> Some n
                 | Some b \<Rightarrow> if key (xs ! n) < key (xs ! b) then Some n else Some b))"
    unfolding l by (simp add: assms(1) del: upt_Suc split: option.split)
  then show ?case using Suc.IH [OF first_least_step [OF Suc.prems]] by (simp del: upt_Suc)
qed

lemma select_loop_correct:
  assumes "\<And>x y. better x y = (key x < (key y :: 'k::linorder))"
  shows "first_least ok key xs (length xs) (select_loop ok better xs [0..<length xs] None)"
  using select_loop_first_least [OF assms, where ok = ok and xs = xs and n = 0 and best = None and m = "length xs"]
  by (simp add: first_least_def)

lemma select_loop_in: "select_loop ok better xs js best = Some p \<Longrightarrow> p \<in> set js \<or> best = Some p"
  by (induction js arbitrary: best) (auto split: if_splits option.splits)

lemma select_loop_bound: "select_loop ok better xs [0..<length xs] None = Some p \<Longrightarrow> p < length xs"
  by (drule select_loop_in) auto

lemma select_loop_eligible:
  "select_loop ok better xs js best = Some p \<Longrightarrow> (\<And>b. best = Some b \<Longrightarrow> ok (xs ! b)) \<Longrightarrow> ok (xs ! p)"
  by (induction js arbitrary: best) (auto split: if_splits option.splits)

end
