(* ===== verification/ES_Types.thy ===== *)
theory ES_Types
  imports ES_Prelude
begin

text \<open>
  The public data types of \<open>include/edgesync\<close>: identifiers, priorities, message states,
  overflow policies, events, delivery results, the message structure and the statistics
  structure.  An enumeration whose values are stored as raw bytes (the priority) stays a
  byte with named values; the others are datatypes.
\<close>

type_synonym message_id = u64

abbreviation (input) EDGESYNC_MESSAGE_ID_INVALID :: message_id where
  "EDGESYNC_MESSAGE_ID_INVALID \<equiv> 0"

abbreviation (input) EDGESYNC_PRIORITY_LOW :: u8 where "EDGESYNC_PRIORITY_LOW \<equiv> 0"
abbreviation (input) EDGESYNC_PRIORITY_NORMAL :: u8 where "EDGESYNC_PRIORITY_NORMAL \<equiv> 1"
abbreviation (input) EDGESYNC_PRIORITY_HIGH :: u8 where "EDGESYNC_PRIORITY_HIGH \<equiv> 2"

datatype message_state = MSG_PENDING | MSG_IN_FLIGHT | MSG_DELIVERED | MSG_DEAD_LETTER

datatype overflow_policy =
  OVERFLOW_REJECT_NEW | OVERFLOW_DROP_OLDEST | OVERFLOW_DROP_LOWEST_PRIORITY

abbreviation (input) EDGESYNC_MAX_DESTINATION_LEN :: nat where "EDGESYNC_MAX_DESTINATION_LEN \<equiv> 63"

text \<open>
  \<open>edgesync_message_t\<close>.  The destination is the content of the \<open>char\<close> array up to its
  terminator; the payload is the \<open>payload_len\<close> bytes the borrowed pointer refers to.
\<close>

record message =
  m_id :: message_id
  m_destination :: "byte list"
  m_priority :: u8
  m_state :: message_state
  m_attempt_count :: u32
  m_created_at_us :: i64
  m_last_attempt_at_us :: i64
  m_next_retry_at_us :: i64
  m_last_error :: esp_err
  m_payload :: "byte list"

text \<open>The structure \<open>memset\<close> to zero with its id set, as the corruption and drop paths build it.\<close>

definition blank_message :: "message_id \<Rightarrow> message" where
  "blank_message i = \<lparr>m_id = i, m_destination = [], m_priority = 0, m_state = MSG_PENDING,
     m_attempt_count = 0, m_created_at_us = 0, m_last_attempt_at_us = 0,
     m_next_retry_at_us = 0, m_last_error = ESP_OK, m_payload = []\<rparr>"

record stats =
  st_pending_messages :: u32
  st_in_flight_messages :: u32
  st_retrying_messages :: u32
  st_dead_letter_messages :: u32
  st_delivered_awaiting_gc :: u32
  st_bytes_queued :: u64
  st_successful_deliveries :: u64
  st_failed_deliveries :: u64
  st_queue_capacity :: u32
  st_storage_bytes_used :: u32
  st_storage_bytes_capacity :: u32
  st_compactions_total :: u32

definition zero_stats :: stats where
  "zero_stats = \<lparr>st_pending_messages = 0, st_in_flight_messages = 0, st_retrying_messages = 0,
     st_dead_letter_messages = 0, st_delivered_awaiting_gc = 0, st_bytes_queued = 0,
     st_successful_deliveries = 0, st_failed_deliveries = 0, st_queue_capacity = 0,
     st_storage_bytes_used = 0, st_storage_bytes_capacity = 0, st_compactions_total = 0\<rparr>"

datatype event_id =
  EVENT_QUEUED | EVENT_DELIVERED | EVENT_RETRY | EVENT_FAILED | EVENT_QUEUE_FULL | EVENT_DEAD_LETTER

datatype delivery_result =
  DELIVERY_SUCCESS | DELIVERY_RETRYABLE_FAILURE | DELIVERY_PERMANENT_FAILURE

text \<open>
  \<open>edgesync_events_fire\<close> (\<open>edgesync_events.c\<close>): the callback is called when it is set and
  nothing happens otherwise.  An event the callback receives is appended to a trace.
\<close>

type_synonym event = "event_id \<times> message"

definition events_fire :: "bool \<Rightarrow> event_id \<Rightarrow> message \<Rightarrow> event list \<Rightarrow> event list" where
  "events_fire cb ev msg tr = (if cb then tr @ [(ev, msg)] else tr)"

end
