(* ===== verification/ES_Crc32.thy ===== *)
theory ES_Crc32
  imports ES_Prelude
begin

text \<open>
  \<open>edgesync_crc32.c\<close>: the bit-wise CRC-32 (IEEE 802.3, reflected).  The lemmas show that the
  per-bit step is a bijection of the register, hence that a change confined to at most four
  consecutive bytes of the input always changes the checksum; that is the strength of the
  integrity checks the storage backends build on.
\<close>

section \<open>Definitions\<close>

text \<open>One turn of the inner loop: \<open>mask = -(crc & 1); crc = (crc >> 1) ^ (0xEDB88320 & mask)\<close>.\<close>

definition crc_bit :: "u32 \<Rightarrow> u32" where
  "crc_bit crc = (let mask = - (crc AND 1) in drop_bit 1 crc XOR (0xEDB88320 AND mask))"

text \<open>One turn of the outer loop: fold a byte in and run the eight bit steps.\<close>

definition crc_byte :: "u32 \<Rightarrow> byte \<Rightarrow> u32" where
  "crc_byte crc b = (crc_bit ^^ 8) (crc XOR ucast b)"

definition edgesync_crc32 :: "u32 \<Rightarrow> byte list \<Rightarrow> u32" where
  "edgesync_crc32 seed data = NOT (foldl crc_byte (NOT seed) data)"

section \<open>The register steps are bijections\<close>

lemma crc_bit_unfold: "crc_bit c = (if bit c 0 then drop_bit 1 c XOR 0xEDB88320 else drop_bit 1 c)"
proof (cases "bit c 0")
  case True
  then have "c AND 1 = 1" by (simp add: and_one_eq mod_2_eq_odd bit_0)
  then show ?thesis using True by (simp add: crc_bit_def Let_def)
next
  case False
  then have "c AND 1 = 0" by (simp add: and_one_eq mod_2_eq_odd bit_0)
  then show ?thesis using False by (simp add: crc_bit_def Let_def)
qed

text \<open>The top bit of the polynomial is set, so the bit shifted out can be read off the result.\<close>

lemma bit_crc_bit_31: "bit (crc_bit c) 31 = bit c 0"
  by (auto simp: crc_bit_unfold bit_xor_iff bit_drop_bit_eq dest: bit_imp_le_length)

lemma inj_crc_bit: "inj crc_bit"
proof (rule injI)
  fix c d assume eq: "crc_bit c = crc_bit d"
  then have lsb: "bit c 0 = bit d 0" by (metis bit_crc_bit_31)
  then have "drop_bit 1 c = drop_bit 1 d"
    using eq by (auto simp: crc_bit_unfold split: if_splits)
  show "c = d"
  proof (rule bit_word_eqI)
    fix n assume "n < LENGTH(32)"
    show "bit c n = bit d n"
    proof (cases n)
      case 0 then show ?thesis using lsb by simp
    next
      case (Suc k)
      have "bit (drop_bit 1 c) k = bit (drop_bit 1 d) k"
        using \<open>drop_bit 1 c = drop_bit 1 d\<close> by simp
      then show ?thesis using Suc by (simp add: bit_drop_bit_eq)
    qed
  qed
qed

lemma inj_crc_steps: "inj (crc_bit ^^ n)"
proof (induction n)
  case 0
  then show ?case by simp
next
  case (Suc n)
  then show ?case using inj_crc_bit by (simp only: funpow.simps inj_compose)
qed

lemma crc_byte_inject_reg: "crc_byte c b = crc_byte d b \<longleftrightarrow> c = d"
  unfolding crc_byte_def inj_eq [OF inj_crc_steps] by simp

lemma foldl_crc_byte_inject: "foldl crc_byte c bs = foldl crc_byte d bs \<longleftrightarrow> c = d"
  by (induction bs arbitrary: c d) (simp_all add: crc_byte_inject_reg)

section \<open>Linearity\<close>

lemma crc_bit_xor: "crc_bit (c XOR d) = crc_bit c XOR crc_bit d"
  by (auto simp: crc_bit_unfold bit_xor_iff drop_bit_xor ac_simps)

lemma crc_steps_xor: "(crc_bit ^^ n) (c XOR d) = (crc_bit ^^ n) c XOR (crc_bit ^^ n) d"
  by (induction n) (simp_all add: crc_bit_xor)

lemma crc_steps_small:
  "(\<And>k. k < n \<Longrightarrow> \<not> bit c k) \<Longrightarrow> (crc_bit ^^ n) c = drop_bit n c"
proof (induction n arbitrary: c)
  case 0
  then show ?case by simp
next
  case (Suc n)
  have "crc_bit c = drop_bit 1 c" using Suc.prems [of 0] by (simp add: crc_bit_unfold)
  moreover have "(crc_bit ^^ n) (drop_bit 1 c) = drop_bit n (drop_bit 1 c)"
    by (rule Suc.IH) (use Suc.prems in \<open>auto simp: bit_drop_bit_eq\<close>)
  ultimately show ?case
    by (simp add: funpow_swap1 drop_bit_drop_bit)
qed

text \<open>
  Up to four bytes can be folded in at once: the register is combined with the integer
  they spell and then runs through all their bit steps.
\<close>

lemma crc_bytes_word:
  "length bs \<le> 4 \<Longrightarrow> foldl crc_byte c bs = (crc_bit ^^ (8 * length bs)) (c XOR le_word bs)"
proof (induction bs arbitrary: c)
  case Nil
  then show ?case by (simp add: le_word_def)
next
  case (Cons b bs)
  let ?n = "8 * length bs"
  let ?t = "push_bit 8 (le_word bs) :: u32"
  have len: "length bs \<le> 3" using Cons.prems by simp
  have step: "(le_word (b # bs) :: u32) = ?t XOR ucast b"
  proof (rule bit_word_eqI)
    fix k assume "k < LENGTH(32)"
    show "bit (le_word (b # bs) :: u32) k = bit (?t XOR ucast b) k"
      by (auto simp: le_word_def bit_or_iff bit_xor_iff bit_push_bit_iff bit_ucast_iff
          dest: bit_imp_le_length)
  qed
  have small: "(crc_bit ^^ 8) ?t = drop_bit 8 ?t"
    by (rule crc_steps_small) (simp add: bit_push_bit_iff)
  have unshift: "drop_bit 8 ?t = le_word bs"
  proof (rule bit_word_eqI)
    fix k assume "k < LENGTH(32)"
    have "bit (le_word bs :: u32) k \<Longrightarrow> 8 + k < 32"
      using len by (auto simp: bit_le_word)
    then show "bit (drop_bit 8 ?t) k = bit (le_word bs :: u32) k"
      by (auto simp: bit_drop_bit_eq bit_push_bit_iff)
  qed
  have "foldl crc_byte c (b # bs) = (crc_bit ^^ ?n) (crc_byte c b XOR le_word bs)"
    using Cons.IH [of "crc_byte c b"] len by simp
  also have "crc_byte c b XOR le_word bs = (crc_bit ^^ 8) (c XOR le_word (b # bs))"
    by (simp only: step crc_byte_def crc_steps_xor small unshift xor.assoc [symmetric]) (simp add: ac_simps)
  also have "(crc_bit ^^ ?n) \<dots> = (crc_bit ^^ (8 * length (b # bs))) (c XOR le_word (b # bs))"
    by (simp add: funpow_add [symmetric, THEN fun_cong, unfolded o_def] add.commute)
  finally show ?case .
qed

section \<open>What the checksum detects\<close>

lemma crc32_burst:
  assumes "length b1 = length b2" "length b1 \<le> 4" "b1 \<noteq> b2"
  shows "edgesync_crc32 seed (pre @ b1 @ post) \<noteq> edgesync_crc32 seed (pre @ b2 @ post)"
proof
  let ?r = "foldl crc_byte (NOT seed) pre"
  assume "edgesync_crc32 seed (pre @ b1 @ post) = edgesync_crc32 seed (pre @ b2 @ post)"
  then have "foldl crc_byte ?r b1 = foldl crc_byte ?r b2"
    by (simp add: edgesync_crc32_def foldl_crc_byte_inject)
  then have "?r XOR le_word b1 = ?r XOR le_word b2"
    using assms(1,2) crc_bytes_word [of b1 ?r] crc_bytes_word [of b2 ?r]
    by (simp add: inj_eq [OF inj_crc_steps])
  then have "(le_word b1 :: u32) = le_word b2" by simp
  then have "b1 = b2" using assms by (intro le_word_inject [where 'a = 32]) auto
  then show False using assms by simp
qed

text \<open>Continuing a checksum from the result of a first part gives the checksum of the whole.\<close>

lemma crc32_append: "edgesync_crc32 (edgesync_crc32 seed xs) ys = edgesync_crc32 seed (xs @ ys)"
  by (simp add: edgesync_crc32_def)

lemma crc32_nil [simp]: "edgesync_crc32 0 [] = 0"
  by (simp add: edgesync_crc32_def)

end
