(* ===== verification/ES_Retry.thy ===== *)
theory ES_Retry
  imports ES_Prelude
begin

text \<open>
  \<open>edgesync_retry.c\<close>: the exponential backoff with jitter.  The C loop multiplies a 64-bit
  accumulator; the model keeps it at its width and the lemmas show that it never wraps, so
  the delay is the closed form the header of the C file documents.
\<close>

section \<open>Definitions\<close>

record retry_config =
  initial_delay_ms :: u32
  max_delay_ms :: u32
  multiplier :: u32
  jitter :: bool
  max_attempts :: u32

definition retry_apply_defaults :: "retry_config \<Rightarrow> u32 \<Rightarrow> u32 \<Rightarrow> u32 \<Rightarrow> retry_config" where
  "retry_apply_defaults cfg default_initial_ms default_max_ms default_multiplier =
     (let cfg = (if initial_delay_ms cfg = 0 then cfg\<lparr>initial_delay_ms := default_initial_ms\<rparr> else cfg);
          cfg = (if max_delay_ms cfg = 0 then cfg\<lparr>max_delay_ms := default_max_ms\<rparr> else cfg);
          cfg = (if multiplier cfg < 2 then cfg\<lparr>multiplier := default_multiplier\<rparr> else cfg)
      in cfg)"

text \<open>The loop: \<open>n\<close> is the number of turns that remain, \<open>base\<close> the 64-bit accumulator.\<close>

fun backoff_loop :: "retry_config \<Rightarrow> nat \<Rightarrow> u64 \<Rightarrow> u64" where
  "backoff_loop cfg 0 base = base"
| "backoff_loop cfg (Suc n) base =
     (if base \<ge> ucast (max_delay_ms cfg) then ucast (max_delay_ms cfg)
      else backoff_loop cfg n (base * ucast (multiplier cfg)))"

definition retry_compute_delay_ms :: "retry_config \<Rightarrow> u32 \<Rightarrow> u32 \<Rightarrow> u32" where
  "retry_compute_delay_ms cfg attempt_count random_u32 =
     (if attempt_count = 0 then 0
      else
        let base = backoff_loop cfg (unat (attempt_count - 1)) (ucast (initial_delay_ms cfg));
            base = (if base > ucast (max_delay_ms cfg) then ucast (max_delay_ms cfg) else base)
        in if \<not> jitter cfg \<or> base = 0 then ucast base
           else
             let half = base div 2;
                 jittered = half + (ucast random_u32 mod (half + 1));
                 jittered = (if jittered > ucast (max_delay_ms cfg) then ucast (max_delay_ms cfg)
                             else jittered)
             in ucast jittered)"

definition retry_should_retry :: "retry_config \<Rightarrow> u32 \<Rightarrow> bool" where
  "retry_should_retry cfg attempt_count =
     (if max_attempts cfg = 0 then True else attempt_count < max_attempts cfg)"

section \<open>The backoff curve\<close>

lemma unat_ucast_32_64 [simp]: "unat (ucast (x :: u32) :: u64) = unat x"
  by (simp add: unsigned_ucast_eq take_bit_nat_eq_self_iff less_le_trans [OF unsigned_less])

lemma u32_bound: "unat (x :: u32) < 2 ^ 32"
  using unsigned_less [of x, where ?'a = nat] by simp

text \<open>A clamped accumulator stays below the cap, so the product of two 32-bit values never wraps.\<close>

lemma unat_mult_32_64:
  assumes "unat (b :: u64) < 2 ^ 32"
  shows "unat (b * ucast (x :: u32)) = unat b * unat x"
proof -
  have "unat b * unat x < 2 ^ 32 * 2 ^ 32"
    using assms u32_bound [of x] by (intro mult_strict_mono) auto
  then show ?thesis by (simp add: unat_word_ariths)
qed

lemma min_mult_cap: "min (M::nat) (b * m * k) = M" if "M \<le> b" "0 < m" "0 < k"
proof -
  have "b \<le> b * m" "b * m \<le> b * m * k" using that by simp_all
  then have "M \<le> b * m * k" using that(1) by linarith
  then show ?thesis by (rule min_absorb1)
qed

lemma backoff_loop_min:
  assumes "1 \<le> unat (multiplier cfg)"
  shows "unat (min (backoff_loop cfg n base) (ucast (max_delay_ms cfg))) =
         min (unat (max_delay_ms cfg)) (unat base * unat (multiplier cfg) ^ n)"
proof (induction n arbitrary: base)
  case 0
  then show ?case by (simp add: min_def word_le_nat_alt)
next
  case (Suc n)
  let ?M = "unat (max_delay_ms cfg)" and ?m = "unat (multiplier cfg)"
  show ?case
  proof (cases "base \<ge> ucast (max_delay_ms cfg)")
    case True
    then have "?M \<le> unat base" by (simp add: word_le_nat_alt)
    then have "min ?M (unat base * ?m * ?m ^ n) = ?M"
      using assms by (intro min_mult_cap) auto
    then show ?thesis using True by (simp add: mult.assoc)
  next
    case False
    then have "unat base < 2 ^ 32"
      using u32_bound [of "max_delay_ms cfg"] by (simp add: word_le_nat_alt)
    then have "unat (base * ucast (multiplier cfg)) = unat base * ?m"
      by (rule unat_mult_32_64)
    then show ?thesis using False Suc.IH [of "base * ucast (multiplier cfg)"]
      by (simp add: mult.assoc)
  qed
qed

text \<open>The un-jittered delay: the documented closed form, without any wrap-around.\<close>

definition backoff_base :: "retry_config \<Rightarrow> u32 \<Rightarrow> nat" where
  "backoff_base cfg attempt_count =
     (if attempt_count = 0 then 0
      else min (unat (max_delay_ms cfg))
             (unat (initial_delay_ms cfg) * unat (multiplier cfg) ^ (unat attempt_count - 1)))"

lemma unat_dec: "(a :: u32) \<noteq> 0 \<Longrightarrow> unat (a - 1) = unat a - 1"
  by (rule unat_minus_one)

lemma delay_base:
  assumes "1 \<le> unat (multiplier cfg)" "a \<noteq> 0"
  defines "b \<equiv> backoff_loop cfg (unat (a - 1)) (ucast (initial_delay_ms cfg))"
  shows "unat (if b > ucast (max_delay_ms cfg) then ucast (max_delay_ms cfg) else b) = backoff_base cfg a"
proof -
  have "(if b > ucast (max_delay_ms cfg) then ucast (max_delay_ms cfg) else b) =
        min b (ucast (max_delay_ms cfg))"
    by (auto simp: min_def)
  then show ?thesis
    using backoff_loop_min [OF assms(1), of "unat (a - 1)" "ucast (initial_delay_ms cfg)"] assms(2)
    by (simp add: b_def backoff_base_def unat_dec)
qed

lemma backoff_base_le_max: "backoff_base cfg a \<le> unat (max_delay_ms cfg)"
  by (simp add: backoff_base_def)

lemma unat_ucast_64_32: "unat (x :: u64) < 2 ^ 32 \<Longrightarrow> unat (ucast x :: u32) = unat x"
  by (simp add: unsigned_ucast_eq take_bit_nat_eq_self_iff)

text \<open>The delay with jitter, as a number: half of the base plus a remainder below the other half.\<close>

definition jittered_delay :: "nat \<Rightarrow> u32 \<Rightarrow> nat" where
  "jittered_delay base r = base div 2 + unat r mod (base div 2 + 1)"

lemma jittered_delay_le: "jittered_delay base r \<le> base"
proof -
  have "unat r mod (base div 2 + 1) \<le> base div 2"
    using mod_less_divisor [of "base div 2 + 1" "unat r"] by linarith
  then show ?thesis unfolding jittered_delay_def by linarith
qed

lemma jittered_delay_ge: "base div 2 \<le> jittered_delay base r"
  by (simp add: jittered_delay_def)

lemma compute_delay_eq:
  assumes m: "1 \<le> unat (multiplier cfg)"
  shows "unat (retry_compute_delay_ms cfg a r) =
     (if jitter cfg then jittered_delay (backoff_base cfg a) r else backoff_base cfg a)"
proof (cases "a = 0")
  case True
  then show ?thesis by (simp add: retry_compute_delay_ms_def backoff_base_def jittered_delay_def)
next
  case False
  let ?M = "ucast (max_delay_ms cfg) :: u64"
  let ?l = "backoff_loop cfg (unat (a - 1)) (ucast (initial_delay_ms cfg))"
  define b where "b = (if ?l > ?M then ?M else ?l)"
  have ub: "unat b = backoff_base cfg a"
    unfolding b_def by (rule delay_base [OF m False])
  have bM: "unat b \<le> unat (max_delay_ms cfg)" by (simp add: ub backoff_base_le_max)
  then have b32: "unat b < 2 ^ 32" using u32_bound [of "max_delay_ms cfg"] by linarith
  define j where "j = b div 2 + (ucast r mod (b div 2 + 1))"
  have half: "unat (b div 2) = unat b div 2" by (simp add: unat_div)
  have half1: "unat (b div 2 + 1) = unat b div 2 + 1"
    using b32 by (simp add: unat_word_ariths half)
  have rem: "unat (ucast r mod (b div 2 + 1) :: u64) = unat r mod (unat b div 2 + 1)"
    by (simp add: unat_mod half1)
  have sum: "unat b div 2 + unat r mod (unat b div 2 + 1) \<le> unat b"
    using jittered_delay_le [of "unat b" r] by (simp add: jittered_delay_def)
  have uj: "unat j = jittered_delay (backoff_base cfg a) r"
    using sum b32 by (simp add: j_def unat_word_ariths half rem jittered_delay_def ub)
  have jM: "\<not> j > ?M"
    using uj jittered_delay_le [of "backoff_base cfg a" r] bM
    by (simp add: word_less_nat_alt ub)
  have "retry_compute_delay_ms cfg a r = (if \<not> jitter cfg \<or> b = 0 then ucast b else ucast j)"
    using False jM by (simp add: retry_compute_delay_ms_def Let_def b_def [symmetric] j_def [symmetric])
  moreover have "b = 0 \<Longrightarrow> jittered_delay (backoff_base cfg a) r = 0"
    using ub by (simp add: jittered_delay_def)
  moreover have "unat (ucast b :: u32) = unat b" using b32 by (rule unat_ucast_64_32)
  moreover have "unat (ucast j :: u32) = unat j"
    using uj sum b32 ub by (intro unat_ucast_64_32) (simp add: jittered_delay_def)
  ultimately show ?thesis using ub uj by auto
qed

lemma defaults_fill:
  assumes "0 < di" "0 < dm" "2 \<le> dx"
  shows "0 < initial_delay_ms (retry_apply_defaults cfg di dm dx)"
    and "0 < max_delay_ms (retry_apply_defaults cfg di dm dx)"
    and "2 \<le> multiplier (retry_apply_defaults cfg di dm dx)"
  using assms by (auto simp: retry_apply_defaults_def Let_def not_less word_gt_0)

section \<open>Properties\<close>

text \<open>C40: the delay \<open>edgesync_retry_compute_delay_ms\<close> returns is the documented one:
  nothing before the first attempt, and otherwise the initial delay times the multiplier to
  the power of the attempts made less one, capped by the maximum; with jitter it lies between
  half of that value and that value.  The 64-bit accumulator never wraps, however many
  attempts were made.\<close>

theorem retry_delay_documented:
  fixes attempt_count random_u32 :: u32
  assumes "1 \<le> unat (multiplier cfg)"
  defines "base \<equiv> (if attempt_count = 0 then 0
      else min (unat (max_delay_ms cfg))
             (unat (initial_delay_ms cfg) * unat (multiplier cfg) ^ (unat attempt_count - 1)))"
    and "d \<equiv> unat (retry_compute_delay_ms cfg attempt_count random_u32)"
  shows "(\<not> jitter cfg \<longrightarrow> d = base) \<and> (jitter cfg \<longrightarrow> base div 2 \<le> d \<and> d \<le> base) \<and>
    d \<le> unat (max_delay_ms cfg)"
proof -
  have b: "base = backoff_base cfg attempt_count" by (simp add: base_def backoff_base_def)
  have "d \<le> base" "base div 2 \<le> d" "\<not> jitter cfg \<longrightarrow> d = base"
    using jittered_delay_le [of base random_u32] jittered_delay_ge [of base random_u32]
    by (simp_all add: d_def compute_delay_eq [OF assms(1)] b)
  then show ?thesis using backoff_base_le_max [of cfg attempt_count] b by auto
qed

theorem retry_delay_documented_witness:
  "unat (retry_compute_delay_ms \<lparr>initial_delay_ms = 1000, max_delay_ms = 300000, multiplier = 2,
      jitter = True, max_attempts = 10\<rparr> 100 12345) \<le> 300000"
  using retry_delay_documented [of "\<lparr>initial_delay_ms = 1000, max_delay_ms = 300000, multiplier = 2,
      jitter = True, max_attempts = 10\<rparr>" 100 12345] by simp

end
