(* ===== verification/ES_Id.thy ===== *)
theory ES_Id
  imports ES_Types
begin

text \<open>
  \<open>edgesync_id.c\<close>: generation of message identifiers and their hexadecimal form.  The
  hardware random number generator is the stream of 64-bit values that successive calls of
  \<open>esp_fill_random\<close> deliver.
\<close>

section \<open>Generation\<close>

text \<open>
  The \<open>do .. while\<close> loop draws until the value is not the reserved identifier.  A generator
  that delivers zeros forever keeps it from returning, so the loop is a partial function:
  the result is the identifier and the position in the stream after the last draw.
\<close>

partial_function (option) id_generate :: "(nat \<Rightarrow> u64) \<Rightarrow> nat \<Rightarrow> (message_id \<times> nat) option" where
  "id_generate rng k =
     (let i = rng k in if i = EDGESYNC_MESSAGE_ID_INVALID then id_generate rng (Suc k) else Some (i, Suc k))"

lemma id_generate_nonzero: "rng k \<noteq> 0 \<Longrightarrow> id_generate rng k = Some (rng k, Suc k)"
  by (simp add: id_generate.simps)

lemma id_generate_first:
  "(\<And>j. k \<le> j \<Longrightarrow> j < n \<Longrightarrow> rng j = 0) \<Longrightarrow> rng n \<noteq> 0 \<Longrightarrow> k \<le> n \<Longrightarrow>
   id_generate rng k = Some (rng n, Suc n)"
proof (induction "n - k" arbitrary: k)
  case 0
  then show ?case by (simp add: id_generate_nonzero)
next
  case (Suc d)
  then have "rng k = 0" "Suc k \<le> n" by auto
  moreover have "id_generate rng (Suc k) = Some (rng n, Suc n)"
    using Suc by (intro Suc.hyps(1)) auto
  ultimately show ?case by (simp add: id_generate.simps [of rng k])
qed

section \<open>Hexadecimal form\<close>

definition hex_digits :: string where
  "hex_digits = ''0123456789abcdef''"

text \<open>
  The loop writes \<open>out[15]\<close> down to \<open>out[0]\<close>, taking the low nibble and shifting each time;
  the characters already written are the accumulator.
\<close>

fun hex_loop :: "nat \<Rightarrow> message_id \<Rightarrow> string \<Rightarrow> string" where
  "hex_loop 0 i out = out"
| "hex_loop (Suc n) i out = hex_loop n (drop_bit 4 i) (hex_digits ! unat (i AND 0xF) # out)"

definition id_to_hex :: "message_id \<Rightarrow> string" where
  "id_to_hex i = hex_loop 16 i []"

definition nibble :: "message_id \<Rightarrow> nat \<Rightarrow> nat" where
  "nibble i k = unat (drop_bit (4 * k) i AND 0xF)"

lemma nibble_lt: "nibble i k < 16"
proof -
  have "drop_bit (4 * k) i AND 0xF = take_bit 4 (drop_bit (4 * k) i)"
    by (simp add: take_bit_eq_mask mask_eq_exp_minus_1)
  then have "nibble i k = unat (take_bit 4 (drop_bit (4 * k) i))" by (simp add: nibble_def)
  also have "\<dots> = take_bit 4 (unat (drop_bit (4 * k) i))" by (simp add: unsigned_take_bit_eq)
  also have "\<dots> < 2 ^ 4" by (rule take_bit_nat_less_exp)
  finally show ?thesis by simp
qed

lemma hex_loop_eq:
  "hex_loop n i out = rev (map (\<lambda>k. hex_digits ! nibble i k) [0..<n]) @ out"
proof (induction n arbitrary: i out)
  case 0
  then show ?case by simp
next
  case (Suc n)
  have shift: "nibble (drop_bit 4 i) k = nibble i (Suc k)" for k
    by (simp add: nibble_def drop_bit_drop_bit add.commute)
  have "[0..<Suc n] = 0 # map Suc [0..<n]" by (simp add: upt_conv_Cons map_Suc_upt)
  then show ?case
    by (simp add: Suc.IH shift nibble_def [of i 0] del: upt_Suc)
qed

lemma id_to_hex_eq: "id_to_hex i = rev (map (\<lambda>k. hex_digits ! nibble i k) [0..<16])"
  by (simp add: id_to_hex_def hex_loop_eq)

lemma hex_digits_inject:
  assumes "a < 16" "b < 16"
  shows "hex_digits ! a = hex_digits ! b \<longleftrightarrow> a = b"
proof -
  have "distinct hex_digits" "length hex_digits = 16" by (simp_all add: hex_digits_def)
  then show ?thesis using assms by (simp add: nth_eq_iff_index_eq)
qed

lemma nibbles_determine:
  assumes "\<And>k. k < 16 \<Longrightarrow> nibble i k = nibble j k"
  shows "i = j"
proof (rule bit_word_eqI)
  fix n assume n: "n < LENGTH(64)"
  have w: "drop_bit (4 * (n div 4)) i AND 0xF = drop_bit (4 * (n div 4)) j AND 0xF"
    using assms [of "n div 4"] n by (simp add: nibble_def less_mult_imp_div_less word_unat_eq_iff)
  have "bit (drop_bit (4 * (n div 4)) x AND 0xF) (n mod 4) = bit x n" for x :: message_id
  proof -
    have m: "(0xF :: message_id) = mask 4" by (simp add: mask_eq_exp_minus_1)
    have "n mod 4 < 64" by (rule less_trans [of _ 4]) simp_all
    then show ?thesis
      by (simp only: m) (simp add: bit_and_iff bit_drop_bit_eq bit_mask_iff mult.commute)
  qed
  then show "bit i n = bit j n" using w by metis
qed

lemma id_to_hex_inject: "id_to_hex i = id_to_hex j \<Longrightarrow> i = j"
proof (rule nibbles_determine)
  fix k assume "id_to_hex i = id_to_hex j" and k: "k < (16::nat)"
  then have "map (\<lambda>k. hex_digits ! nibble i k) [0..<16] = map (\<lambda>k. hex_digits ! nibble j k) [0..<16]"
    by (simp add: id_to_hex_eq)
  then have "hex_digits ! nibble i k = hex_digits ! nibble j k"
    using k by (simp add: list_eq_iff_nth_eq)
  then show "nibble i k = nibble j k" by (simp add: hex_digits_inject nibble_lt)
qed

section \<open>Properties\<close>

text \<open>the idempotency key is faithful: \<open>edgesync_id_to_hex\<close> gives 16 lower-case hexadecimal
  digits, and different identifiers give different keys.\<close>

theorem id_to_hex_faithful:
  "length (id_to_hex i) = 16 \<and> set (id_to_hex i) \<subseteq> set hex_digits \<and> (id_to_hex i = id_to_hex j) = (i = j)"
proof -
  have "hex_digits ! nibble i k \<in> set hex_digits" for k
    using nibble_lt [of i k] by (intro nth_mem) (simp add: hex_digits_def)
  then have "set (id_to_hex i) \<subseteq> set hex_digits" by (auto simp: id_to_hex_eq)
  moreover have "length (id_to_hex i) = 16" by (simp add: id_to_hex_eq)
  ultimately show ?thesis using id_to_hex_inject by blast
qed

text \<open>\<open>edgesync_id_generate\<close> returns as soon as the generator delivers a non-zero value,
  and the identifier it returns is that value: never the reserved one.\<close>

theorem id_generate_first_nonzero:
  assumes "\<forall>j. k \<le> j \<and> j < n \<longrightarrow> rng j = 0" "rng n \<noteq> 0" "k \<le> n"
  shows "id_generate rng k = Some (rng n, Suc n)"
  using assms by (intro id_generate_first) auto

theorem id_generate_first_nonzero_witness:
  "id_generate (\<lambda>j. if j = 2 then 7 else 0) 0 = Some (7, 3)"
  using id_generate_first_nonzero [of 0 2 "\<lambda>j. if j = 2 then 7 else 0"] by simp

end
