(* ===== verification/Flashq_Format.thy ===== *)
theory Flashq_Format
  imports ES_Types ES_Crc32
begin

text \<open>
  \<open>edgesync_flashq_format.h\<close> and \<open>edgesync_flashq_format.c\<close>: the on-flash record format.
  The packed header structure is a record; \<open>hdr_bytes\<close> and \<open>hdr_of_bytes\<close> are the two
  directions of \<open>memcpy\<close> between it and memory.  Encoding returns the bytes written to the
  front of the buffer (\<open>None\<close> for \<open>false\<close>); decoding returns the header (\<open>None\<close> for
  \<open>false\<close>).  Sizes are \<open>size_t\<close> in C and naturals here.
\<close>

section \<open>Constants and structures\<close>

abbreviation (input) REC_MAGIC :: u32 where "REC_MAGIC \<equiv> 0x45445347"
abbreviation (input) HDR_MAGIC :: u32 where "HDR_MAGIC \<equiv> 0x45445348"

abbreviation (input) STATUS_EMPTY :: u8 where "STATUS_EMPTY \<equiv> 0xFF"
abbreviation (input) STATUS_COMPACTING :: u8 where "STATUS_COMPACTING \<equiv> 0x07"
abbreviation (input) STATUS_ACTIVE :: u8 where "STATUS_ACTIVE \<equiv> 0x03"
abbreviation (input) STATUS_STALE :: u8 where "STATUS_STALE \<equiv> 0x01"

abbreviation (input) REC_MESSAGE :: u8 where "REC_MESSAGE \<equiv> 1"
abbreviation (input) REC_UPDATE :: u8 where "REC_UPDATE \<equiv> 2"
abbreviation (input) REC_END :: u8 where "REC_END \<equiv> 3"

abbreviation (input) STATE_PENDING :: u8 where "STATE_PENDING \<equiv> 0"
abbreviation (input) STATE_IN_FLIGHT :: u8 where "STATE_IN_FLIGHT \<equiv> 1"
abbreviation (input) STATE_DELIVERED :: u8 where "STATE_DELIVERED \<equiv> 2"
abbreviation (input) STATE_DEAD_LETTER :: u8 where "STATE_DEAD_LETTER \<equiv> 3"
abbreviation (input) STATE_REMOVED :: u8 where "STATE_REMOVED \<equiv> 4"

record record_hdr =
  h_magic :: u32
  h_seq :: u32
  h_type :: u8
  h_state :: u8
  h_priority :: u8
  h_reserved :: u8
  h_message_id :: u64
  h_attempt_count :: u32
  h_created_at_us :: i64
  h_last_attempt_at_us :: i64
  h_next_retry_at_us :: i64
  h_last_error :: esp_err
  h_destination_len :: u16
  h_body_len :: u32
  h_header_crc :: u32

definition zero_hdr :: record_hdr where
  "zero_hdr = \<lparr>h_magic = 0, h_seq = 0, h_type = 0, h_state = 0, h_priority = 0, h_reserved = 0,
     h_message_id = 0, h_attempt_count = 0, h_created_at_us = 0, h_last_attempt_at_us = 0,
     h_next_retry_at_us = 0, h_last_error = 0, h_destination_len = 0, h_body_len = 0, h_header_crc = 0\<rparr>"

abbreviation (input) HDR_SIZE :: nat where "HDR_SIZE \<equiv> 62"

definition hdr_bytes :: "record_hdr \<Rightarrow> byte list" where
  "hdr_bytes h = le_bytes 4 (h_magic h) @ le_bytes 4 (h_seq h) @ le_bytes 1 (h_type h) @
     le_bytes 1 (h_state h) @ le_bytes 1 (h_priority h) @ le_bytes 1 (h_reserved h) @
     le_bytes 8 (h_message_id h) @ le_bytes 4 (h_attempt_count h) @ le_bytes 8 (h_created_at_us h) @
     le_bytes 8 (h_last_attempt_at_us h) @ le_bytes 8 (h_next_retry_at_us h) @
     le_bytes 4 (h_last_error h) @ le_bytes 2 (h_destination_len h) @ le_bytes 4 (h_body_len h) @
     le_bytes 4 (h_header_crc h)"

definition hdr_of_bytes :: "byte list \<Rightarrow> record_hdr" where
  "hdr_of_bytes bs =
     \<lparr>h_magic = le_word (take 4 bs), h_seq = le_word (take 4 (drop 4 bs)),
      h_type = le_word (take 1 (drop 8 bs)), h_state = le_word (take 1 (drop 9 bs)),
      h_priority = le_word (take 1 (drop 10 bs)), h_reserved = le_word (take 1 (drop 11 bs)),
      h_message_id = le_word (take 8 (drop 12 bs)), h_attempt_count = le_word (take 4 (drop 20 bs)),
      h_created_at_us = le_word (take 8 (drop 24 bs)),
      h_last_attempt_at_us = le_word (take 8 (drop 32 bs)),
      h_next_retry_at_us = le_word (take 8 (drop 40 bs)),
      h_last_error = le_word (take 4 (drop 48 bs)),
      h_destination_len = le_word (take 2 (drop 52 bs)), h_body_len = le_word (take 4 (drop 54 bs)),
      h_header_crc = le_word (take 4 (drop 58 bs))\<rparr>"

text \<open>The region header: 12 bytes, with the status byte at offset 8.\<close>

record region_hdr =
  rh_magic :: u32
  rh_generation :: u32
  rh_status :: u8
  rh_reserved :: "byte list"

abbreviation (input) REGION_HDR_SIZE :: nat where "REGION_HDR_SIZE \<equiv> 12"
abbreviation (input) REGION_STATUS_OFFSET :: nat where "REGION_STATUS_OFFSET \<equiv> 8"

definition region_hdr_bytes :: "region_hdr \<Rightarrow> byte list" where
  "region_hdr_bytes h = le_bytes 4 (rh_magic h) @ le_bytes 4 (rh_generation h) @
     le_bytes 1 (rh_status h) @ rh_reserved h"

definition region_hdr_of_bytes :: "byte list \<Rightarrow> region_hdr" where
  "region_hdr_of_bytes bs =
     \<lparr>rh_magic = le_word (take 4 bs), rh_generation = le_word (take 4 (drop 4 bs)),
      rh_status = le_word (take 1 (drop 8 bs)), rh_reserved = take 3 (drop 9 bs)\<rparr>"

definition round4 :: "nat \<Rightarrow> nat" where
  "round4 n = (n + 3) div 4 * 4"

definition record_total_size :: "nat \<Rightarrow> nat \<Rightarrow> nat" where
  "record_total_size destination_len body_len = round4 (HDR_SIZE + destination_len + body_len + 4)"

section \<open>Encoding and decoding\<close>

definition header_crc :: "record_hdr \<Rightarrow> u32" where
  "header_crc hdr = edgesync_crc32 0 (hdr_bytes (hdr\<lparr>h_header_crc := 0\<rparr>))"

text \<open>The fields \<open>encode_common\<close> fills in before it copies the header out.\<close>

definition seal_hdr :: "record_hdr \<Rightarrow> nat \<Rightarrow> nat \<Rightarrow> record_hdr" where
  "seal_hdr hdr destination_len body_len =
     (let hdr = hdr\<lparr>h_magic := REC_MAGIC, h_destination_len := of_nat destination_len,
                    h_body_len := of_nat body_len, h_header_crc := 0\<rparr>
      in hdr\<lparr>h_header_crc := header_crc hdr\<rparr>)"

definition encode_common :: "nat \<Rightarrow> record_hdr \<Rightarrow> byte list \<Rightarrow> byte list \<Rightarrow> byte list option" where
  "encode_common buf_cap hdr destination body =
     (let total = record_total_size (length destination) (length body)
      in if buf_cap < total then None
         else Some (hdr_bytes (seal_hdr hdr (length destination) (length body)) @ destination @ body @
                    le_bytes 4 (edgesync_crc32 0 (destination @ body)) @
                    replicate (total - (HDR_SIZE + length destination + length body + 4)) 0))"

definition encode_message_full ::
  "nat \<Rightarrow> message_id \<Rightarrow> byte list \<Rightarrow> u8 \<Rightarrow> u8 \<Rightarrow> u32 \<Rightarrow> i64 \<Rightarrow> i64 \<Rightarrow> i64 \<Rightarrow> esp_err \<Rightarrow> byte list \<Rightarrow> u32 \<Rightarrow>
   byte list option" where
  "encode_message_full buf_cap mid destination priority state attempt_count created_at_us
       last_attempt_at_us next_retry_at_us last_error payload seq =
     (let dest = c_string destination
      in if length dest > EDGESYNC_MAX_DESTINATION_LEN then None
         else encode_common buf_cap
                (zero_hdr\<lparr>h_seq := seq, h_type := REC_MESSAGE, h_state := state, h_priority := priority,
                   h_message_id := mid, h_attempt_count := attempt_count, h_created_at_us := created_at_us,
                   h_last_attempt_at_us := last_attempt_at_us, h_next_retry_at_us := next_retry_at_us,
                   h_last_error := last_error\<rparr>)
                dest payload)"

definition encode_message :: "nat \<Rightarrow> message \<Rightarrow> u32 \<Rightarrow> byte list option" where
  "encode_message buf_cap msg seq =
     encode_message_full buf_cap (m_id msg) (m_destination msg) (m_priority msg) STATE_PENDING 0
       (m_created_at_us msg) 0 0 0 (m_payload msg) seq"

definition update_hdr ::
  "message_id \<Rightarrow> u8 \<Rightarrow> u32 \<Rightarrow> i64 \<Rightarrow> i64 \<Rightarrow> esp_err \<Rightarrow> u32 \<Rightarrow> record_hdr" where
  "update_hdr mid state attempt_count last_attempt_at_us next_retry_at_us last_error seq =
     zero_hdr\<lparr>h_seq := seq, h_type := REC_UPDATE, h_state := state, h_message_id := mid,
       h_attempt_count := attempt_count, h_last_attempt_at_us := last_attempt_at_us,
       h_next_retry_at_us := next_retry_at_us, h_last_error := last_error\<rparr>"

definition encode_update ::
  "nat \<Rightarrow> message_id \<Rightarrow> u8 \<Rightarrow> u32 \<Rightarrow> i64 \<Rightarrow> i64 \<Rightarrow> esp_err \<Rightarrow> u32 \<Rightarrow> byte list option" where
  "encode_update buf_cap mid state attempt_count last_attempt_at_us next_retry_at_us last_error seq =
     encode_common buf_cap
       (update_hdr mid state attempt_count last_attempt_at_us next_retry_at_us last_error seq) [] []"

definition encode_end :: "nat \<Rightarrow> u32 \<Rightarrow> byte list option" where
  "encode_end buf_cap seq = encode_common buf_cap (zero_hdr\<lparr>h_seq := seq, h_type := REC_END\<rparr>) [] []"

definition decode_header :: "byte list \<Rightarrow> record_hdr option" where
  "decode_header buf =
     (if length buf < HDR_SIZE then None
      else
        let hdr = hdr_of_bytes (take HDR_SIZE buf)
        in if h_magic hdr \<noteq> REC_MAGIC then None
           else if header_crc hdr \<noteq> h_header_crc hdr then None
           else Some hdr)"

definition verify_body :: "record_hdr \<Rightarrow> byte list \<Rightarrow> bool" where
  "verify_body hdr body =
     (let body_bytes = unat (h_destination_len hdr) + unat (h_body_len hdr)
      in if length body < body_bytes + 4 then False
         else le_word (take 4 (drop body_bytes body)) = edgesync_crc32 0 (take body_bytes body))"

section \<open>The two directions of memcpy\<close>

lemma length_hdr_bytes [simp]: "length (hdr_bytes h) = HDR_SIZE"
  by (simp add: hdr_bytes_def)

lemma length_region_hdr_bytes: "length (rh_reserved h) = 3 \<Longrightarrow> length (region_hdr_bytes h) = REGION_HDR_SIZE"
  by (simp add: region_hdr_bytes_def)

lemma hdr_of_hdr_bytes [simp]: "hdr_of_bytes (hdr_bytes h) = h"
  by (simp add: hdr_of_bytes_def hdr_bytes_def le_word_le_bytes)

lemma hdr_bytes_inject: "hdr_bytes h = hdr_bytes h' \<longleftrightarrow> h = h'"
  by (metis hdr_of_hdr_bytes)

lemma region_hdr_of_bytes_inv:
  "length (rh_reserved h) = 3 \<Longrightarrow> region_hdr_of_bytes (region_hdr_bytes h) = h"
  by (simp add: region_hdr_of_bytes_def region_hdr_bytes_def le_word_le_bytes)

lemma take_drop_join: "m = n + k \<Longrightarrow> take k (drop n bs) @ drop m bs = drop n bs"
  by (metis append_take_drop_id drop_drop add.commute)

lemma hdr_bytes_of_bytes: "length bs = HDR_SIZE \<Longrightarrow> hdr_bytes (hdr_of_bytes bs) = bs"
  by (simp add: hdr_of_bytes_def hdr_bytes_def le_bytes_le_word take_drop_join)

section \<open>Sizes\<close>

lemma round4_ge: "n \<le> round4 n"
  by (simp add: round4_def)

lemma round4_lt: "round4 n < n + 4"
  by (simp add: round4_def)

lemma dvd_round4 [simp]: "4 dvd round4 n"
  by (simp add: round4_def)

lemma round4_le: "4 dvd m \<Longrightarrow> n \<le> m \<Longrightarrow> round4 n \<le> m"
  unfolding round4_def by presburger

lemma record_total_size_ge: "HDR_SIZE + d + b + 4 \<le> record_total_size d b"
  unfolding record_total_size_def by (rule round4_ge)

lemma record_total_size_pos: "68 \<le> record_total_size d b"
  by (simp add: record_total_size_def round4_def)

lemma record_total_size_0 [simp]: "record_total_size 0 0 = 68"
  by (simp add: record_total_size_def round4_def)

lemma dvd_record_total_size [simp]: "4 dvd record_total_size d b"
  by (simp add: record_total_size_def)

lemma record_total_size_mono: "d \<le> d' \<Longrightarrow> b \<le> b' \<Longrightarrow> record_total_size d b \<le> record_total_size d' b'"
  by (simp add: record_total_size_def round4_def div_le_mono)

section \<open>Sealed headers\<close>

lemma header_crc_cong: "h\<lparr>h_header_crc := 0\<rparr> = h'\<lparr>h_header_crc := 0\<rparr> \<Longrightarrow> header_crc h = header_crc h'"
  by (simp add: header_crc_def)

lemma header_crc_idem [simp]: "header_crc (h\<lparr>h_header_crc := c\<rparr>) = header_crc h"
  by (rule header_crc_cong) simp

lemma seal_hdr_sealed [simp]: "header_crc (seal_hdr h d b) = h_header_crc (seal_hdr h d b)"
  by (simp add: seal_hdr_def Let_def)

lemma seal_hdr_fields [simp]:
  "h_magic (seal_hdr h d b) = REC_MAGIC" "h_seq (seal_hdr h d b) = h_seq h"
  "h_type (seal_hdr h d b) = h_type h" "h_state (seal_hdr h d b) = h_state h"
  "h_priority (seal_hdr h d b) = h_priority h" "h_message_id (seal_hdr h d b) = h_message_id h"
  "h_attempt_count (seal_hdr h d b) = h_attempt_count h"
  "h_created_at_us (seal_hdr h d b) = h_created_at_us h"
  "h_last_attempt_at_us (seal_hdr h d b) = h_last_attempt_at_us h"
  "h_next_retry_at_us (seal_hdr h d b) = h_next_retry_at_us h"
  "h_last_error (seal_hdr h d b) = h_last_error h"
  "h_destination_len (seal_hdr h d b) = of_nat d" "h_body_len (seal_hdr h d b) = of_nat b"
  by (simp_all add: seal_hdr_def Let_def)

lemma unat_of_nat_16: "n < 2 ^ 16 \<Longrightarrow> unat (of_nat n :: u16) = n"
  by (simp add: unat_of_nat take_bit_nat_eq_self_iff)

lemma unat_of_nat_32: "n < 2 ^ 32 \<Longrightarrow> unat (of_nat n :: u32) = n"
  by (simp add: unat_of_nat take_bit_nat_eq_self_iff)

lemma decode_header_iff:
  "decode_header buf = Some h \<longleftrightarrow>
     HDR_SIZE \<le> length buf \<and> take HDR_SIZE buf = hdr_bytes h \<and> h_magic h = REC_MAGIC \<and>
     header_crc h = h_header_crc h"
  (is "?l \<longleftrightarrow> ?r")
proof
  assume ?l
  then show ?r
    by (auto simp: decode_header_def Let_def hdr_bytes_of_bytes split: if_splits)
next
  assume ?r
  then show ?l by (auto simp: decode_header_def Let_def)
qed

lemma decode_header_take: "HDR_SIZE \<le> n \<Longrightarrow> decode_header (take n buf) = decode_header buf"
  by (cases "length buf < HDR_SIZE") (simp_all add: decode_header_def Let_def min_def)

lemma verify_body_iff:
  "verify_body h body \<longleftrightarrow>
     (let n = unat (h_destination_len h) + unat (h_body_len h) in
      n + 4 \<le> length body \<and> take 4 (drop n body) = le_bytes 4 (edgesync_crc32 0 (take n body)))"
proof -
  have "(le_word bs :: u32) = c \<longleftrightarrow> bs = le_bytes 4 c" if "length bs = 4" for bs c
    using that le_bytes_le_word [of bs 4, where 'a = 32] le_word_le_bytes [of 4 c] by auto
  then show ?thesis by (auto simp: verify_body_def Let_def)
qed

section \<open>Encoding then decoding\<close>

lemma encode_common_Some:
  assumes "encode_common cap hdr dest body = Some bs"
  shows "length bs = record_total_size (length dest) (length body)"
    and "length bs \<le> cap"
    and "take HDR_SIZE bs = hdr_bytes (seal_hdr hdr (length dest) (length body))"
    and "take (length dest) (drop HDR_SIZE bs) = dest"
    and "take (length body) (drop (HDR_SIZE + length dest) bs) = body"
    and "take 4 (drop (HDR_SIZE + length dest + length body) bs) =
         le_bytes 4 (edgesync_crc32 0 (dest @ body))"
proof -
  define pad :: "byte list" where
    "pad = replicate (record_total_size (length dest) (length body) - (HDR_SIZE + length dest + length body + 4)) 0"
  have bs: "bs = hdr_bytes (seal_hdr hdr (length dest) (length body)) @ dest @ body @
              le_bytes 4 (edgesync_crc32 0 (dest @ body)) @ pad"
    and cap: "record_total_size (length dest) (length body) \<le> cap"
    using assms by (auto simp: encode_common_def Let_def pad_def split: if_splits)
  show "length bs = record_total_size (length dest) (length body)"
    using record_total_size_ge [of "length dest" "length body"] by (simp add: bs pad_def)
  then show "length bs \<le> cap" using cap by simp
  show "take HDR_SIZE bs = hdr_bytes (seal_hdr hdr (length dest) (length body))" by (simp add: bs)
  show "take (length dest) (drop HDR_SIZE bs) = dest" by (simp add: bs)
  show "take (length body) (drop (HDR_SIZE + length dest) bs) = body" by (simp add: bs)
  show "take 4 (drop (HDR_SIZE + length dest + length body) bs) =
         le_bytes 4 (edgesync_crc32 0 (dest @ body))" by (simp add: bs)
qed

lemma encode_common_succeeds:
  "record_total_size (length dest) (length body) \<le> cap \<Longrightarrow> \<exists>bs. encode_common cap hdr dest body = Some bs"
  by (simp add: encode_common_def Let_def)

lemma decode_encode_common:
  assumes "encode_common cap hdr dest body = Some bs"
  shows "decode_header bs = Some (seal_hdr hdr (length dest) (length body))"
  using encode_common_Some [OF assms] record_total_size_pos [of "length dest" "length body"]
  by (simp add: decode_header_iff)

lemma take_drop_split: "take (a + b) xs = take a xs @ take b (drop a xs)"
  by (simp add: take_add)

lemma verify_encode_common:
  assumes enc: "encode_common cap hdr dest body = Some bs"
    and len: "length dest < 2 ^ 16" "length body < 2 ^ 32"
  shows "verify_body (seal_hdr hdr (length dest) (length body)) (drop HDR_SIZE bs)"
proof -
  note e = encode_common_Some [OF enc]
  have "take (length dest + length body) (drop HDR_SIZE bs) = dest @ body"
    using e(4,5) by (simp only: take_drop_split drop_drop) (simp add: add.commute)
  moreover have "take 4 (drop (length dest + length body) (drop HDR_SIZE bs)) =
      le_bytes 4 (edgesync_crc32 0 (dest @ body))"
    using e(6) by (simp add: ac_simps)
  ultimately show ?thesis
    using e(1) record_total_size_ge [of "length dest" "length body"] len
    by (simp add: verify_body_iff Let_def unat_of_nat_16 unat_of_nat_32)
qed

section \<open>What decoding rejects\<close>

lemma le_bytes_4_inject: "le_bytes 4 c = le_bytes 4 d \<Longrightarrow> c = (d :: u32)"
proof -
  assume eq: "le_bytes 4 c = le_bytes 4 d"
  have "c = le_word (le_bytes 4 c)" "d = le_word (le_bytes 4 d)"
    by (rule le_word_le_bytes [symmetric], simp)+
  then show ?thesis unfolding eq by (rule trans [OF _ sym])
qed

lemma hdr_bytes_split: "hdr_bytes h = take 58 (hdr_bytes h) @ le_bytes 4 (h_header_crc h)"
  by (simp add: hdr_bytes_def)

lemma header_crc_bytes: "header_crc h = edgesync_crc32 0 (take 58 (hdr_bytes h) @ replicate 4 0)"
proof -
  have "hdr_bytes (h\<lparr>h_header_crc := 0\<rparr>) = take 58 (hdr_bytes h) @ le_bytes 4 (0 :: u32)"
    by (simp add: hdr_bytes_def)
  moreover have "le_bytes 4 (0 :: u32) = replicate 4 0"
    by (simp add: le_bytes_def map_replicate_const)
  ultimately show ?thesis by (simp add: header_crc_def)
qed

lemma decode_header_bytes:
  assumes "decode_header buf = Some h"
  shows "take 4 (drop 58 buf) = le_bytes 4 (edgesync_crc32 0 (take 58 buf @ replicate 4 0))"
proof -
  have b: "take HDR_SIZE buf = hdr_bytes h" and c: "header_crc h = h_header_crc h"
    using assms by (auto simp: decode_header_iff)
  have "take 58 buf = take 58 (hdr_bytes h)" using b [symmetric] by simp
  moreover have "take 4 (drop 58 buf) = drop 58 (hdr_bytes h)" using b [symmetric] by (simp add: drop_take)
  moreover have "drop 58 (hdr_bytes h) = le_bytes 4 (h_header_crc h)" by (subst hdr_bytes_split) simp
  ultimately show ?thesis using c by (simp add: header_crc_bytes)
qed

text \<open>A change confined to four consecutive bytes of the header proper is always noticed.\<close>

lemma header_burst:
  assumes ok: "decode_header (pre @ b1 @ post) = Some h"
    and len: "length b1 = length b2" "length b1 \<le> 4" "length pre + length b1 \<le> 58"
    and diff: "b1 \<noteq> b2"
  shows "decode_header (pre @ b2 @ post) = None"
proof (rule ccontr)
  let ?k = "58 - (length pre + length b1)"
  assume "decode_header (pre @ b2 @ post) \<noteq> None"
  then obtain h2 where ok2: "decode_header (pre @ b2 @ post) = Some h2" by blast
  have t: "take 58 (pre @ b @ post) = pre @ b @ take ?k post" if "length b = length b1" for b
    using that len(3) by simp
  have d: "drop 58 (pre @ b @ post) = drop ?k post" if "length b = length b1" for b
    using that len(3) by simp
  have e: "take 4 (drop ?k post) = le_bytes 4 (edgesync_crc32 0 (pre @ b @ take ?k post @ replicate 4 0))"
    if "decode_header (pre @ b @ post) = Some g" "length b = length b1" for b g
    using decode_header_bytes [OF that(1)] unfolding t [OF that(2)] d [OF that(2)] append_assoc .
  have "le_bytes 4 (edgesync_crc32 0 (pre @ b1 @ take ?k post @ replicate 4 0)) =
        le_bytes 4 (edgesync_crc32 0 (pre @ b2 @ take ?k post @ replicate 4 0))"
    using e [OF ok refl] e [OF ok2 len(1) [symmetric]] by (rule trans [OF sym])
  then have "edgesync_crc32 0 (pre @ b1 @ take ?k post @ replicate 4 0) =
        edgesync_crc32 0 (pre @ b2 @ take ?k post @ replicate 4 0)"
    by (rule le_bytes_4_inject)
  then show False using crc32_burst [OF len(1,2) diff] by blast
qed

text \<open>
  A header whose write was torn by a power loss: \<open>n\<close> bytes were programmed, the rest of the
  cells are still erased.  It is rejected, unless the CRC of the torn bytes is the all-ones
  value the erased CRC field reads as.
\<close>

lemma torn_header:
  assumes ok: "decode_header hb = Some h" and len: "length hb = HDR_SIZE" and n: "n < HDR_SIZE"
    and torn: "decode_header (take n hb @ replicate (HDR_SIZE - n) 0xFF) = Some h'"
  shows "take n hb @ replicate (HDR_SIZE - n) 0xFF = hb \<or> h_header_crc h' = 0xFFFFFFFF"
proof -
  let ?t = "take n hb @ replicate (HDR_SIZE - n) 0xFF"
  show ?thesis
  proof (cases "58 \<le> n")
    case True
    then have pre: "take 58 ?t = take 58 hb" using len n by simp
    then have "take 4 (drop 58 ?t) = take 4 (drop 58 hb)"
      using decode_header_bytes [OF ok] decode_header_bytes [OF torn] by simp
    moreover have "length (drop 58 ?t) = 4" "length (drop 58 hb) = 4" using len n True by simp_all
    ultimately have "drop 58 ?t = drop 58 hb" by (metis order_refl take_all)
    with pre have "?t = hb" by (metis append_take_drop_id)
    then show ?thesis ..
  next
    case False
    then have f: "drop 58 ?t = replicate 4 0xFF" using len n by (simp add: drop_replicate)
    have b: "hdr_bytes h' = ?t" using torn len n by (simp add: decode_header_iff)
    have "le_bytes 4 (h_header_crc h') = drop 58 (hdr_bytes h')" by (subst hdr_bytes_split) simp
    then have l: "le_bytes 4 (h_header_crc h') = replicate 4 0xFF" using b f by simp
    have "(le_word (replicate 4 (0xFF :: byte)) :: u32) = 0xFFFFFFFF"
    proof (rule bit_word_eqI)
      fix k assume k: "k < LENGTH(32)"
      have m: "(0xFF :: byte) = - 1" "(0xFFFFFFFF :: u32) = - 1" by simp_all
      have "k mod 8 < 8" by simp
      then show "bit (le_word (replicate 4 (0xFF :: byte)) :: u32) k = bit (0xFFFFFFFF :: u32) k"
        using k unfolding m by (simp add: bit_le_word less_mult_imp_div_less)
    qed
    then have "h_header_crc h' = 0xFFFFFFFF"
      using l le_word_le_bytes [of 4 "h_header_crc h'"] by simp
    then show ?thesis ..
  qed
qed

lemma blank_not_header: "decode_header (replicate n 0xFF) = None"
proof (rule ccontr)
  assume "decode_header (replicate n 0xFF) \<noteq> None"
  then obtain h where h: "decode_header (replicate n 0xFF) = Some h" by blast
  then have t: "take HDR_SIZE (replicate n 0xFF) = hdr_bytes h"
    unfolding decode_header_iff by blast
  have n: "HDR_SIZE \<le> n" and m: "h_magic h = REC_MAGIC"
    using h by (simp_all add: decode_header_iff)
  have "hdr_bytes h ! 0 = 0xFF" using n by (simp add: t [symmetric])
  moreover have "hdr_bytes h ! 0 = le_bytes 4 (h_magic h) ! 0" by (simp add: hdr_bytes_def nth_append)
  ultimately show False by (simp add: m nth_le_bytes)
qed

section \<open>Records and messages\<close>

text \<open>The state byte of a record as a message state, and the messages that fit a buffer.\<close>

definition state_of :: "u8 \<Rightarrow> message_state" where
  "state_of s = (if s = STATE_PENDING then MSG_PENDING else if s = STATE_IN_FLIGHT then MSG_IN_FLIGHT
     else if s = STATE_DELIVERED then MSG_DELIVERED else MSG_DEAD_LETTER)"

definition live_state :: "u8 \<Rightarrow> bool" where
  "live_state s \<longleftrightarrow> s = STATE_PENDING \<or> s = STATE_IN_FLIGHT \<or> s = STATE_DEAD_LETTER"

definition message_len :: "message \<Rightarrow> nat" where
  "message_len msg = record_total_size (length (c_string (m_destination msg))) (length (m_payload msg))"

definition message_accepted :: "nat \<Rightarrow> message \<Rightarrow> bool" where
  "message_accepted scr msg \<longleftrightarrow> length (c_string (m_destination msg)) \<le> 63 \<and> message_len msg \<le> scr"

section \<open>Properties\<close>

text \<open>C38: encoding a message and decoding it again gives the message back: the record is as
  long as announced, its header is accepted and carries every field, its body is accepted,
  and destination and payload are the bytes after the header.\<close>

theorem message_record_roundtrip:
  assumes "encode_message_full cap mid dest prio state attempts created last_us next_us err payload seq = Some bs"
    and "length payload < 2 ^ 32"
  shows "length bs = record_total_size (length (c_string dest)) (length payload) \<and>
    (\<exists>h. decode_header bs = Some h \<and> verify_body h (drop HDR_SIZE bs) \<and>
       h_type h = REC_MESSAGE \<and> h_seq h = seq \<and> h_message_id h = mid \<and> h_priority h = prio \<and>
       h_state h = state \<and> h_attempt_count h = attempts \<and> h_created_at_us h = created \<and>
       h_last_attempt_at_us h = last_us \<and> h_next_retry_at_us h = next_us \<and> h_last_error h = err \<and>
       unat (h_destination_len h) = length (c_string dest) \<and> unat (h_body_len h) = length payload \<and>
       take (length (c_string dest)) (drop HDR_SIZE bs) = c_string dest \<and>
       take (length payload) (drop (HDR_SIZE + length (c_string dest)) bs) = payload)"
proof -
  obtain hdr where enc: "encode_common cap hdr (c_string dest) payload = Some bs"
    and d: "length (c_string dest) \<le> 63"
    and hdr: "hdr = zero_hdr\<lparr>h_seq := seq, h_type := REC_MESSAGE, h_state := state, h_priority := prio,
       h_message_id := mid, h_attempt_count := attempts, h_created_at_us := created,
       h_last_attempt_at_us := last_us, h_next_retry_at_us := next_us, h_last_error := err\<rparr>"
    using assms(1) by (auto simp: encode_message_full_def Let_def split: if_splits)
  have d16: "length (c_string dest) < 2 ^ 16" using d by simp
  note e = encode_common_Some [OF enc]
  show ?thesis
    using e(1,4,5) decode_encode_common [OF enc] verify_encode_common [OF enc d16 assms(2)] d16 assms(2)
    by (simp add: hdr unat_of_nat_16 unat_of_nat_32)
qed

theorem message_record_roundtrip_witness:
  "\<exists>bs h. encode_message_full 200 5 [104, 105] 2 STATE_PENDING 0 10 0 0 0 [1, 2, 3] 1 = Some bs \<and>
     decode_header bs = Some h \<and> h_message_id h = 5"
proof -
  have s: "record_total_size (length (c_string [104, 105])) (length [1, 2, 3 :: byte]) \<le> 200"
    by (simp add: record_total_size_def round4_def c_string_def)
  obtain bs where bs: "encode_message_full 200 5 [104, 105] 2 STATE_PENDING 0 10 0 0 0 [1, 2, 3] 1 = Some bs"
    using encode_common_succeeds [OF s] by (auto simp: encode_message_full_def c_string_def)
  show ?thesis using message_record_roundtrip [OF bs] bs by auto
qed

text \<open>an update record survives the round trip, so a state change that was written is the
  state change the recovery scan reads.\<close>

theorem update_record_roundtrip:
  assumes "encode_update cap mid state attempts last_us next_us err seq = Some bs"
  shows "length bs = record_total_size 0 0 \<and>
    (\<exists>h. decode_header bs = Some h \<and> verify_body h (drop HDR_SIZE bs) \<and>
       h_type h = REC_UPDATE \<and> h_seq h = seq \<and> h_message_id h = mid \<and> h_state h = state \<and>
       h_attempt_count h = attempts \<and> h_last_attempt_at_us h = last_us \<and> h_next_retry_at_us h = next_us \<and>
       h_last_error h = err)"
proof -
  have enc: "encode_common cap (update_hdr mid state attempts last_us next_us err seq) [] [] = Some bs"
    using assms by (simp add: encode_update_def)
  show ?thesis
    using encode_common_Some(1) [OF enc] decode_encode_common [OF enc] verify_encode_common [OF enc]
    by (simp add: update_hdr_def)
qed

theorem update_record_roundtrip_witness:
  "\<exists>bs h. encode_update 68 5 STATE_IN_FLIGHT 1 20 0 0 2 = Some bs \<and> decode_header bs = Some h \<and>
     h_state h = STATE_IN_FLIGHT \<and> h_attempt_count h = 1"
proof -
  have s: "record_total_size (length ([] :: byte list)) (length ([] :: byte list)) \<le> 68"
    by (simp add: record_total_size_def round4_def)
  obtain bs where bs: "encode_update 68 5 STATE_IN_FLIGHT 1 20 0 0 2 = Some bs"
    using encode_common_succeeds [OF s] by (auto simp: encode_update_def)
  show ?thesis using update_record_roundtrip [OF bs] bs by auto
qed



text \<open>a header whose programming was cut short by a power loss is rejected unless the torn
  bytes are the whole header, or the CRC they ask for is the value an erased field reads as.\<close>

theorem torn_header_rejected:
  assumes "decode_header hb = Some h" "length hb = HDR_SIZE" "n < HDR_SIZE"
  defines "torn \<equiv> take n hb @ replicate (HDR_SIZE - n) 0xFF"
  shows "torn = hb \<or> decode_header torn = None \<or>
    (\<exists>h'. decode_header torn = Some h' \<and> h_header_crc h' = 0xFFFFFFFF)"
  using torn_header [OF assms(1-3), folded torn_def] by (cases "decode_header torn") auto

theorem torn_header_rejected_witness:
  "decode_header (hdr_bytes (seal_hdr zero_hdr 0 0)) = Some (seal_hdr zero_hdr 0 0) \<and>
   (let torn = take 20 (hdr_bytes (seal_hdr zero_hdr 0 0)) @ replicate 42 0xFF
    in torn = hdr_bytes (seal_hdr zero_hdr 0 0) \<or> decode_header torn = None \<or>
       (\<exists>h'. decode_header torn = Some h' \<and> h_header_crc h' = 0xFFFFFFFF))"
proof -
  let ?h = "seal_hdr zero_hdr 0 0"
  have ok: "decode_header (hdr_bytes ?h) = Some ?h" by (simp add: decode_header_iff)
  show ?thesis using torn_header_rejected [OF ok, of 20] ok by (simp add: Let_def)
qed

end
