(* ===== verification/Flash_Device.thy ===== *)
theory Flash_Device
  imports ES_Prelude
begin

text \<open>
  The flash partition behind \<open>esp_partition_read\<close>, \<open>esp_partition_write\<close> and
  \<open>esp_partition_erase_range\<close>.  These functions belong to ESP-IDF and not to this
  repository, so they are parameters: an operations record over an abstract partition state
  \<open>'p\<close>.  What the flash queue relies on is the predicate \<open>flash_laws\<close>, which states the
  documented behaviour of NOR flash and nothing about success: an operation may fail at any
  time (a read error, a worn sector, or a power loss after which nothing works any more).
  \<open>flash_reliable\<close> adds that operations inside the partition succeed.
\<close>

record 'p flash_ops =
  fl_read :: "'p \<Rightarrow> nat \<Rightarrow> nat \<Rightarrow> byte list option \<times> 'p"
  fl_write :: "'p \<Rightarrow> nat \<Rightarrow> byte list \<Rightarrow> bool \<times> 'p"
  fl_erase :: "'p \<Rightarrow> nat \<Rightarrow> nat \<Rightarrow> bool \<times> 'p"

text \<open>
  \<open>cells\<close> reads the content of the partition out of its state.  A read that succeeds delivers
  the cells and changes nothing; a write changes no cell outside its range, can only clear
  bits, and stores the conjunction of old and new bits when it succeeds; an erase changes no
  cell outside its range, leaves every 4096-byte sector either as it was or erased, and
  erases all of its range when it succeeds.
\<close>

definition read_law :: "'p flash_ops \<Rightarrow> ('p \<Rightarrow> mem) \<Rightarrow> bool" where
  "read_law F cells \<longleftrightarrow> (\<forall>p off len. cells (snd (fl_read F p off len)) = cells p \<and>
     (\<forall>bs. fst (fl_read F p off len) = Some bs \<longrightarrow> bs = mem_read (cells p) off len))"

definition write_law :: "'p flash_ops \<Rightarrow> ('p \<Rightarrow> mem) \<Rightarrow> bool" where
  "write_law F cells \<longleftrightarrow> (\<forall>p off bs.
     (\<forall>i. i < off \<or> off + length bs \<le> i \<longrightarrow> cells (snd (fl_write F p off bs)) i = cells p i) \<and>
     (\<forall>j<length bs. let old = cells p (off + j); new = cells (snd (fl_write F p off bs)) (off + j)
        in new AND old = new \<and> old AND bs ! j AND new = old AND bs ! j \<and>
           (fst (fl_write F p off bs) \<longrightarrow> new = old AND bs ! j)))"

definition erase_law :: "'p flash_ops \<Rightarrow> ('p \<Rightarrow> mem) \<Rightarrow> bool" where
  "erase_law F cells \<longleftrightarrow> (\<forall>p off len.
     (\<forall>i. i < off \<or> off + len \<le> i \<longrightarrow> cells (snd (fl_erase F p off len)) i = cells p i) \<and>
     (fst (fl_erase F p off len) \<longrightarrow> (\<forall>i. off \<le> i \<and> i < off + len \<longrightarrow> cells (snd (fl_erase F p off len)) i = 0xFF)) \<and>
     (\<forall>s. (\<forall>i<4096. cells (snd (fl_erase F p off len)) (s * 4096 + i) = cells p (s * 4096 + i)) \<or>
          (\<forall>i<4096. cells (snd (fl_erase F p off len)) (s * 4096 + i) = 0xFF)))"

definition flash_laws :: "'p flash_ops \<Rightarrow> ('p \<Rightarrow> mem) \<Rightarrow> bool" where
  "flash_laws F cells \<longleftrightarrow> read_law F cells \<and> write_law F cells \<and> erase_law F cells"

definition flash_reliable :: "'p flash_ops \<Rightarrow> nat \<Rightarrow> bool" where
  "flash_reliable F sz \<longleftrightarrow>
     (\<forall>p off len. off + len \<le> sz \<longrightarrow> fst (fl_read F p off len) \<noteq> None) \<and>
     (\<forall>p off bs. off + length bs \<le> sz \<longrightarrow> fst (fl_write F p off bs)) \<and>
     (\<forall>p off len. off + len \<le> sz \<and> 4096 dvd off \<and> 4096 dvd len \<longrightarrow> fst (fl_erase F p off len))"

lemma read_cells: "flash_laws F cells \<Longrightarrow> fl_read F p off len = (r, p') \<Longrightarrow> cells p' = cells p"
  by (metis flash_laws_def read_law_def snd_conv)

lemma read_Some: "flash_laws F cells \<Longrightarrow> fl_read F p off len = (Some bs, p') \<Longrightarrow> bs = mem_read (cells p) off len"
  by (metis flash_laws_def read_law_def fst_conv)

lemma write_outside:
  assumes "flash_laws F cells" "fl_write F p off bs = (ok, p')" "i < off \<or> off + length bs \<le> i"
  shows "cells p' i = cells p i"
proof -
  have "\<forall>i. i < off \<or> off + length bs \<le> i \<longrightarrow> cells (snd (fl_write F p off bs)) i = cells p i"
    using assms(1) unfolding flash_laws_def write_law_def by blast
  then show ?thesis using assms(2,3) by auto
qed

lemma write_bits:
  assumes "flash_laws F cells" "fl_write F p off bs = (ok, p')" "j < length bs"
  shows "cells p' (off + j) AND cells p (off + j) = cells p' (off + j)"
    and "cells p (off + j) AND bs ! j AND cells p' (off + j) = cells p (off + j) AND bs ! j"
    and "ok \<Longrightarrow> cells p' (off + j) = cells p (off + j) AND bs ! j"
proof -
  let ?p' = "snd (fl_write F p off bs)"
  have "\<forall>j<length bs. cells ?p' (off + j) AND cells p (off + j) = cells ?p' (off + j) \<and>
      cells p (off + j) AND bs ! j AND cells ?p' (off + j) = cells p (off + j) AND bs ! j \<and>
      (fst (fl_write F p off bs) \<longrightarrow> cells ?p' (off + j) = cells p (off + j) AND bs ! j)"
    using assms(1) unfolding flash_laws_def write_law_def Let_def by blast
  from this [rule_format, OF assms(3)]
  show "cells p' (off + j) AND cells p (off + j) = cells p' (off + j)"
    and "cells p (off + j) AND bs ! j AND cells p' (off + j) = cells p (off + j) AND bs ! j"
    and "ok \<Longrightarrow> cells p' (off + j) = cells p (off + j) AND bs ! j"
    using assms(2) by simp_all
qed

lemma erase_outside:
  assumes "flash_laws F cells" "fl_erase F p off len = (ok, p')" "i < off \<or> off + len \<le> i"
  shows "cells p' i = cells p i"
proof -
  have "\<forall>i. i < off \<or> off + len \<le> i \<longrightarrow> cells (snd (fl_erase F p off len)) i = cells p i"
    using assms(1) unfolding flash_laws_def erase_law_def by blast
  then show ?thesis using assms(2,3) by auto
qed

lemma erase_erases:
  assumes "flash_laws F cells" "fl_erase F p off len = (True, p')" "off \<le> i" "i < off + len"
  shows "cells p' i = 0xFF"
proof -
  have "fst (fl_erase F p off len) \<longrightarrow>
      (\<forall>i. off \<le> i \<and> i < off + len \<longrightarrow> cells (snd (fl_erase F p off len)) i = 0xFF)"
    using assms(1) unfolding flash_laws_def erase_law_def by blast
  then show ?thesis using assms(2-4) by simp
qed

lemma erase_sector:
  assumes "flash_laws F cells" "fl_erase F p off len = (ok, p')"
  shows "(\<forall>i<4096. cells p' (s * 4096 + i) = cells p (s * 4096 + i)) \<or>
         (\<forall>i<4096. cells p' (s * 4096 + i) = 0xFF)"
proof -
  have "(\<forall>i<4096. cells (snd (fl_erase F p off len)) (s * 4096 + i) = cells p (s * 4096 + i)) \<or>
        (\<forall>i<4096. cells (snd (fl_erase F p off len)) (s * 4096 + i) = 0xFF)"
    using assms(1) unfolding flash_laws_def erase_law_def by blast
  then show ?thesis using assms(2) by simp
qed

section \<open>An instance\<close>

text \<open>
  An ideal NOR partition of a given size, the instance the witnesses use: its state is the
  content, and an access outside the partition is refused.
\<close>

definition nor_read :: "nat \<Rightarrow> mem \<Rightarrow> nat \<Rightarrow> nat \<Rightarrow> byte list option \<times> mem" where
  "nor_read sz m off len = (if off + len \<le> sz then (Some (mem_read m off len), m) else (None, m))"

definition nor_write :: "nat \<Rightarrow> mem \<Rightarrow> nat \<Rightarrow> byte list \<Rightarrow> bool \<times> mem" where
  "nor_write sz m off bs =
     (if off + length bs \<le> sz
      then (True, \<lambda>i. if off \<le> i \<and> i < off + length bs then m i AND bs ! (i - off) else m i)
      else (False, m))"

definition nor_erase :: "nat \<Rightarrow> mem \<Rightarrow> nat \<Rightarrow> nat \<Rightarrow> bool \<times> mem" where
  "nor_erase sz m off len =
     (if off + len \<le> sz \<and> 4096 dvd off \<and> 4096 dvd len
      then (True, \<lambda>i. if off \<le> i \<and> i < off + len then 0xFF else m i)
      else (False, m))"

definition nor_ops :: "nat \<Rightarrow> mem flash_ops" where
  "nor_ops sz = \<lparr>fl_read = nor_read sz, fl_write = nor_write sz, fl_erase = nor_erase sz\<rparr>"

lemma sector_in_range:
  assumes "4096 dvd off" "4096 dvd len" "i < (4096::nat)"
  shows "off \<le> s * 4096 + i \<longleftrightarrow> off \<le> s * 4096" "s * 4096 + i < off + len \<longleftrightarrow> s * 4096 < off + len"
proof -
  obtain a b where ab: "off = 4096 * a" "len = 4096 * b" using assms by (auto elim!: dvdE)
  show "off \<le> s * 4096 + i \<longleftrightarrow> off \<le> s * 4096"
    using assms(3) by (cases "a \<le> s") (simp_all add: ab)
  show "s * 4096 + i < off + len \<longleftrightarrow> s * 4096 < off + len"
    using assms(3) by (cases "s < a + b") (simp_all add: ab)
qed

lemma nor_laws: "flash_laws (nor_ops sz) (\<lambda>m. m)"
proof -
  have "erase_law (nor_ops sz) (\<lambda>m. m)"
    unfolding erase_law_def
  proof (intro allI conjI impI)
    fix p :: mem and off len s
    show "(\<forall>i<4096. snd (fl_erase (nor_ops sz) p off len) (s * 4096 + i) = p (s * 4096 + i)) \<or>
          (\<forall>i<4096. snd (fl_erase (nor_ops sz) p off len) (s * 4096 + i) = 0xFF)"
      by (cases "off \<le> s * 4096 \<and> s * 4096 < off + len")
        (auto simp: nor_ops_def nor_erase_def sector_in_range)
  qed (auto simp: nor_ops_def nor_erase_def split: if_splits)
  moreover have "read_law (nor_ops sz) (\<lambda>m. m)" by (auto simp: read_law_def nor_ops_def nor_read_def)
  moreover have "write_law (nor_ops sz) (\<lambda>m. m)"
    by (auto simp: write_law_def nor_ops_def nor_write_def Let_def ac_simps split: if_splits)
  ultimately show ?thesis by (simp add: flash_laws_def)
qed

lemma nor_reliable: "flash_reliable (nor_ops sz) sz"
  by (simp add: flash_reliable_def nor_ops_def nor_read_def nor_write_def nor_erase_def)

end
