(* ===== verification/Flashq_Storage.thy ===== *)
theory Flashq_Storage
  imports Flashq_Format Flash_Device
begin

text \<open>
  \<open>edgesync_storage_flashq.c\<close>: the state and the operations of the log-structured flash
  queue.  Every operation takes the flash operations \<open>F\<close> and the context and returns its
  \<open>esp_err_t\<close> (and its outputs) with the new context, failed flash accesses included.

  A pointer into the index array is the position it points to, \<open>index_count\<close> is the length
  of the list.  The scratch buffers \<open>write_scratch\<close> and \<open>verify_scratch\<close> hold no value
  across operations and are not part of the state; \<open>claim_scratch\<close> is, because a claimed
  message borrows it.  The field \<open>fault\<close> is not in the C structure: it becomes true when
  the code would copy more bytes into a fixed buffer than it holds, which is undefined
  behaviour in C.  The mutex makes each operation atomic; only its creation can fail.
\<close>

abbreviation (input) SECTOR_SIZE :: nat where "SECTOR_SIZE \<equiv> 4096"
abbreviation (input) RESERVE_BYTES :: nat where "RESERVE_BYTES \<equiv> 4096"

section \<open>State\<close>

record index_entry =
  e_id :: message_id
  e_state :: u8
  e_priority :: u8
  e_destination_len :: u16
  e_attempt_count :: u32
  e_payload_len :: u32
  e_message_offset :: nat
  e_created_at_us :: i64
  e_last_attempt_at_us :: i64
  e_next_retry_at_us :: i64
  e_last_error :: esp_err

record 'p flashq_ctx =
  partition :: 'p
  sectors_per_region :: nat
  region_size :: nat
  data_start :: nat
  data_capacity :: nat
  active_region :: nat
  active_generation :: u32
  cursor :: nat
  next_seq :: u32
  index :: "index_entry list"
  index_capacity :: nat
  max_message_size :: u32
  scratch_size :: nat
  claim_scratch :: "byte list"
  compactions_total :: u32
  awaiting_gc_count :: u32
  updates_since_compaction :: u32
  lock_created :: bool
  fault :: bool

section \<open>Small helpers\<close>

definition region_offset :: "'p flashq_ctx \<Rightarrow> nat \<Rightarrow> nat" where
  "region_offset ctx region = region * region_size ctx"

definition max_record_size :: "u32 \<Rightarrow> nat" where
  "max_record_size max_msg_size = record_total_size EDGESYNC_MAX_DESTINATION_LEN (unat max_msg_size)"

definition bytes_all_ff :: "byte list \<Rightarrow> bool" where
  "bytes_all_ff buf = list_all (\<lambda>b. b = 0xFF) buf"

text \<open>
  Copying \<open>n\<close> bytes into a buffer of \<open>cap\<close> bytes.  For the 64-byte destination arrays the
  capacity is 63: with 64 bytes there is no terminator left and \<open>strlen\<close> runs off the end.
\<close>

definition buffer_use :: "nat \<Rightarrow> nat \<Rightarrow> 'p flashq_ctx \<Rightarrow> 'p flashq_ctx" where
  "buffer_use n cap ctx = ctx\<lparr>fault := fault ctx \<or> cap < n\<rparr>"

definition flash_read :: "'p flash_ops \<Rightarrow> 'p flashq_ctx \<Rightarrow> nat \<Rightarrow> nat \<Rightarrow> byte list option \<times> 'p flashq_ctx" where
  "flash_read F ctx off len = (let (r, p) = fl_read F (partition ctx) off len in (r, ctx\<lparr>partition := p\<rparr>))"

definition region_header_read ::
  "'p flash_ops \<Rightarrow> 'p flashq_ctx \<Rightarrow> nat \<Rightarrow> (region_hdr \<times> bool) option \<times> 'p flashq_ctx" where
  "region_header_read F ctx region =
     (let (r, ctx) = flash_read F ctx (region_offset ctx region) REGION_HDR_SIZE
      in case r of
           None \<Rightarrow> (None, ctx)
         | Some raw \<Rightarrow> (Some (region_hdr_of_bytes raw, bytes_all_ff raw), ctx))"

definition partition_write_verify ::
  "'p flash_ops \<Rightarrow> 'p flashq_ctx \<Rightarrow> nat \<Rightarrow> byte list \<Rightarrow> esp_err \<times> 'p flashq_ctx" where
  "partition_write_verify F ctx abs_offset data =
     (let (ok, p) = fl_write F (partition ctx) abs_offset data;
          ctx = ctx\<lparr>partition := p\<rparr>
      in if \<not> ok then (EDGESYNC_ERR_STORAGE, ctx)
         else
           let ctx = buffer_use (length data) (scratch_size ctx) ctx;
               (r, ctx) = flash_read F ctx abs_offset (length data)
           in if r \<noteq> Some data then (EDGESYNC_ERR_STORAGE, ctx) else (ESP_OK, ctx))"

definition erase_region :: "'p flash_ops \<Rightarrow> 'p flashq_ctx \<Rightarrow> nat \<Rightarrow> esp_err \<times> 'p flashq_ctx" where
  "erase_region F ctx region =
     (let (ok, p) = fl_erase F (partition ctx) (region_offset ctx region) (region_size ctx);
          ctx = ctx\<lparr>partition := p\<rparr>
      in (if ok then ESP_OK else EDGESYNC_ERR_STORAGE, ctx))"

definition ensure_region_erased :: "'p flash_ops \<Rightarrow> 'p flashq_ctx \<Rightarrow> nat \<Rightarrow> esp_err \<times> 'p flashq_ctx" where
  "ensure_region_erased F ctx region =
     (let (r, ctx) = region_header_read F ctx region
      in case r of
           None \<Rightarrow> erase_region F ctx region
         | Some (hdr, blank) \<Rightarrow> if \<not> blank then erase_region F ctx region else (ESP_OK, ctx))"

fun find_entry :: "index_entry list \<Rightarrow> message_id \<Rightarrow> nat option" where
  "find_entry [] mid = None"
| "find_entry (e # es) mid = (if e_id e = mid then Some 0 else map_option Suc (find_entry es mid))"

definition remove_entry_at :: "index_entry list \<Rightarrow> nat \<Rightarrow> index_entry list" where
  "remove_entry_at xs pos = butlast (xs[pos := last xs])"

section \<open>Compaction\<close>

text \<open>An encoder whose \<open>false\<close> result is ignored leaves a length of zero.\<close>

definition encoded :: "byte list option \<Rightarrow> byte list" where
  "encoded r = (case r of None \<Rightarrow> [] | Some bs \<Rightarrow> bs)"

text \<open>
  The copy loop: the list is the positions still to copy; the cursor in the target region and
  the sequence number are threaded through.
\<close>

fun compact_loop ::
  "'p flash_ops \<Rightarrow> nat \<Rightarrow> nat \<Rightarrow> nat list \<Rightarrow> 'p flashq_ctx \<Rightarrow> nat \<Rightarrow> u32 \<Rightarrow>
   esp_err \<times> 'p flashq_ctx \<times> nat \<times> u32" where
  "compact_loop F source target [] ctx new_cursor seq = (ESP_OK, ctx, new_cursor, seq)"
| "compact_loop F source target (i # js) ctx new_cursor seq =
     (let e = index ctx ! i;
          dlen = unat (e_destination_len e); plen = unat (e_payload_len e);
          ctx = buffer_use (HDR_SIZE + (dlen + plen)) (scratch_size ctx) ctx;
          (r, ctx) = flash_read F ctx (region_offset ctx source + e_message_offset e) (HDR_SIZE + (dlen + plen))
      in case r of
           None \<Rightarrow> (EDGESYNC_ERR_STORAGE, ctx, new_cursor, seq)
         | Some raw \<Rightarrow>
             let ctx = buffer_use dlen EDGESYNC_MAX_DESTINATION_LEN ctx;
                 destination = take dlen (drop HDR_SIZE raw);
                 payload = take plen (drop (HDR_SIZE + dlen) raw)
             in case encode_message_full (scratch_size ctx) (e_id e) destination (e_priority e) (e_state e)
                       (e_attempt_count e) (e_created_at_us e) (e_last_attempt_at_us e)
                       (e_next_retry_at_us e) (e_last_error e) payload seq of
                  None \<Rightarrow> (EDGESYNC_ERR_SERIALIZATION, ctx, new_cursor, seq)
                | Some bs \<Rightarrow>
                    let (err, ctx) = partition_write_verify F ctx (region_offset ctx target + new_cursor) bs
                    in if err \<noteq> ESP_OK then (err, ctx, new_cursor, seq)
                       else compact_loop F source target js
                              (ctx\<lparr>index := (index ctx)[i := e\<lparr>e_message_offset := new_cursor\<rparr>]\<rparr>)
                              (new_cursor + length bs) (seq + 1))"

definition fresh_region_hdr :: "u32 \<Rightarrow> u8 \<Rightarrow> region_hdr" where
  "fresh_region_hdr generation status =
     \<lparr>rh_magic = HDR_MAGIC, rh_generation = generation, rh_status = status, rh_reserved = [0, 0, 0]\<rparr>"

text \<open>
  Flipping the target to ACTIVE, retiring the source and switching over: the part of
  \<open>compact_locked\<close> after the END marker is on flash.
\<close>

definition compact_finish ::
  "'p flash_ops \<Rightarrow> nat \<Rightarrow> nat \<Rightarrow> u32 \<Rightarrow> 'p flashq_ctx \<Rightarrow> nat \<Rightarrow> u32 \<Rightarrow> esp_err \<times> 'p flashq_ctx" where
  "compact_finish F source target new_generation ctx new_cursor seq =
     (let (err, ctx) = partition_write_verify F ctx (region_offset ctx target + REGION_STATUS_OFFSET) [STATUS_ACTIVE]
      in if err \<noteq> ESP_OK then (err, ctx)
         else
           let (_, ctx) = partition_write_verify F ctx (region_offset ctx source + REGION_STATUS_OFFSET) [STATUS_STALE];
               (_, ctx) = ensure_region_erased F ctx source
           in (ESP_OK, ctx\<lparr>active_region := target, active_generation := new_generation,
                 cursor := new_cursor, next_seq := seq, compactions_total := compactions_total ctx + 1,
                 updates_since_compaction := 0, awaiting_gc_count := 0\<rparr>))"

definition compact_locked :: "'p flash_ops \<Rightarrow> 'p flashq_ctx \<Rightarrow> esp_err \<times> 'p flashq_ctx" where
  "compact_locked F ctx =
     (let target = 1 - active_region ctx; source = active_region ctx;
          (err, ctx) = ensure_region_erased F ctx target
      in if err \<noteq> ESP_OK then (err, ctx)
         else
           let new_generation = active_generation ctx + 1;
               (err, ctx) = partition_write_verify F ctx (region_offset ctx target)
                              (region_hdr_bytes (fresh_region_hdr new_generation STATUS_COMPACTING))
           in if err \<noteq> ESP_OK then (err, ctx)
              else
                let (err, ctx, new_cursor, seq) =
                      compact_loop F source target [0..<length (index ctx)] ctx (data_start ctx) (next_seq ctx)
                in if err \<noteq> ESP_OK then (err, ctx)
                   else
                     let bs = encoded (encode_end (scratch_size ctx) seq);
                         (err, ctx) = partition_write_verify F ctx (region_offset ctx target + new_cursor) bs
                     in if err \<noteq> ESP_OK then (err, ctx)
                        else compact_finish F source target new_generation ctx
                               (new_cursor + length bs) (seq + 1))"

section \<open>Append path\<close>

definition ensure_space_locked :: "'p flash_ops \<Rightarrow> 'p flashq_ctx \<Rightarrow> nat \<Rightarrow> esp_err \<times> 'p flashq_ctx" where
  "ensure_space_locked F ctx needed_len =
     (let free_bytes = data_capacity ctx - (cursor ctx - data_start ctx);
          low_space = free_bytes < needed_len + RESERVE_BYTES;
          too_churned = updates_since_compaction ctx > of_nat (index_capacity ctx * 4 + 16);
          (err, ctx) = (if low_space \<or> too_churned then compact_locked F ctx else (ESP_OK, ctx))
      in if err \<noteq> ESP_OK then (err, ctx)
         else
           let free_bytes = data_capacity ctx - (cursor ctx - data_start ctx)
           in if free_bytes < needed_len then (EDGESYNC_ERR_STORAGE, ctx) else (ESP_OK, ctx))"

definition append_locked :: "'p flash_ops \<Rightarrow> 'p flashq_ctx \<Rightarrow> byte list \<Rightarrow> esp_err \<times> 'p flashq_ctx" where
  "append_locked F ctx buf =
     (let abs_offset = region_offset ctx (active_region ctx) + cursor ctx;
          (err, ctx) = partition_write_verify F ctx abs_offset buf
      in if err \<noteq> ESP_OK then (err, ctx)
         else (ESP_OK, ctx\<lparr>cursor := cursor ctx + length buf, next_seq := next_seq ctx + 1\<rparr>))"

definition append_state_update_locked ::
  "'p flash_ops \<Rightarrow> 'p flashq_ctx \<Rightarrow> nat \<Rightarrow> u8 \<Rightarrow> esp_err \<times> 'p flashq_ctx" where
  "append_state_update_locked F ctx pos new_state =
     (let needed = record_total_size 0 0;
          (err, ctx) = ensure_space_locked F ctx needed
      in if err \<noteq> ESP_OK then (err, ctx)
         else
           let e = index ctx ! pos;
               bs = encoded (encode_update (scratch_size ctx) (e_id e) new_state (e_attempt_count e)
                      (e_last_attempt_at_us e) (e_next_retry_at_us e) (e_last_error e) (next_seq ctx));
               (err, ctx) = append_locked F ctx bs
           in if err \<noteq> ESP_OK then (err, ctx)
              else (ESP_OK, ctx\<lparr>index := (index ctx)[pos := e\<lparr>e_state := new_state\<rparr>],
                      updates_since_compaction := updates_since_compaction ctx + 1\<rparr>))"

section \<open>Recovery\<close>

text \<open>The index entry a MESSAGE record at offset \<open>off\<close> gives rise to.\<close>

definition entry_of_hdr :: "record_hdr \<Rightarrow> nat \<Rightarrow> index_entry" where
  "entry_of_hdr hdr off =
     \<lparr>e_id = h_message_id hdr, e_state = h_state hdr, e_priority = h_priority hdr,
      e_destination_len = h_destination_len hdr, e_attempt_count = h_attempt_count hdr,
      e_payload_len = h_body_len hdr, e_message_offset = off, e_created_at_us = h_created_at_us hdr,
      e_last_attempt_at_us = h_last_attempt_at_us hdr, e_next_retry_at_us = h_next_retry_at_us hdr,
      e_last_error = h_last_error hdr\<rparr>"

definition apply_update :: "record_hdr \<Rightarrow> index_entry \<Rightarrow> index_entry" where
  "apply_update hdr e =
     e\<lparr>e_state := h_state hdr, e_attempt_count := h_attempt_count hdr,
       e_last_attempt_at_us := h_last_attempt_at_us hdr, e_next_retry_at_us := h_next_retry_at_us hdr,
       e_last_error := h_last_error hdr\<rparr>"

text \<open>What one valid record does to the index and to the count of messages awaiting GC.\<close>

definition scan_apply ::
  "nat \<Rightarrow> record_hdr \<Rightarrow> nat \<Rightarrow> index_entry list \<times> u32 \<Rightarrow> index_entry list \<times> u32" where
  "scan_apply capacity hdr off st =
     (let (idx, gc) = st
      in if h_type hdr = REC_MESSAGE then
           (if length idx \<ge> capacity then (idx, gc) else (idx @ [entry_of_hdr hdr off], gc))
         else if h_type hdr = REC_UPDATE then
           (case find_entry idx (h_message_id hdr) of
              None \<Rightarrow> (idx, gc)
            | Some pos \<Rightarrow>
                let idx = idx[pos := apply_update hdr (idx ! pos)]
                in if h_state hdr = STATE_DELIVERED \<or> h_state hdr = STATE_REMOVED
                   then (remove_entry_at idx pos, gc + 1) else (idx, gc))
         else (idx, gc))"

text \<open>
  The scan loop.  It returns the context, the largest sequence number seen and the offset at
  which it stopped: the first position without a complete, valid record.
\<close>

definition total_needed :: "record_hdr \<Rightarrow> nat" where
  "total_needed hdr = HDR_SIZE + (unat (h_destination_len hdr) + unat (h_body_len hdr)) + 4"

lemma flash_read_frame:
  "flash_read F ctx off len = (r, ctx') \<Longrightarrow> \<exists>p. ctx' = ctx\<lparr>partition := p\<rparr> \<and> fl_read F (partition ctx) off len = (r, p)"
  by (auto simp: flash_read_def split: prod.splits)

function scan_loop ::
  "'p flash_ops \<Rightarrow> nat \<Rightarrow> 'p flashq_ctx \<Rightarrow> u32 \<Rightarrow> nat \<Rightarrow> 'p flashq_ctx \<times> u32 \<times> nat" where
  "scan_loop F region ctx max_seq off =
     (if \<not> off + HDR_SIZE \<le> region_size ctx then (ctx, max_seq, off)
      else
        let (r, ctx1) = flash_read F ctx (region_offset ctx region + off) HDR_SIZE
        in case r of
             None \<Rightarrow> (ctx1, max_seq, off)
           | Some hdr_buf \<Rightarrow>
               (case decode_header hdr_buf of
                  None \<Rightarrow> (ctx1, max_seq, off)
                | Some hdr \<Rightarrow>
                    let body_bytes = unat (h_destination_len hdr) + unat (h_body_len hdr)
                    in if off + total_needed hdr > region_size ctx then (ctx1, max_seq, off)
                       else
                         let ctx2 = buffer_use (body_bytes + 4) (scratch_size ctx1) ctx1;
                             (r, ctx3) = flash_read F ctx2 (region_offset ctx region + off + HDR_SIZE) (body_bytes + 4)
                         in case r of
                              None \<Rightarrow> (ctx3, max_seq, off)
                            | Some body \<Rightarrow>
                                if \<not> verify_body hdr body then (ctx3, max_seq, off)
                                else
                                  let max_seq = (if h_seq hdr > max_seq then h_seq hdr else max_seq);
                                      (idx, gc) = scan_apply (index_capacity ctx3) hdr off
                                                    (index ctx3, awaiting_gc_count ctx3)
                                  in scan_loop F region (ctx3\<lparr>index := idx, awaiting_gc_count := gc\<rparr>) max_seq
                                       (off + round4 (total_needed hdr))))"
  by pat_completeness auto

termination
  by (relation "measure (\<lambda>(F, region, ctx, max_seq, off). region_size ctx - off)")
    (auto simp: buffer_use_def total_needed_def dest!: sym [THEN flash_read_frame]
      intro!: diff_less_mono2 less_le_trans [OF _ add_left_mono [OF round4_ge]])

declare scan_loop.simps [simp del]

text \<open>Requeuing the messages that were in flight: the second loop of \<open>scan_region\<close>.\<close>

fun requeue_loop :: "'p flash_ops \<Rightarrow> nat list \<Rightarrow> 'p flashq_ctx \<Rightarrow> esp_err \<times> 'p flashq_ctx" where
  "requeue_loop F [] ctx = (ESP_OK, ctx)"
| "requeue_loop F (i # js) ctx =
     (if e_state (index ctx ! i) = STATE_IN_FLIGHT then
        let ctx = ctx\<lparr>index := (index ctx)[i := (index ctx ! i)\<lparr>e_next_retry_at_us := 0\<rparr>]\<rparr>;
            (err, ctx) = append_state_update_locked F ctx i STATE_PENDING
        in if err \<noteq> ESP_OK then (err, ctx) else requeue_loop F js ctx
      else requeue_loop F js ctx)"

definition scan_region :: "'p flash_ops \<Rightarrow> 'p flashq_ctx \<Rightarrow> nat \<Rightarrow> u32 \<Rightarrow> esp_err \<times> 'p flashq_ctx" where
  "scan_region F ctx region generation =
     (let ctx = ctx\<lparr>active_region := region, active_generation := generation, index := [],
                    awaiting_gc_count := 0\<rparr>;
          (ctx, max_seq_seen, off) = scan_loop F region ctx 0 (data_start ctx);
          ctx = ctx\<lparr>cursor := off, next_seq := max_seq_seen + 1\<rparr>
      in requeue_loop F [0..<length (index ctx)] ctx)"

end
