(* ===== verification/Flashq_Ops.thy ===== *)
theory Flashq_Ops
  imports Flashq_Storage
begin

text \<open>
  The entries of the flash queue's \<open>edgesync_storage_ops_t\<close> table and its constructor, over
  the state and the helpers of \<open>Flashq_Storage\<close>.
\<close>

section \<open>Opening and recovery\<close>

definition op_init :: "bool \<Rightarrow> 'p flashq_ctx \<Rightarrow> esp_err \<times> 'p flashq_ctx" where
  "op_init mutex_created ctx =
     (let ctx = ctx\<lparr>lock_created := mutex_created\<rparr>
      in if \<not> mutex_created then (ESP_ERR_NO_MEM, ctx) else (ESP_OK, ctx))"

text \<open>The region header is usable: it was read, is not blank, and has the magic and a known status.\<close>

definition region_valid :: "(region_hdr \<times> bool) option \<Rightarrow> bool" where
  "region_valid r = (case r of
     None \<Rightarrow> False
   | Some (hdr, blank) \<Rightarrow> \<not> blank \<and> rh_magic hdr = HDR_MAGIC \<and>
       (rh_status hdr = STATUS_ACTIVE \<or> rh_status hdr = STATUS_COMPACTING \<or> rh_status hdr = STATUS_STALE))"

definition region_active :: "(region_hdr \<times> bool) option \<Rightarrow> bool" where
  "region_active r = (region_valid r \<and> (case r of None \<Rightarrow> False | Some (hdr, _) \<Rightarrow> rh_status hdr = STATUS_ACTIVE))"

definition region_generation :: "(region_hdr \<times> bool) option \<Rightarrow> u32" where
  "region_generation r = (case r of None \<Rightarrow> 0 | Some (hdr, _) \<Rightarrow> rh_generation hdr)"

definition choose_region :: "(region_hdr \<times> bool) option \<Rightarrow> (region_hdr \<times> bool) option \<Rightarrow> nat option" where
  "choose_region h0 h1 =
     (if region_active h0 \<and> region_active h1
      then Some (if region_generation h0 \<ge> region_generation h1 then 0 else 1)
      else if region_active h0 then Some 0
      else if region_active h1 then Some 1
      else None)"

text \<open>The branch of \<open>op_recover\<close> that starts over: no ACTIVE region was found.\<close>

definition reinitialize :: "'p flash_ops \<Rightarrow> 'p flashq_ctx \<Rightarrow> esp_err \<times> 'p flashq_ctx" where
  "reinitialize F ctx =
     (let (err, ctx) = erase_region F ctx 0;
          (err, ctx) = (if err = ESP_OK then erase_region F ctx 1 else (err, ctx))
      in if err \<noteq> ESP_OK then (err, ctx)
         else
           let (err, ctx) = partition_write_verify F ctx (region_offset ctx 0)
                              (region_hdr_bytes (fresh_region_hdr 1 STATUS_ACTIVE))
           in if err \<noteq> ESP_OK then (err, ctx)
              else (ESP_OK, ctx\<lparr>index := [], cursor := data_start ctx, next_seq := 1, active_region := 0,
                      active_generation := 1, awaiting_gc_count := 0, compactions_total := 0\<rparr>))"

definition op_recover :: "'p flash_ops \<Rightarrow> 'p flashq_ctx \<Rightarrow> esp_err \<times> 'p flashq_ctx" where
  "op_recover F ctx =
     (let (h0, ctx) = region_header_read F ctx 0;
          (h1, ctx) = region_header_read F ctx 1
      in case choose_region h0 h1 of
           None \<Rightarrow> reinitialize F ctx
         | Some chosen \<Rightarrow>
             let (err, ctx) = ensure_region_erased F ctx (1 - chosen)
             in if err \<noteq> ESP_OK then (err, ctx)
                else scan_region F ctx chosen (region_generation (if chosen = 0 then h0 else h1)))"

section \<open>Queue operations\<close>

definition new_entry :: "message \<Rightarrow> nat \<Rightarrow> index_entry" where
  "new_entry msg off =
     \<lparr>e_id = m_id msg, e_state = STATE_PENDING, e_priority = m_priority msg,
      e_destination_len = of_nat (length (c_string (m_destination msg))), e_attempt_count = 0,
      e_payload_len = of_nat (length (m_payload msg)), e_message_offset = off,
      e_created_at_us = m_created_at_us msg, e_last_attempt_at_us = 0, e_next_retry_at_us = 0,
      e_last_error = ESP_OK\<rparr>"

definition op_enqueue :: "'p flash_ops \<Rightarrow> 'p flashq_ctx \<Rightarrow> message \<Rightarrow> esp_err \<times> 'p flashq_ctx" where
  "op_enqueue F ctx msg =
     (if length (index ctx) \<ge> index_capacity ctx then (EDGESYNC_ERR_QUEUE_FULL, ctx)
      else case encode_message (scratch_size ctx) msg (next_seq ctx) of
             None \<Rightarrow> (EDGESYNC_ERR_SERIALIZATION, ctx)
           | Some bs \<Rightarrow>
               let (err, ctx) = ensure_space_locked F ctx (length bs)
               in if err \<noteq> ESP_OK then (err, ctx)
                  else (case encode_message (scratch_size ctx) msg (next_seq ctx) of
                          None \<Rightarrow> (EDGESYNC_ERR_SERIALIZATION, ctx)
                        | Some bs \<Rightarrow>
                            let offset = cursor ctx;
                                (err, ctx) = append_locked F ctx bs
                            in if err \<noteq> ESP_OK then (err, ctx)
                               else (ESP_OK, ctx\<lparr>index := index ctx @ [new_entry msg offset]\<rparr>)))"

definition claim_eligible :: "i64 \<Rightarrow> index_entry \<Rightarrow> bool" where
  "claim_eligible now_us e \<longleftrightarrow> \<not> (e_state e \<noteq> STATE_PENDING \<or> sint (e_next_retry_at_us e) > sint now_us)"

definition claim_better :: "index_entry \<Rightarrow> index_entry \<Rightarrow> bool" where
  "claim_better e best \<longleftrightarrow> e_priority e > e_priority best \<or>
     (e_priority e = e_priority best \<and> sint (e_next_retry_at_us e) < sint (e_next_retry_at_us best)) \<or>
     (e_priority e = e_priority best \<and> e_next_retry_at_us e = e_next_retry_at_us best \<and>
      sint (e_created_at_us e) < sint (e_created_at_us best))"

definition claim_select :: "i64 \<Rightarrow> index_entry list \<Rightarrow> nat option" where
  "claim_select now_us idx = select_loop (claim_eligible now_us) claim_better idx [0..<length idx] None"

text \<open>The message handed out: the metadata from the index, the body from \<open>claim_scratch\<close>.\<close>

definition claimed_message :: "index_entry \<Rightarrow> u32 \<Rightarrow> i64 \<Rightarrow> byte list \<Rightarrow> message" where
  "claimed_message e attempts now_us scratch =
     \<lparr>m_id = e_id e, m_destination = c_string (take (unat (e_destination_len e)) (drop HDR_SIZE scratch)),
      m_priority = e_priority e, m_state = MSG_IN_FLIGHT, m_attempt_count = attempts,
      m_created_at_us = e_created_at_us e, m_last_attempt_at_us = now_us,
      m_next_retry_at_us = e_next_retry_at_us e, m_last_error = e_last_error e,
      m_payload = take (unat (e_payload_len e)) (drop (HDR_SIZE + unat (e_destination_len e)) scratch)\<rparr>"

text \<open>The part of \<open>op_claim_next\<close> after the record of the selected entry proved intact.\<close>

definition claim_commit ::
  "'p flash_ops \<Rightarrow> 'p flashq_ctx \<Rightarrow> i64 \<Rightarrow> nat \<Rightarrow> esp_err \<times> message option \<times> 'p flashq_ctx" where
  "claim_commit F ctx now_us pos =
     (let new_attempt_count = e_attempt_count (index ctx ! pos) + 1;
          needed = record_total_size 0 0;
          (err, ctx) = ensure_space_locked F ctx needed
      in if err \<noteq> ESP_OK then (err, None, ctx)
         else
           let best = index ctx ! pos;
               bs = encoded (encode_update (scratch_size ctx) (e_id best) STATE_IN_FLIGHT new_attempt_count
                      now_us (e_next_retry_at_us best) (e_last_error best) (next_seq ctx));
               (err, ctx) = append_locked F ctx bs
           in if err \<noteq> ESP_OK then (err, None, ctx)
              else
                let ctx = ctx\<lparr>index := (index ctx)[pos := best\<lparr>e_state := STATE_IN_FLIGHT,
                                e_attempt_count := new_attempt_count, e_last_attempt_at_us := now_us\<rparr>],
                              updates_since_compaction := updates_since_compaction ctx + 1\<rparr>;
                    ctx = buffer_use (unat (e_destination_len best)) EDGESYNC_MAX_DESTINATION_LEN ctx
                in (ESP_OK, Some (claimed_message best new_attempt_count now_us (claim_scratch ctx)), ctx))"

definition op_claim_next ::
  "'p flash_ops \<Rightarrow> 'p flashq_ctx \<Rightarrow> i64 \<Rightarrow> esp_err \<times> message option \<times> 'p flashq_ctx" where
  "op_claim_next F ctx now_us =
     (case claim_select now_us (index ctx) of
        None \<Rightarrow> (EDGESYNC_ERR_NOT_FOUND, None, ctx)
      | Some pos \<Rightarrow>
          let best = index ctx ! pos;
              body_bytes = unat (e_destination_len best) + unat (e_payload_len best);
              read_len = HDR_SIZE + body_bytes + 4;
              abs_off = region_offset ctx (active_region ctx) + e_message_offset best;
              ctx = buffer_use read_len (scratch_size ctx) ctx;
              (r, ctx) = flash_read F ctx abs_off read_len;
              intact = (case r of
                          None \<Rightarrow> False
                        | Some raw \<Rightarrow> (case decode_header raw of
                                         None \<Rightarrow> False
                                       | Some hdr \<Rightarrow> verify_body hdr (drop HDR_SIZE raw)));
              ctx = (case r of None \<Rightarrow> ctx | Some raw \<Rightarrow> ctx\<lparr>claim_scratch := raw\<rparr>)
          in if \<not> intact then
               let ctx = ctx\<lparr>index := (index ctx)[pos := best\<lparr>e_last_error := EDGESYNC_ERR_STORAGE_CORRUPT\<rparr>]\<rparr>;
                   (err, ctx) = append_state_update_locked F ctx pos STATE_DEAD_LETTER
               in (if err = ESP_OK then EDGESYNC_ERR_STORAGE_CORRUPT else err,
                   Some (blank_message (e_id best)), ctx)
             else claim_commit F ctx now_us pos)"

text \<open>\<open>op_mark_delivered\<close> and \<open>op_remove\<close> differ only in the state they record.\<close>

definition retire_entry ::
  "'p flash_ops \<Rightarrow> 'p flashq_ctx \<Rightarrow> message_id \<Rightarrow> u8 \<Rightarrow> esp_err \<times> 'p flashq_ctx" where
  "retire_entry F ctx mid new_state =
     (case find_entry (index ctx) mid of
        None \<Rightarrow> (EDGESYNC_ERR_NOT_FOUND, ctx)
      | Some pos \<Rightarrow>
          let (err, ctx) = append_state_update_locked F ctx pos new_state
          in if err = ESP_OK
             then (err, ctx\<lparr>index := remove_entry_at (index ctx) pos,
                     awaiting_gc_count := awaiting_gc_count ctx + 1\<rparr>)
             else (err, ctx))"

definition op_mark_delivered :: "'p flash_ops \<Rightarrow> 'p flashq_ctx \<Rightarrow> message_id \<Rightarrow> esp_err \<times> 'p flashq_ctx" where
  "op_mark_delivered F ctx mid = retire_entry F ctx mid STATE_DELIVERED"

definition op_remove :: "'p flash_ops \<Rightarrow> 'p flashq_ctx \<Rightarrow> message_id \<Rightarrow> esp_err \<times> 'p flashq_ctx" where
  "op_remove F ctx mid = retire_entry F ctx mid STATE_REMOVED"

definition op_schedule_retry ::
  "'p flash_ops \<Rightarrow> 'p flashq_ctx \<Rightarrow> message_id \<Rightarrow> i64 \<Rightarrow> bool \<Rightarrow> esp_err \<Rightarrow> esp_err \<times> 'p flashq_ctx" where
  "op_schedule_retry F ctx mid next_retry_time_us dead_letter last_error =
     (case find_entry (index ctx) mid of
        None \<Rightarrow> (EDGESYNC_ERR_NOT_FOUND, ctx)
      | Some pos \<Rightarrow>
          let e = index ctx ! pos;
              ctx = ctx\<lparr>index := (index ctx)[pos := e\<lparr>
                      e_next_retry_at_us := (if dead_letter then 0 else next_retry_time_us),
                      e_last_error := last_error\<rparr>]\<rparr>
          in append_state_update_locked F ctx pos
               (if dead_letter then STATE_DEAD_LETTER else STATE_PENDING))"

definition drop_eligible :: "index_entry \<Rightarrow> bool" where
  "drop_eligible e \<longleftrightarrow> \<not> e_state e \<noteq> STATE_PENDING"

definition drop_better :: "overflow_policy \<Rightarrow> index_entry \<Rightarrow> index_entry \<Rightarrow> bool" where
  "drop_better policy e best \<longleftrightarrow>
     (if policy = OVERFLOW_DROP_LOWEST_PRIORITY
      then e_priority e < e_priority best \<or>
           (e_priority e = e_priority best \<and> sint (e_created_at_us e) < sint (e_created_at_us best))
      else sint (e_created_at_us e) < sint (e_created_at_us best))"

definition op_find_drop_candidate ::
  "'p flashq_ctx \<Rightarrow> overflow_policy \<Rightarrow> esp_err \<times> message_id option" where
  "op_find_drop_candidate ctx policy =
     (case select_loop drop_eligible (drop_better policy) (index ctx) [0..<length (index ctx)] None of
        None \<Rightarrow> (EDGESYNC_ERR_NOT_FOUND, None)
      | Some pos \<Rightarrow> (ESP_OK, Some (e_id (index ctx ! pos))))"

text \<open>The loop of \<open>op_get_stats\<close>: one entry added to the counters.\<close>

definition count_entry :: "stats \<Rightarrow> index_entry \<Rightarrow> stats" where
  "count_entry st e =
     (if e_state e = STATE_PENDING then
        (let st = (if e_attempt_count e = 0 then st\<lparr>st_pending_messages := st_pending_messages st + 1\<rparr>
                   else st\<lparr>st_retrying_messages := st_retrying_messages st + 1\<rparr>)
         in st\<lparr>st_bytes_queued := st_bytes_queued st + ucast (e_payload_len e)\<rparr>)
      else if e_state e = STATE_IN_FLIGHT then
        st\<lparr>st_in_flight_messages := st_in_flight_messages st + 1,
           st_bytes_queued := st_bytes_queued st + ucast (e_payload_len e)\<rparr>
      else if e_state e = STATE_DEAD_LETTER then
        st\<lparr>st_dead_letter_messages := st_dead_letter_messages st + 1,
           st_bytes_queued := st_bytes_queued st + ucast (e_payload_len e)\<rparr>
      else st)"

definition op_get_stats :: "'p flashq_ctx \<Rightarrow> stats \<Rightarrow> esp_err \<times> stats" where
  "op_get_stats ctx st =
     (ESP_OK, (foldl count_entry st (index ctx))
        \<lparr>st_delivered_awaiting_gc := awaiting_gc_count ctx,
         st_queue_capacity := of_nat (index_capacity ctx),
         st_storage_bytes_used := of_nat (cursor ctx - data_start ctx),
         st_storage_bytes_capacity := of_nat (data_capacity ctx),
         st_compactions_total := compactions_total ctx\<rparr>)"

definition op_close :: "'p flashq_ctx \<Rightarrow> esp_err \<times> 'p flashq_ctx" where
  "op_close ctx = (ESP_OK, ctx\<lparr>lock_created := False\<rparr>)"

section \<open>Constructor\<close>

record flashq_config =
  fc_partition_label :: "string option"
  fc_max_messages :: u32
  fc_max_message_size :: u32

text \<open>
  \<open>edgesync_flashq_create\<close>.  \<open>out_valid\<close> says that both output pointers are set; the
  partition table maps a label to a partition and its size in bytes; the two flags are the
  outcomes of the allocations.
\<close>

definition flashq_create ::
  "flashq_config option \<Rightarrow> bool \<Rightarrow> (string \<Rightarrow> ('p \<times> nat) option) \<Rightarrow> bool \<Rightarrow> bool \<Rightarrow>
   esp_err \<times> 'p flashq_ctx option" where
  "flashq_create config out_valid partition_find ctx_allocated buffers_allocated =
     (case config of
        None \<Rightarrow> (ESP_ERR_INVALID_ARG, None)
      | Some cfg \<Rightarrow>
          if \<not> out_valid \<or> fc_max_messages cfg = 0 then (ESP_ERR_INVALID_ARG, None)
          else
            let label = (case fc_partition_label cfg of Some l \<Rightarrow> l | None \<Rightarrow> ''edgesync'')
            in case partition_find label of
                 None \<Rightarrow> (EDGESYNC_ERR_STORAGE, None)
               | Some (p, psize) \<Rightarrow>
                   let total_sectors = psize div SECTOR_SIZE
                   in if psize mod SECTOR_SIZE \<noteq> 0 \<or> total_sectors < 4 then (EDGESYNC_ERR_STORAGE, None)
                      else if \<not> ctx_allocated then (ESP_ERR_NO_MEM, None)
                      else if \<not> buffers_allocated then (ESP_ERR_NO_MEM, None)
                      else
                        let spr = total_sectors div 2; rsize = spr * SECTOR_SIZE
                        in (ESP_OK, Some \<lparr>partition = p, sectors_per_region = spr, region_size = rsize,
                              data_start = SECTOR_SIZE, data_capacity = rsize - SECTOR_SIZE,
                              active_region = 0, active_generation = 0, cursor = 0, next_seq = 0,
                              index = [], index_capacity = unat (fc_max_messages cfg),
                              max_message_size = fc_max_message_size cfg,
                              scratch_size = max_record_size (fc_max_message_size cfg),
                              claim_scratch = [], compactions_total = 0, awaiting_gc_count = 0,
                              updates_since_compaction = 0, lock_created = False, fault = False\<rparr>))"

end
