(* ===== verification/Flashq_Log.thy ===== *)
theory Flashq_Log
  imports Flashq_Ops
begin

text \<open>
  The append-only log of a region, as the recovery scan reads it: when a valid record lies at
  an offset (\<open>rec_ok\<close>), when a list of records lies back to back (\<open>log_ok\<close>), and what
  replaying it does to the index (\<open>replay\<close>).  The frame lemmas say which cells these facts
  depend on; the scan lemma says that \<open>scan_loop\<close> walks exactly through such a log.
\<close>

section \<open>Records in a region\<close>

definition body_len :: "record_hdr \<Rightarrow> nat" where
  "body_len h = unat (h_destination_len h) + unat (h_body_len h)"

definition rec_len :: "record_hdr \<Rightarrow> nat" where
  "rec_len h = round4 (total_needed h)"

definition rec_ok :: "mem \<Rightarrow> nat \<Rightarrow> nat \<Rightarrow> nat \<Rightarrow> record_hdr \<Rightarrow> bool" where
  "rec_ok m base lim off h \<longleftrightarrow> off + HDR_SIZE \<le> lim \<and>
     decode_header (mem_read m (base + off) HDR_SIZE) = Some h \<and> off + total_needed h \<le> lim \<and>
     verify_body h (mem_read m (base + off + HDR_SIZE) (body_len h + 4))"

fun log_ok :: "mem \<Rightarrow> nat \<Rightarrow> nat \<Rightarrow> nat \<Rightarrow> record_hdr list \<Rightarrow> bool" where
  "log_ok m base lim off [] = True"
| "log_ok m base lim off (h # hs) = (rec_ok m base lim off h \<and> log_ok m base lim (off + rec_len h) hs)"

fun log_end :: "nat \<Rightarrow> record_hdr list \<Rightarrow> nat" where
  "log_end off [] = off"
| "log_end off (h # hs) = log_end (off + rec_len h) hs"

fun replay :: "nat \<Rightarrow> nat \<Rightarrow> record_hdr list \<Rightarrow> index_entry list \<times> u32 \<Rightarrow> index_entry list \<times> u32" where
  "replay capacity off [] st = st"
| "replay capacity off (h # hs) st = replay capacity (off + rec_len h) hs (scan_apply capacity h off st)"

definition max_seq :: "u32 \<Rightarrow> record_hdr list \<Rightarrow> u32" where
  "max_seq s hs = foldl (\<lambda>s h. if h_seq h > s then h_seq h else s) s hs"

lemma total_needed_alt: "total_needed h = HDR_SIZE + body_len h + 4"
  by (simp add: total_needed_def body_len_def)

lemma rec_len_alt: "rec_len h = record_total_size (unat (h_destination_len h)) (unat (h_body_len h))"
  by (simp add: rec_len_def total_needed_def record_total_size_def add.assoc)

lemma rec_len_ge: "total_needed h \<le> rec_len h"
  unfolding rec_len_def by (rule round4_ge)

lemma rec_len_pos [simp]: "0 < rec_len h"
  using rec_len_ge [of h] by (simp add: total_needed_def)

lemma dvd_rec_len [simp]: "4 dvd rec_len h"
  by (simp add: rec_len_def)

lemma log_ok_append: "log_ok m base lim off (hs @ hs') \<longleftrightarrow>
    log_ok m base lim off hs \<and> log_ok m base lim (log_end off hs) hs'"
  by (induction hs arbitrary: off) auto

lemma log_end_append [simp]: "log_end off (hs @ hs') = log_end (log_end off hs) hs'"
  by (induction hs arbitrary: off) auto

lemma replay_append: "replay cap off (hs @ hs') st = replay cap (log_end off hs) hs' (replay cap off hs st)"
  by (induction hs arbitrary: off st) auto

lemma log_end_ge: "off \<le> log_end off hs"
proof (induction hs arbitrary: off)
  case (Cons h hs)
  have "off + rec_len h \<le> log_end (off + rec_len h) hs" by (rule Cons.IH)
  then show ?case by simp
qed simp

lemma rec_ok_cong:
  assumes "\<And>i. base + off \<le> i \<Longrightarrow> i < base + off + total_needed h \<Longrightarrow> m' i = m i"
    and "rec_ok m base lim off h"
  shows "rec_ok m' base lim off h"
proof -
  have "mem_read m' (base + off) HDR_SIZE = mem_read m (base + off) HDR_SIZE"
    by (rule mem_read_cong) (auto simp: total_needed_alt intro: assms(1))
  moreover have "mem_read m' (base + off + HDR_SIZE) (body_len h + 4) =
      mem_read m (base + off + HDR_SIZE) (body_len h + 4)"
    by (rule mem_read_cong) (auto simp: total_needed_alt intro: assms(1))
  ultimately show ?thesis using assms(2) by (simp add: rec_ok_def)
qed

lemma log_ok_cong:
  assumes "\<And>i. base + off \<le> i \<Longrightarrow> i < base + log_end off hs \<Longrightarrow> m' i = m i"
    and "log_ok m base lim off hs"
  shows "log_ok m' base lim off hs"
  using assms
proof (induction hs arbitrary: off)
  case Nil
  then show ?case by simp
next
  case (Cons h hs)
  have ge: "off + rec_len h \<le> log_end off (h # hs)" using log_end_ge [of "off + rec_len h" hs] by simp
  have "rec_ok m' base lim off h"
  proof (rule rec_ok_cong [where m = m])
    fix i assume "base + off \<le> i" "i < base + off + total_needed h"
    then show "m' i = m i" using ge rec_len_ge [of h] by (intro Cons.prems(1)) linarith+
  qed (use Cons.prems(2) in simp)
  moreover have "log_ok m' base lim (off + rec_len h) hs"
    using Cons.prems(2) by (intro Cons.IH) (auto intro: Cons.prems(1))
  ultimately show ?case by simp
qed

text \<open>A valid log ends inside the region, on a 4-byte boundary.\<close>

lemma log_end_le:
  assumes "log_ok m base lim off hs" "off \<le> lim" "4 dvd off" "4 dvd lim"
  shows "log_end off hs \<le> lim \<and> 4 dvd log_end off hs"
  using assms
proof (induction hs arbitrary: off)
  case Nil
  then show ?case by simp
next
  case (Cons h hs)
  then have t: "off + total_needed h \<le> lim" by (simp add: rec_ok_def)
  have "4 dvd lim - off" using Cons.prems by (simp add: dvd_diff_nat)
  then have "rec_len h \<le> lim - off"
    unfolding rec_len_def using t by (intro round4_le) auto
  then show ?case using Cons.prems by (simp add: Cons.IH dvd_add)
qed

lemma verify_body_take:
  assumes "verify_body h xs" shows "verify_body h (take (body_len h + 4) xs)"
proof -
  have "take (body_len h) (take (body_len h + 4) xs) = take (body_len h) xs" by (simp add: min_def)
  moreover have "take 4 (drop (body_len h) (take (body_len h + 4) xs)) = take 4 (drop (body_len h) xs)"
    by (simp add: drop_take)
  ultimately show ?thesis using assms
    by (simp add: verify_body_def Let_def body_len_def [symmetric] not_less min_absorb2 del: take_take split: if_splits)
qed

text \<open>The bytes of an encoded record, once they are on flash, are a valid record.\<close>

lemma rec_ok_encoded:
  assumes enc: "encode_common cap hdr dest body = Some bs"
    and len: "length dest < 2 ^ 16" "length body < 2 ^ 32"
    and mem: "mem_read m (base + off) (length bs) = bs" and fit: "off + length bs \<le> lim"
  defines "h \<equiv> seal_hdr hdr (length dest) (length body)"
  shows "rec_ok m base lim off h" "rec_len h = length bs"
    and "mem_read m (base + off + HDR_SIZE) (body_len h) = dest @ body"
proof -
  note e = encode_common_Some [OF enc]
  have bl: "body_len h = length dest + length body"
    using len by (simp add: h_def body_len_def unat_of_nat_16 unat_of_nat_32)
  have tn: "total_needed h \<le> length bs"
    using record_total_size_ge [of "length dest" "length body"] e(1) by (simp add: total_needed_alt bl)
  show "rec_len h = length bs"
    using len e(1) by (simp add: rec_len_alt h_def unat_of_nat_16 unat_of_nat_32)
  have hd: "mem_read m (base + off) HDR_SIZE = take HDR_SIZE bs"
    using mem_read_sub [OF mem, of 0 HDR_SIZE] tn by (simp add: total_needed_alt)
  have bd: "mem_read m (base + off + HDR_SIZE) (body_len h + 4) = take (body_len h + 4) (drop HDR_SIZE bs)"
    using tn by (intro mem_read_sub [OF mem]) (simp add: total_needed_alt)
  have dh: "decode_header bs = Some h" unfolding h_def by (rule decode_encode_common [OF enc])
  have vb: "verify_body h (drop HDR_SIZE bs)" unfolding h_def by (rule verify_encode_common [OF enc len])
  have "verify_body h (take (body_len h + 4) (drop HDR_SIZE bs))"
    using vb by (rule verify_body_take)
  then show "rec_ok m base lim off h"
    using dh tn fit by (simp add: rec_ok_def hd bd decode_header_take) (simp add: total_needed_alt)
  have "mem_read m (base + off + HDR_SIZE) (body_len h) = take (body_len h) (drop HDR_SIZE bs)"
    using tn by (intro mem_read_sub [OF mem]) (simp add: total_needed_alt)
  also have "\<dots> = dest @ body"
    using e(4,5) by (simp only: bl take_drop_split drop_drop) (simp add: add.commute)
  finally show "mem_read m (base + off + HDR_SIZE) (body_len h) = dest @ body" .
qed

section \<open>The scan walks through the log\<close>

text \<open>Reads inside the partition succeed.\<close>

definition reads_ok :: "'p flash_ops \<Rightarrow> nat \<Rightarrow> bool" where
  "reads_ok F sz \<longleftrightarrow> (\<forall>p off len. off + len \<le> sz \<longrightarrow> fst (fl_read F p off len) \<noteq> None)"

lemma flash_read_ok:
  assumes "flash_laws F cells" "reads_ok F sz" "off + len \<le> sz"
  obtains p where "flash_read F ctx off len = (Some (mem_read (cells (partition ctx)) off len), ctx\<lparr>partition := p\<rparr>)"
    and "cells p = cells (partition ctx)"
proof -
  obtain r p where rp: "fl_read F (partition ctx) off len = (r, p)" by (cases "fl_read F (partition ctx) off len")
  then obtain bs where "r = Some bs"
    using assms(2,3) unfolding reads_ok_def by (metis fst_conv option.exhaust)
  with rp assms(1) show thesis
    by (intro that [of p]) (auto simp: flash_read_def read_Some read_cells)
qed

definition log_fault :: "nat \<Rightarrow> record_hdr list \<Rightarrow> bool" where
  "log_fault scratch hs \<longleftrightarrow> (\<exists>h\<in>set hs. scratch < body_len h + 4)"

lemma fault_partition: "ctx\<lparr>fault := b, partition := p\<rparr> = ctx\<lparr>partition := p, fault := b\<rparr>"
  by simp

lemma scan_step:
  assumes laws: "flash_laws F cells" "reads_ok F sz"
    and fit: "region_offset ctx region + region_size ctx \<le> sz"
    and ok: "rec_ok (cells (partition ctx)) (region_offset ctx region) (region_size ctx) off h"
  obtains p where "cells p = cells (partition ctx)"
    and "scan_loop F region ctx ms off =
      scan_loop F region
        (ctx\<lparr>partition := p, fault := fault ctx \<or> scratch_size ctx < body_len h + 4,
             index := fst (scan_apply (index_capacity ctx) h off (index ctx, awaiting_gc_count ctx)),
             awaiting_gc_count := snd (scan_apply (index_capacity ctx) h off (index ctx, awaiting_gc_count ctx))\<rparr>)
        (if h_seq h > ms then h_seq h else ms) (off + rec_len h)"
proof -
  note ok' = ok [unfolded rec_ok_def]
  obtain p1 where r1: "flash_read F ctx (region_offset ctx region + off) HDR_SIZE =
      (Some (mem_read (cells (partition ctx)) (region_offset ctx region + off) HDR_SIZE), ctx\<lparr>partition := p1\<rparr>)"
    and c1: "cells p1 = cells (partition ctx)"
    using ok' fit by (elim flash_read_ok [OF laws, rotated]) auto
  let ?c2 = "ctx\<lparr>partition := p1, fault := fault ctx \<or> scratch_size ctx < body_len h + 4\<rparr>"
  have c2: "partition ?c2 = p1" by simp
  have c2b: "buffer_use (body_len h + 4) (scratch_size ctx) (ctx\<lparr>partition := p1\<rparr>) = ?c2"
    by (simp add: buffer_use_def)
  obtain p2 where r2: "flash_read F ?c2 (region_offset ctx region + off + HDR_SIZE) (body_len h + 4) =
      (Some (mem_read (cells p1) (region_offset ctx region + off + HDR_SIZE) (body_len h + 4)), ?c2\<lparr>partition := p2\<rparr>)"
    and c2': "cells p2 = cells p1"
    using ok' fit flash_read_ok [OF laws, of "region_offset ctx region + off + HDR_SIZE" "body_len h + 4" ?c2 thesis]
    by (auto simp: total_needed_alt c2)
  show thesis
  proof (rule that [of p2])
    show "cells p2 = cells (partition ctx)" using c1 c2' by simp
    show "scan_loop F region ctx ms off = scan_loop F region
        (ctx\<lparr>partition := p2, fault := fault ctx \<or> scratch_size ctx < body_len h + 4,
             index := fst (scan_apply (index_capacity ctx) h off (index ctx, awaiting_gc_count ctx)),
             awaiting_gc_count := snd (scan_apply (index_capacity ctx) h off (index ctx, awaiting_gc_count ctx))\<rparr>)
        (if h_seq h > ms then h_seq h else ms) (off + rec_len h)"
      using ok' r2 by (subst scan_loop.simps)
        (simp add: r1 body_len_def [symmetric] c1 buffer_use_def Let_def rec_len_def split_beta fault_partition)
  qed
qed

lemma scan_loop_log:
  assumes laws: "flash_laws F cells" "reads_ok F sz"
    and fit: "region_offset ctx region + region_size ctx \<le> sz"
    and ok: "log_ok (cells (partition ctx)) (region_offset ctx region) (region_size ctx) off hs"
  shows "\<exists>p. cells p = cells (partition ctx) \<and> scan_loop F region ctx ms off =
      scan_loop F region
        (ctx\<lparr>partition := p, fault := fault ctx \<or> log_fault (scratch_size ctx) hs,
             index := fst (replay (index_capacity ctx) off hs (index ctx, awaiting_gc_count ctx)),
             awaiting_gc_count := snd (replay (index_capacity ctx) off hs (index ctx, awaiting_gc_count ctx))\<rparr>)
        (max_seq ms hs) (log_end off hs)"
  using fit ok
proof (induction hs arbitrary: ctx off ms)
  case Nil
  then show ?case by (intro exI [of _ "partition ctx"]) (simp add: log_fault_def max_seq_def)
next
  case (Cons h hs)
  let ?a = "scan_apply (index_capacity ctx) h off (index ctx, awaiting_gc_count ctx)"
  let ?ms = "if h_seq h > ms then h_seq h else ms"
  from Cons.prems have rec: "rec_ok (cells (partition ctx)) (region_offset ctx region) (region_size ctx) off h"
    by simp
  obtain p where p: "cells p = cells (partition ctx)"
    and step: "scan_loop F region ctx ms off = scan_loop F region
        (ctx\<lparr>partition := p, fault := fault ctx \<or> scratch_size ctx < body_len h + 4,
             index := fst ?a, awaiting_gc_count := snd ?a\<rparr>) ?ms (off + rec_len h)"
    using scan_step [OF laws Cons.prems(1) rec] by metis
  let ?c = "ctx\<lparr>partition := p, fault := fault ctx \<or> scratch_size ctx < body_len h + 4,
             index := fst ?a, awaiting_gc_count := snd ?a\<rparr>"
  have "\<exists>p'. cells p' = cells (partition ?c) \<and> scan_loop F region ?c ?ms (off + rec_len h) =
      scan_loop F region
        (?c\<lparr>partition := p', fault := fault ?c \<or> log_fault (scratch_size ?c) hs,
             index := fst (replay (index_capacity ?c) (off + rec_len h) hs (index ?c, awaiting_gc_count ?c)),
             awaiting_gc_count := snd (replay (index_capacity ?c) (off + rec_len h) hs (index ?c, awaiting_gc_count ?c))\<rparr>)
        (max_seq ?ms hs) (log_end (off + rec_len h) hs)"
    using Cons.prems p by (intro Cons.IH) (simp_all add: region_offset_def)
  then show ?case unfolding step
    by (elim exE conjE) (rule_tac x = p' in exI, simp add: p log_fault_def max_seq_def disj_assoc)
qed

text \<open>
  It stops at the first position that holds no valid record: no header, one that announces more
  than the region holds, or one whose body does not match (and then fits the scratch buffer).
\<close>

definition log_stops :: "mem \<Rightarrow> nat \<Rightarrow> nat \<Rightarrow> nat \<Rightarrow> nat \<Rightarrow> bool" where
  "log_stops m base lim cap off \<longleftrightarrow> (\<forall>h. off + HDR_SIZE \<le> lim \<and>
     decode_header (mem_read m (base + off) HDR_SIZE) = Some h \<and> off + total_needed h \<le> lim \<longrightarrow>
     \<not> verify_body h (mem_read m (base + off + HDR_SIZE) (body_len h + 4)) \<and> body_len h + 4 \<le> cap)"

lemma log_stops_cong:
  assumes "\<And>i. base + off \<le> i \<Longrightarrow> i < base + lim \<Longrightarrow> m' i = m i"
  shows "log_stops m' base lim cap off = log_stops m base lim cap off"
proof -
  have r: "mem_read m' (base + off + k) n = mem_read m (base + off + k) n" if "off + k + n \<le> lim" for k n
    using that by (intro mem_read_cong assms) linarith+
  have h: "mem_read m' (base + off) HDR_SIZE = mem_read m (base + off) HDR_SIZE" if "off + HDR_SIZE \<le> lim"
    using r [of 0 HDR_SIZE] that by simp
  have b: "mem_read m' (base + off + HDR_SIZE) (body_len h + 4) = mem_read m (base + off + HDR_SIZE) (body_len h + 4)"
    if "off + total_needed h \<le> lim" for h
    using that by (intro r) (simp add: total_needed_alt)
  show ?thesis unfolding log_stops_def by (intro all_cong1 imp_cong) (auto simp: h b)
qed

lemma scan_loop_stops:
  assumes laws: "flash_laws F cells" "reads_ok F sz"
    and fit: "region_offset ctx region + region_size ctx \<le> sz"
    and stop: "log_stops (cells (partition ctx)) (region_offset ctx region) (region_size ctx) (scratch_size ctx) off"
  shows "\<exists>p. cells p = cells (partition ctx) \<and> scan_loop F region ctx ms off = (ctx\<lparr>partition := p\<rparr>, ms, off)"
proof (cases "off + HDR_SIZE \<le> region_size ctx")
  case True
  let ?b = "region_offset ctx region + off"
  obtain p where r: "flash_read F ctx ?b HDR_SIZE =
      (Some (mem_read (cells (partition ctx)) ?b HDR_SIZE), ctx\<lparr>partition := p\<rparr>)"
    and c: "cells p = cells (partition ctx)"
    using fit True by (elim flash_read_ok [OF laws, rotated]) auto
  show ?thesis
  proof (cases "decode_header (mem_read (cells (partition ctx)) ?b HDR_SIZE)")
    case None
    then show ?thesis using True c by (intro exI [of _ p]) (subst scan_loop.simps, simp add: r)
  next
    case (Some h)
    show ?thesis
    proof (cases "off + total_needed h \<le> region_size ctx")
      case False
      then show ?thesis using True c Some by (intro exI [of _ p]) (subst scan_loop.simps, simp add: r)
    next
      case in_region: True
      have bad: "\<not> verify_body h (mem_read (cells (partition ctx)) (?b + HDR_SIZE) (body_len h + 4))"
        and cap: "body_len h + 4 \<le> scratch_size ctx"
        using stop True Some in_region by (auto simp: log_stops_def)
      let ?c2 = "ctx\<lparr>partition := p\<rparr>"
      obtain p2 where r2: "flash_read F ?c2 (?b + HDR_SIZE) (body_len h + 4) =
          (Some (mem_read (cells p) (?b + HDR_SIZE) (body_len h + 4)), ?c2\<lparr>partition := p2\<rparr>)"
        and c2: "cells p2 = cells p"
        using in_region fit flash_read_ok [OF laws, of "?b + HDR_SIZE" "body_len h + 4" ?c2 thesis]
        by (auto simp: total_needed_alt)
      have b: "buffer_use (body_len h + 4) (scratch_size ctx) ?c2 = ?c2" using cap by (simp add: buffer_use_def)
      show ?thesis
        using True Some in_region bad c c2 r2 b
        by (intro exI [of _ p2]) (subst scan_loop.simps, simp add: r body_len_def [symmetric] Let_def)
    qed
  qed
next
  case False
  then show ?thesis by (intro exI [of _ "partition ctx"]) (subst scan_loop.simps, simp)
qed

lemma blank_stops:
  assumes "\<And>i. base + off \<le> i \<Longrightarrow> i < base + lim \<Longrightarrow> m i = 0xFF"
  shows "log_stops m base lim cap off"
proof (cases "off + HDR_SIZE \<le> lim")
  case True
  then have "mem_read m (base + off) HDR_SIZE = replicate HDR_SIZE 0xFF"
    by (intro nth_equalityI) (auto intro!: assms)
  then show ?thesis by (simp add: log_stops_def blank_not_header)
qed (simp add: log_stops_def)

end
