(* ===== verification/Flashq_Frame.thy ===== *)
theory Flashq_Frame
  imports Flashq_Log
begin

text \<open>
  What the lowest-level operations leave alone and what they establish, for every device that
  obeys the laws.  \<open>frame c c'\<close> says that two contexts differ at most in the flash content
  and in the ghost field; the specifications of \<open>partition_write_verify\<close>, the erase helpers and
  \<open>append_locked\<close> are stated with it.
\<close>

section \<open>Frames\<close>

definition frame :: "'p flashq_ctx \<Rightarrow> 'p flashq_ctx \<Rightarrow> bool" where
  "frame c c' \<longleftrightarrow> c' = c\<lparr>partition := partition c', fault := fault c'\<rparr>"

lemma frame_refl [simp]: "frame c c"
  by (simp add: frame_def)

lemma frame_fields:
  assumes "frame c c'"
  shows "sectors_per_region c' = sectors_per_region c" "region_size c' = region_size c"
    "data_start c' = data_start c" "data_capacity c' = data_capacity c"
    "active_region c' = active_region c" "active_generation c' = active_generation c"
    "cursor c' = cursor c" "next_seq c' = next_seq c" "index c' = index c"
    "index_capacity c' = index_capacity c" "max_message_size c' = max_message_size c"
    "scratch_size c' = scratch_size c" "claim_scratch c' = claim_scratch c"
    "compactions_total c' = compactions_total c" "awaiting_gc_count c' = awaiting_gc_count c"
    "updates_since_compaction c' = updates_since_compaction c" "lock_created c' = lock_created c"
  using assms unfolding frame_def by (cases c; cases c'; simp)+

lemma frame_trans: "frame c c' \<Longrightarrow> frame c' c'' \<Longrightarrow> frame c c''"
  unfolding frame_def by (cases c; cases c'; cases c''; simp)

lemma frame_index: "frame c c' \<Longrightarrow> frame (c\<lparr>index := index c'\<rparr>) c'"
  unfolding frame_def by (cases c; cases c'; simp)

lemma frame_index_upd: "frame c c' \<Longrightarrow> frame (c\<lparr>index := ys\<rparr>) (c'\<lparr>index := ys\<rparr>)"
  unfolding frame_def by (cases c; cases c'; simp)

lemma frame_upd [simp]: "frame c (c\<lparr>partition := p\<rparr>)" "frame c (c\<lparr>fault := b\<rparr>)"
  "frame c (c\<lparr>partition := p, fault := b\<rparr>)"
  by (simp_all add: frame_def)

lemma frame_region_offset: "frame c c' \<Longrightarrow> region_offset c' r = region_offset c r"
  by (simp add: region_offset_def frame_fields)

lemma frame_buffer_use [simp]: "frame c (buffer_use n cap c)"
  by (simp add: buffer_use_def)

lemma buffer_use_fields [simp]:
  "partition (buffer_use n cap c) = partition c" "fault (buffer_use n cap c) = (fault c \<or> cap < n)"
  by (simp_all add: buffer_use_def)

lemma buffer_use_fits [simp]: "n \<le> cap \<Longrightarrow> buffer_use n cap c = c"
  by (simp add: buffer_use_def)

section \<open>Reads\<close>

lemma flash_read_spec:
  assumes "flash_laws F cells" "flash_read F c off len = (r, c')"
  shows "frame c c'" "cells (partition c') = cells (partition c)" "fault c' = fault c"
    and "r = Some bs \<Longrightarrow> bs = mem_read (cells (partition c)) off len"
proof -
  obtain p where p: "c' = c\<lparr>partition := p\<rparr>" "fl_read F (partition c) off len = (r, p)"
    using flash_read_frame [OF assms(2)] by blast
  show "frame c c'" "fault c' = fault c" by (simp_all add: p(1))
  show "cells (partition c') = cells (partition c)" by (simp add: p(1) read_cells [OF assms(1) p(2)])
  show "r = Some bs \<Longrightarrow> bs = mem_read (cells (partition c)) off len"
    using read_Some [OF assms(1)] p(2) by blast
qed

lemma region_header_read_spec:
  assumes "flash_laws F cells" "region_header_read F c r = (h, c')"
  shows "frame c c'" "cells (partition c') = cells (partition c)" "fault c' = fault c"
    and "h = None \<or> h = Some (let raw = mem_read (cells (partition c)) (region_offset c r) REGION_HDR_SIZE
                        in (region_hdr_of_bytes raw, bytes_all_ff raw))"
proof -
  obtain rr c1 where r: "flash_read F c (region_offset c r) REGION_HDR_SIZE = (rr, c1)"
    by (cases "flash_read F c (region_offset c r) REGION_HDR_SIZE") auto
  note s = flash_read_spec [OF assms(1) r]
  have h: "c' = c1" "h = map_option (\<lambda>raw. (region_hdr_of_bytes raw, bytes_all_ff raw)) rr"
    using assms(2) by (auto simp: region_header_read_def r split: option.splits)
  show "frame c c'" "cells (partition c') = cells (partition c)" "fault c' = fault c"
    using s(1-3) by (simp_all add: h)
  show "h = None \<or> h = Some (let raw = mem_read (cells (partition c)) (region_offset c r) REGION_HDR_SIZE
                        in (region_hdr_of_bytes raw, bytes_all_ff raw))"
    using s(4) by (cases rr) (auto simp: h Let_def)
qed

section \<open>Verified writes\<close>

lemma partition_write_verify_spec:
  assumes laws: "flash_laws F cells" and run: "partition_write_verify F c off data = (err, c')"
  shows "frame c c'"
    and "\<And>i. i < off \<or> off + length data \<le> i \<Longrightarrow> cells (partition c') i = cells (partition c) i"
    and "err = ESP_OK \<Longrightarrow> mem_read (cells (partition c')) off (length data) = data"
    and "length data \<le> scratch_size c \<Longrightarrow> fault c' = fault c"
    and "err = ESP_OK \<or> err = EDGESYNC_ERR_STORAGE"
    and "\<And>j. j < length data \<Longrightarrow>
          cells (partition c') (off + j) AND cells (partition c) (off + j) = cells (partition c') (off + j)"
    and "\<And>j. j < length data \<Longrightarrow>
          cells (partition c) (off + j) AND data ! j AND cells (partition c') (off + j) =
          cells (partition c) (off + j) AND data ! j"
proof -
  obtain ok p where w: "fl_write F (partition c) off data = (ok, p)"
    by (cases "fl_write F (partition c) off data") auto
  let ?c1 = "buffer_use (length data) (scratch_size c) (c\<lparr>partition := p\<rparr>)"
  obtain r c2 where rd: "flash_read F ?c1 off (length data) = (r, c2)"
    by (cases "flash_read F ?c1 off (length data)") auto
  note s = flash_read_spec [OF laws rd]
  have c': "c' = (if ok then c2 else c\<lparr>partition := p\<rparr>)"
    and err: "err = (if ok \<and> r = Some data then ESP_OK else EDGESYNC_ERR_STORAGE)"
    using run by (auto simp: partition_write_verify_def w rd Let_def split: if_splits)
  have cells: "cells (partition c') = cells p" using s(2) by (simp add: c')
  show "frame c c'"
    using frame_trans [OF _ s(1), of c] by (auto simp: c' buffer_use_def)
  show "cells (partition c') i = cells (partition c) i" if "i < off \<or> off + length data \<le> i" for i
    unfolding cells by (rule write_outside [OF laws w that])
  show "mem_read (cells (partition c')) off (length data) = data" if "err = ESP_OK"
  proof -
    have "r = Some data" using that by (auto simp: err split: if_splits)
    from s(4) [OF this] show ?thesis by (simp add: cells)
  qed
  show "length data \<le> scratch_size c \<Longrightarrow> fault c' = fault c"
    using s(3) by (auto simp: c')
  show "err = ESP_OK \<or> err = EDGESYNC_ERR_STORAGE" by (simp add: err)
  fix j assume j: "j < length data"
  show "cells (partition c') (off + j) AND cells (partition c) (off + j) = cells (partition c') (off + j)"
    unfolding cells by (rule write_bits(1) [OF laws w j])
  show "cells (partition c) (off + j) AND data ! j AND cells (partition c') (off + j) =
      cells (partition c) (off + j) AND data ! j"
    unfolding cells by (rule write_bits(2) [OF laws w j])
qed

text \<open>A reliable device stores what only clears bits of the old content.\<close>

lemma reliable_reads: "flash_reliable F sz \<Longrightarrow> reads_ok F sz"
  by (simp add: flash_reliable_def reads_ok_def)

lemma partition_write_verify_succeeds:
  assumes laws: "flash_laws F cells" and rel: "flash_reliable F sz" and fit: "off + length data \<le> sz"
    and bits: "\<And>j. j < length data \<Longrightarrow> cells (partition c) (off + j) AND data ! j = data ! j"
  shows "fst (partition_write_verify F c off data) = ESP_OK"
proof -
  obtain p where w: "fl_write F (partition c) off data = (True, p)"
    using rel fit unfolding flash_reliable_def by (metis (full_types) prod.collapse)
  have m: "mem_read (cells p) off (length data) = data"
    by (rule nth_equalityI) (simp_all add: write_bits(3) [OF laws w] bits)
  let ?c1 = "buffer_use (length data) (scratch_size c) (c\<lparr>partition := p\<rparr>)"
  obtain p' where "flash_read F ?c1 off (length data) =
      (Some (mem_read (cells (partition ?c1)) off (length data)), ?c1\<lparr>partition := p'\<rparr>)"
    using flash_read_ok [OF laws reliable_reads [OF rel] fit] by metis
  then show ?thesis by (simp add: partition_write_verify_def w m)
qed

section \<open>Erasing\<close>

lemma erase_region_spec:
  assumes laws: "flash_laws F cells" and run: "erase_region F c r = (err, c')"
  shows "frame c c'" "fault c' = fault c"
    and "\<And>i. i < region_offset c r \<or> region_offset c r + region_size c \<le> i \<Longrightarrow>
          cells (partition c') i = cells (partition c) i"
    and "\<And>i. err = ESP_OK \<Longrightarrow> region_offset c r \<le> i \<Longrightarrow> i < region_offset c r + region_size c \<Longrightarrow>
          cells (partition c') i = 0xFF"
    and "\<And>s. (\<forall>i<4096. cells (partition c') (s * 4096 + i) = cells (partition c) (s * 4096 + i)) \<or>
              (\<forall>i<4096. cells (partition c') (s * 4096 + i) = 0xFF)"
    and "err = ESP_OK \<or> err = EDGESYNC_ERR_STORAGE"
proof -
  obtain ok p where e: "fl_erase F (partition c) (region_offset c r) (region_size c) = (ok, p)"
    by (cases "fl_erase F (partition c) (region_offset c r) (region_size c)") auto
  have c': "c' = c\<lparr>partition := p\<rparr>" and err: "err = (if ok then ESP_OK else EDGESYNC_ERR_STORAGE)"
    using run by (auto simp: erase_region_def e)
  show "frame c c'" "fault c' = fault c" "err = ESP_OK \<or> err = EDGESYNC_ERR_STORAGE"
    by (simp_all add: c' err)
  show "cells (partition c') i = cells (partition c) i"
    if "i < region_offset c r \<or> region_offset c r + region_size c \<le> i" for i
    using erase_outside [OF laws e that] by (simp add: c')
  show "cells (partition c') i = 0xFF"
    if "err = ESP_OK" "region_offset c r \<le> i" "i < region_offset c r + region_size c" for i
  proof -
    have ok: "ok" using that(1) by (simp add: err split: if_splits)
    show ?thesis using erase_erases [OF laws _ that(2,3)] e ok by (simp add: c')
  qed
  show "(\<forall>i<4096. cells (partition c') (s * 4096 + i) = cells (partition c) (s * 4096 + i)) \<or>
        (\<forall>i<4096. cells (partition c') (s * 4096 + i) = 0xFF)" for s
    using erase_sector [OF laws e] by (simp add: c')
qed

lemma erase_region_succeeds:
  assumes "flash_reliable F sz" "region_offset c r + region_size c \<le> sz" "4096 dvd region_size c"
  shows "fst (erase_region F c r) = ESP_OK"
proof -
  have "4096 dvd region_offset c r" using assms(3) by (simp add: region_offset_def)
  then have "fst (fl_erase F (partition c) (region_offset c r) (region_size c))"
    using assms unfolding flash_reliable_def by blast
  then show ?thesis by (simp add: erase_region_def split_beta)
qed

definition blank_area :: "mem \<Rightarrow> nat \<Rightarrow> nat \<Rightarrow> bool" where
  "blank_area m a b \<longleftrightarrow> (\<forall>i. a \<le> i \<and> i < b \<longrightarrow> m i = 0xFF)"

lemma bytes_all_ff_mem_read: "bytes_all_ff (mem_read m off len) \<longleftrightarrow> blank_area m off (off + len)"
proof -
  have "bytes_all_ff (mem_read m off len) \<longleftrightarrow> (\<forall>j<len. m (off + j) = 0xFF)"
    by (simp add: bytes_all_ff_def list_all_length)
  also have "\<dots> \<longleftrightarrow> blank_area m off (off + len)"
    unfolding blank_area_def by (metis le_add1 le_add_diff_inverse nat_add_left_cancel_less)
  finally show ?thesis .
qed

lemma ensure_region_erased_spec:
  assumes laws: "flash_laws F cells" and run: "ensure_region_erased F c r = (err, c')"
  shows "frame c c'" "fault c' = fault c"
    and "\<And>i. i < region_offset c r \<or> region_offset c r + region_size c \<le> i \<Longrightarrow>
          cells (partition c') i = cells (partition c) i"
    and "err = ESP_OK \<Longrightarrow> blank_area (cells (partition c')) (region_offset c r) (region_offset c r + region_size c) \<or>
          (blank_area (cells (partition c)) (region_offset c r) (region_offset c r + REGION_HDR_SIZE) \<and>
           cells (partition c') = cells (partition c))"
    and "\<And>s. (\<forall>i<4096. cells (partition c') (s * 4096 + i) = cells (partition c) (s * 4096 + i)) \<or>
              (\<forall>i<4096. cells (partition c') (s * 4096 + i) = 0xFF)"
    and "err = ESP_OK \<or> err = EDGESYNC_ERR_STORAGE"
proof -
  obtain h c1 where hr: "region_header_read F c r = (h, c1)"
    by (cases "region_header_read F c r") auto
  note s = region_header_read_spec [OF laws hr]
  obtain e2 c2 where er: "erase_region F c1 r = (e2, c2)" by (cases "erase_region F c1 r") auto
  note t = erase_region_spec [OF laws er]
  have ro: "region_offset c1 r = region_offset c r" "region_size c1 = region_size c"
    using frame_region_offset [OF s(1)] frame_fields [OF s(1)] by simp_all
  consider (erase) "(err, c') = (e2, c2)"
    | (skip) "err = ESP_OK" "c' = c1" "blank_area (cells (partition c)) (region_offset c r) (region_offset c r + REGION_HDR_SIZE)"
  proof (cases "h = None")
    case True
    then show thesis using run er hr that(1) by (simp add: ensure_region_erased_def)
  next
    case False
    let ?raw = "mem_read (cells (partition c)) (region_offset c r) REGION_HDR_SIZE"
    have h: "h = Some (region_hdr_of_bytes ?raw, bytes_all_ff ?raw)" using s(4) False by (simp add: Let_def)
    show thesis
    proof (cases "bytes_all_ff ?raw")
      case True
      then show thesis using run hr h that(2) by (simp add: ensure_region_erased_def bytes_all_ff_mem_read)
    next
      case False
      then show thesis using run hr h er that(1) by (simp add: ensure_region_erased_def)
    qed
  qed
  note two = this
  show "frame c c'" using two by cases (use frame_trans [OF s(1) t(1)] s(1) in auto)
  show "fault c' = fault c" using two by cases (use s t in auto)
  show "err = ESP_OK \<or> err = EDGESYNC_ERR_STORAGE" using two by cases (use t in auto)
  show "cells (partition c') i = cells (partition c) i"
    if "i < region_offset c r \<or> region_offset c r + region_size c \<le> i" for i
    using two by cases (use t(3) s(2) ro that in auto)
  show "(\<forall>i<4096. cells (partition c') (s * 4096 + i) = cells (partition c) (s * 4096 + i)) \<or>
        (\<forall>i<4096. cells (partition c') (s * 4096 + i) = 0xFF)" for s
    using two by cases (use t(5) s(2) in auto)
  show "blank_area (cells (partition c')) (region_offset c r) (region_offset c r + region_size c) \<or>
          (blank_area (cells (partition c)) (region_offset c r) (region_offset c r + REGION_HDR_SIZE) \<and>
           cells (partition c') = cells (partition c))" if "err = ESP_OK"
    using two by cases (use t(4) s(2) ro that in \<open>auto simp: blank_area_def\<close>)
qed

end
