(* ===== verification/Flashq_Compact.thy ===== *)
theory Flashq_Compact
  imports Flashq_Frame
begin

text \<open>
  Compaction.  The copy loop is followed entry by entry: what it reads from the source region,
  the records it leaves in the target region and where the index entries point afterwards.
\<close>

section \<open>Entries and the records they point to\<close>

definition entry_dlen :: "index_entry \<Rightarrow> nat" where
  "entry_dlen e = unat (e_destination_len e)"

definition entry_plen :: "index_entry \<Rightarrow> nat" where
  "entry_plen e = unat (e_payload_len e)"

definition entry_size :: "index_entry \<Rightarrow> nat" where
  "entry_size e = record_total_size (entry_dlen e) (entry_plen e)"

definition live_size :: "index_entry list \<Rightarrow> nat" where
  "live_size es = sum_list (map entry_size es)"

text \<open>Destination and payload, as the flash holds them.\<close>

definition entry_body :: "mem \<Rightarrow> nat \<Rightarrow> index_entry \<Rightarrow> byte list" where
  "entry_body m base e = mem_read m (base + e_message_offset e + HDR_SIZE) (entry_dlen e + entry_plen e)"

definition entry_dest :: "mem \<Rightarrow> nat \<Rightarrow> index_entry \<Rightarrow> byte list" where
  "entry_dest m base e = take (entry_dlen e) (entry_body m base e)"

definition entry_payload :: "mem \<Rightarrow> nat \<Rightarrow> index_entry \<Rightarrow> byte list" where
  "entry_payload m base e = drop (entry_dlen e) (entry_body m base e)"

text \<open>The entry's record lies in its region, holds a C string, and fits the scratch buffer.\<close>

definition entry_fits :: "mem \<Rightarrow> nat \<Rightarrow> nat \<Rightarrow> nat \<Rightarrow> index_entry \<Rightarrow> bool" where
  "entry_fits m base lim cap e \<longleftrightarrow> e_message_offset e + entry_size e \<le> lim \<and> entry_dlen e \<le> 63 \<and>
     0 \<notin> set (entry_dest m base e) \<and> entry_size e \<le> cap"

definition compact_hdr :: "index_entry \<Rightarrow> u32 \<Rightarrow> record_hdr" where
  "compact_hdr e s = zero_hdr\<lparr>h_seq := s, h_type := REC_MESSAGE, h_state := e_state e,
     h_priority := e_priority e, h_message_id := e_id e, h_attempt_count := e_attempt_count e,
     h_created_at_us := e_created_at_us e, h_last_attempt_at_us := e_last_attempt_at_us e,
     h_next_retry_at_us := e_next_retry_at_us e, h_last_error := e_last_error e\<rparr>"

definition sealed :: "index_entry \<Rightarrow> u32 \<Rightarrow> record_hdr" where
  "sealed e s = seal_hdr (compact_hdr e s) (entry_dlen e) (entry_plen e)"

fun sealed_list :: "u32 \<Rightarrow> index_entry list \<Rightarrow> record_hdr list" where
  "sealed_list s [] = []"
| "sealed_list s (e # es) = sealed e s # sealed_list (s + 1) es"

fun relocate :: "nat \<Rightarrow> index_entry list \<Rightarrow> index_entry list" where
  "relocate off [] = []"
| "relocate off (e # es) = e\<lparr>e_message_offset := off\<rparr> # relocate (off + entry_size e) es"

lemma entry_size_ge: "HDR_SIZE + (entry_dlen e + entry_plen e) + 4 \<le> entry_size e"
  using record_total_size_ge [of "entry_dlen e" "entry_plen e"] by (simp add: entry_size_def)

lemma entry_dlen_lt: "entry_dlen e < 2 ^ 16"
  using unsigned_less [of "e_destination_len e", where ?'a = nat] by (simp add: entry_dlen_def)

lemma entry_plen_lt: "entry_plen e < 2 ^ 32"
  using unsigned_less [of "e_payload_len e", where ?'a = nat] by (simp add: entry_plen_def)

lemma length_entry_parts [simp]:
  "length (entry_body m base e) = entry_dlen e + entry_plen e"
  "length (entry_dest m base e) = entry_dlen e"
  "length (entry_payload m base e) = entry_plen e"
  by (simp_all add: entry_body_def entry_dest_def entry_payload_def)

lemma entry_body_split: "entry_body m base e = entry_dest m base e @ entry_payload m base e"
  by (simp add: entry_dest_def entry_payload_def)

lemma rec_len_sealed: "rec_len (sealed e s) = entry_size e"
  using entry_dlen_lt [of e] entry_plen_lt [of e]
  by (simp add: rec_len_alt sealed_def unat_of_nat_16 unat_of_nat_32 entry_size_def)

lemma live_size_simps [simp]: "live_size [] = 0" "live_size (e # es) = entry_size e + live_size es"
  "live_size (es @ es') = live_size es + live_size es'"
  by (simp_all add: live_size_def)

lemma log_end_sealed: "log_end off (sealed_list s es) = off + live_size es"
  by (induction es arbitrary: off s) (simp_all add: rec_len_sealed add.assoc)

lemma sealed_list_set: "h \<in> set (sealed_list s es) \<Longrightarrow> \<exists>e\<in>set es. \<exists>s'. h = sealed e s'"
  by (induction es arbitrary: s) auto

lemma length_relocate [simp]: "length (relocate off es) = length es"
  by (induction es arbitrary: off) auto

lemma entry_body_cong:
  assumes "\<And>i. base + e_message_offset e \<le> i \<Longrightarrow> i < base + e_message_offset e + entry_size e \<Longrightarrow> m' i = m i"
  shows "entry_body m' base e = entry_body m base e" "entry_dest m' base e = entry_dest m base e"
    "entry_payload m' base e = entry_payload m base e"
proof -
  show b: "entry_body m' base e = entry_body m base e"
    unfolding entry_body_def using entry_size_ge [of e] by (intro mem_read_cong assms) linarith+
  show "entry_dest m' base e = entry_dest m base e" "entry_payload m' base e = entry_payload m base e"
    by (simp_all add: entry_dest_def entry_payload_def b)
qed

lemma entry_size_offset [simp]:
  "entry_size (e\<lparr>e_message_offset := off\<rparr>) = entry_size e"
  "entry_dlen (e\<lparr>e_message_offset := off\<rparr>) = entry_dlen e"
  "entry_plen (e\<lparr>e_message_offset := off\<rparr>) = entry_plen e"
  by (simp_all add: entry_size_def entry_dlen_def entry_plen_def)

lemma live_size_relocate [simp]: "live_size (relocate off es) = live_size es"
  by (induction es arbitrary: off) simp_all

lemma relocate_range:
  assumes "e \<in> set (relocate off es)"
  shows "off \<le> e_message_offset e \<and> e_message_offset e + entry_size e \<le> off + live_size es"
  using assms
proof (induction es arbitrary: off)
  case (Cons a es)
  show ?case
  proof (cases "e \<in> set (relocate (off + entry_size a) es)")
    case True
    from Cons.IH [OF this] show ?thesis by simp
  next
    case False
    then show ?thesis using Cons.prems by auto
  qed
qed simp

lemma entry_bodies_cong:
  assumes "\<And>i. i < base + off + live_size es \<Longrightarrow> m' i = m i"
  shows "map (entry_body m' base) (relocate off es) = map (entry_body m base) (relocate off es)"
proof (rule map_cong [OF refl])
  fix e assume "e \<in> set (relocate off es)"
  from relocate_range [OF this] show "entry_body m' base e = entry_body m base e"
    by (intro entry_body_cong assms) linarith
qed

lemma entry_fits_cong:
  assumes "entry_fits m base lim cap e" "\<And>i. base \<le> i \<Longrightarrow> i < base + lim \<Longrightarrow> m' i = m i"
  shows "entry_fits m' base lim cap e"
proof -
  have "e_message_offset e + entry_size e \<le> lim" using assms(1) by (simp add: entry_fits_def)
  then have "entry_dest m' base e = entry_dest m base e" by (intro entry_body_cong assms(2)) linarith+
  then show ?thesis using assms(1) by (simp add: entry_fits_def)
qed

section \<open>One turn of the copy loop\<close>

declare compact_loop.simps(2) [simp del]

lemma compact_step:
  assumes laws: "flash_laws F cells"
    and fit: "entry_fits (cells (partition c)) (region_offset c source) (region_size c) (scratch_size c) (index c ! i)"
  defines "e \<equiv> index c ! i"
  shows "(\<exists>err c1. err \<noteq> ESP_OK \<and> compact_loop F source target (i # js) c cur s = (err, c1, cur, s) \<and>
            frame c c1 \<and> cells (partition c1) = cells (partition c) \<and> fault c1 = fault c \<and>
            fst (flash_read F c (region_offset c source + e_message_offset e) (HDR_SIZE + (entry_dlen e + entry_plen e))) = None) \<or>
    (\<exists>c1 bs. frame c c1 \<and> cells (partition c1) = cells (partition c) \<and> fault c1 = fault c \<and>
       encode_common (scratch_size c) (compact_hdr e s)
         (entry_dest (cells (partition c)) (region_offset c source) e)
         (entry_payload (cells (partition c)) (region_offset c source) e) = Some bs \<and>
       compact_loop F source target (i # js) c cur s =
         (let (err, c2) = partition_write_verify F c1 (region_offset c target + cur) bs
          in if err \<noteq> ESP_OK then (err, c2, cur, s)
             else compact_loop F source target js
                    (c2\<lparr>index := (index c2)[i := e\<lparr>e_message_offset := cur\<rparr>]\<rparr>) (cur + length bs) (s + 1)))"
proof -
  let ?m = "cells (partition c)" and ?b = "region_offset c source"
  let ?d = "entry_dlen e" and ?p = "entry_plen e"
  have d: "?d \<le> 63" "0 \<notin> set (entry_dest ?m ?b e)" and sz: "entry_size e \<le> scratch_size c"
    using fit by (auto simp: entry_fits_def e_def)
  have cap: "HDR_SIZE + (?d + ?p) \<le> scratch_size c" using sz entry_size_ge [of e] by linarith
  obtain r c1 where rd: "flash_read F c (?b + e_message_offset e) (HDR_SIZE + (?d + ?p)) = (r, c1)"
    by (cases "flash_read F c (?b + e_message_offset e) (HDR_SIZE + (?d + ?p))") auto
  note s1 = flash_read_spec [OF laws rd]
  note f1 = frame_fields [OF s1(1)] frame_region_offset [OF s1(1)]
  note loop = compact_loop.simps(2) [of F source target i js c cur s, unfolded Let_def,
      folded e_def, folded entry_dlen_def entry_plen_def, unfolded buffer_use_fits [OF cap] rd]
  show ?thesis
  proof (cases r)
    case None
    then have "compact_loop F source target (i # js) c cur s = (EDGESYNC_ERR_STORAGE, c1, cur, s)"
      by (simp add: loop)
    then show ?thesis using s1(1-3) rd None by (intro disjI1 exI [of _ EDGESYNC_ERR_STORAGE] exI [of _ c1]) simp
  next
    case (Some raw)
    have raw: "raw = mem_read ?m (?b + e_message_offset e) (HDR_SIZE + (?d + ?p))"
      using s1(4) [OF Some] .
    have dest: "take ?d (drop HDR_SIZE raw) = entry_dest ?m ?b e"
      by (simp add: raw drop_mem_read entry_dest_def entry_body_def)
    have "take ?p (drop (HDR_SIZE + ?d) raw) = drop ?d (drop HDR_SIZE raw)"
      by (simp add: raw drop_mem_read add.commute add.left_commute)
    then have pay: "take ?p (drop (HDR_SIZE + ?d) raw) = entry_payload ?m ?b e"
      by (simp add: raw drop_mem_read entry_payload_def entry_body_def)
    have "record_total_size (length (entry_dest ?m ?b e)) (length (entry_payload ?m ?b e)) \<le> scratch_size c"
      using sz by (simp add: entry_size_def)
    then obtain bs where bs: "encode_common (scratch_size c) (compact_hdr e s)
         (entry_dest ?m ?b e) (entry_payload ?m ?b e) = Some bs"
      using encode_common_succeeds by blast
    have full: "encode_message_full (scratch_size c) (e_id e) (entry_dest ?m ?b e) (e_priority e) (e_state e)
                  (e_attempt_count e) (e_created_at_us e) (e_last_attempt_at_us e)
                  (e_next_retry_at_us e) (e_last_error e) (entry_payload ?m ?b e) s = Some bs"
      using bs d by (simp add: encode_message_full_def compact_hdr_def)
    have "compact_loop F source target (i # js) c cur s =
         (let (err, c2) = partition_write_verify F c1 (region_offset c target + cur) bs
          in if err \<noteq> ESP_OK then (err, c2, cur, s)
             else compact_loop F source target js
                    (c2\<lparr>index := (index c2)[i := e\<lparr>e_message_offset := cur\<rparr>]\<rparr>) (cur + length bs) (s + 1))"
      unfolding loop using d(1) by (simp add: Some dest pay full f1)
    then show ?thesis using s1(1-3) bs by blast
  qed
qed

section \<open>The whole copy loop\<close>

definition disjoint_regions :: "'p flashq_ctx \<Rightarrow> nat \<Rightarrow> nat \<Rightarrow> bool" where
  "disjoint_regions c r r' \<longleftrightarrow> region_offset c r + region_size c \<le> region_offset c r' \<or>
     region_offset c r' + region_size c \<le> region_offset c r"

lemma disjoint_regions_neq: "r \<noteq> r' \<Longrightarrow> disjoint_regions c r r'"
proof -
  assume "r \<noteq> r'"
  then consider "Suc r \<le> r'" | "Suc r' \<le> r" by linarith
  then show ?thesis
  proof cases
    case 1
    then have "Suc r * region_size c \<le> r' * region_size c" by (rule mult_le_mono1)
    then show ?thesis by (simp add: disjoint_regions_def region_offset_def add.commute)
  next
    case 2
    then have "Suc r' * region_size c \<le> r * region_size c" by (rule mult_le_mono1)
    then show ?thesis by (simp add: disjoint_regions_def region_offset_def add.commute)
  qed
qed

text \<open>
  What the loop guarantees: for every outcome it writes only behind the cursor of the target
  region and changes nothing of the state but the index; when it succeeds, the target holds
  one MESSAGE record per entry, with the entry's state and the same destination and payload,
  and every entry points to its new record.
\<close>

definition compacted ::
  "('p \<Rightarrow> mem) \<Rightarrow> nat \<Rightarrow> nat \<Rightarrow> nat \<Rightarrow> nat \<Rightarrow> u32 \<Rightarrow> 'p flashq_ctx \<Rightarrow> esp_err \<times> 'p flashq_ctx \<times> nat \<times> u32 \<Rightarrow> bool" where
  "compacted cells source target n cur s c res \<longleftrightarrow> (case res of (err, c', cur', s') \<Rightarrow>
     (let es = drop n (index c); m = cells (partition c); m' = cells (partition c');
          tb = region_offset c target; sb = region_offset c source
      in frame (c\<lparr>index := index c'\<rparr>) c' \<and> fault c' = fault c \<and> length (index c') = length (index c) \<and>
         (\<forall>i. i < tb + cur \<or> tb + region_size c \<le> i \<longrightarrow> m' i = m i) \<and>
         (err = ESP_OK \<longrightarrow> index c' = take n (index c) @ relocate cur es \<and> cur' = cur + live_size es \<and>
            s' = s + of_nat (length es) \<and> log_ok m' tb (region_size c) cur (sealed_list s es) \<and>
            (\<forall>i. tb + cur' \<le> i \<longrightarrow> m' i = m i) \<and>
            map (entry_body m' tb) (relocate cur es) = map (entry_body m sb) es)))"

lemma compacted_failed:
  assumes "err \<noteq> ESP_OK" "frame c c'" "fault c' = fault c"
    and "\<And>i. i < region_offset c target + cur \<or> region_offset c target + region_size c \<le> i \<Longrightarrow>
           cells (partition c') i = cells (partition c) i"
  shows "compacted cells source target n cur s c (err, c', cur', s')"
proof -
  have "frame (c\<lparr>index := index c'\<rparr>) c'" using assms(2) by (rule frame_index)
  then show ?thesis using assms frame_fields(9) [OF assms(2)] by (simp add: compacted_def Let_def)
qed

lemma compacted_step:
  assumes laws: "flash_laws F cells" and n: "n < length (index c)" and e_def: "e = index c ! n"
    and disj: "disjoint_regions c source target"
    and fits: "\<forall>e\<in>set (drop n (index c)).
        entry_fits (cells (partition c)) (region_offset c source) (region_size c) (scratch_size c) e"
    and space: "cur + live_size (drop n (index c)) \<le> region_size c"
    and c1: "frame c c1" "cells (partition c1) = cells (partition c)" "fault c1 = fault c"
    and enc: "encode_common (scratch_size c) (compact_hdr e s)
         (entry_dest (cells (partition c)) (region_offset c source) e)
         (entry_payload (cells (partition c)) (region_offset c source) e) = Some bs"
    and w: "partition_write_verify F c1 (region_offset c target + cur) bs = (ESP_OK, c2)"
    and c3: "c3 = c2\<lparr>index := (index c2)[n := e\<lparr>e_message_offset := cur\<rparr>]\<rparr>"
  shows "\<forall>e\<in>set (drop (Suc n) (index c3)).
        entry_fits (cells (partition c3)) (region_offset c3 source) (region_size c3) (scratch_size c3) e"
    and "compacted cells source target (Suc n) (cur + length bs) (s + 1) c3 res \<Longrightarrow>
         compacted cells source target n cur s c res"
proof -
  let ?m = "cells (partition c)" and ?m2 = "cells (partition c2)"
  let ?tb = "region_offset c target" and ?sb = "region_offset c source" and ?rs = "region_size c"
  note ws = partition_write_verify_spec [OF laws w]
  have fr2: "frame c c2" by (rule frame_trans [OF c1(1) ws(1)])
  note ff = frame_fields [OF fr2] frame_region_offset [OF fr2]
  have ro3: "region_offset c3 r = region_offset c r" for r by (simp add: c3 region_offset_def ff)
  have dn: "drop n (index c) = e # drop (Suc n) (index c)" using n by (simp add: e_def Cons_nth_drop_Suc)
  have len: "length bs = entry_size e"
    using encode_common_Some(1) [OF enc] by (simp add: entry_size_def)
  have cap: "length bs \<le> scratch_size c" by (rule encode_common_Some(2) [OF enc])
  have room: "cur + entry_size e \<le> ?rs" using space by (simp add: dn)
  have out: "?m2 i = ?m i" if "i < ?tb + cur \<or> ?tb + cur + length bs \<le> i" for i
    using ws(2) that by (simp add: c1(2))
  have src: "?m2 i = ?m i" if "?sb \<le> i" "i < ?sb + ?rs" for i
    using that disj room len by (intro out) (auto simp: disjoint_regions_def)
  have fit2: "entry_fits ?m2 ?sb ?rs (scratch_size c) f" if "f \<in> set (drop n (index c))" for f
  proof (rule entry_fits_cong)
    show "entry_fits ?m ?sb ?rs (scratch_size c) f" using fits that by (rule bspec)
  qed (rule src)
  have p3: "cells (partition c3) = ?m2" "region_size c3 = ?rs" "scratch_size c3 = scratch_size c"
    by (simp_all add: c3 ff)
  have dn3: "drop (Suc n) (index c3) = drop (Suc n) (index c)" by (simp add: c3 ff)
  show "\<forall>e\<in>set (drop (Suc n) (index c3)).
        entry_fits (cells (partition c3)) (region_offset c3 source) (region_size c3) (scratch_size c3) e"
  proof
    fix f assume "f \<in> set (drop (Suc n) (index c3))"
    then have "f \<in> set (drop n (index c))" unfolding dn3 dn by simp
    then show "entry_fits (cells (partition c3)) (region_offset c3 source) (region_size c3) (scratch_size c3) f"
      unfolding ro3 p3 by (rule fit2)
  qed
  have cap3: "fault c3 = fault c" using ws(4) cap c1(3) frame_fields [OF c1(1)] by (simp add: c3)
  assume "compacted cells source target (Suc n) (cur + length bs) (s + 1) c3 res"
  then obtain err c' cur' s' where res: "res = (err, c', cur', s')"
    and ih: "frame (c3\<lparr>index := index c'\<rparr>) c'" "fault c' = fault c3" "length (index c') = length (index c3)"
      "\<And>i. i < ?tb + (cur + length bs) \<or> ?tb + region_size c3 \<le> i \<Longrightarrow> cells (partition c') i = cells (partition c3) i"
    and ok: "err = ESP_OK \<Longrightarrow> index c' = take (Suc n) (index c3) @ relocate (cur + length bs) (drop (Suc n) (index c)) \<and>
          cur' = cur + length bs + live_size (drop (Suc n) (index c)) \<and>
          s' = s + 1 + of_nat (length (drop (Suc n) (index c))) \<and>
          log_ok (cells (partition c')) ?tb (region_size c3) (cur + length bs) (sealed_list (s + 1) (drop (Suc n) (index c))) \<and>
          (\<forall>i. ?tb + cur' \<le> i \<longrightarrow> cells (partition c') i = cells (partition c3) i) \<and>
          map (entry_body (cells (partition c')) ?tb) (relocate (cur + length bs) (drop (Suc n) (index c))) =
          map (entry_body (cells (partition c3)) ?sb) (drop (Suc n) (index c))"
    unfolding compacted_def Let_def dn3 ro3 by (cases res) auto
  let ?m' = "cells (partition c')"
  have fr: "frame (c\<lparr>index := index c'\<rparr>) c'"
    using frame_trans [OF frame_index_upd [OF fr2]] ih(1) by (simp add: c3)
  have out': "?m' i = ?m i" if "i < ?tb + cur \<or> ?tb + ?rs \<le> i" for i
  proof -
    have "i < ?tb + cur \<or> ?tb + cur + length bs \<le> i" using that room len by linarith
    moreover have "i < ?tb + (cur + length bs) \<or> ?tb + ?rs \<le> i" using that by linarith
    ultimately show ?thesis using out [of i] ih(4) [of i] by (simp only: p3)
  qed
  show "compacted cells source target n cur s c res"
  proof (cases "err = ESP_OK")
    case False
    then show ?thesis using fr ih(2,3) cap3 out' by (simp add: compacted_def res c3 ff)
  next
    case True
    note ok' = ok [OF True, unfolded p3]
    let ?e' = "e\<lparr>e_message_offset := cur\<rparr>"
    have rd: "mem_read ?m' (?tb + cur) (length bs) = bs"
    proof -
      have "mem_read ?m' (?tb + cur) (length bs) = mem_read ?m2 (?tb + cur) (length bs)"
        by (rule mem_read_cong) (use ih(4) in \<open>simp add: p3\<close>)
      then show ?thesis using ws(3) by simp
    qed
    have lens: "length (entry_dest ?m ?sb e) < 2 ^ 16" "length (entry_payload ?m ?sb e) < 2 ^ 32"
      using entry_dlen_lt entry_plen_lt by simp_all
    have h: "seal_hdr (compact_hdr e s) (length (entry_dest ?m ?sb e)) (length (entry_payload ?m ?sb e)) = sealed e s"
      by (simp add: sealed_def)
    note rec = rec_ok_encoded [OF enc lens rd, of ?rs, unfolded h]
    have bl: "body_len (sealed e s) = entry_dlen e + entry_plen e"
      using entry_dlen_lt [of e] entry_plen_lt [of e]
      by (simp add: body_len_def sealed_def unat_of_nat_16 unat_of_nat_32)
    have rok: "rec_ok ?m' ?tb ?rs cur (sealed e s)" using rec(1) room len by simp
    have "mem_read ?m' (?tb + cur + HDR_SIZE) (entry_dlen e + entry_plen e) =
        entry_dest ?m ?sb e @ entry_payload ?m ?sb e"
      using rec(3) room len by (simp add: bl)
    then have "entry_body ?m' ?tb ?e' = entry_dest ?m ?sb e @ entry_payload ?m ?sb e"
      unfolding entry_body_def by (simp add: entry_dlen_def entry_plen_def)
    then have body: "entry_body ?m' ?tb ?e' = entry_body ?m ?sb e" unfolding entry_body_split [of ?m] .
    have bodies: "map (entry_body ?m2 ?sb) (drop (Suc n) (index c)) = map (entry_body ?m ?sb) (drop (Suc n) (index c))"
    proof (rule map_cong [OF refl])
      fix f assume "f \<in> set (drop (Suc n) (index c))"
      then have "e_message_offset f + entry_size f \<le> ?rs" using fits by (auto simp: dn entry_fits_def)
      then show "entry_body ?m2 ?sb f = entry_body ?m ?sb f" by (intro entry_body_cong src) linarith+
    qed
    have idx: "take (Suc n) ((index c)[n := ?e']) = take n (index c) @ [?e']"
      using n by (simp add: take_Suc_conv_app_nth)
    have tail: "?m' i = ?m i" if "?tb + cur' \<le> i" for i
      using that ok' out [of i] by (simp add: p3) 
    show ?thesis
      using fr ih(2,3) cap3 out' ok' body bodies rok tail
      by (simp add: compacted_def res Let_def c3 ff dn idx len rec_len_sealed add.assoc add.left_commute)
  qed
qed

lemma compact_loop_spec:
  assumes "flash_laws F cells" "n \<le> length (index c)" "disjoint_regions c source target"
    and "\<forall>e\<in>set (drop n (index c)).
        entry_fits (cells (partition c)) (region_offset c source) (region_size c) (scratch_size c) e"
    and "cur + live_size (drop n (index c)) \<le> region_size c"
  shows "compacted cells source target n cur s c
           (compact_loop F source target [n..<length (index c)] c cur s)"
  using assms(2-)
proof (induction "length (index c) - n" arbitrary: n c cur s)
  case 0
  then show ?case by (simp add: compacted_def)
next
  case (Suc k)
  then have n: "n < length (index c)" by simp
  let ?e = "index c ! n"
  have l: "[n..<length (index c)] = n # [Suc n..<length (index c)]" using n by (rule upt_conv_Cons)
  have fit: "entry_fits (cells (partition c)) (region_offset c source) (region_size c) (scratch_size c) ?e"
    using Suc.prems(3) n by (simp add: Cons_nth_drop_Suc [symmetric])
  from compact_step [OF assms(1) fit, of target "[Suc n..<length (index c)]" cur s]
  consider (fail) err c1 where "err \<noteq> ESP_OK"
      "compact_loop F source target [n..<length (index c)] c cur s = (err, c1, cur, s)"
      "frame c c1" "cells (partition c1) = cells (partition c)" "fault c1 = fault c"
    | (go) c1 bs where "frame c c1" "cells (partition c1) = cells (partition c)" "fault c1 = fault c"
      "encode_common (scratch_size c) (compact_hdr ?e s)
         (entry_dest (cells (partition c)) (region_offset c source) ?e)
         (entry_payload (cells (partition c)) (region_offset c source) ?e) = Some bs"
      "compact_loop F source target [n..<length (index c)] c cur s =
         (let (err, c2) = partition_write_verify F c1 (region_offset c target + cur) bs
          in if err \<noteq> ESP_OK then (err, c2, cur, s)
             else compact_loop F source target [Suc n..<length (index c)]
                    (c2\<lparr>index := (index c2)[n := ?e\<lparr>e_message_offset := cur\<rparr>]\<rparr>) (cur + length bs) (s + 1))"
    unfolding l by blast
  then show ?case
  proof cases
    case fail
    then show ?thesis by (simp add: compacted_failed)
  next
    case go
    obtain err c2 where w: "partition_write_verify F c1 (region_offset c target + cur) bs = (err, c2)"
      by (cases "partition_write_verify F c1 (region_offset c target + cur) bs") auto
    note ws = partition_write_verify_spec [OF assms(1) w]
    have fr2: "frame c c2" by (rule frame_trans [OF go(1) ws(1)])
    have dn: "drop n (index c) = ?e # drop (Suc n) (index c)" using n by (simp add: Cons_nth_drop_Suc)
    have len: "length bs = entry_size ?e"
      using encode_common_Some(1) [OF go(4)] by (simp add: entry_size_def)
    show ?thesis
    proof (cases "err = ESP_OK")
      case False
      have "fault c2 = fault c"
        using ws(4) encode_common_Some(2) [OF go(4)] go(3) frame_fields [OF go(1)] by simp
      moreover have "cells (partition c2) i = cells (partition c) i"
        if "i < region_offset c target + cur \<or> region_offset c target + region_size c \<le> i" for i
        using that ws(2) [of i] go(2) Suc.prems(4) len by (simp add: dn) linarith
      ultimately show ?thesis using go(5) w False fr2 by (simp add: compacted_failed)
    next
      case True
      define c3 where "c3 = c2\<lparr>index := (index c2)[n := ?e\<lparr>e_message_offset := cur\<rparr>]\<rparr>"
      note step = compacted_step [OF assms(1) n refl Suc.prems(2,3,4) go(1-4) w [unfolded True] c3_def]
      have l3: "length (index c3) = length (index c)" "region_size c3 = region_size c"
        "drop (Suc n) (index c3) = drop (Suc n) (index c)" "disjoint_regions c3 source target"
        using Suc.prems(2) by (simp_all add: c3_def frame_fields [OF fr2] disjoint_regions_def region_offset_def)
      have "compacted cells source target (Suc n) (cur + length bs) (s + 1) c3
              (compact_loop F source target [Suc n..<length (index c3)] c3 (cur + length bs) (s + 1))"
        using Suc.hyps(2) n Suc.prems(4) step(1) l3 by (intro Suc.hyps(1)) (simp_all add: dn len)
      then show ?thesis using step(2) go(5) w True l3 by (simp add: c3_def)
    qed
  qed
qed

end
