(* ===== verification/Flashq_Switch.thy ===== *)
theory Flashq_Switch
  imports Flashq_Compact
begin

text \<open>
  Region headers and the switch of the active region: \<open>compact_locked\<close> followed through all its
  stages, for every device that obeys the laws.  Whatever fails, the source region keeps its
  content and the target becomes ACTIVE only with a complete copy in it.
\<close>

section \<open>Region headers\<close>

abbreviation header_at :: "mem \<Rightarrow> nat \<Rightarrow> byte list" where
  "header_at m base \<equiv> mem_read m base REGION_HDR_SIZE"

abbreviation active_hdr :: "u32 \<Rightarrow> byte list" where
  "active_hdr gen \<equiv> region_hdr_bytes (fresh_region_hdr gen STATUS_ACTIVE)"

text \<open>A header that recovery would take for an ACTIVE region at least as new as \<open>gen\<close>.\<close>

definition rivals :: "u32 \<Rightarrow> byte list \<Rightarrow> bool" where
  "rivals gen raw \<longleftrightarrow> (let h = region_hdr_of_bytes raw
     in rh_magic h = HDR_MAGIC \<and> rh_status h = STATUS_ACTIVE \<and> rh_generation h \<ge> gen)"

lemma fresh_hdr_of_bytes [simp]:
  "region_hdr_of_bytes (region_hdr_bytes (fresh_region_hdr g st)) = fresh_region_hdr g st"
  by (rule region_hdr_of_bytes_inv) (simp add: fresh_region_hdr_def)

lemma fresh_hdr_fields [simp]:
  "rh_magic (fresh_region_hdr g st) = HDR_MAGIC" "rh_generation (fresh_region_hdr g st) = g"
  "rh_status (fresh_region_hdr g st) = st"
  by (simp_all add: fresh_region_hdr_def)

lemma length_fresh_hdr [simp]: "length (region_hdr_bytes (fresh_region_hdr g st)) = REGION_HDR_SIZE"
  by (simp add: region_hdr_bytes_def fresh_region_hdr_def)

lemma le_bytes_1 [simp]: "le_bytes (Suc 0) (w :: u8) = [w]"
  by (simp add: le_bytes_def)

lemma fresh_hdr_status:
  "region_hdr_bytes (fresh_region_hdr g st') = (region_hdr_bytes (fresh_region_hdr g st))[REGION_STATUS_OFFSET := st']"
  by (simp add: region_hdr_bytes_def fresh_region_hdr_def list_update_append)

lemma nth_fresh_hdr_status: "region_hdr_bytes (fresh_region_hdr g st) ! 8 = st"
  by (simp add: region_hdr_bytes_def fresh_region_hdr_def nth_append)

lemma nth_fresh_hdr_0: "region_hdr_bytes (fresh_region_hdr g st) ! 0 = 0x48"
  by (simp add: region_hdr_bytes_def fresh_region_hdr_def nth_append nth_le_bytes)

lemma fresh_hdr_not_blank: "\<not> bytes_all_ff (region_hdr_bytes (fresh_region_hdr g st))"
proof
  assume "bytes_all_ff (region_hdr_bytes (fresh_region_hdr g st))"
  then have "region_hdr_bytes (fresh_region_hdr g st) ! 0 = 0xFF"
    unfolding bytes_all_ff_def list_all_length by simp
  then show False unfolding nth_fresh_hdr_0 by simp
qed

lemma rh_status_nth: "length raw = REGION_HDR_SIZE \<Longrightarrow> rh_status (region_hdr_of_bytes raw) = raw ! 8"
proof -
  assume "length raw = REGION_HDR_SIZE"
  then have t: "take 1 (drop 8 raw) = le_bytes 1 (raw ! 8)"
    by (cases "drop 8 raw") (auto simp: drop_eq_Nil nth_via_drop)
  show ?thesis unfolding region_hdr_of_bytes_def t by (simp add: le_word_le_bytes del: le_bytes_1)
qed

lemma rivals_status: "length raw = REGION_HDR_SIZE \<Longrightarrow> raw ! 8 \<noteq> STATUS_ACTIVE \<Longrightarrow> \<not> rivals gen raw"
  by (simp add: rivals_def Let_def rh_status_nth)

lemma blank_not_rival: "\<not> rivals gen (replicate 12 0xFF)"
  by (rule rivals_status) simp_all

text \<open>Bits that may change when the status byte is programmed.\<close>

lemma status_flip:
  fixes x :: byte
  assumes "x AND 7 = x" "3 AND x = 3"
  shows "x = 3 \<or> x = 7"
proof (cases "bit x 2")
  case True
  have "bit x n = bit (7 :: byte) n" for n
    using arg_cong [OF assms(1), of "\<lambda>w. bit w n"] arg_cong [OF assms(2), of "\<lambda>w. bit w n"] True
    by (cases "n = 0"; cases "n = 1"; cases "n = 2") (auto simp: bit_simps numeral_eq_Suc less_Suc_eq)
  then show ?thesis by (intro disjI2 bit_eqI)
next
  case False
  have "bit x n = bit (3 :: byte) n" for n
    using arg_cong [OF assms(1), of "\<lambda>w. bit w n"] arg_cong [OF assms(2), of "\<lambda>w. bit w n"] False
    by (cases "n = 0"; cases "n = 1"; cases "n = 2") (auto simp: bit_simps numeral_eq_Suc less_Suc_eq)
  then show ?thesis by (intro disjI1 bit_eqI)
qed

section \<open>Switching over\<close>

definition geometry :: "nat \<Rightarrow> 'p flashq_ctx \<Rightarrow> bool" where
  "geometry sz c \<longleftrightarrow> data_start c = 4096 \<and> 4096 dvd region_size c \<and> 8192 \<le> region_size c \<and>
     data_capacity c = region_size c - 4096 \<and> 2 * region_size c \<le> sz \<and> active_region c < 2 \<and>
     68 \<le> scratch_size c \<and> sz \<le> 2 ^ 32"

text \<open>Erasing a range inside the partition completes.\<close>

definition erases_complete :: "'p flash_ops \<Rightarrow> nat \<Rightarrow> bool" where
  "erases_complete F sz \<longleftrightarrow>
     (\<forall>p off len. off + len \<le> sz \<and> 4096 dvd off \<and> 4096 dvd len \<longrightarrow> fst (fl_erase F p off len))"

definition spare_clean :: "mem \<Rightarrow> nat \<Rightarrow> nat \<Rightarrow> bool" where
  "spare_clean m base rs \<longleftrightarrow> (blank_area m base (base + REGION_HDR_SIZE) \<longrightarrow> blank_area m base (base + rs))"

lemma header_at_update:
  assumes "header_at m base = raw" "\<And>i. i \<noteq> base + 8 \<Longrightarrow> base \<le> i \<Longrightarrow> i < base + 12 \<Longrightarrow> m' i = m i"
  shows "header_at m' base = raw[8 := m' (base + 8)]"
proof (rule nth_equalityI)
  fix i assume "i < length (header_at m' base)"
  then have i: "i < 12" by simp
  show "header_at m' base ! i = raw[8 := m' (base + 8)] ! i"
    using i assms(2) [of "base + i"] by (cases "i = 8") (auto simp: assms(1) [symmetric])
qed (use assms(1) in auto)

lemma geometry_region:
  assumes "geometry sz c" "r < 2"
  shows "region_offset c r + region_size c \<le> sz" "4096 dvd region_offset c r" "12 \<le> region_size c"
    "REGION_HDR_SIZE \<le> region_size c"
proof -
  have "r = 0 \<or> r = 1" using assms(2) by linarith
  then show "region_offset c r + region_size c \<le> sz" "4096 dvd region_offset c r" "12 \<le> region_size c"
    "REGION_HDR_SIZE \<le> region_size c"
    using assms(1) by (auto simp: geometry_def region_offset_def)
qed

text \<open>Trying to erase a region leaves its header as it was or blank.\<close>

lemma sector_header:
  assumes "4096 dvd (base :: nat)"
    and "\<And>s. (\<forall>i<4096. m' (s * 4096 + i) = m (s * 4096 + i)) \<or> (\<forall>i<4096. m' (s * 4096 + i) = (0xFF :: byte))"
  shows "header_at m' base = header_at m base \<or> header_at m' base = replicate 12 0xFF"
proof -
  obtain s where s: "base = s * 4096" using assms(1) by (auto elim!: dvdE simp: mult.commute)
  from assms(2) [of s] show ?thesis
  proof
    assume "\<forall>i<4096. m' (s * 4096 + i) = m (s * 4096 + i)"
    then have "header_at m' base = header_at m base" by (intro nth_equalityI) (auto simp: s)
    then show ?thesis ..
  next
    assume "\<forall>i<4096. m' (s * 4096 + i) = 0xFF"
    then have "header_at m' base = replicate 12 0xFF" by (intro nth_equalityI) (auto simp: s)
    then show ?thesis ..
  qed
qed

lemma ensure_region_erased_completes:
  assumes laws: "flash_laws F cells" and ec: "erases_complete F sz" and geo: "geometry sz c" "r < 2"
    and run: "ensure_region_erased F c r = (err, c')" and sc: "spare_clean (cells (partition c)) (region_offset c r) (region_size c)"
  shows "err = ESP_OK"
    and "blank_area (cells (partition c')) (region_offset c r) (region_offset c r + region_size c)"
proof -
  note s = ensure_region_erased_spec [OF laws run]
  have "fst (erase_region F c1 r) = ESP_OK" if "frame c c1" for c1
  proof -
    have "region_offset c1 r + region_size c1 \<le> sz" "4096 dvd region_offset c1 r" "4096 dvd region_size c1"
      using geometry_region [OF geo] geo(1) by (simp_all add: frame_fields [OF that] frame_region_offset [OF that] geometry_def)
    then have "fst (fl_erase F (partition c1) (region_offset c1 r) (region_size c1))"
      using ec unfolding erases_complete_def by blast
    then show ?thesis by (simp add: erase_region_def split_beta)
  qed
  then show ok: "err = ESP_OK"
    using run region_header_read_spec(1) [OF laws]
    by (auto simp: ensure_region_erased_def split: prod.splits option.splits if_splits) (metis fst_conv)+
  show "blank_area (cells (partition c')) (region_offset c r) (region_offset c r + region_size c)"
    using s(4) [OF ok] sc by (auto simp: spare_clean_def)
qed

section \<open>The last stage of compaction\<close>

text \<open>The old region after it was marked STALE and possibly erased no longer rivals the new one.\<close>

lemma retired_header:
  assumes laws: "flash_laws F cells" and geo: "geometry sz c" "source < 2"
    and hdr: "header_at (cells (partition c)) (region_offset c source) = active_hdr gen" and lt: "gen < gen'"
    and w: "partition_write_verify F c (region_offset c source + REGION_STATUS_OFFSET) [STATUS_STALE] = (e1, c1)"
    and er: "ensure_region_erased F c1 source = (e2, c2)"
  shows "\<not> rivals gen' (header_at (cells (partition c2)) (region_offset c source))"
    and "erases_complete F sz \<Longrightarrow>
         blank_area (cells (partition c2)) (region_offset c source) (region_offset c source + region_size c)"
proof -
  let ?sb = "region_offset c source"
  note ws = partition_write_verify_spec [OF laws w]
  have geo1: "geometry sz c1" "region_offset c1 source = ?sb" "region_size c1 = region_size c"
    using geo by (simp_all add: geometry_def frame_fields [OF ws(1)] frame_region_offset [OF ws(1)])
  note es = ensure_region_erased_spec [OF laws er, unfolded geo1(2,3)]
  let ?x = "cells (partition c1) (?sb + 8)"
  have h1: "header_at (cells (partition c1)) ?sb = region_hdr_bytes (fresh_region_hdr gen ?x)"
    unfolding fresh_hdr_status [of gen ?x STATUS_ACTIVE]
    by (rule header_at_update [OF hdr]) (rule ws(2), simp, linarith)
  have nr: "\<not> rivals gen' (header_at (cells (partition c1)) ?sb)"
    using lt by (simp add: h1 rivals_def Let_def not_le)
  have "4096 dvd ?sb" using geometry_region [OF geo] by simp
  from sector_header [OF this es(5)] show "\<not> rivals gen' (header_at (cells (partition c2)) ?sb)"
    using nr blank_not_rival by auto
  assume ec: "erases_complete F sz"
  have "\<not> bytes_all_ff (header_at (cells (partition c1)) ?sb)" unfolding h1 by (rule fresh_hdr_not_blank)
  then have sc: "spare_clean (cells (partition c1)) ?sb (region_size c)"
    unfolding spare_clean_def bytes_all_ff_mem_read by blast
  show "blank_area (cells (partition c2)) ?sb (?sb + region_size c)"
    using ensure_region_erased_completes(2) [OF laws ec geo1(1) geo(2) er] sc by (simp add: geo1(2,3))
qed

definition switched :: "'p flashq_ctx \<Rightarrow> nat \<Rightarrow> u32 \<Rightarrow> nat \<Rightarrow> u32 \<Rightarrow> 'p flashq_ctx" where
  "switched c target new_generation new_cursor seq =
     c\<lparr>active_region := target, active_generation := new_generation, cursor := new_cursor,
       next_seq := seq, compactions_total := compactions_total c + 1,
       updates_since_compaction := 0, awaiting_gc_count := 0\<rparr>"

lemma frame_switched: "frame c c' \<Longrightarrow> frame (switched c t g n s) (switched c' t g n s)"
  unfolding frame_def switched_def by (cases c; cases c'; simp)

lemma switched_fields [simp]:
  "partition (switched c t g n s) = partition c" "fault (switched c t g n s) = fault c"
  "index (switched c t g n s) = index c" "active_region (switched c t g n s) = t"
  "active_generation (switched c t g n s) = g" "cursor (switched c t g n s) = n"
  "next_seq (switched c t g n s) = s" "region_size (switched c t g n s) = region_size c"
  "data_start (switched c t g n s) = data_start c" "data_capacity (switched c t g n s) = data_capacity c"
  "index_capacity (switched c t g n s) = index_capacity c" "scratch_size (switched c t g n s) = scratch_size c"
  "claim_scratch (switched c t g n s) = claim_scratch c"
  "awaiting_gc_count (switched c t g n s) = 0" "updates_since_compaction (switched c t g n s) = 0"
  "max_message_size (switched c t g n s) = max_message_size c" "region_offset (switched c t g n s) = region_offset c"
  by (simp_all add: switched_def region_offset_def fun_eq_iff)

lemma compact_finish_cases:
  assumes laws: "flash_laws F cells" and geo: "geometry sz c" "source < 2" "target < 2" "source \<noteq> target"
    and hdr: "header_at (cells (partition c)) (region_offset c source) = active_hdr gen" and lt: "gen < gen'"
    and tgt: "header_at (cells (partition c)) (region_offset c target) =
      region_hdr_bytes (fresh_region_hdr gen' STATUS_COMPACTING)"
    and run: "compact_finish F source target gen' c cur seq = (err, c')"
  obtains (failed) "err \<noteq> ESP_OK" "frame c c'" "fault c' = fault c"
      "\<And>i. i \<noteq> region_offset c target + 8 \<Longrightarrow> cells (partition c') i = cells (partition c) i"
      "header_at (cells (partition c')) (region_offset c target) = active_hdr gen' \<or>
       \<not> rivals gen (header_at (cells (partition c')) (region_offset c target))"
  | (finished) "err = ESP_OK" "frame (switched c target gen' cur seq) c'" "fault c' = fault c"
      "\<And>i. i \<noteq> region_offset c target + 8 \<Longrightarrow>
         i < region_offset c source \<or> region_offset c source + region_size c \<le> i \<Longrightarrow>
         cells (partition c') i = cells (partition c) i"
      "header_at (cells (partition c')) (region_offset c target) = active_hdr gen'"
      "\<not> rivals gen' (header_at (cells (partition c')) (region_offset c source))"
      "erases_complete F sz \<Longrightarrow>
       blank_area (cells (partition c')) (region_offset c source) (region_offset c source + region_size c)"
proof -
  let ?tb = "region_offset c target" and ?sb = "region_offset c source"
  obtain e1 c1 where w1: "partition_write_verify F c (?tb + REGION_STATUS_OFFSET) [STATUS_ACTIVE] = (e1, c1)"
    by (cases "partition_write_verify F c (?tb + REGION_STATUS_OFFSET) [STATUS_ACTIVE]") auto
  note s1 = partition_write_verify_spec [OF laws w1]
  have out1: "cells (partition c1) i = cells (partition c) i" if "i \<noteq> ?tb + 8" for i
    using that by (intro s1(2)) auto
  have f1: "fault c1 = fault c" using s1(4) geo(1) by (simp add: geometry_def)
  let ?x = "cells (partition c1) (?tb + 8)"
  have h1: "header_at (cells (partition c1)) ?tb = region_hdr_bytes (fresh_region_hdr gen' ?x)"
    unfolding fresh_hdr_status [of gen' ?x STATUS_COMPACTING]
    by (rule header_at_update [OF tgt]) (rule out1)
  have old: "cells (partition c) (?tb + 8) = 7"
    using mem_read_eqD [OF tgt, of 8] by (simp add: nth_fresh_hdr_status)
  have x: "?x = 3 \<or> ?x = 7"
  proof (rule status_flip)
    show "?x AND 7 = ?x" using s1(6) [of 0] old by simp
    show "3 AND ?x = 3" using s1(7) [of 0] old by (simp add: and.assoc [symmetric])
  qed
  show thesis
  proof (cases "e1 = ESP_OK")
    case False
    have "header_at (cells (partition c1)) ?tb = active_hdr gen' \<or> \<not> rivals gen (header_at (cells (partition c1)) ?tb)"
      using x by (auto simp: h1 rivals_def Let_def)
    then show thesis using run w1 False s1(1) f1 out1 that(1)
      by (auto simp: compact_finish_def)
  next
    case True
    have x3: "?x = 3" using mem_read_eqD [OF s1(3) [OF True], of 0] by simp
    have fr1: "geometry sz c1" "region_offset c1 r = region_offset c r" "region_size c1 = region_size c" for r
      using geo by (simp_all add: geometry_def frame_fields [OF s1(1)] frame_region_offset [OF s1(1)])
    obtain e2 c2 where w2: "partition_write_verify F c1 (?sb + REGION_STATUS_OFFSET) [STATUS_STALE] = (e2, c2)"
      by (cases "partition_write_verify F c1 (?sb + REGION_STATUS_OFFSET) [STATUS_STALE]") auto
    note s2 = partition_write_verify_spec [OF laws w2]
    obtain e3 c3 where er: "ensure_region_erased F c2 source = (e3, c3)"
      by (cases "ensure_region_erased F c2 source") auto
    note s3 = ensure_region_erased_spec [OF laws er]
    have ne: "?tb + 8 < ?sb \<or> ?sb + region_size c \<le> ?tb"
      using disjoint_regions_neq [OF geo(4), of c] geometry_region [OF geo(1,3)]
      by (auto simp: disjoint_regions_def)
    have hdr1: "header_at (cells (partition c1)) ?sb = active_hdr gen"
    proof -
      have "header_at (cells (partition c1)) ?sb = header_at (cells (partition c)) ?sb"
        using ne geometry_region [OF geo(1,2)] by (intro mem_read_cong out1) auto
      then show ?thesis using hdr by simp
    qed
    note rt = retired_header [OF laws fr1(1) geo(2) hdr1 [folded fr1(2)] lt, unfolded fr1(2,3), OF w2 er]
    have fr2: "region_offset c2 r = region_offset c r" "region_size c2 = region_size c" for r
      using fr1 by (simp_all add: frame_fields [OF s2(1)] frame_region_offset [OF s2(1)])
    have out3: "cells (partition c3) i = cells (partition c1) i" if "i < ?sb \<or> ?sb + region_size c \<le> i" for i
    proof -
      have "cells (partition c3) i = cells (partition c2) i" using s3(3) [of i] that by (simp add: fr2)
      also have "\<dots> = cells (partition c1) i"
        using that geometry_region [OF geo(1,2)] by (intro s2(2)) auto
      finally show ?thesis .
    qed
    have c': "err = ESP_OK" "c' = switched c3 target gen' cur seq"
      using run w1 True w2 er fr1 by (simp_all add: compact_finish_def switched_def)
    have fr3: "frame c c3" using frame_trans [OF frame_trans [OF s1(1) s2(1)] s3(1)] .
    have flt: "fault c3 = fault c"
      using s2(4) s3(2) f1 geo(1) by (simp add: geometry_def frame_fields [OF s1(1)])
    have ht: "header_at (cells (partition c3)) ?tb = active_hdr gen'"
    proof -
      have "header_at (cells (partition c3)) ?tb = header_at (cells (partition c1)) ?tb"
        using disjoint_regions_neq [OF geo(4), of c] geometry_region [OF geo(1,3)]
        by (intro mem_read_cong out3) (auto simp: disjoint_regions_def)
      then show ?thesis by (simp add: h1 x3)
    qed
    show thesis
      using c' frame_switched [OF fr3] flt out1 out3 ht rt by (intro that(2)) auto
  qed
qed

end
