(* ===== verification/Flashq_Compaction.thy ===== *)
theory Flashq_Compaction
  imports Flashq_Switch
begin

text \<open>
  \<open>compact_locked\<close> as a whole: its stages put together, and what it returns with on a device
  whose operations all succeed.
\<close>

section \<open>The copy\<close>

definition end_sealed :: "u32 \<Rightarrow> record_hdr" where
  "end_sealed s = seal_hdr (zero_hdr\<lparr>h_seq := s, h_type := REC_END\<rparr>) 0 0"

definition compact_end :: "'p flashq_ctx \<Rightarrow> nat" where
  "compact_end c = 4096 + live_size (index c) + 68"

definition compact_seq :: "'p flashq_ctx \<Rightarrow> u32" where
  "compact_seq c = next_seq c + of_nat (length (index c))"

text \<open>
  \<open>copy_done m m' c target\<close>: going from \<open>m\<close> to \<open>m'\<close>, the target region got a complete copy of
  the live messages of \<open>c\<close>.
\<close>

definition copy_done :: "mem \<Rightarrow> mem \<Rightarrow> 'p flashq_ctx \<Rightarrow> nat \<Rightarrow> bool" where
  "copy_done m m' c target \<longleftrightarrow>
     log_ok m' (region_offset c target) (region_size c) 4096
       (sealed_list (next_seq c) (index c) @ [end_sealed (compact_seq c)]) \<and>
     map (entry_body m' (region_offset c target)) (relocate 4096 (index c)) =
     map (entry_body m (region_offset c (active_region c))) (index c) \<and>
     (spare_clean m (region_offset c target) (region_size c) \<longrightarrow>
      blank_area m' (region_offset c target + compact_end c) (region_offset c target + region_size c))"

definition compact_ready :: "mem \<Rightarrow> 'p flashq_ctx \<Rightarrow> bool" where
  "compact_ready m c \<longleftrightarrow> compact_end c \<le> region_size c \<and>
     (\<forall>e\<in>set (index c). entry_fits m (region_offset c (active_region c)) (region_size c) (scratch_size c) e)"

lemma rec_len_end: "rec_len (end_sealed s) = 68"
  by (simp add: rec_len_alt end_sealed_def record_total_size_def round4_def)

lemma encode_end_Some:
  assumes "68 \<le> scratch"
  obtains bs where "encode_end scratch s = Some bs" "length bs = 68"
    "encode_common scratch (zero_hdr\<lparr>h_seq := s, h_type := REC_END\<rparr>) [] [] = Some bs"
proof -
  have sz: "record_total_size (length ([] :: byte list)) (length ([] :: byte list)) = 68"
    by (simp add: record_total_size_def round4_def)
  then obtain bs where bs: "encode_common scratch (zero_hdr\<lparr>h_seq := s, h_type := REC_END\<rparr>) [] [] = Some bs"
    using encode_common_succeeds assms by metis
  then show thesis using that [of bs] encode_common_Some(1) [OF bs] sz by (simp add: encode_end_def)
qed

text \<open>Everything up to the END marker: only the target region is written, its header stays COMPACTING.\<close>

definition compact_prepare ::
  "'p flash_ops \<Rightarrow> 'p flashq_ctx \<Rightarrow> nat \<Rightarrow> nat \<Rightarrow> esp_err \<times> 'p flashq_ctx \<times> nat \<times> u32" where
  "compact_prepare F ctx source target =
     (let (err, ctx) = ensure_region_erased F ctx target
      in if err \<noteq> ESP_OK then (err, ctx, 0, 0)
         else
           let (err, ctx) = partition_write_verify F ctx (region_offset ctx target)
                              (region_hdr_bytes (fresh_region_hdr (active_generation ctx + 1) STATUS_COMPACTING))
           in if err \<noteq> ESP_OK then (err, ctx, 0, 0)
              else
                let (err, ctx, new_cursor, seq) =
                      compact_loop F source target [0..<length (index ctx)] ctx (data_start ctx) (next_seq ctx)
                in if err \<noteq> ESP_OK then (err, ctx, 0, 0)
                   else
                     let bs = encoded (encode_end (scratch_size ctx) seq);
                         (err, ctx) = partition_write_verify F ctx (region_offset ctx target + new_cursor) bs
                     in (err, ctx, new_cursor + length bs, seq + 1))"

lemma compact_locked_alt:
  "compact_locked F ctx =
     (let (err, ctx', cur, seq) = compact_prepare F ctx (active_region ctx) (1 - active_region ctx)
      in if err \<noteq> ESP_OK then (err, ctx')
         else compact_finish F (active_region ctx) (1 - active_region ctx) (active_generation ctx + 1) ctx' cur seq)"
proof -
  obtain e1 c1 where 1: "ensure_region_erased F ctx (1 - active_region ctx) = (e1, c1)"
    by (cases "ensure_region_erased F ctx (1 - active_region ctx)") auto
  have g: "active_generation c1 = active_generation ctx"
  proof -
    have "\<exists>p. snd (ensure_region_erased F ctx (1 - active_region ctx)) = ctx\<lparr>partition := p\<rparr>"
      by (auto simp: ensure_region_erased_def erase_region_def region_header_read_def flash_read_def
          split: prod.splits option.splits if_splits)
    then show ?thesis using 1 by auto
  qed
  obtain e2 c2 where 2: "partition_write_verify F c1 (region_offset c1 (1 - active_region ctx))
      (region_hdr_bytes (fresh_region_hdr (active_generation ctx + 1) STATUS_COMPACTING)) = (e2, c2)"
    by (metis prod.exhaust)
  obtain e3 c3 n3 s3 where 3: "compact_loop F (active_region ctx) (1 - active_region ctx) [0..<length (index c2)] c2
      (data_start c2) (next_seq c2) = (e3, c3, n3, s3)"
    by (metis prod.exhaust)
  obtain e4 c4 where 4: "partition_write_verify F c3 (region_offset c3 (1 - active_region ctx) + n3)
      (encoded (encode_end (scratch_size c3) s3)) = (e4, c4)"
    by (metis prod.exhaust)
  show ?thesis unfolding compact_locked_def compact_prepare_def Let_def
    by (simp only: 1 2 3 4 g split_beta fst_conv snd_conv prod.case) (auto split: if_splits)
qed

text \<open>The first two stages: the target is erased and carries a COMPACTING header.\<close>

lemma prepare_header:
  assumes laws: "flash_laws F cells" and geo: "geometry sz c" "target < 2"
    and nr: "\<not> rivals gen (header_at (cells (partition c)) (region_offset c target))"
    and er: "ensure_region_erased F c target = (e1, c1)"
    and w: "partition_write_verify F c1 (region_offset c1 target)
              (region_hdr_bytes (fresh_region_hdr g STATUS_COMPACTING)) = (e2, c2)"
  shows "\<not> rivals gen (header_at (cells (partition c1)) (region_offset c target))"
    and "e1 = ESP_OK \<Longrightarrow> \<not> rivals gen (header_at (cells (partition c2)) (region_offset c target))"
    and "e1 = ESP_OK \<Longrightarrow> e2 = ESP_OK \<Longrightarrow> header_at (cells (partition c2)) (region_offset c target) =
           region_hdr_bytes (fresh_region_hdr g STATUS_COMPACTING)"
    and "e1 = ESP_OK \<Longrightarrow> spare_clean (cells (partition c)) (region_offset c target) (region_size c) \<Longrightarrow>
         blank_area (cells (partition c2)) (region_offset c target + 12) (region_offset c target + region_size c)"
    and "frame c c2" "fault c2 = fault c"
    and "\<And>i. i < region_offset c target \<or> region_offset c target + region_size c \<le> i \<Longrightarrow>
           cells (partition c2) i = cells (partition c) i"
proof -
  let ?tb = "region_offset c target"
  note s1 = ensure_region_erased_spec [OF laws er]
  have ro: "region_offset c1 target = ?tb" by (rule frame_region_offset [OF s1(1)])
  note s2 = partition_write_verify_spec [OF laws w [unfolded ro], simplified]
  have dv: "4096 dvd ?tb" "12 \<le> region_size c" using geometry_region [OF geo] by simp_all
  show "\<not> rivals gen (header_at (cells (partition c1)) ?tb)"
    using sector_header [OF dv(1) s1(5)] nr blank_not_rival by auto
  show "frame c c2" by (rule frame_trans [OF s1(1) s2(1)])
  show "fault c2 = fault c" using s2(4) s1(2) geo(1) frame_fields [OF s1(1)] by (simp add: geometry_def)
  show "cells (partition c2) i = cells (partition c) i" if "i < ?tb \<or> ?tb + region_size c \<le> i" for i
  proof -
    have "cells (partition c2) i = cells (partition c1) i" using that dv(2) by (intro s2(2)) linarith
    then show ?thesis using s1(3) [OF that] by simp
  qed
  assume e1: "e1 = ESP_OK"
  have b: "blank_area (cells (partition c1)) ?tb (?tb + 12)"
    using s1(4) [OF e1] dv(2) by (auto simp: blank_area_def)
  let ?x = "cells (partition c2) (?tb + 8)"
  have "7 AND ?x = 7"
    using s2(7) [of 8] b by (simp add: blank_area_def nth_fresh_hdr_status and.assoc [symmetric])
  then have "?x \<noteq> 3" by auto
  then show "\<not> rivals gen (header_at (cells (partition c2)) ?tb)" by (intro rivals_status) simp_all
  show "header_at (cells (partition c2)) ?tb = region_hdr_bytes (fresh_region_hdr g STATUS_COMPACTING)"
    if "e2 = ESP_OK" using s2(3) [OF that] .
  assume "spare_clean (cells (partition c)) ?tb (region_size c)"
  then have "blank_area (cells (partition c1)) ?tb (?tb + region_size c)"
    using s1(4) [OF e1] by (auto simp: spare_clean_def)
  then show "blank_area (cells (partition c2)) (?tb + 12) (?tb + region_size c)"
    unfolding blank_area_def by (simp add: s2(2))
qed

lemma header_at_cong:
  "(\<And>i. base \<le> i \<Longrightarrow> i < base + 4096 \<Longrightarrow> m' i = m i) \<Longrightarrow> header_at m' base = header_at m base"
  by (rule mem_read_cong) simp

text \<open>The last stage before the switch: the END marker.\<close>

lemma prepare_end:
  assumes laws: "flash_laws F cells" and cap: "68 \<le> scratch_size c"
    and w: "partition_write_verify F c off (encoded (encode_end (scratch_size c) s)) = (err, c')"
  shows "frame c c'" "fault c' = fault c" "length (encoded (encode_end (scratch_size c) s)) = 68"
    and "\<And>i. i < off \<or> off + 68 \<le> i \<Longrightarrow> cells (partition c') i = cells (partition c) i"
    and "err = ESP_OK \<Longrightarrow> off = base + cur \<Longrightarrow> cur + 68 \<le> lim \<Longrightarrow>
         rec_ok (cells (partition c')) base lim cur (end_sealed s)"
proof -
  obtain bs where bs: "encode_end (scratch_size c) s = Some bs" "length bs = 68"
    "encode_common (scratch_size c) (zero_hdr\<lparr>h_seq := s, h_type := REC_END\<rparr>) [] [] = Some bs"
    by (rule encode_end_Some [OF cap])
  have e: "encoded (encode_end (scratch_size c) s) = bs" by (simp add: encoded_def bs(1))
  note s = partition_write_verify_spec [OF laws w, unfolded e bs(2)]
  show "frame c c'" "fault c' = fault c" using s cap by simp_all
  show "length (encoded (encode_end (scratch_size c) s)) = 68" by (simp add: e bs(2))
  show "cells (partition c') i = cells (partition c) i" if "i < off \<or> off + 68 \<le> i" for i
    by (rule s(2) [OF that])
  show "rec_ok (cells (partition c')) base lim cur (end_sealed s)"
    if "err = ESP_OK" "off = base + cur" "cur + 68 \<le> lim"
    using rec_ok_encoded(1) [OF bs(3), of "cells (partition c')" base cur lim] s(3) [OF that(1)] that(2,3)
    by (simp add: bs(2) end_sealed_def)
qed

definition prepared :: "('p \<Rightarrow> mem) \<Rightarrow> 'p flashq_ctx \<Rightarrow> nat \<Rightarrow> esp_err \<times> 'p flashq_ctx \<times> nat \<times> u32 \<Rightarrow> bool" where
  "prepared cells c target res \<longleftrightarrow> (case res of (err, c', cur, s) \<Rightarrow>
     frame (c\<lparr>index := index c'\<rparr>) c' \<and> fault c' = fault c \<and> length (index c') = length (index c) \<and>
     (\<forall>i. i < region_offset c target \<or> region_offset c target + region_size c \<le> i \<longrightarrow>
        cells (partition c') i = cells (partition c) i) \<and>
     (err \<noteq> ESP_OK \<longrightarrow> \<not> rivals (active_generation c) (header_at (cells (partition c')) (region_offset c target))) \<and>
     (err = ESP_OK \<longrightarrow> header_at (cells (partition c')) (region_offset c target) =
          region_hdr_bytes (fresh_region_hdr (active_generation c + 1) STATUS_COMPACTING) \<and>
        copy_done (cells (partition c)) (cells (partition c')) c target \<and>
        index c' = relocate 4096 (index c) \<and> cur = compact_end c \<and> s = compact_seq c + 1))"

lemma prepared_failed:
  assumes "err \<noteq> ESP_OK" "frame c c'" "fault c' = fault c"
    and "\<And>i. i < region_offset c target \<or> region_offset c target + region_size c \<le> i \<Longrightarrow>
           cells (partition c') i = cells (partition c) i"
    and "\<not> rivals (active_generation c) (header_at (cells (partition c')) (region_offset c target))"
  shows "prepared cells c target (err, c', cur, s)"
  using assms frame_index [OF assms(2)] frame_fields(9) [OF assms(2)] by (simp add: prepared_def)

lemma compacting_not_rival: "\<not> rivals gen (region_hdr_bytes (fresh_region_hdr g STATUS_COMPACTING))"
  by (rule rivals_status) (simp_all add: nth_fresh_hdr_status)

lemma ready_frame:
  assumes rdy: "compact_ready (cells (partition c)) c" and fr: "frame c c2"
    and out: "\<And>i. region_offset c (active_region c) \<le> i \<Longrightarrow> i < region_offset c (active_region c) + region_size c \<Longrightarrow>
        cells (partition c2) i = cells (partition c) i"
  shows "\<forall>e\<in>set (index c2). entry_fits (cells (partition c2)) (region_offset c2 (active_region c)) (region_size c2) (scratch_size c2) e"
proof
  fix e assume "e \<in> set (index c2)"
  then have "entry_fits (cells (partition c)) (region_offset c (active_region c)) (region_size c) (scratch_size c) e"
    using rdy by (simp add: compact_ready_def frame_fields [OF fr])
  then have "entry_fits (cells (partition c2)) (region_offset c (active_region c)) (region_size c) (scratch_size c) e"
    using out by (rule entry_fits_cong)
  then show "entry_fits (cells (partition c2)) (region_offset c2 (active_region c)) (region_size c2) (scratch_size c2) e"
    by (simp add: frame_fields [OF fr] frame_region_offset [OF fr])
qed

lemma compact_prepare_spec:
  assumes laws: "flash_laws F cells" and geo: "geometry sz c"
    and rdy: "compact_ready (cells (partition c)) c"
    and tgt: "target = 1 - active_region c"
    and nr: "\<not> rivals (active_generation c) (header_at (cells (partition c)) (region_offset c target))"
  shows "prepared cells c target (compact_prepare F c (active_region c) target)"
proof -
  let ?src = "active_region c" and ?tb = "region_offset c target" and ?rs = "region_size c"
  let ?m = "cells (partition c)" and ?gen = "active_generation c"
  have t2: "target < 2" "?src < 2" "?src \<noteq> target" using geo tgt unfolding geometry_def by presburger+
  note gr = geometry_region [OF geo t2(1)]
  have rs: "8192 \<le> ?rs" "68 \<le> scratch_size c" "data_start c = 4096" using geo by (simp_all add: geometry_def)
  have disj: "disjoint_regions c ?src target" by (rule disjoint_regions_neq [OF t2(3)])
  obtain e1 c1 where 1: "ensure_region_erased F c target = (e1, c1)" by (metis prod.exhaust)
  note s1 = ensure_region_erased_spec [OF laws 1]
  have f1: "active_generation c1 = ?gen" by (simp add: frame_fields [OF s1(1)])
  obtain e2 c2 where 2: "partition_write_verify F c1 (region_offset c1 target)
      (region_hdr_bytes (fresh_region_hdr (?gen + 1) STATUS_COMPACTING)) = (e2, c2)" by (metis prod.exhaust)
  note h = prepare_header [OF laws geo t2(1) nr 1 2]
  note f2 = frame_fields [OF h(5)] frame_region_offset [OF h(5)]
  obtain e3 c3 n3 s3 where 3: "compact_loop F ?src target [0..<length (index c2)] c2 (data_start c2) (next_seq c2) =
      (e3, c3, n3, s3)" by (metis prod.exhaust)
  have fits: "\<forall>e\<in>set (drop 0 (index c2)). entry_fits (cells (partition c2)) (region_offset c2 ?src) (region_size c2) (scratch_size c2) e"
    unfolding drop_0
  proof (rule ready_frame [where cells = cells, OF rdy h(5)])
    fix i assume "region_offset c ?src \<le> i" "i < region_offset c ?src + ?rs"
    then show "cells (partition c2) i = cells (partition c) i"
      using disj by (intro h(7)) (auto simp: disjoint_regions_def)
  qed
  have "compacted cells ?src target 0 (data_start c2) (next_seq c2) c2 (e3, c3, n3, s3)"
    unfolding 3 [symmetric]
    using disj rdy rs fits
    by (intro compact_loop_spec [OF laws]) (simp_all add: f2 disjoint_regions_def compact_ready_def compact_end_def)
  note L = this [unfolded compacted_def Let_def prod.case f2 rs(3) drop_0 take_0 append_Nil]
  have Lp: "fault c3 = fault c" "length (index c3) = length (index c)" using L h(6) by simp_all
  have hdr3: "header_at (cells (partition c3)) ?tb = header_at (cells (partition c2)) ?tb"
    using L by (intro header_at_cong) simp
  have out3: "cells (partition c3) i = cells (partition c) i" if "i < ?tb \<or> ?tb + ?rs \<le> i" for i
    using L h(7) [OF that] that by auto
  have fr3: "frame (c\<lparr>index := index c3\<rparr>) c3" using L frame_trans [OF frame_index_upd [OF h(5)]] by blast
  note f3 = frame_fields [OF fr3, simplified] frame_region_offset [OF fr3]
  have ro3: "region_offset c3 r = region_offset c r" for r by (simp add: f3 region_offset_def)
  obtain e4 c4 where 4: "partition_write_verify F c3 (?tb + n3) (encoded (encode_end (scratch_size c3) s3)) = (e4, c4)"
    by (metis prod.exhaust)
  note E = prepare_end [OF laws _ 4, unfolded f3, OF rs(2)]
  have run: "compact_prepare F c ?src target =
    (if e1 \<noteq> ESP_OK then (e1, c1, 0, 0) else if e2 \<noteq> ESP_OK then (e2, c2, 0, 0)
     else if e3 \<noteq> ESP_OK then (e3, c3, 0, 0) else (e4, c4, n3 + 68, s3 + 1))"
    by (simp add: compact_prepare_def Let_def 1 2 3 4 [unfolded f3(12)] f1 ro3 E(3) f3(12) split_beta)
  consider (a) "e1 \<noteq> ESP_OK" | (b) "e1 = ESP_OK" "e2 \<noteq> ESP_OK" | (c) "e1 = ESP_OK" "e2 = ESP_OK" "e3 \<noteq> ESP_OK"
    | (d) "e1 = ESP_OK" "e2 = ESP_OK" "e3 = ESP_OK" by blast
  then show ?thesis
  proof cases
    case a
    then show ?thesis unfolding run using s1(1-3) h(1) by (simp add: prepared_failed)
  next
    case b
    then show ?thesis unfolding run using h by (simp add: prepared_failed)
  next
    case c
    then show ?thesis unfolding run using Lp fr3 out3 hdr3 h(2) by (simp add: prepared_def)
  next
    case d
    note ok = L [THEN conjunct2, THEN conjunct2, THEN conjunct2, THEN conjunct2, rule_format, OF d(3)]
    have n3: "n3 + 68 = compact_end c" "n3 \<ge> 4096" "s3 = compact_seq c"
      using ok by (simp_all add: compact_end_def compact_seq_def)
    have ce: "compact_end c \<le> ?rs" using rdy by (simp add: compact_ready_def)
    have fr4: "frame (c\<lparr>index := index c4\<rparr>) c4" "index c4 = index c3"
      using frame_trans [OF fr3 E(1)] frame_fields(9) [OF E(1)] by simp_all
    have out4: "cells (partition c4) i = cells (partition c) i" if "i < ?tb \<or> ?tb + ?rs \<le> i" for i
    proof -
      have "cells (partition c4) i = cells (partition c3) i" using that n3 ce by (intro E(4)) linarith
      then show ?thesis using out3 [OF that] by simp
    qed
    have hdr4: "header_at (cells (partition c4)) ?tb = region_hdr_bytes (fresh_region_hdr (?gen + 1) STATUS_COMPACTING)"
    proof -
      have "header_at (cells (partition c4)) ?tb = header_at (cells (partition c3)) ?tb"
        using n3(2) by (intro header_at_cong E(4)) linarith
      then show ?thesis using hdr3 h(3) d by simp
    qed
    have "copy_done ?m (cells (partition c4)) c target" if e4: "e4 = ESP_OK"
    proof -
      have eqc: "cells (partition c4) i = cells (partition c3) i" if "i < ?tb + n3" for i
        using that by (intro E(4)) simp
      have le: "log_end 4096 (sealed_list (next_seq c) (index c)) = n3" by (simp add: log_end_sealed ok)
      have l4: "log_ok (cells (partition c4)) ?tb ?rs 4096 (sealed_list (next_seq c) (index c))"
        by (rule log_ok_cong [of _ _ _ _ "cells (partition c3)"]) (use ok le eqc in auto)
      have r4: "rec_ok (cells (partition c4)) ?tb ?rs n3 (end_sealed (compact_seq c))"
        using E(5) [OF e4 refl] n3 ce by simp
      have bodies: "map (entry_body (cells (partition c4)) ?tb) (relocate 4096 (index c)) =
          map (entry_body ?m (region_offset c ?src)) (index c)"
      proof -
        have "map (entry_body (cells (partition c4)) ?tb) (relocate 4096 (index c)) =
            map (entry_body (cells (partition c3)) ?tb) (relocate 4096 (index c))"
          using ok by (intro entry_bodies_cong eqc) simp
        also have "\<dots> = map (entry_body (cells (partition c2)) (region_offset c ?src)) (index c)"
          using ok by simp
        also have "\<dots> = map (entry_body ?m (region_offset c ?src)) (index c)"
        proof (rule map_cong [OF refl])
          fix e assume "e \<in> set (index c)"
          then have "e_message_offset e + entry_size e \<le> ?rs"
            using rdy by (auto simp: compact_ready_def entry_fits_def)
          then show "entry_body (cells (partition c2)) (region_offset c ?src) e = entry_body ?m (region_offset c ?src) e"
            using disj by (intro entry_body_cong h(7)) (auto simp: disjoint_regions_def)
        qed
        finally show ?thesis .
      qed
      have "blank_area (cells (partition c4)) (?tb + compact_end c) (?tb + ?rs)"
        if "spare_clean ?m ?tb ?rs"
        using h(4) [OF d(1) that] ok E(4) n3 unfolding blank_area_def by simp
      then show ?thesis using l4 r4 le bodies by (simp add: copy_done_def log_ok_append)
    qed
    then show ?thesis unfolding run using d fr4 out4 hdr4 Lp E(2) n3 ok compacting_not_rival
      by (simp add: prepared_def)
  qed
qed

section \<open>The outcomes of compaction\<close>

lemma copy_done_cong:
  assumes cd: "copy_done m m1 c target" and le: "compact_end c \<le> region_size c"
    and eq: "\<And>i. region_offset c target + 4096 \<le> i \<Longrightarrow> i < region_offset c target + region_size c \<Longrightarrow> m2 i = m1 i"
  shows "copy_done m m2 c target"
proof -
  let ?tb = "region_offset c target" and ?hs = "sealed_list (next_seq c) (index c) @ [end_sealed (compact_seq c)]"
  have e: "log_end 4096 ?hs = compact_end c"
    by (simp add: log_end_sealed rec_len_end compact_end_def)
  have l: "log_ok m2 ?tb (region_size c) 4096 ?hs"
  proof (rule log_ok_cong [where m = m1])
    show "m2 i = m1 i" if "?tb + 4096 \<le> i" "i < ?tb + log_end 4096 ?hs" for i
      using that le unfolding e by (intro eq) linarith+
  qed (use cd in \<open>simp add: copy_done_def\<close>)
  have b: "map (entry_body m2 ?tb) (relocate 4096 (index c)) = map (entry_body m1 ?tb) (relocate 4096 (index c))"
  proof (rule map_cong [OF refl])
    fix x assume "x \<in> set (relocate 4096 (index c))"
    from relocate_range [OF this] show "entry_body m2 ?tb x = entry_body m1 ?tb x"
      using le by (intro entry_body_cong eq) (auto simp: compact_end_def)
  qed
  show ?thesis using cd l b eq by (auto simp: copy_done_def blank_area_def compact_end_def)
qed

definition compact_failed :: "('p \<Rightarrow> mem) \<Rightarrow> 'p flashq_ctx \<Rightarrow> 'p flashq_ctx \<Rightarrow> bool" where
  "compact_failed cells c c' \<longleftrightarrow> (let target = 1 - active_region c; m' = cells (partition c') in
     frame (c\<lparr>index := index c'\<rparr>) c' \<and> fault c' = fault c \<and> length (index c') = length (index c) \<and>
     (\<forall>i. i < region_offset c target \<or> region_offset c target + region_size c \<le> i \<longrightarrow>
        m' i = cells (partition c) i) \<and>
     (\<not> rivals (active_generation c) (header_at m' (region_offset c target)) \<or>
      (header_at m' (region_offset c target) = active_hdr (active_generation c + 1) \<and>
       copy_done (cells (partition c)) m' c target)))"

definition compact_done :: "('p \<Rightarrow> mem) \<Rightarrow> 'p flashq_ctx \<Rightarrow> 'p flashq_ctx \<Rightarrow> bool" where
  "compact_done cells c c' \<longleftrightarrow>
     (let target = 1 - active_region c; source = active_region c; m' = cells (partition c') in
     frame (switched (c\<lparr>index := relocate 4096 (index c)\<rparr>) target (active_generation c + 1)
              (compact_end c) (compact_seq c + 1)) c' \<and> fault c' = fault c \<and>
     header_at m' (region_offset c target) = active_hdr (active_generation c + 1) \<and>
     copy_done (cells (partition c)) m' c target \<and>
     \<not> rivals (active_generation c + 1) (header_at m' (region_offset c source)))"

definition source_blank :: "('p \<Rightarrow> mem) \<Rightarrow> 'p flashq_ctx \<Rightarrow> 'p flashq_ctx \<Rightarrow> bool" where
  "source_blank cells c c' \<longleftrightarrow> blank_area (cells (partition c')) (region_offset c (active_region c))
     (region_offset c (active_region c) + region_size c)"

lemma compact_locked_cases:
  assumes laws: "flash_laws F cells" and geo: "geometry sz c"
    and rdy: "compact_ready (cells (partition c)) c"
    and act: "header_at (cells (partition c)) (region_offset c (active_region c)) = active_hdr (active_generation c)"
    and nr: "\<not> rivals (active_generation c) (header_at (cells (partition c)) (region_offset c (1 - active_region c)))"
    and gen: "active_generation c < active_generation c + 1"
    and run: "compact_locked F c = (err, c')"
  shows "err \<noteq> ESP_OK \<Longrightarrow> compact_failed cells c c'" "err = ESP_OK \<Longrightarrow> compact_done cells c c'"
    "err = ESP_OK \<Longrightarrow> erases_complete F sz \<Longrightarrow> source_blank cells c c'"
proof -
  let ?src = "active_region c" and ?tgt = "1 - active_region c" and ?gen = "active_generation c"
  have t2: "?tgt < 2" "?src < 2" "?src \<noteq> ?tgt" using geo unfolding geometry_def by presburger+
  have disj: "disjoint_regions c ?src ?tgt" by (rule disjoint_regions_neq [OF t2(3)])
  have ce: "compact_end c \<le> region_size c" using rdy by (simp add: compact_ready_def)
  obtain e1 c1 cur s where 1: "compact_prepare F c ?src ?tgt = (e1, c1, cur, s)" by (metis prod.exhaust)
  note P = compact_prepare_spec [OF laws geo rdy refl nr, unfolded 1 prepared_def prod.case]
  have run': "(err, c') = (if e1 \<noteq> ESP_OK then (e1, c1) else compact_finish F ?src ?tgt (?gen + 1) c1 cur s)"
    by (rule run [symmetric, unfolded compact_locked_alt 1 Let_def prod.case])
  have frP: "frame (c\<lparr>index := index c1\<rparr>) c1" using P by blast
  note fP = frame_fields [OF frP, simplified] frame_region_offset [OF frP]
  have ro: "region_offset c1 r = region_offset c r" for r by (simp add: fP region_offset_def)
  have out1: "cells (partition c1) i = cells (partition c) i"
    if "i < region_offset c ?tgt \<or> region_offset c ?tgt + region_size c \<le> i" for i
    using P that by blast
  have "(err \<noteq> ESP_OK \<longrightarrow> compact_failed cells c c') \<and> (err = ESP_OK \<longrightarrow> compact_done cells c c' \<and> (erases_complete F sz \<longrightarrow> source_blank cells c c'))"
  proof (cases "e1 = ESP_OK")
    case False
    then show ?thesis using run' P by (auto simp: compact_failed_def Let_def)
  next
    case True
    note ok = P [THEN conjunct2, THEN conjunct2, THEN conjunct2, THEN conjunct2, THEN conjunct2, rule_format, OF True]
    have geo1: "geometry sz c1" using geo by (simp add: geometry_def fP)
    have act1: "header_at (cells (partition c1)) (region_offset c1 ?src) = active_hdr ?gen"
    proof -
      have "header_at (cells (partition c1)) (region_offset c ?src) = header_at (cells (partition c)) (region_offset c ?src)"
        using disj geometry_region [OF geo t2(2)] by (intro mem_read_cong out1) (auto simp: disjoint_regions_def)
      then show ?thesis using act by (simp add: ro)
    qed
    have run2: "compact_finish F ?src ?tgt (?gen + 1) c1 cur s = (err, c')" using run' True by simp
    show ?thesis
    proof (rule compact_finish_cases [OF laws geo1 t2(2,1,3) act1 gen _ run2])
      show "header_at (cells (partition c1)) (region_offset c1 ?tgt) =
          region_hdr_bytes (fresh_region_hdr (?gen + 1) STATUS_COMPACTING)" using ok by (simp add: ro)
    next
      assume f: "err \<noteq> ESP_OK" "frame c1 c'" "fault c' = fault c1"
        "\<And>i. i \<noteq> region_offset c1 ?tgt + 8 \<Longrightarrow> cells (partition c') i = cells (partition c1) i"
        "header_at (cells (partition c')) (region_offset c1 ?tgt) = active_hdr (?gen + 1) \<or>
         \<not> rivals ?gen (header_at (cells (partition c')) (region_offset c1 ?tgt))"
      have "copy_done (cells (partition c)) (cells (partition c')) c ?tgt"
        by (rule copy_done_cong [of _ "cells (partition c1)"]) (use ok ce f(4) in \<open>auto simp: ro\<close>)
      moreover have "frame (c\<lparr>index := index c'\<rparr>) c'"
        using frame_trans [OF frP f(2)] frame_fields(9) [OF f(2)] by simp
      moreover have "cells (partition c') i = cells (partition c) i"
        if "i < region_offset c ?tgt \<or> region_offset c ?tgt + region_size c \<le> i" for i
        using out1 [OF that] f(4) [of i] that geometry_region [OF geo t2(1)] by (auto simp: ro)
      ultimately show ?thesis using f P frame_fields(9) [OF f(2)]
        by (simp add: compact_failed_def Let_def ro) blast
    next
      assume f: "err = ESP_OK" "frame (switched c1 ?tgt (?gen + 1) cur s) c'" "fault c' = fault c1"
        "\<And>i. i \<noteq> region_offset c1 ?tgt + 8 \<Longrightarrow>
           i < region_offset c1 ?src \<or> region_offset c1 ?src + region_size c1 \<le> i \<Longrightarrow>
           cells (partition c') i = cells (partition c1) i"
        "header_at (cells (partition c')) (region_offset c1 ?tgt) = active_hdr (?gen + 1)"
        "\<not> rivals (?gen + 1) (header_at (cells (partition c')) (region_offset c1 ?src))"
        "erases_complete F sz \<Longrightarrow>
         blank_area (cells (partition c')) (region_offset c1 ?src) (region_offset c1 ?src + region_size c1)"
      have "copy_done (cells (partition c)) (cells (partition c')) c ?tgt"
      proof (rule copy_done_cong [of _ "cells (partition c1)"])
        show "cells (partition c') i = cells (partition c1) i"
          if "region_offset c ?tgt + 4096 \<le> i" "i < region_offset c ?tgt + region_size c" for i
          using that disj by (intro f(4)) (auto simp: ro fP disjoint_regions_def)
      qed (use ok ce in auto)
      moreover have "frame (switched (c\<lparr>index := relocate 4096 (index c)\<rparr>) ?tgt (?gen + 1) (compact_end c) (compact_seq c + 1)) c'"
        using frame_trans [OF frame_switched [OF frP] f(2) [unfolded ok [THEN conjunct2, THEN conjunct2, THEN conjunct2, THEN conjunct1]
          ok [THEN conjunct2, THEN conjunct2, THEN conjunct2, THEN conjunct2]]] ok by simp
      ultimately show ?thesis using f P by (simp add: compact_done_def source_blank_def Let_def ro fP)
    qed
  qed
  then show "err \<noteq> ESP_OK \<Longrightarrow> compact_failed cells c c'" "err = ESP_OK \<Longrightarrow> compact_done cells c c'"
    "err = ESP_OK \<Longrightarrow> erases_complete F sz \<Longrightarrow> source_blank cells c c'" by blast+
qed

end
