(* ===== verification/Flashq_Index.thy ===== *)
theory Flashq_Index
  imports Flashq_Compaction "HOL-Library.Multiset"
begin

text \<open>
  The in-memory index: lookup and removal, the map from identifiers to messages it stands for,
  and how replaying a log rebuilds it.
\<close>

section \<open>Lookup\<close>

lemma find_entry_Some:
  assumes "find_entry es mid = Some pos"
  shows "pos < length es" "e_id (es ! pos) = mid" "\<And>j. j < pos \<Longrightarrow> e_id (es ! j) \<noteq> mid"
proof -
  have "pos < length es \<and> e_id (es ! pos) = mid \<and> (\<forall>j<pos. e_id (es ! j) \<noteq> mid)"
    using assms
  proof (induction es arbitrary: pos)
    case (Cons e es)
    then show ?case
    proof (cases "e_id e = mid")
      case False
      then obtain p where p: "find_entry es mid = Some p" "pos = Suc p" using Cons.prems by auto
      have "e_id ((e # es) ! j) \<noteq> mid" if "j < pos" for j
        using that p(2) Cons.IH [OF p(1)] False by (cases j) auto
      then show ?thesis using Cons.IH [OF p(1)] p(2) by simp
    qed auto
  qed simp
  then show "pos < length es" "e_id (es ! pos) = mid" "\<And>j. j < pos \<Longrightarrow> e_id (es ! j) \<noteq> mid" by auto
qed

lemma find_entry_None: "find_entry es mid = None \<longleftrightarrow> mid \<notin> e_id ` set es"
  by (induction es) auto

lemma find_entry_unique:
  assumes "distinct (map e_id es)" "pos < length es" "e_id (es ! pos) = mid"
  shows "find_entry es mid = Some pos"
proof (cases "find_entry es mid")
  case None
  then have "mid \<notin> e_id ` set es" by (rule find_entry_None [THEN iffD1])
  then show ?thesis using assms(2,3) nth_mem by blast
next
  case (Some p)
  note f = find_entry_Some [OF Some]
  have "map e_id es ! p = map e_id es ! pos" using f assms by simp
  then have "p = pos" 
    using nth_eq_iff_index_eq [OF assms(1), of p pos] assms(2) f(1) by simp
  then show ?thesis using Some by simp
qed

section \<open>Removal\<close>

text \<open>The array idiom: the last entry takes the place of the removed one.\<close>

lemma remove_entry_at_mset:
  assumes "pos < length es"
  shows "mset es = mset (es ! pos # remove_entry_at es pos)"
proof -
  let ?xs = "es[pos := last es]"
  have ne: "es \<noteq> []" "?xs \<noteq> []" using assms by auto
  have l: "last es = es ! (length es - 1)" using ne(1) by (rule last_conv_nth)
  have last: "last ?xs = last es"
    using ne l by (cases "pos = length es - 1") (simp_all add: last_conv_nth)
  have "mset (butlast ?xs @ [last ?xs]) = mset ?xs" using ne(2) by simp
  also have "\<dots> = add_mset (last es) (mset es - {#es ! pos#})" using assms by (simp add: mset_update)
  finally have "mset (remove_entry_at es pos) = mset es - {#es ! pos#}"
    unfolding last by (simp add: remove_entry_at_def)
  then show ?thesis using assms by simp
qed

lemma remove_entry_at_update:
  assumes "pos < length es"
  shows "remove_entry_at (es[pos := x]) pos = remove_entry_at es pos"
proof (cases "pos = length es - 1")
  case True
  have "butlast (ys[length ys - 1 := y]) = butlast ys" for ys :: "index_entry list" and y
    by (cases ys rule: rev_cases) (simp_all add: list_update_append)
  from this [of es] show ?thesis using True by (simp add: remove_entry_at_def)
next
  case False
  moreover have "es \<noteq> []" "es[pos := x] \<noteq> []" using assms by auto
  ultimately have "last (es[pos := x]) = last es" by (simp add: last_conv_nth)
  then show ?thesis by (simp add: remove_entry_at_def)
qed

lemma remove_entry_at_set:
  assumes "distinct (map e_id es)" "pos < length es"
  shows "set (remove_entry_at es pos) = {e \<in> set es. e_id e \<noteq> e_id (es ! pos)}"
    and "distinct (map e_id (remove_entry_at es pos))"
    and "length (remove_entry_at es pos) = length es - 1"
proof -
  let ?x = "es ! pos" and ?r = "remove_entry_at es pos"
  have m: "mset es = mset (?x # ?r)" by (rule remove_entry_at_mset [OF assms(2)])
  have "mset (map e_id es) = mset (map e_id (?x # ?r))" using arg_cong [OF m, of "image_mset e_id"] by simp
  then have d: "distinct (map e_id (?x # ?r))" using assms(1) mset_eq_imp_distinct_iff by blast
  have "set es = insert ?x (set ?r)" using mset_eq_setD [OF m] by simp
  with d show "set ?r = {e \<in> set es. e_id e \<noteq> e_id ?x}" by auto (metis imageI)
  show "distinct (map e_id ?r)" using d by simp
  show "length ?r = length es - 1" by (simp add: remove_entry_at_def)
qed

section \<open>What the index stands for\<close>

text \<open>A stored message: its metadata is in the index, its body on flash.\<close>

definition stored :: "mem \<Rightarrow> nat \<Rightarrow> index_entry \<Rightarrow> message" where
  "stored m base e = \<lparr>m_id = e_id e, m_destination = entry_dest m base e, m_priority = e_priority e,
     m_state = state_of (e_state e), m_attempt_count = e_attempt_count e,
     m_created_at_us = e_created_at_us e, m_last_attempt_at_us = e_last_attempt_at_us e,
     m_next_retry_at_us = e_next_retry_at_us e, m_last_error = e_last_error e,
     m_payload = entry_payload m base e\<rparr>"

definition contents_of :: "mem \<Rightarrow> nat \<Rightarrow> index_entry list \<Rightarrow> message_id \<Rightarrow> message option" where
  "contents_of m base es = map_of (map (\<lambda>e. (e_id e, stored m base e)) es)"

definition contents :: "('p \<Rightarrow> mem) \<Rightarrow> 'p flashq_ctx \<Rightarrow> message_id \<Rightarrow> message option" where
  "contents cells c = contents_of (cells (partition c)) (region_offset c (active_region c)) (index c)"

lemma dom_contents_of: "dom (contents_of m base es) = e_id ` set es"
  by (simp add: contents_of_def dom_map_of_conv_image_fst image_image)

lemma contents_of_None: "i \<notin> e_id ` set es \<Longrightarrow> contents_of m base es i = None"
  using dom_contents_of [of m base es] by blast

lemma contents_of_nth:
  assumes "distinct (map e_id es)" "pos < length es"
  shows "contents_of m base es (e_id (es ! pos)) = Some (stored m base (es ! pos))"
proof -
  have "distinct (map fst (map (\<lambda>e. (e_id e, stored m base e)) es))"
    using assms(1) by (simp add: comp_def)
  moreover have "(e_id (es ! pos), stored m base (es ! pos)) \<in> set (map (\<lambda>e. (e_id e, stored m base e)) es)"
    using assms(2) by auto
  ultimately show ?thesis by (simp add: contents_of_def)
qed

lemma contents_of_cong:
  assumes "map e_id es = map e_id es'" "map (stored m base) es = map (stored m' base') es'"
  shows "contents_of m base es = contents_of m' base' es'"
proof -
  have "map (\<lambda>e. (e_id e, stored m base e)) es = zip (map e_id es) (map (stored m base) es)"
    for m base es by (simp add: zip_map_map zip_same_conv_map)
  then show ?thesis using assms by (simp add: contents_of_def)
qed

lemma contents_of_append:
  assumes "e_id e \<notin> e_id ` set es"
  shows "contents_of m base (es @ [e]) = (contents_of m base es)(e_id e \<mapsto> stored m base e)"
proof -
  have "contents_of m base es (e_id e) = None"
    using assms by (rule contents_of_None)
  then show ?thesis by (auto simp: contents_of_def map_add_def fun_eq_iff split: option.splits)
qed

lemma contents_of_update:
  assumes "distinct (map e_id es)" "pos < length es" "e_id e = e_id (es ! pos)"
  shows "contents_of m base (es[pos := e]) = (contents_of m base es)(e_id e \<mapsto> stored m base e)"
proof
  fix i
  have ids: "map e_id (es[pos := e]) = map e_id es"
    using assms(2,3) by (metis list_update_id map_update nth_map)
  have d: "distinct (map e_id (es[pos := e]))" using assms(1) by (simp only: ids)
  show "contents_of m base (es[pos := e]) i = ((contents_of m base es)(e_id e \<mapsto> stored m base e)) i"
  proof (cases "i \<in> e_id ` set es")
    case False
    have "e_id ` set (es[pos := e]) = e_id ` set es" using arg_cong [OF ids, of set] by simp
    then have "contents_of m base (es[pos := e]) i = None" "contents_of m base es i = None"
      using False by (simp_all only: contents_of_None not_False_eq_True)
    moreover have "i \<noteq> e_id e" using False assms(2,3) by auto
    ultimately show ?thesis by simp
  next
    case True
    then obtain j where j: "j < length es" "i = e_id (es ! j)" by (auto simp: in_set_conv_nth)
    show ?thesis
    proof (cases "j = pos")
      case True
      then show ?thesis using contents_of_nth [OF d, of pos m base] assms(2,3) j by simp
    next
      case False
      then have "i \<noteq> e_id e"
        using nth_eq_iff_index_eq [OF assms(1), of j pos] j assms(2,3) by simp
      then show ?thesis
        using contents_of_nth [OF d, of j m base] contents_of_nth [OF assms(1) j(1), of m base] j False by simp
    qed
  qed
qed

lemma contents_of_remove:
  assumes "distinct (map e_id es)" "pos < length es"
  shows "contents_of m base (remove_entry_at es pos) = (contents_of m base es)(e_id (es ! pos) := None)"
proof
  fix i
  note r = remove_entry_at_set [OF assms]
  show "contents_of m base (remove_entry_at es pos) i = ((contents_of m base es)(e_id (es ! pos) := None)) i"
  proof (cases "i \<in> e_id ` set (remove_entry_at es pos)")
    case False
    then have n: "contents_of m base (remove_entry_at es pos) i = None"
      by (rule contents_of_None)
    show ?thesis
    proof (cases "i = e_id (es ! pos)")
      case False': False
      then have "i \<notin> e_id ` set es" using False r(1) by auto
      then have "contents_of m base es i = None" by (rule contents_of_None)
      then show ?thesis using n by simp
    next
      case True
      then show ?thesis using n by simp
    qed
  next
    case True
    then obtain e where e: "e \<in> set (remove_entry_at es pos)" "i = e_id e" by auto
    then have e': "e \<in> set es" "i \<noteq> e_id (es ! pos)" using r(1) by auto
    obtain j k where "j < length es" "es ! j = e" "k < length (remove_entry_at es pos)" "remove_entry_at es pos ! k = e"
      using e(1) e'(1) by (metis in_set_conv_nth)
    then show ?thesis
      using contents_of_nth [OF assms(1), of j m base] contents_of_nth [OF r(2), of k m base] e(2) e'(2) by simp
  qed
qed

section \<open>Entries that differ in their delivery state only\<close>

definition same_message :: "index_entry \<Rightarrow> index_entry \<Rightarrow> bool" where
  "same_message e e' \<longleftrightarrow> e_id e' = e_id e \<and> e_priority e' = e_priority e \<and>
     e_destination_len e' = e_destination_len e \<and> e_payload_len e' = e_payload_len e \<and>
     e_message_offset e' = e_message_offset e \<and> e_created_at_us e' = e_created_at_us e"

lemma same_message_refl [simp]: "same_message e e"
  by (simp add: same_message_def)

lemma same_message_sizes:
  "same_message e e' \<Longrightarrow> entry_dlen e' = entry_dlen e" "same_message e e' \<Longrightarrow> entry_plen e' = entry_plen e"
  "same_message e e' \<Longrightarrow> entry_size e' = entry_size e"
  by (simp_all add: same_message_def entry_dlen_def entry_plen_def entry_size_def)

lemma same_message_body:
  "same_message e e' \<Longrightarrow> entry_body m base e' = entry_body m base e"
  "same_message e e' \<Longrightarrow> entry_dest m base e' = entry_dest m base e"
  "same_message e e' \<Longrightarrow> entry_payload m base e' = entry_payload m base e"
  by (simp_all add: entry_dest_def entry_payload_def entry_body_def same_message_sizes)
    (simp_all add: same_message_def)

lemma same_message_fits: "same_message e e' \<Longrightarrow> entry_fits m base lim cap e' = entry_fits m base lim cap e"
  by (simp add: entry_fits_def same_message_body same_message_sizes) (simp add: same_message_def)

lemma apply_update_same [simp]: "same_message e (apply_update h e)"
  by (simp add: apply_update_def same_message_def)

lemma apply_update_cong: "same_message e e' \<Longrightarrow> apply_update h e' = apply_update h e"
  by (cases e; cases e') (simp add: apply_update_def same_message_def)

lemma live_size_update:
  assumes "pos < length es" "entry_size e = entry_size (es ! pos)"
  shows "live_size (es[pos := e]) = live_size es"
  using sum_list_update_nat [OF assms(1), of entry_size e] assms(2) by (simp add: live_size_def)

lemma live_size_remove:
  assumes "pos < length es"
  shows "live_size (remove_entry_at es pos) + entry_size (es ! pos) = live_size es"
proof -
  have "sum_mset (image_mset entry_size (mset es)) =
        sum_mset (image_mset entry_size (mset (es ! pos # remove_entry_at es pos)))"
    using remove_entry_at_mset [OF assms] by simp
  then show ?thesis by (simp add: live_size_def sum_mset_sum_list flip: mset_map)
qed

lemma set_update_same:
  assumes "pos < length es" "same_message (es ! pos) e" "\<forall>x\<in>set es. P x" "\<And>x y. same_message x y \<Longrightarrow> P x \<Longrightarrow> P y"
  shows "\<forall>x\<in>set (es[pos := e]). P x"
  using assms set_update_subset_insert [of es pos e] nth_mem [OF assms(1)] by blast

lemma ids_update:
  assumes "pos < length es" "same_message (es ! pos) e"
  shows "map e_id (es[pos := e]) = map e_id es"
  using assms by (metis list_update_id map_update nth_map same_message_def)

section \<open>Replaying a log\<close>

definition intact :: "mem \<Rightarrow> nat \<Rightarrow> nat \<Rightarrow> index_entry \<Rightarrow> bool" where
  "intact m base lim e \<longleftrightarrow> (\<exists>h. rec_ok m base lim (e_message_offset e) h \<and> h_type h = REC_MESSAGE \<and>
     h_message_id h = e_id e \<and> h_destination_len h = e_destination_len e \<and> h_body_len h = e_payload_len e)"

lemma intact_same: "same_message e e' \<Longrightarrow> intact m base lim e \<Longrightarrow> intact m base lim e'"
  by (auto simp: intact_def same_message_def)

lemma scan_apply_set:
  assumes "\<forall>e\<in>set idx. P e" "h_type h = REC_MESSAGE \<Longrightarrow> P (entry_of_hdr h off)"
    and "\<And>x y. same_message x y \<Longrightarrow> P x \<Longrightarrow> P y"
  shows "\<forall>e\<in>set (fst (scan_apply cap h off (idx, gc))). P e"
proof (cases "h_type h = REC_UPDATE")
  case False
  then show ?thesis using assms(1,2) by (auto simp: scan_apply_def)
next
  case True
  show ?thesis
  proof (cases "find_entry idx (h_message_id h)")
    case None
    then show ?thesis using True assms(1) by (simp add: scan_apply_def)
  next
    case (Some pos)
    note f = find_entry_Some [OF Some]
    let ?idx = "idx[pos := apply_update h (idx ! pos)]"
    have u: "\<forall>e\<in>set ?idx. P e" by (rule set_update_same [OF f(1) apply_update_same assms(1,3)])
    have "set (remove_entry_at ?idx pos) \<subseteq> set ?idx"
      using mset_eq_setD [OF remove_entry_at_mset, of pos ?idx] f(1) by auto
    then show ?thesis using u True Some by (auto simp: scan_apply_def Let_def)
  qed
qed

lemma replay_intact:
  assumes "log_ok m base lim off hs" "\<forall>e\<in>set (fst st). intact m base lim e"
  shows "\<forall>e\<in>set (fst (replay cap off hs st)). intact m base lim e"
  using assms
proof (induction hs arbitrary: off st)
  case (Cons h hs)
  obtain idx gc where st: "st = (idx, gc)" by (cases st)
  have "\<forall>e\<in>set (fst (scan_apply cap h off (idx, gc))). intact m base lim e"
  proof (rule scan_apply_set)
    show "intact m base lim (entry_of_hdr h off)" if "h_type h = REC_MESSAGE"
      using that Cons.prems(1) by (auto simp: intact_def entry_of_hdr_def)
  qed (use Cons.prems(2) st intact_same in auto)
  then show ?case
    using Cons.prems(1) Cons.IH [of "off + rec_len h" "scan_apply cap h off (idx, gc)"] by (simp add: st)
qed simp

lemma entry_of_sealed: "entry_of_hdr (sealed e s) off = e\<lparr>e_message_offset := off\<rparr>"
  by (cases e) (simp add: entry_of_hdr_def sealed_def compact_hdr_def entry_dlen_def entry_plen_def)

lemma replay_sealed:
  "length idx + length es \<le> cap \<Longrightarrow>
   replay cap off (sealed_list s es) (idx, gc) = (idx @ relocate off es, gc)"
proof (induction es arbitrary: off s idx)
  case (Cons e es)
  have t: "h_type (sealed e s) = REC_MESSAGE" by (simp add: sealed_def compact_hdr_def)
  have "scan_apply cap (sealed e s) off (idx, gc) = (idx @ [e\<lparr>e_message_offset := off\<rparr>], gc)"
    using Cons.prems by (simp add: scan_apply_def t entry_of_sealed)
  then show ?case using Cons.prems Cons.IH [of "idx @ [e\<lparr>e_message_offset := off\<rparr>]" "off + entry_size e" "s + 1"]
    by (simp add: rec_len_sealed)
qed simp

lemma scan_apply_end: "scan_apply cap (end_sealed s) off st = st"
  by (simp add: scan_apply_def end_sealed_def split: prod.splits)

text \<open>Replaying an appended MESSAGE or UPDATE record.\<close>

lemma scan_apply_message:
  "h_type h = REC_MESSAGE \<Longrightarrow> length idx < cap \<Longrightarrow> scan_apply cap h off (idx, gc) = (idx @ [entry_of_hdr h off], gc)"
  by (simp add: scan_apply_def)

lemma scan_apply_update:
  assumes "h_type h = REC_UPDATE" "distinct (map e_id idx)" "pos < length idx" "h_message_id h = e_id (idx ! pos)"
  shows "scan_apply cap h off (idx, gc) =
    (let idx' = idx[pos := apply_update h (idx ! pos)]
     in if h_state h = STATE_DELIVERED \<or> h_state h = STATE_REMOVED
        then (remove_entry_at idx' pos, gc + 1) else (idx', gc))"
  using find_entry_unique [OF assms(2,3) refl] assms by (simp add: scan_apply_def Let_def)

end
