(* ===== verification/Flashq_Inv.thy ===== *)
theory Flashq_Inv
  imports Flashq_Index
begin

text \<open>
  The invariant of the flash queue and the steps every operation is made of: making room,
  compaction included, and appending a record.
\<close>

section \<open>The invariant\<close>

abbreviation active_base :: "'p flashq_ctx \<Rightarrow> nat" where
  "active_base c \<equiv> region_offset c (active_region c)"

abbreviation spare_base :: "'p flashq_ctx \<Rightarrow> nat" where
  "spare_base c \<equiv> region_offset c (1 - active_region c)"

text \<open>The part that concerns the state in memory, the region headers and the space.\<close>

definition inv_core :: "('p \<Rightarrow> mem) \<Rightarrow> nat \<Rightarrow> 'p flashq_ctx \<Rightarrow> bool" where
  "inv_core cells sz c \<longleftrightarrow> geometry sz c \<and>
     header_at (cells (partition c)) (active_base c) = active_hdr (active_generation c) \<and>
     \<not> rivals (active_generation c) (header_at (cells (partition c)) (spare_base c)) \<and>
     length (index c) \<le> index_capacity c \<and> distinct (map e_id (index c)) \<and>
     (\<forall>e\<in>set (index c). live_state (e_state e)) \<and> compact_ready (cells (partition c)) c \<and>
     4096 + live_size (index c) \<le> cursor c \<and> cursor c \<le> region_size c \<and>
     (\<forall>e\<in>set (index c). e_message_offset e + entry_size e \<le> cursor c)"

text \<open>The log on flash up to the cursor, and what replaying it gives.\<close>

definition log_is :: "('p \<Rightarrow> mem) \<Rightarrow> 'p flashq_ctx \<Rightarrow> index_entry list \<Rightarrow> u32 \<Rightarrow> bool" where
  "log_is cells c idx gc \<longleftrightarrow> (\<exists>hs.
     log_ok (cells (partition c)) (active_base c) (region_size c) 4096 hs \<and> log_end 4096 hs = cursor c \<and>
     replay (index_capacity c) 4096 hs ([], 0) = (idx, gc) \<and> \<not> log_fault (scratch_size c) hs)"

definition flashq_inv :: "('p \<Rightarrow> mem) \<Rightarrow> nat \<Rightarrow> 'p flashq_ctx \<Rightarrow> bool" where
  "flashq_inv cells sz c \<longleftrightarrow> inv_core cells sz c \<and> log_is cells c (index c) (awaiting_gc_count c)"

text \<open>Behind the cursor the flash is erased, and a spare region with a blank header is blank.\<close>

definition tail_blank :: "('p \<Rightarrow> mem) \<Rightarrow> 'p flashq_ctx \<Rightarrow> bool" where
  "tail_blank cells c \<longleftrightarrow>
     blank_area (cells (partition c)) (active_base c + cursor c) (active_base c + region_size c)"

definition flashq_clean :: "('p \<Rightarrow> mem) \<Rightarrow> 'p flashq_ctx \<Rightarrow> bool" where
  "flashq_clean cells c \<longleftrightarrow> tail_blank cells c \<and>
     spare_clean (cells (partition c)) (spare_base c) (region_size c)"

definition generation_ok :: "'p flashq_ctx \<Rightarrow> bool" where
  "generation_ok c \<longleftrightarrow> active_generation c < active_generation c + 1"

lemma inv_coreD:
  assumes "inv_core cells sz c"
  shows "geometry sz c" "header_at (cells (partition c)) (active_base c) = active_hdr (active_generation c)"
    "\<not> rivals (active_generation c) (header_at (cells (partition c)) (spare_base c))"
    "length (index c) \<le> index_capacity c" "distinct (map e_id (index c))"
    "\<And>e. e \<in> set (index c) \<Longrightarrow> live_state (e_state e)" "compact_ready (cells (partition c)) c"
    "4096 + live_size (index c) \<le> cursor c" "cursor c \<le> region_size c"
    "data_start c = 4096" "data_capacity c = region_size c - 4096" "68 \<le> scratch_size c"
    "8192 \<le> region_size c" "active_region c < 2" "1 - active_region c < 2" "active_region c \<noteq> 1 - active_region c"
    "active_base c + region_size c \<le> sz" "spare_base c + region_size c \<le> sz" "2 * region_size c \<le> sz"
    "\<And>e. e \<in> set (index c) \<Longrightarrow> e_message_offset e + entry_size e \<le> cursor c"
proof -
  show "geometry sz c" "header_at (cells (partition c)) (active_base c) = active_hdr (active_generation c)"
    "\<not> rivals (active_generation c) (header_at (cells (partition c)) (spare_base c))"
    "length (index c) \<le> index_capacity c" "distinct (map e_id (index c))"
    "\<And>e. e \<in> set (index c) \<Longrightarrow> live_state (e_state e)" "compact_ready (cells (partition c)) c"
    "4096 + live_size (index c) \<le> cursor c" "cursor c \<le> region_size c"
    "data_start c = 4096" "data_capacity c = region_size c - 4096" "68 \<le> scratch_size c"
    "8192 \<le> region_size c" "active_region c < 2" "2 * region_size c \<le> sz"
    "\<And>e. e \<in> set (index c) \<Longrightarrow> e_message_offset e + entry_size e \<le> cursor c"
    using assms by (simp_all add: inv_core_def geometry_def)
  then show "1 - active_region c < 2" "active_region c \<noteq> 1 - active_region c" by linarith presburger
  show "active_base c + region_size c \<le> sz" "spare_base c + region_size c \<le> sz"
    using geometry_region [of sz c "active_region c"] geometry_region [of sz c "1 - active_region c"]
      \<open>geometry sz c\<close> \<open>active_region c < 2\<close> by auto
qed

lemma log_is_intact:
  assumes "log_is cells c idx gc" "e \<in> set idx"
  shows "intact (cells (partition c)) (active_base c) (region_size c) e"
proof -
  obtain hs where "log_ok (cells (partition c)) (active_base c) (region_size c) 4096 hs"
    "replay (index_capacity c) 4096 hs ([], 0) = (idx, gc)"
    using assms(1) by (auto simp: log_is_def)
  then show ?thesis using replay_intact [of _ _ _ 4096 hs "([], 0)" "index_capacity c"] assms(2) by simp
qed

section \<open>Compaction\<close>

lemma relocate_ids [simp]: "map e_id (relocate off es) = map e_id es"
  by (induction es arbitrary: off) simp_all

lemma relocate_states: "map e_state (relocate off es) = map e_state es"
  by (induction es arbitrary: off) simp_all

lemma relocate_stored:
  assumes "map (entry_body m' base') (relocate off es) = map (entry_body m base) es"
  shows "map (stored m' base') (relocate off es) = map (stored m base) es"
  using assms
  by (induction es arbitrary: off) (simp_all add: stored_def entry_dest_def entry_payload_def)

lemma relocate_fits:
  assumes "map (entry_body m' base') (relocate off es) = map (entry_body m base) es"
    and "\<forall>e\<in>set es. entry_fits m base lim cap e" "off + live_size es \<le> lim"
  shows "\<forall>e\<in>set (relocate off es). entry_fits m' base' lim cap e"
  using assms
proof (induction es arbitrary: off)
  case (Cons e es)
  have "entry_fits m' base' lim cap (e\<lparr>e_message_offset := off\<rparr>)"
    using Cons.prems by (simp add: entry_fits_def entry_dest_def)
  moreover have "\<forall>e\<in>set (relocate (off + entry_size e) es). entry_fits m' base' lim cap e"
    using Cons.prems by (intro Cons.IH) simp_all
  ultimately show ?case by simp
qed simp

text \<open>What a step may have changed besides the entries' places in flash.\<close>

definition moved :: "'p flashq_ctx \<Rightarrow> 'p flashq_ctx \<Rightarrow> bool" where
  "moved c c' \<longleftrightarrow> map (\<lambda>e. e\<lparr>e_message_offset := 0\<rparr>) (index c') = map (\<lambda>e. e\<lparr>e_message_offset := 0\<rparr>) (index c) \<and>
     index_capacity c' = index_capacity c \<and> max_message_size c' = max_message_size c \<and>
     scratch_size c' = scratch_size c \<and> region_size c' = region_size c \<and> claim_scratch c' = claim_scratch c \<and>
     lock_created c' = lock_created c \<and> unat (active_generation c') \<le> unat (active_generation c) + 1"

lemma unat_Suc_le: "unat (g + 1 :: u32) \<le> unat g + 1"
  unfolding unat_word_ariths(1) using mod_less_eq_dividend [of "unat g + unat (1 :: u32)" "2 ^ LENGTH(32)"] by simp

lemma moved_refl [simp]: "moved c c"
  by (simp add: moved_def)

lemma moved_frame: "frame c c' \<Longrightarrow> moved c c'"
  by (simp add: moved_def frame_fields)

lemma moved_length: "moved c c' \<Longrightarrow> length (index c') = length (index c)"
  unfolding moved_def using map_eq_imp_length_eq by blast

lemma moved_nth:
  assumes "moved c c'" "pos < length (index c)"
  obtains off where "index c' ! pos = (index c ! pos)\<lparr>e_message_offset := off\<rparr>"
proof -
  have l: "length (index c') = length (index c)" by (rule moved_length [OF assms(1)])
  have "(index c' ! pos)\<lparr>e_message_offset := 0\<rparr> = (index c ! pos)\<lparr>e_message_offset := 0\<rparr>"
    using arg_cong [OF assms(1) [unfolded moved_def, THEN conjunct1], of "\<lambda>xs. xs ! pos"] assms(2) l by simp
  then have "index c' ! pos = (index c ! pos)\<lparr>e_message_offset := e_message_offset (index c' ! pos)\<rparr>"
    by (cases "index c' ! pos"; cases "index c ! pos") simp
  then show thesis by (rule that)
qed

lemma relocate_moved: "map (\<lambda>e. e\<lparr>e_message_offset := 0\<rparr>) (relocate off es) = map (\<lambda>e. e\<lparr>e_message_offset := 0\<rparr>) es"
  by (induction es arbitrary: off) simp_all

lemma switched_frame_fields:
  assumes "frame (switched (c\<lparr>index := es\<rparr>) t g n s) c'"
  shows "index c' = es" "active_region c' = t" "active_generation c' = g" "cursor c' = n" "next_seq c' = s"
    "region_size c' = region_size c" "data_start c' = data_start c" "data_capacity c' = data_capacity c"
    "index_capacity c' = index_capacity c" "scratch_size c' = scratch_size c"
    "max_message_size c' = max_message_size c" "claim_scratch c' = claim_scratch c"
    "awaiting_gc_count c' = 0" "updates_since_compaction c' = 0" "lock_created c' = lock_created c"
    "region_offset c' r = region_offset c r"
  using frame_fields [OF assms] by (simp_all add: switched_def region_offset_def)

lemma compact_done_inv:
  assumes inv: "inv_core cells sz c" and cd: "compact_done cells c c'"
  shows "inv_core cells sz c'" "log_is cells c' (index c') 0" "awaiting_gc_count c' = 0" "moved c c'"
    "cursor c' = compact_end c" "fault c' = fault c" "contents cells c' = contents cells c"
    "live_size (index c') = live_size (index c)"
    and "spare_clean (cells (partition c)) (spare_base c) (region_size c) \<Longrightarrow> tail_blank cells c'"
    and "spare_clean (cells (partition c)) (spare_base c) (region_size c) \<Longrightarrow> source_blank cells c c' \<Longrightarrow>
         flashq_clean cells c'"
proof -
  note I = inv_coreD [OF inv]
  note D = cd [unfolded compact_done_def Let_def]
  have fr: "frame (switched (c\<lparr>index := relocate 4096 (index c)\<rparr>) (1 - active_region c) (active_generation c + 1)
              (compact_end c) (compact_seq c + 1)) c'" using D by blast
  note f = switched_frame_fields [OF fr]
  let ?m = "cells (partition c)" and ?m' = "cells (partition c')"
  have bases: "active_base c' = spare_base c" "spare_base c' = active_base c"
    using I(14) by (auto simp: f less_2_cases_iff)
  have copy: "copy_done ?m ?m' c (1 - active_region c)" using D by blast
  note C = copy [unfolded copy_done_def]
  have bodies: "map (entry_body ?m' (active_base c')) (relocate 4096 (index c)) =
      map (entry_body ?m (active_base c)) (index c)" using C by (simp add: bases)
  have ce: "compact_end c \<le> region_size c" and fits: "\<forall>e\<in>set (index c). entry_fits ?m (active_base c) (region_size c) (scratch_size c) e"
    using I(7) by (simp_all add: compact_ready_def)
  have cec: "compact_end c' = compact_end c" by (simp add: compact_end_def f)
  have rdy: "compact_ready ?m' c'"
    unfolding compact_ready_def cec
    using ce relocate_fits [OF bodies fits] by (simp add: compact_end_def f)
  show "moved c c'" by (simp add: moved_def f relocate_moved unat_Suc_le [simplified])
  show "cursor c' = compact_end c" "awaiting_gc_count c' = 0" by (simp_all add: f)
  show "fault c' = fault c" using D by blast
  show "live_size (index c') = live_size (index c)" by (simp add: f)
  have st: "\<forall>e\<in>set (relocate 4096 (index c)). live_state (e_state e)"
  proof
    fix e assume "e \<in> set (relocate 4096 (index c))"
    then have "e_state e \<in> set (map e_state (index c))"
      using arg_cong [OF relocate_states [of 4096 "index c"], of set] by auto
    then show "live_state (e_state e)" using I(6) by auto
  qed
  have off: "\<forall>e\<in>set (relocate 4096 (index c)). e_message_offset e + entry_size e \<le> compact_end c"
    using relocate_range [of _ 4096 "index c"] by (fastforce simp: compact_end_def)
  show "inv_core cells sz c'"
    unfolding inv_core_def bases
    using I(1,4,5) D rdy ce st I(14) off
    by (simp add: f geometry_def) (simp add: compact_end_def)
  let ?hs = "sealed_list (next_seq c) (index c) @ [end_sealed (compact_seq c)]"
  have "replay (index_capacity c') 4096 ?hs ([], 0) = (relocate 4096 (index c), 0)"
    using replay_sealed [of "[]" "index c" "index_capacity c" 4096 "next_seq c" 0] I(4)
    by (simp add: replay_append f scan_apply_end)
  moreover have "log_end 4096 ?hs = cursor c'" by (simp add: log_end_sealed rec_len_end f compact_end_def)
  moreover have "log_ok ?m' (active_base c') (region_size c') 4096 ?hs" using C by (simp add: bases f(6))
  moreover have "\<not> log_fault (scratch_size c') ?hs"
  proof -
    have "body_len (sealed e s) + 4 \<le> scratch_size c" if "e \<in> set (index c)" for e s
    proof -
      have "total_needed (sealed e s) \<le> entry_size e" using rec_len_ge [of "sealed e s"] by (simp add: rec_len_sealed)
      moreover have "entry_size e \<le> scratch_size c" using fits that by (simp add: entry_fits_def)
      ultimately show ?thesis by (simp add: total_needed_alt)
    qed
    moreover have "body_len (end_sealed s) + 4 \<le> scratch_size c" for s
      using rec_len_ge [of "end_sealed s"] I(12) by (simp add: rec_len_end total_needed_alt)
    ultimately show ?thesis
      by (auto simp: log_fault_def f not_less dest!: sealed_list_set)
  qed
  ultimately show "log_is cells c' (index c') 0" unfolding log_is_def f(1) by blast
  show "contents cells c' = contents cells c"
    unfolding contents_def f(1)
    by (rule contents_of_cong) (simp_all add: relocate_stored [OF bodies])
  show tb: "tail_blank cells c'" if "spare_clean ?m (spare_base c) (region_size c)"
  proof -
    have "blank_area ?m' (spare_base c + compact_end c) (spare_base c + region_size c)"
      using C that by blast
    then show ?thesis unfolding tail_blank_def bases f(4,6) .
  qed
  show "flashq_clean cells c'"
    if "spare_clean ?m (spare_base c) (region_size c)" "source_blank cells c c'"
    using tb [OF that(1)] that(2) unfolding flashq_clean_def source_blank_def bases f(6) spare_clean_def by blast
qed

lemma compact_keeps_inv:
  assumes laws: "flash_laws F cells" and inv: "inv_core cells sz c" and gen: "generation_ok c"
    and run: "compact_locked F c = (ESP_OK, c')"
  shows "compact_done cells c c'"
    and "spare_clean (cells (partition c)) (spare_base c) (region_size c) \<Longrightarrow> erases_complete F sz \<Longrightarrow>
         flashq_clean cells c'"
proof -
  note I = inv_coreD [OF inv]
  note cases = compact_locked_cases [OF laws I(1,7,2,3) gen [unfolded generation_ok_def] run]
  show cd: "compact_done cells c c'" using cases(2) by simp
  show "flashq_clean cells c'"
    if "spare_clean (cells (partition c)) (spare_base c) (region_size c)" "erases_complete F sz"
    using compact_done_inv(10) [OF inv cd] cases(3) that by simp
qed

section \<open>Making room\<close>

lemma ensure_space_spec:
  assumes laws: "flash_laws F cells" and inv: "inv_core cells sz c" and gen: "generation_ok c"
    and run: "ensure_space_locked F c n = (ESP_OK, c')"
  shows "inv_core cells sz c'" "moved c c'" "cursor c' + n \<le> region_size c'" "compact_end c' + n \<le> region_size c'"
    "fault c' = fault c" "contents cells c' = contents cells c" "live_size (index c') = live_size (index c)"
    and "c' = c \<or> log_is cells c' (index c') 0 \<and> awaiting_gc_count c' = 0"
    and "flashq_clean cells c \<Longrightarrow> erases_complete F sz \<Longrightarrow> flashq_clean cells c'"
    and "flashq_clean cells c \<Longrightarrow> tail_blank cells c'"
proof -
  note I = inv_coreD [OF inv]
  let ?free = "data_capacity c - (cursor c - data_start c)"
  let ?go = "?free < n + RESERVE_BYTES \<or> updates_since_compaction c > of_nat (index_capacity c * 4 + 16)"
  have free: "data_capacity d - (cursor d - data_start d) = region_size d - cursor d" if "inv_core cells sz d" for d
    using inv_coreD(8,9,10,11) [OF that] by simp
  consider (keep) "\<not> ?go" "c' = c" "n + RESERVE_BYTES \<le> ?free"
    | (compact) "compact_locked F c = (ESP_OK, c')" "n \<le> data_capacity c' - (cursor c' - data_start c')"
  proof (cases ?go)
    case True
    obtain e1 c1 where 1: "compact_locked F c = (e1, c1)" by (metis prod.exhaust)
    note r = run [unfolded ensure_space_locked_def Let_def if_P [OF True] 1 prod.case]
    have e1: "e1 = ESP_OK" by (rule ccontr) (use r in simp)
    have "c' = c1" "n \<le> data_capacity c1 - (cursor c1 - data_start c1)"
      using r by (simp_all add: e1 not_less split: if_splits)
    then show thesis using that(2) 1 e1 by simp
  next
    case False
    note r = run [unfolded ensure_space_locked_def Let_def if_not_P [OF False] prod.case]
    have "c' = c" using r by (simp split: if_splits)
    then show thesis using that(1) False by simp
  qed
  note two = this
  have ce: "compact_end c \<le> cursor c + 68" using I(8) by (simp add: compact_end_def)
  have "inv_core cells sz c' \<and> moved c c' \<and> cursor c' + n \<le> region_size c' \<and> compact_end c' + n \<le> region_size c' \<and>
    fault c' = fault c \<and> contents cells c' = contents cells c \<and> live_size (index c') = live_size (index c) \<and>
    (c' = c \<or> log_is cells c' (index c') 0 \<and> awaiting_gc_count c' = 0) \<and>
    (flashq_clean cells c \<longrightarrow> erases_complete F sz \<longrightarrow> flashq_clean cells c') \<and>
    (flashq_clean cells c \<longrightarrow> tail_blank cells c')"
    using two
  proof cases
    case keep
    have "n + 4096 \<le> region_size c - cursor c" using keep(3) free [OF inv] by simp
    then have "cursor c + n + 4096 \<le> region_size c" by linarith
    then show ?thesis using inv ce keep(2) by (simp add: flashq_clean_def)
  next
    case compact
    note Q = compact_keeps_inv [OF laws inv gen compact(1)]
    note K = compact_done_inv [OF inv Q(1)]
    note I' = inv_coreD [OF K(1)]
    have "compact_end c' = compact_end c" using K(8) by (simp add: compact_end_def)
    then show ?thesis
      using K Q(2) compact(2) free [OF K(1)] I'(9) by (auto simp: flashq_clean_def)
  qed
  then show "inv_core cells sz c'" "moved c c'" "cursor c' + n \<le> region_size c'" "compact_end c' + n \<le> region_size c'"
    "fault c' = fault c" "contents cells c' = contents cells c" "live_size (index c') = live_size (index c)"
    "c' = c \<or> log_is cells c' (index c') 0 \<and> awaiting_gc_count c' = 0"
    "flashq_clean cells c \<Longrightarrow> erases_complete F sz \<Longrightarrow> flashq_clean cells c'"
    "flashq_clean cells c \<Longrightarrow> tail_blank cells c'" by blast+
qed

section \<open>Appending a record\<close>

text \<open>
  \<open>written cells c c' h body\<close>: going from \<open>c\<close> to \<open>c'\<close>, the record with header \<open>h\<close> and
  the given body was added at the cursor.
\<close>

definition written :: "('p \<Rightarrow> mem) \<Rightarrow> 'p flashq_ctx \<Rightarrow> 'p flashq_ctx \<Rightarrow> record_hdr \<Rightarrow> byte list \<Rightarrow> bool" where
  "written cells c c' h body \<longleftrightarrow>
     frame (c\<lparr>cursor := cursor c + rec_len h, next_seq := next_seq c + 1\<rparr>) c' \<and> fault c' = fault c \<and>
     (\<forall>i. i < active_base c + cursor c \<or> active_base c + cursor c + rec_len h \<le> i \<longrightarrow>
        cells (partition c') i = cells (partition c) i) \<and>
     rec_ok (cells (partition c')) (active_base c) (region_size c) (cursor c) h \<and>
     mem_read (cells (partition c')) (active_base c + cursor c + HDR_SIZE) (body_len h) = body \<and>
     rec_len h \<le> scratch_size c \<and> cursor c + rec_len h \<le> region_size c"

lemma append_ok:
  assumes laws: "flash_laws F cells"
    and enc: "encode_common (scratch_size c) hdr dest body = Some bs"
    and len: "length dest < 2 ^ 16" "length body < 2 ^ 32"
    and room: "cursor c + length bs \<le> region_size c"
    and run: "append_locked F c bs = (ESP_OK, c')"
  shows "written cells c c' (seal_hdr hdr (length dest) (length body)) (dest @ body)"
proof -
  let ?off = "active_base c + cursor c" and ?m = "cells (partition c)"
  obtain e1 c1 where w: "partition_write_verify F c ?off bs = (e1, c1)" by (metis prod.exhaust)
  have e1: "e1 = ESP_OK" and c': "c' = c1\<lparr>cursor := cursor c1 + length bs, next_seq := next_seq c1 + 1\<rparr>"
    using run w by (auto simp: append_locked_def Let_def split: if_splits)
  note s = partition_write_verify_spec [OF laws w]
  have fr: "frame (c\<lparr>cursor := cursor c + length bs, next_seq := next_seq c + 1\<rparr>) c'"
    using s(1) unfolding c' frame_def by (cases c; cases c1) simp
  have rd: "mem_read (cells (partition c')) ?off (length bs) = bs" using s(3) [OF e1] by (simp add: c')
  note rec = rec_ok_encoded [OF enc len rd room]
  show ?thesis
    unfolding written_def rec(2)
    using fr s(2,4) rec encode_common_Some(2) [OF enc] room by (simp add: c')
qed

lemma written_spec:
  assumes inv: "inv_core cells sz c" and log: "log_is cells c idx gc" and wr: "written cells c c' h body"
  shows "frame (c\<lparr>cursor := cursor c + rec_len h, next_seq := next_seq c + 1\<rparr>) c'" "fault c' = fault c"
    and "log_is cells c' (fst (scan_apply (index_capacity c) h (cursor c) (idx, gc)))
           (snd (scan_apply (index_capacity c) h (cursor c) (idx, gc)))"
    and "inv_core cells sz c'" "contents cells c' = contents cells c"
    and "\<And>e. e_message_offset e + entry_size e \<le> cursor c \<Longrightarrow>
           stored (cells (partition c')) (active_base c') e = stored (cells (partition c)) (active_base c) e"
    and "mem_read (cells (partition c')) (active_base c' + cursor c + HDR_SIZE) (body_len h) = body"
    and "flashq_clean cells c \<Longrightarrow> flashq_clean cells c'" "tail_blank cells c \<Longrightarrow> tail_blank cells c'"
proof -
  note I = inv_coreD [OF inv]
  note W = wr [unfolded written_def]
  let ?off = "active_base c + cursor c" and ?m = "cells (partition c)" and ?m' = "cells (partition c')"
  show fr: "frame (c\<lparr>cursor := cursor c + rec_len h, next_seq := next_seq c + 1\<rparr>) c'" and "fault c' = fault c"
    using W by blast+
  note f = frame_fields [OF fr, simplified]
  have ro: "region_offset c' r = region_offset c r" for r by (simp add: region_offset_def f)
  have out: "?m' i = ?m i" if "i < ?off \<or> ?off + rec_len h \<le> i" for i using W that by blast
  have room: "cursor c + rec_len h \<le> region_size c" using W by blast
  obtain hs where hs: "log_ok ?m (active_base c) (region_size c) 4096 hs" "log_end 4096 hs = cursor c"
    "replay (index_capacity c) 4096 hs ([], 0) = (idx, gc)" "\<not> log_fault (scratch_size c) hs"
    using log by (auto simp: log_is_def)
  have l1: "log_ok ?m' (active_base c) (region_size c) 4096 hs"
    by (rule log_ok_cong [OF _ hs(1)]) (use out hs(2) in auto)
  have "log_ok ?m' (active_base c') (region_size c') 4096 (hs @ [h])"
    using l1 W hs(2) by (simp add: log_ok_append ro f)
  moreover have "log_end 4096 (hs @ [h]) = cursor c'" by (simp add: hs(2) f)
  moreover have "replay (index_capacity c') 4096 (hs @ [h]) ([], 0) = scan_apply (index_capacity c) h (cursor c) (idx, gc)"
    by (simp add: replay_append hs f)
  moreover have "\<not> log_fault (scratch_size c') (hs @ [h])"
    using hs(4) rec_len_ge [of h] W by (auto simp: log_fault_def f total_needed_alt)
  ultimately show "log_is cells c' (fst (scan_apply (index_capacity c) h (cursor c) (idx, gc)))
           (snd (scan_apply (index_capacity c) h (cursor c) (idx, gc)))"
    unfolding log_is_def by (metis prod.collapse)
  have parts: "entry_body ?m' (active_base c') e = entry_body ?m (active_base c) e"
    if "e_message_offset e + entry_size e \<le> cursor c" for e
    unfolding ro f using that by (intro entry_body_cong out) simp
  show sto: "stored ?m' (active_base c') e = stored ?m (active_base c) e"
    if "e_message_offset e + entry_size e \<le> cursor c" for e
    using parts [OF that] by (simp add: stored_def entry_dest_def entry_payload_def)
  show "contents cells c' = contents cells c"
    unfolding contents_def f using sto I(20) by (intro contents_of_cong) (simp_all add: f)
  show "mem_read ?m' (active_base c' + cursor c + HDR_SIZE) (body_len h) = body" using W by (simp add: ro f)
  have act: "header_at ?m' (active_base c') = active_hdr (active_generation c')"
    using I(2) header_at_cong [of "active_base c" ?m' ?m] out I(8) by (simp add: ro f)
  have disj: "disjoint_regions c (active_region c) (1 - active_region c)"
    by (rule disjoint_regions_neq [OF I(16)])
  have spare: "?m' i = ?m i" if "spare_base c \<le> i" "i < spare_base c + region_size c" for i
    using that disj room by (intro out) (auto simp: disjoint_regions_def)
  have sp: "\<not> rivals (active_generation c') (header_at ?m' (spare_base c'))"
    using I(3,13) header_at_cong [of "spare_base c" ?m' ?m] spare by (simp add: ro f)
  have fits: "\<forall>e\<in>set (index c). entry_fits ?m' (active_base c') (region_size c) (scratch_size c) e"
  proof
    fix e assume e: "e \<in> set (index c)"
    then have "entry_fits ?m (active_base c) (region_size c) (scratch_size c) e"
      using I(7) by (simp add: compact_ready_def)
    then show "entry_fits ?m' (active_base c') (region_size c) (scratch_size c) e"
      using parts [OF I(20) [OF e]] by (simp add: entry_fits_def entry_dest_def)
  qed
  have off: "\<forall>e\<in>set (index c). e_message_offset e + entry_size e \<le> cursor c + rec_len h"
    using I(20) by (blast intro: trans_le_add1)
  show "inv_core cells sz c'"
    unfolding inv_core_def using I(1,4,5,6,7,8,9) off act sp fits room
    by (auto simp: f geometry_def compact_ready_def compact_end_def)
  show tb: "tail_blank cells c'" if "tail_blank cells c"
    using that out by (auto simp: tail_blank_def blank_area_def ro f)
  show "flashq_clean cells c'" if cl: "flashq_clean cells c"
  proof -
    have b: "blank_area ?m' (spare_base c) (spare_base c + k) = blank_area ?m (spare_base c) (spare_base c + k)"
      if "k \<le> region_size c" for k
      using spare that by (auto simp: blank_area_def)
    show ?thesis using cl b I(13) tb by (simp add: flashq_clean_def spare_clean_def ro f)
  qed
qed

text \<open>The two kinds of records the operations append.\<close>

definition update_rec :: "message_id \<Rightarrow> u8 \<Rightarrow> u32 \<Rightarrow> i64 \<Rightarrow> i64 \<Rightarrow> esp_err \<Rightarrow> u32 \<Rightarrow> record_hdr" where
  "update_rec mid st att last_us next_us er s = seal_hdr (update_hdr mid st att last_us next_us er s) 0 0"

lemma update_encoded:
  assumes "68 \<le> cap"
  obtains bs where "encoded (encode_update cap mid st att last_us next_us er s) = bs" "length bs = 68"
    "encode_common cap (update_hdr mid st att last_us next_us er s) [] [] = Some bs"
proof -
  have t: "record_total_size (length ([] :: byte list)) (length ([] :: byte list)) = 68"
    by (simp add: record_total_size_def round4_def)
  then obtain bs where bs: "encode_common cap (update_hdr mid st att last_us next_us er s) [] [] = Some bs"
    using encode_common_succeeds assms by metis
  then show thesis using that [of bs] encode_common_Some(1) [OF bs] t by (simp add: encode_update_def encoded_def)
qed

lemma append_update_ok:
  assumes laws: "flash_laws F cells" and cap: "68 \<le> scratch_size c" and room: "cursor c + 68 \<le> region_size c"
    and run: "append_locked F c (encoded (encode_update (scratch_size c) mid st att last_us next_us er s)) = (ESP_OK, c')"
  shows "written cells c c' (update_rec mid st att last_us next_us er s) []"
proof -
  obtain bs where bs: "encoded (encode_update (scratch_size c) mid st att last_us next_us er s) = bs" "length bs = 68"
    "encode_common (scratch_size c) (update_hdr mid st att last_us next_us er s) [] [] = Some bs"
    by (rule update_encoded [OF cap])
  show ?thesis using append_ok [OF laws bs(3), of c'] room run by (simp add: bs(1,2) update_rec_def)
qed

end
