(* ===== verification/ES_Storage.thy ===== *)
theory ES_Storage
  imports ES_Types "HOL-Library.Product_Lexorder"
begin

text \<open>
  The storage interface (\<open>include/edgesync/edgesync_storage.h\<close>): the operations table, what its
  operations do to the stored messages, and the contract as two locales.  \<open>storage_backend\<close>
  says what a success means whatever the device does; \<open>reliable_backend\<close> adds when the
  operations succeed.  The queue, the worker and the whole system are verified against these
  locales; the two backends of the repository are their interpretations.
\<close>

section \<open>The operations table\<close>

record 'c storage_ops =
  so_init :: "'c \<Rightarrow> esp_err \<times> 'c"
  so_recover :: "'c \<Rightarrow> esp_err \<times> 'c"
  so_enqueue :: "'c \<Rightarrow> message \<Rightarrow> esp_err \<times> 'c"
  so_claim_next :: "'c \<Rightarrow> i64 \<Rightarrow> esp_err \<times> message option \<times> 'c"
  so_mark_delivered :: "'c \<Rightarrow> message_id \<Rightarrow> esp_err \<times> 'c"
  so_schedule_retry :: "'c \<Rightarrow> message_id \<Rightarrow> i64 \<Rightarrow> bool \<Rightarrow> esp_err \<Rightarrow> esp_err \<times> 'c"
  so_remove :: "'c \<Rightarrow> message_id \<Rightarrow> esp_err \<times> 'c"
  so_find_drop_candidate :: "'c \<Rightarrow> overflow_policy \<Rightarrow> esp_err \<times> message_id option"
  so_get_stats :: "'c \<Rightarrow> stats \<Rightarrow> esp_err \<times> stats"
  so_close :: "'c \<Rightarrow> esp_err \<times> 'c"

section \<open>The abstract queue\<close>

text \<open>The stored messages by identifier, and what the operations make of a message.\<close>

type_synonym queue_view = "message_id \<Rightarrow> message option"

definition fresh :: "message \<Rightarrow> message" where
  "fresh msg = msg\<lparr>m_destination := c_string (m_destination msg), m_state := MSG_PENDING,
     m_attempt_count := 0, m_last_attempt_at_us := 0, m_next_retry_at_us := 0, m_last_error := ESP_OK\<rparr>"

definition claimed :: "message \<Rightarrow> i64 \<Rightarrow> message" where
  "claimed msg now_us = msg\<lparr>m_state := MSG_IN_FLIGHT, m_attempt_count := m_attempt_count msg + 1,
     m_last_attempt_at_us := now_us\<rparr>"

definition corrupted :: "message \<Rightarrow> message" where
  "corrupted msg = msg\<lparr>m_state := MSG_DEAD_LETTER, m_last_error := EDGESYNC_ERR_STORAGE_CORRUPT\<rparr>"

definition retried :: "message \<Rightarrow> i64 \<Rightarrow> bool \<Rightarrow> esp_err \<Rightarrow> message" where
  "retried msg next_us dead err = msg\<lparr>m_state := (if dead then MSG_DEAD_LETTER else MSG_PENDING),
     m_next_retry_at_us := (if dead then 0 else next_us), m_last_error := err\<rparr>"

definition requeued :: "message \<Rightarrow> message" where
  "requeued msg = (if m_state msg = MSG_IN_FLIGHT
     then msg\<lparr>m_state := MSG_PENDING, m_next_retry_at_us := 0\<rparr> else msg)"

definition requeued_with :: "(message \<Rightarrow> message) \<Rightarrow> message \<Rightarrow> message" where
  "requeued_with rewrite msg = (if m_state msg = MSG_IN_FLIGHT then requeued (rewrite msg) else msg)"

lemma requeued_with_id [simp]: "requeued_with (\<lambda>m. m) = requeued"
  by (simp add: requeued_with_def requeued_def fun_eq_iff)

lemma message_step_id [simp]:
  "m_id (fresh msg) = m_id msg" "m_id (claimed msg now_us) = m_id msg" "m_id (corrupted msg) = m_id msg"
  "m_id (retried msg next_us dead er) = m_id msg" "m_id (requeued msg) = m_id msg"
  by (simp_all add: fresh_def claimed_def corrupted_def retried_def requeued_def)

lemma message_step_state [simp]:
  "m_state (fresh msg) = MSG_PENDING" "m_state (claimed msg now_us) = MSG_IN_FLIGHT"
  "m_state (corrupted msg) = MSG_DEAD_LETTER"
  "m_state (retried msg next_us dead er) = (if dead then MSG_DEAD_LETTER else MSG_PENDING)"
  by (simp_all add: fresh_def claimed_def corrupted_def retried_def)

lemma message_step_body [simp]:
  "m_payload (fresh msg) = m_payload msg" "m_payload (claimed msg now_us) = m_payload msg"
  "m_payload (corrupted msg) = m_payload msg" "m_payload (retried msg next_us dead er) = m_payload msg"
  "m_payload (requeued msg) = m_payload msg" "m_destination (claimed msg now_us) = m_destination msg"
  "m_destination (corrupted msg) = m_destination msg"
  "m_destination (retried msg next_us dead er) = m_destination msg"
  "m_destination (requeued msg) = m_destination msg"
  by (simp_all add: fresh_def claimed_def corrupted_def retried_def requeued_def)

text \<open>Which messages a claim may take, and the order in which it prefers them.\<close>

definition eligible :: "i64 \<Rightarrow> message \<Rightarrow> bool" where
  "eligible now_us msg \<longleftrightarrow> m_state msg = MSG_PENDING \<and> sint (m_next_retry_at_us msg) \<le> sint now_us"

definition claim_key :: "message \<Rightarrow> int \<times> int \<times> int" where
  "claim_key msg = (- uint (m_priority msg), sint (m_next_retry_at_us msg), sint (m_created_at_us msg))"

definition first_to_claim :: "queue_view \<Rightarrow> i64 \<Rightarrow> message \<Rightarrow> bool" where
  "first_to_claim q now_us msg \<longleftrightarrow> q (m_id msg) = Some msg \<and> eligible now_us msg \<and>
     (\<forall>mid msg'. q mid = Some msg' \<and> eligible now_us msg' \<longrightarrow> claim_key msg \<le> claim_key msg')"

text \<open>The order in which the overflow policy gives messages up.\<close>

definition drop_key :: "overflow_policy \<Rightarrow> message \<Rightarrow> int \<times> int" where
  "drop_key policy msg =
     ((if policy = OVERFLOW_DROP_LOWEST_PRIORITY then uint (m_priority msg) else 0), sint (m_created_at_us msg))"

definition first_to_drop :: "queue_view \<Rightarrow> overflow_policy \<Rightarrow> message \<Rightarrow> bool" where
  "first_to_drop q policy msg \<longleftrightarrow> q (m_id msg) = Some msg \<and> m_state msg = MSG_PENDING \<and>
     (\<forall>mid msg'. q mid = Some msg' \<and> m_state msg' = MSG_PENDING \<longrightarrow> drop_key policy msg \<le> drop_key policy msg')"

section \<open>The contract\<close>

text \<open>
  \<open>good k c\<close> says that the backend is in order and stays so for \<open>k\<close> more operations; the bound
  is there because a backend may number its storage with a counter of fixed width.
  \<open>rewrite\<close> is what recording a new state does to the body of the message: a backend that
  appends the state leaves it alone, one that writes the message again need not.
\<close>

locale storage_backend =
  fixes ops :: "'c storage_ops" and good :: "nat \<Rightarrow> 'c \<Rightarrow> bool" and view :: "'c \<Rightarrow> queue_view"
    and rewrite :: "message \<Rightarrow> message"
  assumes rewrite_body: "rewrite msg = msg\<lparr>m_payload := m_payload (rewrite msg)\<rparr>"
    and good_mono: "good (Suc k) c \<Longrightarrow> good k c"
    and view_id: "good k c \<Longrightarrow> view c mid = Some msg \<Longrightarrow> m_id msg = mid"
    and enqueue_ok: "good (Suc k) c \<Longrightarrow> m_id msg \<notin> dom (view c) \<Longrightarrow> so_enqueue ops c msg = (ESP_OK, c') \<Longrightarrow>
      good k c' \<and> view c' = (view c)(m_id msg \<mapsto> fresh msg)"
    and enqueue_full: "good k c \<Longrightarrow> so_enqueue ops c msg = (EDGESYNC_ERR_QUEUE_FULL, c') \<Longrightarrow> c' = c"
    and claim_ok: "good (Suc k) c \<Longrightarrow> so_claim_next ops c now_us = (ESP_OK, r, c') \<Longrightarrow>
      \<exists>msg. first_to_claim (view c) now_us msg \<and> r = Some (claimed msg now_us) \<and> good k c' \<and>
        view c' = (view c)(m_id msg \<mapsto> claimed msg now_us)"
    and claim_none: "good (Suc k) c \<Longrightarrow> so_claim_next ops c now_us = (EDGESYNC_ERR_NOT_FOUND, r, c') \<Longrightarrow>
      r = None \<and> good k c' \<and> view c' = view c"
    and claim_corrupt: "good (Suc k) c \<Longrightarrow> so_claim_next ops c now_us = (EDGESYNC_ERR_STORAGE_CORRUPT, r, c') \<Longrightarrow>
      \<exists>msg. first_to_claim (view c) now_us msg \<and> r = Some (blank_message (m_id msg)) \<and> good k c' \<and>
        view c' = (view c)(m_id msg \<mapsto> corrupted msg)"
    and delivered_ok: "good (Suc k) c \<Longrightarrow> so_mark_delivered ops c mid = (ESP_OK, c') \<Longrightarrow>
      good k c' \<and> mid \<in> dom (view c) \<and> view c' = (view c)(mid := None)"
    and removed_ok: "good (Suc k) c \<Longrightarrow> so_remove ops c mid = (ESP_OK, c') \<Longrightarrow>
      good k c' \<and> mid \<in> dom (view c) \<and> view c' = (view c)(mid := None)"
    and retry_ok: "good (Suc k) c \<Longrightarrow> so_schedule_retry ops c mid next_us dead er = (ESP_OK, c') \<Longrightarrow>
      good k c' \<and> mid \<in> dom (view c) \<and>
        view c' = (view c)(mid \<mapsto> retried (rewrite (the (view c mid))) next_us dead er)"
    and drop_ok: "good k c \<Longrightarrow> so_find_drop_candidate ops c policy = (ESP_OK, dropped) \<Longrightarrow>
      \<exists>msg. first_to_drop (view c) policy msg \<and> dropped = Some (m_id msg)"
    and drop_none: "good k c \<Longrightarrow> so_find_drop_candidate ops c policy = (err, dropped) \<Longrightarrow> err \<noteq> ESP_OK \<Longrightarrow>
      \<forall>mid msg. view c mid = Some msg \<longrightarrow> m_state msg \<noteq> MSG_PENDING"

text \<open>
  A backend on a device that does not fail: an operation fails only for the reason its
  contract names, and then changes nothing.
\<close>

locale reliable_backend = storage_backend +
  fixes capacity :: nat and accepts :: "message \<Rightarrow> bool"
  assumes view_finite: "good k c \<Longrightarrow> finite (dom (view c))"
    and view_bounded: "good k c \<Longrightarrow> card (dom (view c)) \<le> capacity"
    and enqueue_total: "good (Suc k) c \<Longrightarrow> so_enqueue ops c msg = (err, c') \<Longrightarrow>
      err = (if capacity \<le> card (dom (view c)) then EDGESYNC_ERR_QUEUE_FULL
             else if \<not> accepts msg then EDGESYNC_ERR_SERIALIZATION else ESP_OK) \<and> (err \<noteq> ESP_OK \<longrightarrow> c' = c)"
    and claim_total: "good (Suc k) c \<Longrightarrow> so_claim_next ops c now_us = (err, r, c') \<Longrightarrow>
      err = (if \<exists>mid msg. view c mid = Some msg \<and> eligible now_us msg then ESP_OK else EDGESYNC_ERR_NOT_FOUND)"
    and delivered_total: "good (Suc k) c \<Longrightarrow> so_mark_delivered ops c mid = (err, c') \<Longrightarrow>
      err = (if mid \<in> dom (view c) then ESP_OK else EDGESYNC_ERR_NOT_FOUND) \<and> (err \<noteq> ESP_OK \<longrightarrow> c' = c)"
    and removed_total: "good (Suc k) c \<Longrightarrow> so_remove ops c mid = (err, c') \<Longrightarrow>
      err = (if mid \<in> dom (view c) then ESP_OK else EDGESYNC_ERR_NOT_FOUND) \<and> (err \<noteq> ESP_OK \<longrightarrow> c' = c)"
    and retry_total: "good (Suc k) c \<Longrightarrow> so_schedule_retry ops c mid next_us dead er = (err, c') \<Longrightarrow>
      err = (if mid \<in> dom (view c) then ESP_OK else EDGESYNC_ERR_NOT_FOUND) \<and> (err \<noteq> ESP_OK \<longrightarrow> c' = c)"
begin

lemma removed_card:
  assumes "good (Suc k) c" "so_remove ops c mid = (ESP_OK, c')"
  shows "card (dom (view c')) < card (dom (view c))"
proof -
  have "mid \<in> dom (view c)" "view c' = (view c)(mid := None)" using removed_ok [OF assms] by blast+
  then show ?thesis using card_Diff1_less [OF view_finite [OF assms(1)]] by simp
qed

lemma drop_total:
  assumes "good k c"
  shows "fst (so_find_drop_candidate ops c policy) = ESP_OK \<or>
    (\<forall>mid msg. view c mid = Some msg \<longrightarrow> m_state msg \<noteq> MSG_PENDING)"
  using drop_none [OF assms] by (metis prod.collapse)

end

text \<open>
  A backend that survives a restart: \<open>reboot c c0\<close> says that \<open>c0\<close> is the context of a process
  that was started again on the storage of \<open>c\<close>.
\<close>

locale durable_backend = reliable_backend +
  fixes reboot :: "'a \<Rightarrow> 'a \<Rightarrow> bool"
  assumes reboot_init: "reboot c c0 \<Longrightarrow> reboot c (snd (so_init ops c0))"
    and restart_ok: "good (k + card (dom (view c)) + 1) c \<Longrightarrow> reboot c c0 \<Longrightarrow> so_recover ops c0 = (err, c') \<Longrightarrow>
      err = ESP_OK \<and> good k c' \<and> view c' = (\<lambda>mid. map_option (requeued_with rewrite) (view c mid))"

text \<open>A backend that never changes the body of a stored message.\<close>

locale lossless_backend = durable_backend +
  assumes rewrite_id: "rewrite msg = msg"

end
