(* ===== verification/Flashq_Steps.thy ===== *)
theory Flashq_Steps
  imports Flashq_Inv ES_Storage
begin

text \<open>
  Every operation of the flash queue, when it returns \<open>ESP_OK\<close>, keeps the invariant and does
  to the stored messages what its contract says.  The device only has to obey the laws: it may
  fail at any access.
\<close>

section \<open>Fields the invariant does not mention\<close>

lemma inv_core_fields [simp]:
  "inv_core cells sz (c\<lparr>awaiting_gc_count := g\<rparr>) = inv_core cells sz c"
  "inv_core cells sz (c\<lparr>updates_since_compaction := u\<rparr>) = inv_core cells sz c"
  "inv_core cells sz (c\<lparr>claim_scratch := s\<rparr>) = inv_core cells sz c"
  "inv_core cells sz (c\<lparr>fault := b\<rparr>) = inv_core cells sz c"
  by (simp_all add: inv_core_def geometry_def compact_ready_def compact_end_def region_offset_def)

lemma log_is_fields [simp]:
  "log_is cells (c\<lparr>awaiting_gc_count := g\<rparr>) idx gc = log_is cells c idx gc"
  "log_is cells (c\<lparr>updates_since_compaction := u\<rparr>) idx gc = log_is cells c idx gc"
  "log_is cells (c\<lparr>claim_scratch := s\<rparr>) idx gc = log_is cells c idx gc"
  "log_is cells (c\<lparr>fault := b\<rparr>) idx gc = log_is cells c idx gc"
  "log_is cells (c\<lparr>index := xs\<rparr>) idx gc = log_is cells c idx gc"
  by (simp_all add: log_is_def region_offset_def)

lemma clean_fields [simp]:
  "flashq_clean cells (c\<lparr>awaiting_gc_count := g\<rparr>) = flashq_clean cells c"
  "flashq_clean cells (c\<lparr>updates_since_compaction := u\<rparr>) = flashq_clean cells c"
  "flashq_clean cells (c\<lparr>claim_scratch := s\<rparr>) = flashq_clean cells c"
  "flashq_clean cells (c\<lparr>fault := b\<rparr>) = flashq_clean cells c"
  "flashq_clean cells (c\<lparr>index := xs\<rparr>) = flashq_clean cells c"
  by (simp_all add: flashq_clean_def tail_blank_def region_offset_def)

lemma tail_blank_fields [simp]:
  "tail_blank cells (c\<lparr>awaiting_gc_count := g\<rparr>) = tail_blank cells c"
  "tail_blank cells (c\<lparr>updates_since_compaction := u\<rparr>) = tail_blank cells c"
  "tail_blank cells (c\<lparr>index := xs\<rparr>) = tail_blank cells c"
  by (simp_all add: tail_blank_def region_offset_def)

lemma contents_fields [simp]:
  "contents cells (c\<lparr>awaiting_gc_count := g\<rparr>) = contents cells c"
  "contents cells (c\<lparr>updates_since_compaction := u\<rparr>) = contents cells c"
  "contents cells (c\<lparr>claim_scratch := s\<rparr>) = contents cells c"
  "contents cells (c\<lparr>fault := b\<rparr>) = contents cells c"
  by (simp_all add: contents_def region_offset_def)

lemma generation_ok_fields [simp]:
  "generation_ok (c\<lparr>index := xs\<rparr>) = generation_ok c" "generation_ok (c\<lparr>claim_scratch := s\<rparr>) = generation_ok c"
  "generation_ok (c\<lparr>fault := b\<rparr>) = generation_ok c" 
  by (simp_all add: generation_ok_def)

lemma region_offset_fields [simp]:
  "region_offset (c\<lparr>index := xs\<rparr>) = region_offset c" "region_offset (c\<lparr>awaiting_gc_count := g\<rparr>) = region_offset c"
  "region_offset (c\<lparr>updates_since_compaction := u\<rparr>) = region_offset c"
  "region_offset (c\<lparr>claim_scratch := s\<rparr>) = region_offset c" "region_offset (c\<lparr>fault := b\<rparr>) = region_offset c"
  by (simp_all add: region_offset_def fun_eq_iff)

lemma updates_index_order:
  "c\<lparr>updates_since_compaction := u, index := xs\<rparr> = c\<lparr>index := xs, updates_since_compaction := u\<rparr>"
  by simp

text \<open>Changing the delivery state of an entry, and removing one.\<close>

lemma inv_core_update:
  assumes inv: "inv_core cells sz c" and pos: "pos < length (index c)"
    and same: "same_message (index c ! pos) e" and live: "live_state (e_state e)"
  shows "inv_core cells sz (c\<lparr>index := (index c)[pos := e]\<rparr>)"
proof -
  note I = inv_coreD [OF inv]
  let ?es = "(index c)[pos := e]"
  have ls: "live_size ?es = live_size (index c)"
    using pos same by (intro live_size_update) (simp_all add: same_message_sizes)
  have st: "\<forall>x\<in>set ?es. live_state (e_state x)"
    using I(6) live set_update_subset_insert [of "index c" pos e] by auto
  have fits: "\<forall>x\<in>set ?es. entry_fits (cells (partition c)) (active_base c) (region_size c) (scratch_size c) x"
    using I(7) by (intro set_update_same [OF pos same]) (auto simp: compact_ready_def same_message_fits)
  have off: "\<forall>x\<in>set ?es. e_message_offset x + entry_size x \<le> cursor c"
    using I(20) by (intro set_update_same [OF pos same]) (auto simp: same_message_sizes, simp add: same_message_def)
  show ?thesis
    unfolding inv_core_def using I(1-5,7-9) ids_update [OF pos same] ls st fits off
    by (simp add: geometry_def compact_ready_def compact_end_def)
qed

lemma inv_core_remove:
  assumes inv: "inv_core cells sz c" and pos: "pos < length (index c)"
  shows "inv_core cells sz (c\<lparr>index := remove_entry_at (index c) pos\<rparr>)"
proof -
  note I = inv_coreD [OF inv]
  note r = remove_entry_at_set [OF I(5) pos]
  have "live_size (remove_entry_at (index c) pos) \<le> live_size (index c)"
    using live_size_remove [OF pos] by linarith
  then show ?thesis
    unfolding inv_core_def using I(1-9) I(20) r
    by (auto simp: geometry_def compact_ready_def compact_end_def)
qed

section \<open>Writing an update record\<close>

text \<open>\<open>idx\<close> is what the log says; the index in memory may already differ from it at \<open>pos\<close>.\<close>

definition differ_at :: "nat \<Rightarrow> index_entry list \<Rightarrow> index_entry list \<Rightarrow> bool" where
  "differ_at pos idx es \<longleftrightarrow> length idx = length es \<and> (\<forall>j<length es. j \<noteq> pos \<longrightarrow> idx ! j = es ! j) \<and>
     (pos < length es \<longrightarrow> same_message (es ! pos) (idx ! pos))"

lemma differ_at_refl [simp]: "differ_at pos es es"
  by (simp add: differ_at_def)

lemma differ_at_update:
  assumes "differ_at pos idx es" "pos < length es"
  shows "idx[pos := apply_update h (idx ! pos)] = es[pos := apply_update h (es ! pos)]"
  using assms apply_update_cong [of "es ! pos" "idx ! pos" h]
  by (intro nth_equalityI) (auto simp: differ_at_def nth_list_update)

lemma differ_at_distinct:
  assumes "differ_at pos idx es" "pos < length es"
  shows "map e_id idx = map e_id es"
proof (rule nth_equalityI)
  show "length (map e_id idx) = length (map e_id es)" using assms by (simp add: differ_at_def)
  fix i assume "i < length (map e_id idx)"
  then show "map e_id idx ! i = map e_id es ! i"
    using assms by (cases "i = pos") (simp_all add: differ_at_def same_message_def)
qed

definition updated :: "index_entry \<Rightarrow> u8 \<Rightarrow> u32 \<Rightarrow> i64 \<Rightarrow> i64 \<Rightarrow> esp_err \<Rightarrow> index_entry" where
  "updated e st att last_us next_us err = e\<lparr>e_state := st, e_attempt_count := att,
     e_last_attempt_at_us := last_us, e_next_retry_at_us := next_us, e_last_error := err\<rparr>"

lemma updated_same [simp]: "same_message e (updated e st att last_us next_us err)"
  by (simp add: updated_def same_message_def)

lemma updated_fields [simp]:
  "e_state (updated e st att last_us next_us err) = st" "e_id (updated e st att last_us next_us err) = e_id e"
  by (simp_all add: updated_def)

lemma update_effect:
  assumes inv: "inv_core cells sz c" and log: "log_is cells c idx (awaiting_gc_count c)"
    and diff: "differ_at pos idx (index c)" and pos: "pos < length (index c)"
    and wr: "written cells c c' (update_rec (e_id (index c ! pos)) st att last_us next_us er s) []"
  defines "e' \<equiv> updated (index c' ! pos) st att last_us next_us er"
    and "retire \<equiv> st = STATE_DELIVERED \<or> st = STATE_REMOVED"
  shows "inv_core cells sz c'" "moved c c'" "index c' = index c"
    "contents cells c' = contents cells c" "fault c' = fault c" "awaiting_gc_count c' = awaiting_gc_count c"
    and "log_is cells c'
          (if retire then remove_entry_at ((index c')[pos := e']) pos else (index c')[pos := e'])
          (if retire then awaiting_gc_count c' + 1 else awaiting_gc_count c')"
    and "flashq_clean cells c \<Longrightarrow> flashq_clean cells c'" "tail_blank cells c \<Longrightarrow> tail_blank cells c'"
proof -
  let ?h = "update_rec (e_id (index c ! pos)) st att last_us next_us er s"
  note A = written_spec [OF inv log wr]
  have i2: "index c' = index c" "index_capacity c' = index_capacity c" "awaiting_gc_count c' = awaiting_gc_count c"
    using frame_fields [OF A(1)] by simp_all
  show "inv_core cells sz c'" "index c' = index c" "contents cells c' = contents cells c" "fault c' = fault c"
    "awaiting_gc_count c' = awaiting_gc_count c"
    by (rule A(4), rule i2(1), rule A(5), rule A(2), rule i2(3))
  show "moved c c'" using frame_fields [OF A(1)] by (simp add: moved_def)
  show "flashq_clean cells c \<Longrightarrow> flashq_clean cells c'" "tail_blank cells c \<Longrightarrow> tail_blank cells c'"
    by (fact A(8), fact A(9))
  have ids: "map e_id idx = map e_id (index c)" using differ_at_distinct [OF diff pos] .
  have len: "length idx = length (index c)" using arg_cong [OF ids, of length] by simp
  have id_pos: "e_id (idx ! pos) = e_id (index c ! pos)"
    using arg_cong [OF ids, of "\<lambda>xs. xs ! pos"] pos len by simp
  have hf: "h_type ?h = REC_UPDATE" "h_message_id ?h = e_id (idx ! pos)" "h_state ?h = st"
    by (simp_all add: update_rec_def update_hdr_def id_pos)
  have au: "apply_update ?h (index c ! pos) = e'"
    by (simp add: apply_update_def e'_def updated_def update_rec_def update_hdr_def i2)
  have upd: "idx[pos := apply_update ?h (idx ! pos)] = (index c')[pos := e']"
    using differ_at_update [OF diff pos] by (simp add: au i2(1))
  have "scan_apply (index_capacity c) ?h (cursor c) (idx, awaiting_gc_count c) =
      (let idx' = idx[pos := apply_update ?h (idx ! pos)]
       in if h_state ?h = STATE_DELIVERED \<or> h_state ?h = STATE_REMOVED
          then (remove_entry_at idx' pos, awaiting_gc_count c + 1) else (idx', awaiting_gc_count c))"
    using inv_coreD(5) [OF inv] ids pos len hf by (intro scan_apply_update) simp_all
  then have "scan_apply (index_capacity c) ?h (cursor c) (idx, awaiting_gc_count c) =
      (if retire then remove_entry_at ((index c')[pos := e']) pos else (index c')[pos := e'],
       if retire then awaiting_gc_count c' + 1 else awaiting_gc_count c')"
    unfolding Let_def upd hf(3) by (simp add: retire_def i2(3))
  then show "log_is cells c'
          (if retire then remove_entry_at ((index c')[pos := e']) pos else (index c')[pos := e'])
          (if retire then awaiting_gc_count c' + 1 else awaiting_gc_count c')"
    using A(3) by simp
qed

lemma room_log:
  assumes "c1 = c \<or> log_is cells c1 (index c1) 0 \<and> awaiting_gc_count c1 = 0"
    and "log_is cells c idx (awaiting_gc_count c)" "differ_at pos idx (index c)"
  obtains idx1 where "log_is cells c1 idx1 (awaiting_gc_count c1)" "differ_at pos idx1 (index c1)"
    "idx1 = (if c1 = c then idx else index c1)"
  using assms by (cases "c1 = c") auto

lemma update_spec:
  assumes laws: "flash_laws F cells" and inv: "inv_core cells sz c" and gen: "generation_ok c"
    and log: "log_is cells c idx (awaiting_gc_count c)" and diff: "differ_at pos idx (index c)"
    and pos: "pos < length (index c)"
    and room: "ensure_space_locked F c (record_total_size 0 0) = (ESP_OK, c1)"
    and app: "append_locked F c1 (encoded (encode_update (scratch_size c1) (e_id (index c1 ! pos)) st att
                last_us next_us er (next_seq c1))) = (ESP_OK, c2)"
  defines "e' \<equiv> updated (index c2 ! pos) st att last_us next_us er"
    and "retire \<equiv> st = STATE_DELIVERED \<or> st = STATE_REMOVED"
  shows "inv_core cells sz c2" "moved c c2" "index c2 = index c1" "pos < length (index c2)"
    "contents cells c2 = contents cells c" "fault c2 = fault c"
    and "log_is cells c2
          (if retire then remove_entry_at ((index c2)[pos := e']) pos else (index c2)[pos := e'])
          (if retire then awaiting_gc_count c2 + 1 else awaiting_gc_count c2)"
    and "flashq_clean cells c \<Longrightarrow> erases_complete F sz \<Longrightarrow> flashq_clean cells c2"
proof -
  have t: "record_total_size 0 0 = 68" by (simp add: record_total_size_def round4_def)
  note R = ensure_space_spec [OF laws inv gen room]
  have pos1: "pos < length (index c1)" using pos moved_length [OF R(2)] by simp
  obtain idx1 where idx1: "log_is cells c1 idx1 (awaiting_gc_count c1)" "differ_at pos idx1 (index c1)"
    by (rule room_log [OF R(8) log diff])
  have wr: "written cells c1 c2 (update_rec (e_id (index c1 ! pos)) st att last_us next_us er (next_seq c1)) []"
    using append_update_ok [OF laws inv_coreD(12) [OF R(1)] _ app] R(3) by (simp add: t)
  note U = update_effect [OF R(1) idx1 pos1 wr, folded e'_def retire_def]
  show "inv_core cells sz c2" "index c2 = index c1" by (fact U(1), fact U(3))
  show "pos < length (index c2)" using pos1 by (simp add: U(3))
  show "contents cells c2 = contents cells c" "fault c2 = fault c" using U(4,5) R(5,6) by simp_all
  show "moved c c2" using R(2) U(2,3) unfolding moved_def
    using frame_fields(6) [OF written_spec(1) [OF R(1) idx1(1) wr]] by simp
  show "log_is cells c2
          (if retire then remove_entry_at ((index c2)[pos := e']) pos else (index c2)[pos := e'])
          (if retire then awaiting_gc_count c2 + 1 else awaiting_gc_count c2)"
    by (fact U(7))
  show "flashq_clean cells c2" if "flashq_clean cells c" "erases_complete F sz"
    using U(8) R(9) that by blast
qed

lemma stored_updated:
  "stored m base (updated e st att last_us next_us er) = (stored m base e)
     \<lparr>m_state := state_of st, m_attempt_count := att, m_last_attempt_at_us := last_us,
      m_next_retry_at_us := next_us, m_last_error := er\<rparr>"
  using same_message_body [OF updated_same, of m base e st att last_us next_us er]
  by (simp add: stored_def) (simp add: updated_def)

lemma contents_nth:
  assumes "inv_core cells sz c" "pos < length (index c)"
  shows "contents cells c (e_id (index c ! pos)) =
    Some (stored (cells (partition c)) (active_base c) (index c ! pos))"
  unfolding contents_def using inv_coreD(5) [OF assms(1)] assms(2) by (rule contents_of_nth)

lemma contents_updated:
  assumes inv: "inv_core cells sz c" and pos: "pos < length (index c)"
  shows "contents cells (c\<lparr>index := (index c)[pos := updated (index c ! pos) st att last_us next_us er]\<rparr>) =
    (contents cells c)(e_id (index c ! pos) \<mapsto> (the (contents cells c (e_id (index c ! pos))))
       \<lparr>m_state := state_of st, m_attempt_count := att, m_last_attempt_at_us := last_us,
        m_next_retry_at_us := next_us, m_last_error := er\<rparr>)"
  using contents_of_update [OF inv_coreD(5) [OF inv] pos, of "updated (index c ! pos) st att last_us next_us er"]
  by (simp add: contents_def stored_updated contents_of_nth [OF inv_coreD(5) [OF inv] pos])

text \<open>What all the operations keep: the configuration, the absence of overruns, a clean tail.\<close>

definition keeps :: "('p \<Rightarrow> mem) \<Rightarrow> 'p flash_ops \<Rightarrow> nat \<Rightarrow> 'p flashq_ctx \<Rightarrow> 'p flashq_ctx \<Rightarrow> bool" where
  "keeps cells F sz c c' \<longleftrightarrow> fault c' = fault c \<and> index_capacity c' = index_capacity c \<and>
     max_message_size c' = max_message_size c \<and> scratch_size c' = scratch_size c \<and>
     region_size c' = region_size c \<and> unat (active_generation c') \<le> unat (active_generation c) + 1 \<and>
     (flashq_clean cells c \<longrightarrow> erases_complete F sz \<longrightarrow> flashq_clean cells c')"

lemma append_state_update_spec:
  assumes laws: "flash_laws F cells" and inv: "inv_core cells sz c" and gen: "generation_ok c"
    and log: "log_is cells c idx (awaiting_gc_count c)" and diff: "differ_at pos idx (index c)"
    and pos: "pos < length (index c)"
    and run: "append_state_update_locked F c pos st = (ESP_OK, c')"
  shows "keeps cells F sz c c'" "pos < length (index c')" "e_id (index c' ! pos) = e_id (index c ! pos)"
    and "live_state st \<Longrightarrow> flashq_inv cells sz c' \<and> contents cells c' =
           (contents cells c)(e_id (index c ! pos) \<mapsto> (the (contents cells c (e_id (index c ! pos))))\<lparr>m_state := state_of st\<rparr>)"
    and "st = STATE_DELIVERED \<or> st = STATE_REMOVED \<Longrightarrow>
         flashq_inv cells sz (c'\<lparr>index := remove_entry_at (index c') pos, awaiting_gc_count := awaiting_gc_count c' + 1\<rparr>) \<and>
         contents cells (c'\<lparr>index := remove_entry_at (index c') pos, awaiting_gc_count := awaiting_gc_count c' + 1\<rparr>) =
         (contents cells c)(e_id (index c ! pos) := None)"
    and "claim_scratch c' = claim_scratch c"
    and "map (\<lambda>e. e\<lparr>e_message_offset := 0\<rparr>) (index c') =
      map (\<lambda>e. e\<lparr>e_message_offset := 0\<rparr>) ((index c)[pos := (index c ! pos)\<lparr>e_state := st\<rparr>])"
proof -
  obtain err1 c1 where 1: "ensure_space_locked F c (record_total_size 0 0) = (err1, c1)" by (metis prod.exhaust)
  let ?e = "index c1 ! pos"
  obtain err2 c2 where 2: "append_locked F c1 (encoded (encode_update (scratch_size c1) (e_id ?e) st (e_attempt_count ?e)
                (e_last_attempt_at_us ?e) (e_next_retry_at_us ?e) (e_last_error ?e) (next_seq c1))) = (err2, c2)"
    by (metis prod.exhaust)
  note r = run [unfolded append_state_update_locked_def Let_def 1 prod.case 2]
  have ok: "err1 = ESP_OK" "err2 = ESP_OK"
    and c': "c' = c2\<lparr>index := (index c2)[pos := ?e\<lparr>e_state := st\<rparr>],
                    updates_since_compaction := updates_since_compaction c2 + 1\<rparr>"
    using r by (auto split: if_splits)
  note U = update_spec [OF laws inv gen log diff pos 1 [unfolded ok] 2 [unfolded ok]]
  let ?e' = "updated (index c2 ! pos) st (e_attempt_count ?e) (e_last_attempt_at_us ?e) (e_next_retry_at_us ?e) (e_last_error ?e)"
  have e': "?e\<lparr>e_state := st\<rparr> = ?e'" by (simp add: U(3) updated_def)
  have id2: "e_id (index c2 ! pos) = e_id (index c ! pos)"
    using moved_nth [OF U(2) pos] by (metis index_entry.select_convs(1) index_entry.surjective index_entry.update_convs(7))
  show "pos < length (index c')" using U(4) by (simp add: c')
  show "e_id (index c' ! pos) = e_id (index c ! pos)" using U(4) id2 by (simp add: c' U(3))
  show "keeps cells F sz c c'" using U(2,6,8) by (simp add: keeps_def c' moved_def)
  show "claim_scratch c' = claim_scratch c" using U(2) by (simp add: c' moved_def)
  show "map (\<lambda>e. e\<lparr>e_message_offset := 0\<rparr>) (index c') =
      map (\<lambda>e. e\<lparr>e_message_offset := 0\<rparr>) ((index c)[pos := (index c ! pos)\<lparr>e_state := st\<rparr>])"
  proof -
    have m: "map (\<lambda>e. e\<lparr>e_message_offset := 0\<rparr>) (index c2) = map (\<lambda>e. e\<lparr>e_message_offset := 0\<rparr>) (index c)"
      using U(2) by (simp add: moved_def)
    then have "(index c2 ! pos)\<lparr>e_message_offset := 0\<rparr> = (index c ! pos)\<lparr>e_message_offset := 0\<rparr>"
      using U(4) pos by (metis nth_map)
    then have "(index c2 ! pos)\<lparr>e_state := st, e_message_offset := 0\<rparr> = (index c ! pos)\<lparr>e_state := st, e_message_offset := 0\<rparr>"
      by (cases "index c2 ! pos"; cases "index c ! pos") simp
    then show ?thesis using m by (simp add: c' U(3) map_update)
  qed
  let ?c3 = "c2\<lparr>index := (index c2)[pos := ?e']\<rparr>"
  have con3: "contents cells ?c3 = (contents cells c)(e_id (index c ! pos) \<mapsto>
      (the (contents cells c (e_id (index c ! pos))))\<lparr>m_state := state_of st\<rparr>)"
  proof -
    have "the (contents cells c2 (e_id (index c2 ! pos))) = stored (cells (partition c2)) (active_base c2) (index c2 ! pos)"
      using contents_nth [OF U(1,4)] by simp
    then have "(the (contents cells c2 (e_id (index c2 ! pos))))\<lparr>m_state := state_of st, m_attempt_count := e_attempt_count ?e,
        m_last_attempt_at_us := e_last_attempt_at_us ?e, m_next_retry_at_us := e_next_retry_at_us ?e, m_last_error := e_last_error ?e\<rparr> =
        (the (contents cells c2 (e_id (index c2 ! pos))))\<lparr>m_state := state_of st\<rparr>"
      by (simp add: U(3) stored_def)
    then show ?thesis
      using contents_updated [OF U(1,4), of st "e_attempt_count ?e" "e_last_attempt_at_us ?e" "e_next_retry_at_us ?e" "e_last_error ?e"]
      by (simp add: U(5) id2)
  qed
  show "flashq_inv cells sz c' \<and> contents cells c' =
      (contents cells c)(e_id (index c ! pos) \<mapsto> (the (contents cells c (e_id (index c ! pos))))\<lparr>m_state := state_of st\<rparr>)"
    if "live_state st"
  proof -
    have "\<not> (st = STATE_DELIVERED \<or> st = STATE_REMOVED)" using that by (auto simp: live_state_def)
    then have "log_is cells c2 ((index c2)[pos := ?e']) (awaiting_gc_count c2)" using U(7) by simp
    moreover have "inv_core cells sz ?c3" using that by (intro inv_core_update [OF U(1,4)]) simp_all
    ultimately show ?thesis using con3 by (simp add: flashq_inv_def c' e')
  qed
  show "flashq_inv cells sz (c'\<lparr>index := remove_entry_at (index c') pos, awaiting_gc_count := awaiting_gc_count c' + 1\<rparr>) \<and>
         contents cells (c'\<lparr>index := remove_entry_at (index c') pos, awaiting_gc_count := awaiting_gc_count c' + 1\<rparr>) =
         (contents cells c)(e_id (index c ! pos) := None)"
    if ret: "st = STATE_DELIVERED \<or> st = STATE_REMOVED"
  proof -
    let ?es = "(index c2)[pos := ?e']"
    have l: "log_is cells c2 (remove_entry_at ?es pos) (awaiting_gc_count c2 + 1)" using U(7) ret by (simp only: if_True simp_thms)
    have "contents cells (c2\<lparr>index := remove_entry_at (index c2) pos\<rparr>) = (contents cells c)(e_id (index c ! pos) := None)"
      using contents_of_remove [OF inv_coreD(5) [OF U(1)] U(4)] U(5) id2 by (simp add: contents_def)
    then show ?thesis
      using l inv_core_remove [OF U(1,4)]
      by (simp add: flashq_inv_def c' e' remove_entry_at_update [OF U(4)] updates_index_order)
  qed
qed

section \<open>The operations\<close>

lemma find_contents:
  assumes inv: "inv_core cells sz c" and f: "find_entry (index c) mid = Some pos"
  shows "pos < length (index c)" "e_id (index c ! pos) = mid"
    and "contents cells c mid = Some (stored (cells (partition c)) (active_base c) (index c ! pos))"
  using find_entry_Some [OF f] contents_nth [OF inv, of pos] by simp_all

lemma find_None_contents: "find_entry (index c) mid = None \<longleftrightarrow> contents cells c mid = None"
proof -
  have "find_entry (index c) mid = None \<longleftrightarrow> mid \<notin> dom (contents cells c)"
    unfolding contents_def dom_contents_of by (rule find_entry_None)
  then show ?thesis by (simp add: domIff)
qed

lemma keeps_remove:
  "keeps cells F sz c c' \<Longrightarrow> keeps cells F sz c (c'\<lparr>index := xs, awaiting_gc_count := g\<rparr>)"
  by (simp add: keeps_def)

lemma retire_entry_ok:
  assumes laws: "flash_laws F cells" and inv: "flashq_inv cells sz c" and gen: "generation_ok c"
    and st: "st = STATE_DELIVERED \<or> st = STATE_REMOVED"
    and run: "retire_entry F c mid st = (ESP_OK, c')"
  shows "flashq_inv cells sz c'" "mid \<in> dom (contents cells c)"
    "contents cells c' = (contents cells c)(mid := None)" "keeps cells F sz c c'"
proof -
  have core: "inv_core cells sz c" and log: "log_is cells c (index c) (awaiting_gc_count c)"
    using inv by (simp_all add: flashq_inv_def)
  obtain pos where f: "find_entry (index c) mid = Some pos"
    using run by (cases "find_entry (index c) mid") (auto simp: retire_entry_def)
  note C = find_contents [OF core f]
  obtain e1 c1 where 1: "append_state_update_locked F c pos st = (e1, c1)" by (metis prod.exhaust)
  have e1: "e1 = ESP_OK"
    and c': "c' = c1\<lparr>index := remove_entry_at (index c1) pos, awaiting_gc_count := awaiting_gc_count c1 + 1\<rparr>"
    using run f 1 by (auto simp: retire_entry_def split: if_splits)
  note S = append_state_update_spec [OF laws core gen log differ_at_refl C(1) 1 [unfolded e1]]
  show "flashq_inv cells sz c'" "contents cells c' = (contents cells c)(mid := None)"
    using S(5) [OF st] C(2) by (simp_all add: c')
  show "mid \<in> dom (contents cells c)" using C(3) by blast
  show "keeps cells F sz c c'" unfolding c' by (rule keeps_remove [OF S(1)])
qed

text \<open>A retry or a dead letter, as the contract of \<open>schedule_retry\<close> states it.\<close>

lemma schedule_retry_ok:
  assumes laws: "flash_laws F cells" and inv: "flashq_inv cells sz c" and gen: "generation_ok c"
    and run: "op_schedule_retry F c mid next_us dead er = (ESP_OK, c')"
  shows "flashq_inv cells sz c'" "mid \<in> dom (contents cells c)"
    "contents cells c' = (contents cells c)(mid \<mapsto> retried (the (contents cells c mid)) next_us dead er)"
    "keeps cells F sz c c'"
proof -
  have core: "inv_core cells sz c" and log: "log_is cells c (index c) (awaiting_gc_count c)"
    using inv by (simp_all add: flashq_inv_def)
  obtain pos where f: "find_entry (index c) mid = Some pos"
    using run by (cases "find_entry (index c) mid") (auto simp: op_schedule_retry_def)
  note C = find_contents [OF core f]
  let ?e = "index c ! pos"
  let ?e1 = "?e\<lparr>e_next_retry_at_us := (if dead then 0 else next_us), e_last_error := er\<rparr>"
  let ?st = "if dead then STATE_DEAD_LETTER else STATE_PENDING"
  let ?c0 = "c\<lparr>index := (index c)[pos := ?e1]\<rparr>"
  have e1: "?e1 = updated ?e (e_state ?e) (e_attempt_count ?e) (e_last_attempt_at_us ?e) (if dead then 0 else next_us) er"
    by (simp add: updated_def)
  have 1: "append_state_update_locked F ?c0 pos ?st = (ESP_OK, c')"
    using run f by (simp add: op_schedule_retry_def Let_def)
  have same: "same_message ?e ?e1" by (simp add: same_message_def)
  have live: "live_state (e_state ?e)" using inv_coreD(6) [OF core] C(1) by simp
  have core0: "inv_core cells sz ?c0" using live by (intro inv_core_update [OF core C(1) same]) simp
  have diff: "differ_at pos (index c) (index ?c0)" using C(1) by (simp add: differ_at_def same_message_def)
  note S = append_state_update_spec [OF laws core0 _ _ diff _ 1]
  have con0: "contents cells ?c0 = (contents cells c)(mid \<mapsto> (the (contents cells c mid))
      \<lparr>m_next_retry_at_us := (if dead then 0 else next_us), m_last_error := er\<rparr>)"
    unfolding e1 contents_updated [OF core C(1)] C(2) C(3) by (simp add: stored_def)
  have "flashq_inv cells sz c' \<and> contents cells c' =
      (contents cells ?c0)(mid \<mapsto> (the (contents cells ?c0 mid))\<lparr>m_state := state_of ?st\<rparr>)"
    using S(4) gen log C(1,2) by (simp add: live_state_def)
  then show "flashq_inv cells sz c'"
    "contents cells c' = (contents cells c)(mid \<mapsto> retried (the (contents cells c mid)) next_us dead er)"
    by (auto simp: con0 retried_def state_of_def)
  show "mid \<in> dom (contents cells c)" using C(3) by blast
  show "keeps cells F sz c c'" using S(1) gen log C(1) by (simp add: keeps_def)
qed

subsection \<open>Enqueue\<close>

definition message_hdr :: "message \<Rightarrow> u32 \<Rightarrow> record_hdr" where
  "message_hdr msg s = zero_hdr\<lparr>h_seq := s, h_type := REC_MESSAGE, h_state := STATE_PENDING,
     h_priority := m_priority msg, h_message_id := m_id msg, h_attempt_count := 0,
     h_created_at_us := m_created_at_us msg, h_last_attempt_at_us := 0, h_next_retry_at_us := 0, h_last_error := 0\<rparr>"

lemma encode_message_Some:
  assumes "encode_message cap msg s = Some bs"
  shows "encode_common cap (message_hdr msg s) (c_string (m_destination msg)) (m_payload msg) = Some bs"
    "length (c_string (m_destination msg)) \<le> 63"
    "length bs = record_total_size (length (c_string (m_destination msg))) (length (m_payload msg))"
proof -
  show e: "encode_common cap (message_hdr msg s) (c_string (m_destination msg)) (m_payload msg) = Some bs"
    and "length (c_string (m_destination msg)) \<le> 63"
    using assms by (auto simp: encode_message_def encode_message_full_def message_hdr_def Let_def split: if_splits)
  show "length bs = record_total_size (length (c_string (m_destination msg))) (length (m_payload msg))"
    by (rule encode_common_Some(1) [OF e])
qed

lemma new_entry_of_hdr:
  "entry_of_hdr (seal_hdr (message_hdr msg s) (length (c_string (m_destination msg))) (length (m_payload msg))) off =
   new_entry msg off"
  by (simp add: entry_of_hdr_def new_entry_def message_hdr_def)

text \<open>Adding an entry whose record has just been written.\<close>

lemma inv_core_append:
  assumes inv: "inv_core cells sz c" and cap: "length (index c) < index_capacity c"
    and new: "e_id e \<notin> e_id ` set (index c)" and live: "live_state (e_state e)"
    and fits: "entry_fits (cells (partition c)) (active_base c) (region_size c) (scratch_size c) e"
    and off: "e_message_offset e + entry_size e \<le> cursor c" "4096 + live_size (index c) + entry_size e \<le> cursor c"
    and room: "compact_end c + entry_size e \<le> region_size c"
  shows "inv_core cells sz (c\<lparr>index := index c @ [e]\<rparr>)"
  using inv_coreD(1-9,20) [OF inv] cap new live fits off room
  by (auto simp: inv_core_def geometry_def compact_ready_def compact_end_def)

definition message_rec :: "message \<Rightarrow> u32 \<Rightarrow> record_hdr" where
  "message_rec msg s =
     seal_hdr (message_hdr msg s) (length (c_string (m_destination msg))) (length (m_payload msg))"

text \<open>What adding the record and the index entry of a new message does.\<close>

lemma enqueue_effect:
  assumes inv: "inv_core cells sz c" and log: "log_is cells c (index c) (awaiting_gc_count c)"
    and cap: "length (index c) < index_capacity c" and new: "m_id msg \<notin> dom (contents cells c)"
    and len: "length (c_string (m_destination msg)) \<le> 63" "length (m_payload msg) < 2 ^ 32"
    and room: "compact_end c + message_len msg \<le> region_size c"
    and wr: "written cells c c2 (message_rec msg s) (c_string (m_destination msg) @ m_payload msg)"
  defines "c' \<equiv> c2\<lparr>index := index c2 @ [new_entry msg (cursor c)]\<rparr>"
  shows "flashq_inv cells sz c'" "contents cells c' = (contents cells c)(m_id msg \<mapsto> fresh msg)"
    "fault c' = fault c" "flashq_clean cells c \<Longrightarrow> flashq_clean cells c'"
    "tail_blank cells c \<Longrightarrow> tail_blank cells c'"
proof -
  let ?d = "length (c_string (m_destination msg))" and ?p = "length (m_payload msg)" and ?h = "message_rec msg s"
  let ?e = "new_entry msg (cursor c)"
  note A = written_spec [OF inv log wr] and I = inv_coreD [OF inv]
  note f2 = frame_fields [OF A(1), simplified]
  have ids: "e_id ` set (index c) = dom (contents cells c)" by (simp add: contents_def dom_contents_of)
  have new': "e_id ?e \<notin> e_id ` set (index c)" using new by (simp add: ids new_entry_def)
  have dl: "entry_dlen ?e = ?d" "entry_plen ?e = ?p"
    using len by (simp_all add: entry_dlen_def entry_plen_def new_entry_def unat_of_nat_16 unat_of_nat_32)
  have rl: "rec_len ?h = message_len msg" "body_len ?h = ?d + ?p"
    using len by (simp_all add: rec_len_alt body_len_def message_rec_def message_len_def unat_of_nat_16 unat_of_nat_32)
  have sz: "entry_size ?e = message_len msg" by (simp add: entry_size_def dl message_len_def)
  have fit: "rec_len ?h \<le> scratch_size c" "cursor c + rec_len ?h \<le> region_size c" using wr by (simp_all add: written_def)
  let ?m2 = "cells (partition c2)" and ?b = "active_base c2"
  have body: "entry_body ?m2 ?b ?e = c_string (m_destination msg) @ m_payload msg"
    using A(7) by (simp add: entry_body_def dl rl) (simp add: new_entry_def)
  have parts: "entry_dest ?m2 ?b ?e = c_string (m_destination msg)" "entry_payload ?m2 ?b ?e = m_payload msg"
    by (simp_all add: entry_dest_def entry_payload_def body dl)
  have off: "e_message_offset ?e = cursor c" by (simp add: new_entry_def)
  have fits: "entry_fits ?m2 ?b (region_size c2) (scratch_size c2) ?e"
    unfolding entry_fits_def parts using fit len(1) c_string_nul_free by (simp add: off sz dl f2 rl)
  have "inv_core cells sz c'"
    unfolding c'_def
  proof (rule inv_core_append [OF A(4)])
    show "compact_end c2 + entry_size ?e \<le> region_size c2"
      using room by (simp add: sz f2 compact_end_def)
  qed (use cap new' fits I(8) rl in \<open>simp_all add: f2 off sz live_state_def, simp add: new_entry_def\<close>)
  moreover have "log_is cells c' (index c') (awaiting_gc_count c')"
  proof -
    have t: "h_type ?h = REC_MESSAGE" by (simp add: message_rec_def message_hdr_def)
    have e: "entry_of_hdr ?h (cursor c) = ?e" unfolding message_rec_def by (rule new_entry_of_hdr)
    have "scan_apply (index_capacity c) ?h (cursor c) (index c, awaiting_gc_count c) =
        (index c @ [?e], awaiting_gc_count c)"
      unfolding scan_apply_message [OF t cap] e ..
    then show ?thesis using A(3) by (simp add: c'_def f2)
  qed
  ultimately show "flashq_inv cells sz c'" by (simp add: flashq_inv_def)
  have "contents cells c' = (contents cells c2)(e_id ?e \<mapsto> stored ?m2 ?b ?e)"
    using contents_of_append [of ?e "index c2"] new' by (simp add: contents_def c'_def f2)
  moreover have "stored ?m2 ?b ?e = fresh msg"
    by (simp add: stored_def parts) (simp add: fresh_def new_entry_def state_of_def)
  ultimately show "contents cells c' = (contents cells c)(m_id msg \<mapsto> fresh msg)"
    by (simp add: A(5) new_entry_def)
  show "fault c' = fault c" using A(2) by (simp add: c'_def)
  show "flashq_clean cells c \<Longrightarrow> flashq_clean cells c'" "tail_blank cells c \<Longrightarrow> tail_blank cells c'"
    using A(8,9) by (simp_all add: c'_def)
qed

text \<open>Room for a record bounds its payload.\<close>

lemma payload_bound:
  assumes "inv_core cells sz c" "message_len msg \<le> region_size c"
  shows "length (m_payload msg) < 2 ^ 32"
proof -
  have "region_size c \<le> 2 ^ 31" using inv_coreD(1,19) [OF assms(1)] by (simp add: geometry_def)
  moreover have "length (m_payload msg) < message_len msg"
    using record_total_size_ge [of "length (c_string (m_destination msg))" "length (m_payload msg)"]
    by (simp add: message_len_def)
  ultimately show ?thesis using assms(2) by simp
qed

lemma enqueue_ok:
  assumes laws: "flash_laws F cells" and inv: "flashq_inv cells sz c" and gen: "generation_ok c"
    and new: "m_id msg \<notin> dom (contents cells c)"
    and run: "op_enqueue F c msg = (ESP_OK, c')"
  shows "flashq_inv cells sz c'" "contents cells c' = (contents cells c)(m_id msg \<mapsto> fresh msg)"
    "keeps cells F sz c c'"
proof -
  have core: "inv_core cells sz c" and log: "log_is cells c (index c) (awaiting_gc_count c)"
    using inv by (simp_all add: flashq_inv_def)
  have cap: "length (index c) < index_capacity c"
    using run by (auto simp: op_enqueue_def split: if_splits)
  obtain bs0 where bs0: "encode_message (scratch_size c) msg (next_seq c) = Some bs0"
    using run by (cases "encode_message (scratch_size c) msg (next_seq c)") (auto simp: op_enqueue_def split: if_splits)
  obtain e1 c1 where 1: "ensure_space_locked F c (length bs0) = (e1, c1)" by (metis prod.exhaust)
  have e1: "e1 = ESP_OK" using run cap bs0 1 by (auto simp: op_enqueue_def split: if_splits)
  obtain bs where bs: "encode_message (scratch_size c1) msg (next_seq c1) = Some bs"
    using run cap bs0 1 e1 by (cases "encode_message (scratch_size c1) msg (next_seq c1)") (auto simp: op_enqueue_def)
  obtain e2 c2 where 2: "append_locked F c1 bs = (e2, c2)" by (metis prod.exhaust)
  have e2: "e2 = ESP_OK" and c': "c' = c2\<lparr>index := index c2 @ [new_entry msg (cursor c1)]\<rparr>"
    using run cap bs0 1 e1 bs 2 by (auto simp: op_enqueue_def Let_def split: if_splits)
  note R = ensure_space_spec [OF laws core gen 1 [unfolded e1]]
  note E = encode_message_Some [OF bs]
  have lb: "length bs = message_len msg" "length bs0 = message_len msg"
    using E(3) encode_message_Some(3) [OF bs0] by (simp_all add: message_len_def)
  have lp: "length (m_payload msg) < 2 ^ 32" using R(3) by (intro payload_bound [OF R(1)]) (simp add: lb)
  have log1: "log_is cells c1 (index c1) (awaiting_gc_count c1)" using R(8) log by auto
  have len1: "length (index c1) < index_capacity c1"
    using cap moved_length [OF R(2)] R(2) by (simp add: moved_def)
  have wr: "written cells c1 c2 (message_rec msg (next_seq c1)) (c_string (m_destination msg) @ m_payload msg)"
    unfolding message_rec_def using E(2) lp R(3) by (intro append_ok [OF laws E(1) _ _ _ 2 [unfolded e2]]) (simp_all add: lb)
  have new1: "m_id msg \<notin> dom (contents cells c1)" using new by (simp add: R(6))
  have room: "compact_end c1 + message_len msg \<le> region_size c1" using R(4) by (simp add: lb)
  note X = enqueue_effect [OF R(1) log1 len1 new1 E(2) lp room wr, folded c']
  note f2 = frame_fields [OF written_spec(1) [OF R(1) log1 wr], simplified]
  show "flashq_inv cells sz c'" "contents cells c' = (contents cells c)(m_id msg \<mapsto> fresh msg)"
    using X(1,2) R(6) by simp_all
  show "keeps cells F sz c c'"
    using R(2,5,9) X(3,4) by (simp add: keeps_def moved_def) (simp add: c' f2)
qed

subsection \<open>Claiming\<close>

lemma reading_keeps:
  assumes "frame c c'" "cells (partition c') = cells (partition c)"
  shows "inv_core cells sz c' = inv_core cells sz c" "log_is cells c' idx gc = log_is cells c idx gc"
    "contents cells c' = contents cells c" "flashq_clean cells c' = flashq_clean cells c"
    "generation_ok c' = generation_ok c"
  using frame_fields [OF assms(1)] assms(2)
  by (simp_all add: inv_core_def geometry_def compact_ready_def compact_end_def region_offset_def
      log_is_def contents_def flashq_clean_def tail_blank_def generation_ok_def)

lemma claimed_alt:
  "m_attempt_count x + 1 = att \<Longrightarrow> m_next_retry_at_us x = n \<Longrightarrow> m_last_error x = er \<Longrightarrow>
   x\<lparr>m_state := MSG_IN_FLIGHT, m_attempt_count := att, m_last_attempt_at_us := now_us,
     m_next_retry_at_us := n, m_last_error := er\<rparr> = claimed x now_us"
  by (cases x) (simp add: claimed_def)

lemma claim_commit_ok:
  assumes laws: "flash_laws F cells" and inv: "flashq_inv cells sz c" and gen: "generation_ok c"
    and pos: "pos < length (index c)"
    and run: "claim_commit F c now_us pos = (ESP_OK, r, c')"
  defines "e \<equiv> index c ! pos"
  shows "flashq_inv cells sz c'" "r = Some (claimed_message e (e_attempt_count e + 1) now_us (claim_scratch c))"
    "contents cells c' = (contents cells c)(e_id e \<mapsto> claimed (the (contents cells c (e_id e))) now_us)"
    "keeps cells F sz c c'"
proof -
  have core: "inv_core cells sz c" and log: "log_is cells c (index c) (awaiting_gc_count c)"
    using inv by (simp_all add: flashq_inv_def)
  let ?att = "e_attempt_count e + 1"
  obtain err1 c1 where 1: "ensure_space_locked F c (record_total_size 0 0) = (err1, c1)" by (metis prod.exhaust)
  let ?b = "index c1 ! pos"
  obtain err2 c2 where 2: "append_locked F c1 (encoded (encode_update (scratch_size c1) (e_id ?b) STATE_IN_FLIGHT ?att
                now_us (e_next_retry_at_us ?b) (e_last_error ?b) (next_seq c1))) = (err2, c2)"
    by (metis prod.exhaust)
  note r = run [unfolded claim_commit_def Let_def 1 prod.case e_def [symmetric] 2]
  have ok: "err1 = ESP_OK" "err2 = ESP_OK" using r by (auto split: if_splits)
  note U = update_spec [OF laws core gen log differ_at_refl pos 1 [unfolded ok] 2 [unfolded ok]]
  obtain off where off: "index c2 ! pos = e\<lparr>e_message_offset := off\<rparr>"
    unfolding e_def by (rule moved_nth [OF U(2) pos])
  let ?e' = "updated (index c2 ! pos) STATE_IN_FLIGHT ?att now_us (e_next_retry_at_us ?b) (e_last_error ?b)"
  have bb: "?b = e\<lparr>e_message_offset := off\<rparr>" using off by (simp add: U(3))
  have dl: "unat (e_destination_len ?b) \<le> 63"
  proof -
    have "entry_fits (cells (partition c)) (active_base c) (region_size c) (scratch_size c) e"
      using inv_coreD(7) [OF core] pos by (simp add: compact_ready_def e_def)
    then show ?thesis by (simp add: entry_fits_def entry_dlen_def bb)
  qed
  have cs: "claim_scratch c2 = claim_scratch c" using U(2) by (simp add: moved_def)
  have c': "c' = c2\<lparr>index := (index c2)[pos := ?e'], updates_since_compaction := updates_since_compaction c2 + 1\<rparr>"
    using r ok dl by (simp add: updated_def U(3))
  have rr: "r = Some (claimed_message ?b ?att now_us (claim_scratch c2))"
    using r ok dl by simp
  show "r = Some (claimed_message e (e_attempt_count e + 1) now_us (claim_scratch c))"
    unfolding rr cs bb by (simp add: claimed_message_def)
  have core': "inv_core cells sz (c2\<lparr>index := (index c2)[pos := ?e']\<rparr>)"
    by (intro inv_core_update [OF U(1,4)]) (simp_all add: live_state_def)
  show "flashq_inv cells sz c'" using core' U(7) by (simp add: flashq_inv_def c')
  have C: "contents cells c2 (e_id e) = Some (stored (cells (partition c2)) (active_base c2) (index c2 ! pos))"
    using contents_nth [OF U(1,4)] by (simp add: off)
  then have the: "m_attempt_count (the (contents cells c2 (e_id e))) = e_attempt_count e"
    "m_next_retry_at_us (the (contents cells c2 (e_id e))) = e_next_retry_at_us e"
    "m_last_error (the (contents cells c2 (e_id e))) = e_last_error e"
    by (simp_all add: stored_def off)
  have "contents cells c' = (contents cells c2)(e_id e \<mapsto> claimed (the (contents cells c2 (e_id e))) now_us)"
    using contents_updated [OF U(1,4), of STATE_IN_FLIGHT ?att now_us "e_next_retry_at_us ?b" "e_last_error ?b"] the
    by (simp add: c' off bb state_of_def claimed_alt)
  then show "contents cells c' = (contents cells c)(e_id e \<mapsto> claimed (the (contents cells c (e_id e))) now_us)"
    by (simp add: U(5))
  show "keeps cells F sz c c'" using U(2,6,8) by (simp add: keeps_def c' moved_def)
qed

text \<open>The error codes the lower layers return.\<close>

definition low_error :: "esp_err \<Rightarrow> bool" where
  "low_error e \<longleftrightarrow> e = ESP_OK \<or> e = EDGESYNC_ERR_STORAGE \<or> e = EDGESYNC_ERR_SERIALIZATION"

lemma low_error_write: "partition_write_verify F c off data = (e, c') \<Longrightarrow> low_error e"
  by (auto simp: partition_write_verify_def Let_def low_error_def split: prod.splits if_splits)

lemma low_error_erased: "ensure_region_erased F c r = (e, c') \<Longrightarrow> low_error e"
  by (auto simp: ensure_region_erased_def erase_region_def Let_def low_error_def split: prod.splits if_splits option.splits)

lemma low_error_loop: "compact_loop F source target js c cur s = (e, c', cur', s') \<Longrightarrow> low_error e"
proof (induction js arbitrary: c cur s)
  case Nil
  then show ?case by (auto simp: low_error_def)
next
  case (Cons i js)
  then show ?case
    by (auto simp: compact_loop.simps(2) Let_def split: prod.splits if_splits option.splits dest: low_error_write)
      (auto simp: low_error_def)
qed

lemma low_error_compact: "compact_locked F c = (e, c') \<Longrightarrow> low_error e"
  by (auto simp: compact_locked_def compact_finish_def Let_def split: prod.splits if_splits
      dest: low_error_write low_error_erased low_error_loop)

lemma low_error_space: "ensure_space_locked F c n = (e, c') \<Longrightarrow> low_error e"
  by (auto simp: ensure_space_locked_def Let_def split: prod.splits if_splits dest: low_error_compact)
    (auto simp: low_error_def)

lemma low_error_append: "append_locked F c bs = (e, c') \<Longrightarrow> low_error e"
  by (auto simp: append_locked_def Let_def split: prod.splits if_splits dest: low_error_write)

lemma low_error_update: "append_state_update_locked F c pos st = (e, c') \<Longrightarrow> low_error e"
  by (auto simp: append_state_update_locked_def Let_def split: prod.splits if_splits
      dest: low_error_append low_error_space)

lemma low_error_commit: "claim_commit F c now_us pos = (e, r, c') \<Longrightarrow> low_error e"
  by (auto simp: claim_commit_def Let_def split: prod.splits if_splits
      dest: low_error_append low_error_space)

text \<open>The outcomes of \<open>claim_next\<close> that hand out a message.\<close>

text \<open>The record of a stored message reads back intact, and what is read is the message.\<close>

lemma claim_intact:
  assumes laws: "flash_laws F cells" and ro: "reads_ok F sz" and inv: "flashq_inv cells sz c" and pos: "pos < length (index c)"
    and rd: "flash_read F d (active_base c + e_message_offset (index c ! pos))
      (HDR_SIZE + (entry_dlen (index c ! pos) + entry_plen (index c ! pos)) + 4) = (rr, c1)"
    and same: "partition d = partition c"
  obtains raw h where "rr = Some raw" "decode_header raw = Some h" "verify_body h (drop HDR_SIZE raw)"
proof -
  have core: "inv_core cells sz c" and log: "log_is cells c (index c) (awaiting_gc_count c)"
    using inv by (simp_all add: flashq_inv_def)
  let ?e = "index c ! pos" and ?m = "cells (partition c)"
  let ?off = "active_base c + e_message_offset ?e" and ?n = "HDR_SIZE + (entry_dlen ?e + entry_plen ?e) + 4"
  have "intact ?m (active_base c) (region_size c) ?e" by (rule log_is_intact [OF log]) (use pos in simp)
  then obtain h where h: "rec_ok ?m (active_base c) (region_size c) (e_message_offset ?e) h"
    "h_destination_len h = e_destination_len ?e" "h_body_len h = e_payload_len ?e" by (auto simp: intact_def)
  have bl: "body_len h = entry_dlen ?e + entry_plen ?e" by (simp add: body_len_def h(2,3) entry_dlen_def entry_plen_def)
  have "?off + ?n \<le> sz"
    using inv_coreD(17) [OF core] h(1) by (simp add: rec_ok_def total_needed_alt bl)
  then have "rr = Some (mem_read ?m ?off ?n)"
    using flash_read_ok [OF laws ro, of ?off ?n d] rd same by (metis fst_conv)
  moreover have "decode_header (mem_read ?m ?off ?n) = Some h"
    using h(1) decode_header_take [of HDR_SIZE "mem_read ?m ?off ?n"] by (simp add: rec_ok_def take_mem_read)
  moreover have "verify_body h (drop HDR_SIZE (mem_read ?m ?off ?n))"
    using h(1) by (simp add: rec_ok_def bl drop_mem_read add.commute)
  ultimately show thesis by (rule that)
qed

lemma claim_body:
  assumes "entry_fits m base lim cap e" "raw = mem_read m (base + e_message_offset e) (HDR_SIZE + (entry_dlen e + entry_plen e) + 4)"
  shows "claimed_message e (e_attempt_count e + 1) now_us raw = claimed (stored m base e) now_us"
proof -
  let ?d = "entry_dlen e" and ?p = "entry_plen e"
  have body: "take (?d + ?p) (drop HDR_SIZE raw) = entry_body m base e"
    by (simp add: assms(2) drop_mem_read take_mem_read entry_body_def)
  then have parts: "take ?d (drop HDR_SIZE raw) = entry_dest m base e"
    "take ?p (drop (HDR_SIZE + ?d) raw) = entry_payload m base e"
    by (simp_all add: entry_dest_def entry_payload_def flip: body) (simp add: drop_take add.commute)
  then show ?thesis
    using assms(1) unfolding claimed_message_def entry_dlen_def [symmetric] entry_plen_def [symmetric]
    by (simp add: claimed_def stored_def entry_fits_def)
qed

lemma claim_corrupt_ok:
  assumes laws: "flash_laws F cells" and inv: "flashq_inv cells sz c" and gen: "generation_ok c" and pos: "pos < length (index c)"
    and run: "append_state_update_locked F (c\<lparr>index := (index c)[pos := (index c ! pos)\<lparr>e_last_error := EDGESYNC_ERR_STORAGE_CORRUPT\<rparr>]\<rparr>)
      pos STATE_DEAD_LETTER = (ESP_OK, c')"
  defines "mid \<equiv> e_id (index c ! pos)"
  shows "flashq_inv cells sz c'" "keeps cells F sz c c'" "contents cells c' = (contents cells c)
    (mid \<mapsto> (the (contents cells c mid))\<lparr>m_state := MSG_DEAD_LETTER, m_last_error := EDGESYNC_ERR_STORAGE_CORRUPT\<rparr>)"
proof -
  have core: "inv_core cells sz c" and log: "log_is cells c (index c) (awaiting_gc_count c)"
    using inv by (simp_all add: flashq_inv_def)
  let ?e = "index c ! pos"
  let ?c3 = "c\<lparr>index := (index c)[pos := ?e\<lparr>e_last_error := EDGESYNC_ERR_STORAGE_CORRUPT\<rparr>]\<rparr>"
  have e3: "?e\<lparr>e_last_error := EDGESYNC_ERR_STORAGE_CORRUPT\<rparr> = updated ?e (e_state ?e) (e_attempt_count ?e)
      (e_last_attempt_at_us ?e) (e_next_retry_at_us ?e) EDGESYNC_ERR_STORAGE_CORRUPT" by (simp add: updated_def)
  note mid = contents_nth [OF core pos]
  have live: "live_state (e_state ?e)" using inv_coreD(6) [OF core] pos by simp
  have core3: "inv_core cells sz ?c3"
    using live by (intro inv_core_update [OF core pos]) (simp_all add: same_message_def)
  have diff: "differ_at pos (index c) (index ?c3)" using pos by (simp add: differ_at_def same_message_def)
  have log3: "log_is cells ?c3 (index c) (awaiting_gc_count ?c3)" using log by simp
  note S = append_state_update_spec [OF laws core3 _ log3 diff _ run]
  have con3: "contents cells ?c3 = (contents cells c)
      (e_id ?e \<mapsto> (the (contents cells c (e_id ?e)))\<lparr>m_last_error := EDGESYNC_ERR_STORAGE_CORRUPT\<rparr>)"
    unfolding e3 contents_updated [OF core pos] mid by (simp add: stored_def)
  have "flashq_inv cells sz c' \<and> contents cells c' =
      (contents cells ?c3)(e_id ?e \<mapsto> (the (contents cells ?c3 (e_id ?e)))\<lparr>m_state := state_of STATE_DEAD_LETTER\<rparr>)"
    using S(4) gen pos by (simp add: live_state_def)
  then show "flashq_inv cells sz c'" "contents cells c' = (contents cells c)
    (mid \<mapsto> (the (contents cells c mid))\<lparr>m_state := MSG_DEAD_LETTER, m_last_error := EDGESYNC_ERR_STORAGE_CORRUPT\<rparr>)"
    by (simp_all add: con3 state_of_def mid_def mid stored_def)
  show "keeps cells F sz c c'" using S(1) gen pos by (simp add: keeps_def)
qed

lemma claim_next_ok:
  assumes laws: "flash_laws F cells" and inv: "flashq_inv cells sz c" and gen: "generation_ok c"
    and run: "op_claim_next F c now_us = (err, r, c')" and err: "err = ESP_OK \<or> err = EDGESYNC_ERR_STORAGE_CORRUPT"
  obtains pos mid msg where "claim_select now_us (index c) = Some pos" "pos < length (index c)"
    "mid = e_id (index c ! pos)" "contents cells c mid = Some msg"
    "msg = stored (cells (partition c)) (active_base c) (index c ! pos)"
    "flashq_inv cells sz c'" "keeps cells F sz c c'"
    "err = ESP_OK \<Longrightarrow> r = Some (claimed msg now_us) \<and> contents cells c' = (contents cells c)(mid \<mapsto> claimed msg now_us)"
    "err = EDGESYNC_ERR_STORAGE_CORRUPT \<Longrightarrow> r = Some (blank_message mid) \<and> contents cells c' =
       (contents cells c)(mid \<mapsto> msg\<lparr>m_state := MSG_DEAD_LETTER, m_last_error := EDGESYNC_ERR_STORAGE_CORRUPT\<rparr>)"
    "err = EDGESYNC_ERR_STORAGE_CORRUPT \<Longrightarrow> \<not> reads_ok F sz"
proof -
  have core: "inv_core cells sz c" and log: "log_is cells c (index c) (awaiting_gc_count c)"
    using inv by (simp_all add: flashq_inv_def)
  note I = inv_coreD [OF core]
  obtain pos where sel: "claim_select now_us (index c) = Some pos"
    using run err by (cases "claim_select now_us (index c)") (auto simp: op_claim_next_def)
  have pos: "pos < length (index c)"
    using select_loop_bound sel unfolding claim_select_def by blast
  let ?e = "index c ! pos" and ?m = "cells (partition c)"
  let ?d = "entry_dlen ?e" and ?p = "entry_plen ?e"
  have fit: "entry_fits ?m (active_base c) (region_size c) (scratch_size c) ?e"
    using I(7) pos by (simp add: compact_ready_def)
  have cap: "HDR_SIZE + (?d + ?p) + 4 \<le> scratch_size c"
    using fit entry_size_ge [of ?e] by (simp add: entry_fits_def)
  let ?off = "active_base c + e_message_offset ?e" and ?n = "HDR_SIZE + (?d + ?p) + 4"
  obtain rr c1 where rd: "flash_read F c ?off ?n = (rr, c1)" by (metis prod.exhaust)
  note s1 = flash_read_spec [OF laws rd]
  note f1 = frame_fields [OF s1(1)]
  note k1 = reading_keeps [OF s1(1,2)]
  let ?c2 = "case rr of None \<Rightarrow> c1 | Some raw \<Rightarrow> c1\<lparr>claim_scratch := raw\<rparr>"
  let ?intact = "case rr of None \<Rightarrow> False | Some raw \<Rightarrow> (case decode_header raw of None \<Rightarrow> False
                   | Some hdr \<Rightarrow> verify_body hdr (drop HDR_SIZE raw))"
  have inv2: "flashq_inv cells sz ?c2" "generation_ok ?c2" "contents cells ?c2 = contents cells c"
    "index ?c2 = index c" "keeps cells F sz c ?c2" "awaiting_gc_count ?c2 = awaiting_gc_count c"
    "active_generation ?c2 = active_generation c"
    using core log gen k1 s1(3) by (auto simp: flashq_inv_def f1 keeps_def split: option.split)
  note run' = run [unfolded op_claim_next_def sel option.case Let_def, folded entry_dlen_def entry_plen_def,
      unfolded buffer_use_fits [OF cap] rd prod.case]
  have mid: "contents cells c (e_id ?e) = Some (stored ?m (active_base c) ?e)"
    by (rule contents_nth [OF core pos])
  let ?msg = "stored ?m (active_base c) ?e"
  show thesis
  proof (cases ?intact)
    case True
    then obtain raw where raw: "rr = Some raw" by (auto split: option.splits)
    have rawm: "raw = mem_read ?m ?off ?n" by (rule s1(4) [OF raw])
    have run2: "claim_commit F ?c2 now_us pos = (err, r, c')"
      using run' True by (simp add: raw)
    have ok: "err = ESP_OK" using low_error_commit [OF run2] err by (auto simp: low_error_def)
    note K = claim_commit_ok [OF laws inv2(1,2) _ run2 [unfolded ok], unfolded inv2(3,4), OF pos]
    have "claimed_message ?e (e_attempt_count ?e + 1) now_us (claim_scratch ?c2) = claimed ?msg now_us"
      using claim_body [OF fit rawm] by (simp add: raw)
    then show thesis
      using K ok sel pos mid inv2(5,7) by (intro that [of pos "e_id ?e" ?msg]) (auto simp: keeps_def)
  next
    case False
    let ?c3 = "?c2\<lparr>index := (index ?c2)[pos := ?e\<lparr>e_last_error := EDGESYNC_ERR_STORAGE_CORRUPT\<rparr>]\<rparr>"
    obtain e4 c4 where 4: "append_state_update_locked F ?c3 pos STATE_DEAD_LETTER = (e4, c4)" by (metis prod.exhaust)
    have res: "err = (if e4 = ESP_OK then EDGESYNC_ERR_STORAGE_CORRUPT else e4)" "r = Some (blank_message (e_id ?e))" "c' = c4"
      using run' False 4 inv2(4) by (auto simp: f1 cong: option.case_cong)
    have ok: "e4 = ESP_OK" "err = EDGESYNC_ERR_STORAGE_CORRUPT"
      using low_error_update [OF 4] err res(1) by (auto simp: low_error_def split: if_splits)
    have pos2: "pos < length (index ?c2)" using pos by (simp add: inv2(4))
    have run4: "append_state_update_locked F (?c2\<lparr>index := (index ?c2)[pos := (index ?c2 ! pos)
        \<lparr>e_last_error := EDGESYNC_ERR_STORAGE_CORRUPT\<rparr>]\<rparr>) pos STATE_DEAD_LETTER = (ESP_OK, c4)"
      using 4 ok by (simp add: inv2(4))
    note D = claim_corrupt_ok [OF laws inv2(1,2) pos2 run4, unfolded inv2(3,4)]
    have "\<not> reads_ok F sz"
    proof
      assume ro: "reads_ok F sz"
      obtain raw h where "rr = Some raw" "decode_header raw = Some h" "verify_body h (drop HDR_SIZE raw)"
        by (rule claim_intact [OF laws ro inv pos rd refl])
      then show False using False by simp
    qed
    then show thesis
      using sel pos mid inv2(5,7) D ok res
      by (intro that [of pos "e_id ?e" ?msg]) (auto simp: keeps_def)
  qed
qed

end
