(* ===== verification/Flashq_Recovery.thy ===== *)
theory Flashq_Recovery
  imports Flashq_Steps
begin

text \<open>
  Recovery after a restart: \<open>op_recover\<close> finds the active region, rebuilds the index from the
  log and puts the messages that were in flight back to pending.
\<close>

section \<open>Requeuing\<close>

text \<open>The region generation can be counted up \<open>k\<close> more times.\<close>

definition generation_room :: "'p flashq_ctx \<Rightarrow> nat \<Rightarrow> bool" where
  "generation_room c k \<longleftrightarrow> unat (active_generation c) + k < 2 ^ 32"

lemma generation_room_ok: "generation_room c k \<Longrightarrow> 0 < k \<Longrightarrow> generation_ok c"
proof -
  assume "generation_room c k" "0 < k"
  then have "unat (active_generation c) + 1 < 2 ^ 32" by (simp add: generation_room_def)
  then have "unat (active_generation c + 1) = unat (active_generation c) + 1"
    by (simp add: unat_word_ariths)
  then show ?thesis by (simp add: generation_ok_def word_less_nat_alt)
qed

lemma same_ids:
  assumes "map (\<lambda>e. e\<lparr>e_message_offset := 0\<rparr>) es = map (\<lambda>e. e\<lparr>e_message_offset := 0\<rparr>) es'"
  shows "map e_id es = map e_id es'" "length es = length es'"
    and "\<And>i. i < length es \<Longrightarrow> e_state (es ! i) = e_state (es' ! i)"
proof -
  have "map (e_id \<circ> (\<lambda>e. e\<lparr>e_message_offset := 0\<rparr>)) es = map (e_id \<circ> (\<lambda>e. e\<lparr>e_message_offset := 0\<rparr>)) es'"
    using arg_cong [OF assms, of "map e_id"] by (simp only: map_map)
  then show "map e_id es = map e_id es'" by (simp add: comp_def)
  have "map (e_state \<circ> (\<lambda>e. e\<lparr>e_message_offset := 0\<rparr>)) es = map (e_state \<circ> (\<lambda>e. e\<lparr>e_message_offset := 0\<rparr>)) es'"
    using arg_cong [OF assms, of "map e_state"] by (simp only: map_map)
  then have st: "map e_state es = map e_state es'" by (simp add: comp_def)
  show l: "length es = length es'" using arg_cong [OF assms, of length] by simp
  show "e_state (es ! i) = e_state (es' ! i)" if "i < length es" for i
    using arg_cong [OF st, of "\<lambda>xs. xs ! i"] that l by simp
qed

text \<open>One entry put back to pending.\<close>

lemma requeue_one:
  assumes laws: "flash_laws F cells" and inv: "flashq_inv cells sz c" and gen: "generation_ok c"
    and pos: "i < length (index c)" and fly: "e_state (index c ! i) = STATE_IN_FLIGHT"
    and run: "append_state_update_locked F
        (c\<lparr>index := (index c)[i := (index c ! i)\<lparr>e_next_retry_at_us := 0\<rparr>]\<rparr>) i STATE_PENDING = (ESP_OK, c')"
  shows "flashq_inv cells sz c'" "keeps cells F sz c c'" "map e_id (index c') = map e_id (index c)"
    "contents cells c' = (contents cells c)(e_id (index c ! i) := map_option requeued (contents cells c (e_id (index c ! i))))"
proof -
  have core: "inv_core cells sz c" and log: "log_is cells c (index c) (awaiting_gc_count c)"
    using inv by (simp_all add: flashq_inv_def)
  let ?e = "index c ! i"
  let ?e1 = "?e\<lparr>e_next_retry_at_us := 0\<rparr>"
  let ?c0 = "c\<lparr>index := (index c)[i := ?e1]\<rparr>"
  have e1: "?e1 = updated ?e (e_state ?e) (e_attempt_count ?e) (e_last_attempt_at_us ?e) 0 (e_last_error ?e)"
    by (simp add: updated_def)
  have same: "same_message ?e ?e1" by (simp add: same_message_def)
  have core0: "inv_core cells sz ?c0"
    using fly by (intro inv_core_update [OF core pos same]) (simp add: live_state_def)
  have diff: "differ_at i (index c) (index ?c0)" using pos by (simp add: differ_at_def same_message_def)
  note S = append_state_update_spec [OF laws core0 _ _ diff _ run]
  have C: "contents cells c (e_id ?e) = Some (stored (cells (partition c)) (active_base c) ?e)"
    by (rule contents_nth [OF core pos])
  have con0: "contents cells ?c0 = (contents cells c)(e_id ?e \<mapsto> (the (contents cells c (e_id ?e)))\<lparr>m_next_retry_at_us := 0\<rparr>)"
    unfolding e1 contents_updated [OF core pos] C by (simp add: stored_def)
  have "flashq_inv cells sz c' \<and> contents cells c' =
      (contents cells ?c0)(e_id ?e \<mapsto> (the (contents cells ?c0 (e_id ?e)))\<lparr>m_state := state_of STATE_PENDING\<rparr>)"
    using S(4) gen log pos by (simp add: live_state_def)
  moreover have "requeued (stored (cells (partition c)) (active_base c) ?e) =
      (stored (cells (partition c)) (active_base c) ?e)\<lparr>m_next_retry_at_us := 0, m_state := MSG_PENDING\<rparr>"
    using fly by (simp add: requeued_def stored_def state_of_def)
  ultimately show "flashq_inv cells sz c'"
    "contents cells c' = (contents cells c)(e_id ?e := map_option requeued (contents cells c (e_id ?e)))"
    by (simp_all add: con0 C state_of_def)
  show "keeps cells F sz c c'" using S(1) gen log pos by (simp add: keeps_def)
  show "map e_id (index c') = map e_id (index c)"
  proof -
    have "map (\<lambda>e. e\<lparr>e_message_offset := 0\<rparr>) (index c') =
        map (\<lambda>e. e\<lparr>e_message_offset := 0\<rparr>) ((index ?c0)[i := (index ?c0 ! i)\<lparr>e_state := STATE_PENDING\<rparr>])"
      using S(7) gen log pos by simp
    from same_ids(1) [OF this] show ?thesis
      using pos ids_update [of i "index c" "?e1\<lparr>e_state := STATE_PENDING\<rparr>"] by (simp add: same_message_def)
  qed
qed

definition keeps_many :: "('p \<Rightarrow> mem) \<Rightarrow> 'p flash_ops \<Rightarrow> nat \<Rightarrow> nat \<Rightarrow> 'p flashq_ctx \<Rightarrow> 'p flashq_ctx \<Rightarrow> bool" where
  "keeps_many cells F sz k c c' \<longleftrightarrow> fault c' = fault c \<and> index_capacity c' = index_capacity c \<and>
     max_message_size c' = max_message_size c \<and> scratch_size c' = scratch_size c \<and>
     region_size c' = region_size c \<and> unat (active_generation c') \<le> unat (active_generation c) + k \<and>
     (flashq_clean cells c \<longrightarrow> erases_complete F sz \<longrightarrow> flashq_clean cells c')"

lemma requeue_loop_ok:
  assumes "flash_laws F cells" "flashq_inv cells sz c" "generation_room c (length js + 1)"
    and "set js \<subseteq> {..<length (index c)}" "distinct js"
    and "requeue_loop F js c = (ESP_OK, c')"
  shows "flashq_inv cells sz c' \<and> keeps_many cells F sz (length js) c c' \<and>
    map e_id (index c') = map e_id (index c) \<and>
    (\<forall>mid. contents cells c' mid =
       (if mid \<in> (\<lambda>i. map e_id (index c) ! i) ` set js then map_option requeued (contents cells c mid)
        else contents cells c mid))"
  using assms(2-)
proof (induction js arbitrary: c)
  case Nil
  then show ?case by (simp add: keeps_many_def)
next
  case (Cons i js)
  have pos: "i < length (index c)" and gen: "generation_ok c"
    using Cons.prems(2,3) generation_room_ok by auto
  have core: "inv_core cells sz c" using Cons.prems(1) by (simp add: flashq_inv_def)
  let ?mid = "e_id (index c ! i)"
  show ?case
  proof (cases "e_state (index c ! i) = STATE_IN_FLIGHT")
    case False
    have "requeued (stored (cells (partition c)) (active_base c) (index c ! i)) =
        stored (cells (partition c)) (active_base c) (index c ! i)"
      using False by (simp add: requeued_def stored_def state_of_def)
    then have same: "map_option requeued (contents cells c ?mid) = contents cells c ?mid"
      by (simp add: contents_nth [OF core pos])
    have "flashq_inv cells sz c' \<and> keeps_many cells F sz (length js) c c' \<and>
      map e_id (index c') = map e_id (index c) \<and>
      (\<forall>mid. contents cells c' mid =
         (if mid \<in> (\<lambda>i. map e_id (index c) ! i) ` set js then map_option requeued (contents cells c mid)
          else contents cells c mid))"
      using Cons.prems False by (intro Cons.IH) (auto simp: generation_room_def)
    then show ?thesis using pos same by (auto simp: keeps_many_def)
  next
    case True
    obtain e1 c1 where 1: "append_state_update_locked F
        (c\<lparr>index := (index c)[i := (index c ! i)\<lparr>e_next_retry_at_us := 0\<rparr>]\<rparr>) i STATE_PENDING = (e1, c1)"
      by (metis prod.exhaust)
    have e1: "e1 = ESP_OK" and rest: "requeue_loop F js c1 = (ESP_OK, c')"
      using Cons.prems(5) True 1 by (auto split: if_splits)
    note R = requeue_one [OF assms(1) Cons.prems(1) gen pos True 1 [unfolded e1]]
    have len: "length (index c1) = length (index c)" using arg_cong [OF R(3), of length] by simp
    have ih: "flashq_inv cells sz c' \<and> keeps_many cells F sz (length js) c1 c' \<and>
      map e_id (index c') = map e_id (index c1) \<and>
      (\<forall>mid. contents cells c' mid =
         (if mid \<in> (\<lambda>i. map e_id (index c1) ! i) ` set js then map_option requeued (contents cells c1 mid)
          else contents cells c1 mid))"
      using Cons.prems R(1,2) len rest
      by (intro Cons.IH) (auto simp: generation_room_def keeps_def)
    have ni: "?mid \<notin> (\<lambda>i. map e_id (index c) ! i) ` set js"
    proof
      assume "?mid \<in> (\<lambda>i. map e_id (index c) ! i) ` set js"
      then obtain j where "j \<in> set js" "map e_id (index c) ! j = map e_id (index c) ! i" using pos by auto
      then have "j = i" using inv_coreD(5) [OF core] Cons.prems(3) pos
        by (subst (asm) nth_eq_iff_index_eq) auto
      then show False using \<open>j \<in> set js\<close> Cons.prems(4) by simp
    qed
    then show ?thesis using ih R pos by (auto simp: keeps_many_def keeps_def)
  qed
qed

section \<open>The scan\<close>

text \<open>
  \<open>c\<close> is the state a restart has to rebuild, \<open>c0\<close> the context that runs the recovery: it has
  the same configuration and sees the same flash content; the rest of it does not matter.
\<close>

definition same_config :: "'p flashq_ctx \<Rightarrow> 'p flashq_ctx \<Rightarrow> bool" where
  "same_config c0 c \<longleftrightarrow> region_size c0 = region_size c \<and> data_start c0 = data_start c \<and>
     data_capacity c0 = data_capacity c \<and> index_capacity c0 = index_capacity c \<and>
     scratch_size c0 = scratch_size c \<and> max_message_size c0 = max_message_size c"

definition same_state :: "('p \<Rightarrow> mem) \<Rightarrow> 'p flashq_ctx \<Rightarrow> 'p flashq_ctx \<Rightarrow> bool" where
  "same_state cells c0 c \<longleftrightarrow> same_config c0 c \<and> cells (partition c0) = cells (partition c) \<and>
     active_region c0 = active_region c \<and> active_generation c0 = active_generation c \<and>
     cursor c0 = cursor c \<and> index c0 = index c \<and> awaiting_gc_count c0 = awaiting_gc_count c"

lemma same_state_keeps:
  assumes "same_state cells c0 c"
  shows "flashq_inv cells sz c0 = flashq_inv cells sz c" "contents cells c0 = contents cells c"
    "flashq_clean cells c0 = flashq_clean cells c" "inv_core cells sz c0 = inv_core cells sz c"
  using assms
  by (simp_all add: same_state_def same_config_def flashq_inv_def inv_core_def geometry_def compact_ready_def
      compact_end_def region_offset_def log_is_def contents_def flashq_clean_def tail_blank_def)

lemma scan_region_loop:
  assumes laws: "flash_laws F cells" "reads_ok F sz" and inv: "flashq_inv cells sz c"
    and stop: "log_stops (cells (partition c)) (active_base c) (region_size c) (scratch_size c) (cursor c)"
    and conf: "same_config c0 c" "cells (partition c0) = cells (partition c)"
  obtains c3 where "scan_region F c0 (active_region c) (active_generation c) =
      requeue_loop F [0..<length (index c3)] c3"
    "same_state cells c3 c" "fault c3 = fault c0" "updates_since_compaction c3 = updates_since_compaction c0"
proof -
  have core: "inv_core cells sz c" and log: "log_is cells c (index c) (awaiting_gc_count c)"
    using inv by (simp_all add: flashq_inv_def)
  note I = inv_coreD [OF core]
  obtain hs where hs: "log_ok (cells (partition c)) (active_base c) (region_size c) 4096 hs" "log_end 4096 hs = cursor c"
    "replay (index_capacity c) 4096 hs ([], 0) = (index c, awaiting_gc_count c)" "\<not> log_fault (scratch_size c) hs"
    using log by (auto simp: log_is_def)
  define c1 where "c1 = c0\<lparr>active_region := active_region c, active_generation := active_generation c, index := [],
               awaiting_gc_count := 0\<rparr>"
  have cf: "region_size c0 = region_size c" "data_start c0 = 4096" "index_capacity c0 = index_capacity c"
    "scratch_size c0 = scratch_size c" using conf(1) I(10) by (simp_all add: same_config_def)
  have f1: "region_offset c1 = region_offset c" "region_size c1 = region_size c" "index_capacity c1 = index_capacity c"
    "scratch_size c1 = scratch_size c" "index c1 = []" "awaiting_gc_count c1 = 0" "fault c1 = fault c0"
    "cells (partition c1) = cells (partition c)" "data_start c1 = 4096"
    using conf cf by (simp_all add: c1_def region_offset_def fun_eq_iff)
  obtain p1 where p1: "cells p1 = cells (partition c)" and l1: "scan_loop F (active_region c) c1 0 4096 =
      scan_loop F (active_region c)
        (c1\<lparr>partition := p1, fault := fault c0 \<or> log_fault (scratch_size c) hs, index := index c,
             awaiting_gc_count := awaiting_gc_count c\<rparr>) (max_seq 0 hs) (cursor c)"
    using scan_loop_log [OF laws, of c1 "active_region c" 4096 hs 0] hs I(17) unfolding f1 by auto
  define c2 where "c2 = c1\<lparr>partition := p1, fault := fault c0 \<or> log_fault (scratch_size c) hs, index := index c,
             awaiting_gc_count := awaiting_gc_count c\<rparr>"
  have f2: "region_offset c2 = region_offset c" "region_size c2 = region_size c" "cells (partition c2) = cells (partition c)"
    "scratch_size c2 = scratch_size c"
    using p1 f1 by (simp_all add: c2_def region_offset_def fun_eq_iff)
  obtain p2 where p2: "cells p2 = cells (partition c)" and l2: "scan_loop F (active_region c) c2 (max_seq 0 hs) (cursor c) =
      (c2\<lparr>partition := p2\<rparr>, max_seq 0 hs, cursor c)"
    using scan_loop_stops [OF laws, of c2 "active_region c" "cursor c" "max_seq 0 hs"] stop I(17)
    unfolding f2 by auto
  let ?c3 = "c2\<lparr>partition := p2, cursor := cursor c, next_seq := max_seq 0 hs + 1\<rparr>"
  have st: "same_state cells ?c3 c" using conf p2 by (simp add: same_state_def same_config_def c1_def c2_def)
  have run: "scan_region F c0 (active_region c) (active_generation c) = requeue_loop F [0..<length (index ?c3)] ?c3"
    by (simp add: scan_region_def Let_def cf c1_def [symmetric] f1 l1 c2_def [symmetric] l2)
  have "fault ?c3 = fault c0" "updates_since_compaction ?c3 = updates_since_compaction c0"
    using hs(4) by (simp_all add: c1_def c2_def)
  then show thesis by (rule that [OF run st])
qed

lemma scan_region_ok:
  assumes laws: "flash_laws F cells" "reads_ok F sz" and inv: "flashq_inv cells sz c"
    and stop: "log_stops (cells (partition c)) (active_base c) (region_size c) (scratch_size c) (cursor c)"
    and room: "generation_room c (length (index c) + 1)"
    and conf: "same_config c0 c" "cells (partition c0) = cells (partition c)"
    and run: "scan_region F c0 (active_region c) (active_generation c) = (ESP_OK, c')"
  shows "flashq_inv cells sz c'" "contents cells c' = (\<lambda>mid. map_option requeued (contents cells c mid))"
    "fault c' = fault c0" "flashq_clean cells c \<Longrightarrow> erases_complete F sz \<Longrightarrow> flashq_clean cells c'"
    "same_config c' c" "unat (active_generation c') \<le> unat (active_generation c) + length (index c)"
proof -
  have core: "inv_core cells sz c" using inv by (simp add: flashq_inv_def)
  note I = inv_coreD [OF core]
  obtain c3 where c3: "scan_region F c0 (active_region c) (active_generation c) =
      requeue_loop F [0..<length (index c3)] c3"
    "same_state cells c3 c" "fault c3 = fault c0"
    by (rule scan_region_loop [OF laws inv stop conf]) blast
  note st = c3(2)
  have f3: "index c3 = index c" "active_generation c3 = active_generation c" "same_config c3 c"
    using st by (simp_all add: same_state_def)
  have inv3: "flashq_inv cells sz c3" using inv same_state_keeps(1) [OF st, of sz] by simp
  have run3: "requeue_loop F [0..<length (index c3)] c3 = (ESP_OK, c')"
    using run c3(1) by simp
  have Q: "flashq_inv cells sz c' \<and> keeps_many cells F sz (length (index c)) c3 c' \<and>
    map e_id (index c') = map e_id (index c3) \<and>
    (\<forall>mid. contents cells c' mid =
       (if mid \<in> (\<lambda>i. map e_id (index c3) ! i) ` set [0..<length (index c3)]
        then map_option requeued (contents cells c3 mid) else contents cells c3 mid))"
    using requeue_loop_ok [OF laws(1) inv3 _ _ _ run3] room
    by (simp add: generation_room_def lessThan_atLeast0 f3)
  have con3: "contents cells c3 = contents cells c" by (rule same_state_keeps(2) [OF st])
  have "(\<lambda>i. map e_id (index c3) ! i) ` set [0..<length (index c3)] = dom (contents cells c)"
  proof -
    have "(\<lambda>i. map e_id (index c) ! i) ` set [0..<length (index c)] =
        set (map (\<lambda>i. map e_id (index c) ! i) [0..<length (map e_id (index c))])" by simp
    also have "\<dots> = set (map e_id (index c))" by (simp only: map_nth)
    finally show ?thesis by (simp add: contents_def dom_contents_of f3)
  qed
  then have dm: "mid \<in> (\<lambda>i. map e_id (index c3) ! i) ` set [0..<length (index c3)] \<longleftrightarrow> contents cells c mid \<noteq> None" for mid
    by auto
  show "contents cells c' = (\<lambda>mid. map_option requeued (contents cells c mid))"
  proof
    fix mid
    show "contents cells c' mid = map_option requeued (contents cells c mid)"
      using Q dm [of mid] con3 by (cases "contents cells c mid") auto
  qed
  have K: "keeps_many cells F sz (length (index c)) c3 c'" using Q by blast
  show "flashq_inv cells sz c'" using Q by blast
  show "fault c' = fault c0" using K c3(3) by (simp add: keeps_many_def)
  show "flashq_clean cells c'" if "flashq_clean cells c" "erases_complete F sz"
    using K that same_state_keeps(3) [OF st] by (simp add: keeps_many_def)
  show "unat (active_generation c') \<le> unat (active_generation c) + length (index c)"
    using K by (simp add: keeps_many_def f3)
  have "data_start c' = data_start c" "data_capacity c' = data_capacity c"
    using inv_coreD(10,11) [of cells sz c'] Q K I(10,11) f3(3) by (auto simp: flashq_inv_def keeps_many_def same_config_def)
  then show "same_config c' c" using K f3(3) by (simp add: same_config_def keeps_many_def)
qed

section \<open>Choosing the region\<close>

text \<open>The invariant only looks at the active region and at the header of the spare one.\<close>

lemma spare_change:
  assumes inv: "flashq_inv cells sz c"
    and eq: "\<And>i. active_base c \<le> i \<Longrightarrow> i < active_base c + region_size c \<Longrightarrow> cells p i = cells (partition c) i"
    and nr: "\<not> rivals (active_generation c) (header_at (cells p) (spare_base c))"
  shows "flashq_inv cells sz (c\<lparr>partition := p\<rparr>)" "contents cells (c\<lparr>partition := p\<rparr>) = contents cells c"
    "log_stops (cells p) (active_base c) (region_size c) (scratch_size c) (cursor c) =
     log_stops (cells (partition c)) (active_base c) (region_size c) (scratch_size c) (cursor c)"
    "flashq_clean cells c \<Longrightarrow> spare_clean (cells p) (spare_base c) (region_size c) \<Longrightarrow>
     flashq_clean cells (c\<lparr>partition := p\<rparr>)"
proof -
  have core: "inv_core cells sz c" and log: "log_is cells c (index c) (awaiting_gc_count c)"
    using inv by (simp_all add: flashq_inv_def)
  note I = inv_coreD [OF core]
  let ?c = "c\<lparr>partition := p\<rparr>"
  have ro: "region_offset ?c = region_offset c" by (simp add: region_offset_def fun_eq_iff)
  have hd: "header_at (cells p) (active_base c) = header_at (cells (partition c)) (active_base c)"
    using I(13) by (intro header_at_cong eq) auto
  have parts: "entry_body (cells p) (active_base c) e = entry_body (cells (partition c)) (active_base c) e"
    if "e \<in> set (index c)" for e
    using I(20) [OF that] I(9) by (intro entry_body_cong eq) auto
  have fits: "\<forall>e\<in>set (index c). entry_fits (cells p) (active_base c) (region_size c) (scratch_size c) e"
    using I(7) parts by (simp add: compact_ready_def entry_fits_def entry_dest_def)
  have core': "inv_core cells sz ?c"
    unfolding inv_core_def using I(1,2,3,4,5,6,7,8,9) I(20) nr fits hd
    by (simp add: ro geometry_def compact_ready_def compact_end_def)
  obtain hs where hs: "log_ok (cells (partition c)) (active_base c) (region_size c) 4096 hs" "log_end 4096 hs = cursor c"
    "replay (index_capacity c) 4096 hs ([], 0) = (index c, awaiting_gc_count c)" "\<not> log_fault (scratch_size c) hs"
    using log by (auto simp: log_is_def)
  have "log_ok (cells p) (active_base c) (region_size c) 4096 hs"
    by (rule log_ok_cong [OF _ hs(1)]) (use hs(2) I(9) in \<open>auto intro: eq\<close>)
  then have "log_is cells ?c (index ?c) (awaiting_gc_count ?c)"
    using hs by (auto simp: log_is_def ro)
  with core' show "flashq_inv cells sz ?c" by (simp add: flashq_inv_def)
  have "map (stored (cells p) (active_base c)) (index c) = map (stored (cells (partition c)) (active_base c)) (index c)"
    using parts by (simp add: stored_def entry_dest_def entry_payload_def)
  then show "contents cells ?c = contents cells c"
    by (simp add: contents_def ro contents_of_cong)
  show "log_stops (cells p) (active_base c) (region_size c) (scratch_size c) (cursor c) =
     log_stops (cells (partition c)) (active_base c) (region_size c) (scratch_size c) (cursor c)"
    by (rule log_stops_cong) (simp add: eq)
  show "flashq_clean cells ?c" if "flashq_clean cells c" "spare_clean (cells p) (spare_base c) (region_size c)"
    using that by (simp add: flashq_clean_def tail_blank_def ro blank_area_def eq)
qed

lemma choose_newer:
  assumes "region_active ha" "region_active hs \<Longrightarrow> region_generation hs < region_generation ha"
  shows "choose_region ha hs = Some 0" "choose_region hs ha = Some 1"
  using assms by (auto simp: choose_region_def)

lemma choose_active:
  assumes hdr: "header_at m (active_base c) = active_hdr (active_generation c)"
    and nr: "\<not> rivals (active_generation c) (header_at m (spare_base c))" and a: "active_region c < 2"
    and h: "\<And>r. h r = Some (region_hdr_of_bytes (header_at m (region_offset c r)), bytes_all_ff (header_at m (region_offset c r)))"
  shows "choose_region (h 0) (h 1) = Some (active_region c)"
    "region_generation (if active_region c = 0 then h 0 else h 1) = active_generation c"
proof -
  have act: "region_active (h (active_region c))" "region_generation (h (active_region c)) = active_generation c"
    by (simp_all add: h hdr region_active_def region_valid_def region_generation_def fresh_hdr_not_blank)
  have spare: "region_generation (h (1 - active_region c)) < region_generation (h (active_region c))"
    if "region_active (h (1 - active_region c))"
    using nr that unfolding act(2)
    by (auto simp: h region_active_def region_valid_def region_generation_def rivals_def Let_def not_le)
  note n = choose_newer [OF act(1) spare]
  consider "active_region c = 0" | "active_region c = 1" using a by linarith
  then show "choose_region (h 0) (h 1) = Some (active_region c)"
    "region_generation (if active_region c = 0 then h 0 else h 1) = active_generation c"
    using act(2) n by (cases, simp_all)+
qed

lemma recover_chooses:
  assumes laws: "flash_laws F cells" "reads_ok F sz" and inv: "flashq_inv cells sz c"
    and conf: "same_config c0 c" "cells (partition c0) = cells (partition c)"
  obtains p where "cells p = cells (partition c)" "op_recover F c0 =
      (let (err, ctx) = ensure_region_erased F (c0\<lparr>partition := p\<rparr>) (1 - active_region c)
       in if err \<noteq> ESP_OK then (err, ctx) else scan_region F ctx (active_region c) (active_generation c))"
proof -
  have core: "inv_core cells sz c" using inv by (simp add: flashq_inv_def)
  note I = inv_coreD [OF core]
  let ?m = "cells (partition c)" and ?r = "active_region c"
  have ro: "region_offset c0 r = region_offset c r" for r using conf(1) by (simp add: region_offset_def same_config_def)
  define h where "h = (\<lambda>r. Some (region_hdr_of_bytes (header_at ?m (region_offset c r)), bytes_all_ff (header_at ?m (region_offset c r))))"
  have hread: "\<exists>p. region_header_read F d r = (h r, d\<lparr>partition := p\<rparr>) \<and> cells p = ?m"
    if d: "cells (partition d) = ?m" "region_size d = region_size c" and r: "r < 2" for d :: "'a flashq_ctx" and r
  proof -
    have rod: "region_offset d r = region_offset c r" using d(2) by (simp add: region_offset_def)
    have "region_offset d r + REGION_HDR_SIZE \<le> sz" using geometry_region [OF I(1) r] by (simp add: rod)
    then obtain p where "flash_read F d (region_offset d r) REGION_HDR_SIZE =
        (Some (header_at (cells (partition d)) (region_offset d r)), d\<lparr>partition := p\<rparr>)" "cells p = cells (partition d)"
      using flash_read_ok [OF laws] by metis
    then show ?thesis by (intro exI [of _ p]) (simp add: region_header_read_def rod d(1) Let_def h_def)
  qed
  have cs: "region_size c0 = region_size c" using conf(1) by (simp add: same_config_def)
  obtain p1 where 1: "region_header_read F c0 0 = (h 0, c0\<lparr>partition := p1\<rparr>)" "cells p1 = ?m"
    using hread [OF conf(2) cs, of 0] by auto
  obtain p2 where 2: "region_header_read F (c0\<lparr>partition := p1\<rparr>) 1 = (h 1, c0\<lparr>partition := p2\<rparr>)" "cells p2 = ?m"
    using hread [of "c0\<lparr>partition := p1\<rparr>" 1] 1(2) cs by auto
  have hr: "h r = Some (region_hdr_of_bytes (header_at ?m (region_offset c r)), bytes_all_ff (header_at ?m (region_offset c r)))" for r
    by (simp only: h_def)
  note ch = choose_active [of ?m c h, OF I(2,3,14) hr]
  show thesis
  proof (rule that [OF 2(2)])
    show "op_recover F c0 =
      (let (err, ctx) = ensure_region_erased F (c0\<lparr>partition := p2\<rparr>) (1 - active_region c)
       in if err \<noteq> ESP_OK then (err, ctx) else scan_region F ctx (active_region c) (active_generation c))"
      unfolding op_recover_def 1(1) 2(1) Let_def prod.case ch option.case ..
  qed
qed

text \<open>
  Recovery rebuilds the state: the messages are those of the log, with the ones in flight back
  to pending.
\<close>

lemma recover_scans:
  assumes laws: "flash_laws F cells" "reads_ok F sz" and inv: "flashq_inv cells sz c"
    and conf: "same_config c0 c" "cells (partition c0) = cells (partition c)"
  obtains e3 c3 where "op_recover F c0 =
      (if e3 \<noteq> ESP_OK then (e3, c3) else scan_region F c3 (active_region c) (active_generation c))"
    "e3 = ESP_OK \<or> e3 = EDGESYNC_ERR_STORAGE" "frame c0 c3" "fault c3 = fault c0" "same_config c3 c"
    "\<forall>i. active_base c \<le> i \<longrightarrow> i < active_base c + region_size c \<longrightarrow> cells (partition c3) i = cells (partition c) i"
    "\<not> rivals (active_generation c) (header_at (cells (partition c3)) (spare_base c))"
    "e3 = ESP_OK \<longrightarrow> flashq_clean cells c \<longrightarrow> spare_clean (cells (partition c3)) (spare_base c) (region_size c)"
proof -
  have core: "inv_core cells sz c" using inv by (simp add: flashq_inv_def)
  note I = inv_coreD [OF core]
  let ?m = "cells (partition c)" and ?r = "active_region c"
  obtain p2 where 2: "cells p2 = ?m" "op_recover F c0 =
      (let (err, ctx) = ensure_region_erased F (c0\<lparr>partition := p2\<rparr>) (1 - ?r)
       in if err \<noteq> ESP_OK then (err, ctx) else scan_region F ctx ?r (active_generation c))"
    by (rule recover_chooses [OF laws inv conf])
  have cs: "region_size c0 = region_size c" using conf(1) by (simp add: same_config_def)
  obtain e3 c3 where 3: "ensure_region_erased F (c0\<lparr>partition := p2\<rparr>) (1 - ?r) = (e3, c3)" by (metis prod.exhaust)
  note s3 = ensure_region_erased_spec [OF laws(1) 3]
  have ro2: "region_offset (c0\<lparr>partition := p2\<rparr>) r = region_offset c r" "region_size (c0\<lparr>partition := p2\<rparr>) = region_size c" for r
    using cs by (simp_all add: region_offset_def)
  have disj: "disjoint_regions c ?r (1 - ?r)" by (rule disjoint_regions_neq [OF I(16)])
  have "4096 dvd spare_base c" using geometry_region [OF I(1,15)] by simp
  note hdr = sector_header [OF this s3(5)]
  show thesis
  proof (rule that)
    show "op_recover F c0 = (if e3 \<noteq> ESP_OK then (e3, c3) else scan_region F c3 ?r (active_generation c))"
      unfolding 2(2) 3 Let_def by simp
    show "e3 = ESP_OK \<or> e3 = EDGESYNC_ERR_STORAGE" by (rule s3(6))
    show "frame c0 c3" by (rule frame_trans [OF _ s3(1)]) simp
    show "fault c3 = fault c0" using s3(2) by simp
    show "same_config c3 c" using conf(1) by (simp add: same_config_def frame_fields [OF s3(1)])
    show "\<forall>i. active_base c \<le> i \<longrightarrow> i < active_base c + region_size c \<longrightarrow> cells (partition c3) i = ?m i"
    proof (intro allI impI)
      show "cells (partition c3) i = ?m i" if "active_base c \<le> i" "i < active_base c + region_size c" for i
        using s3(3) [of i] that disj by (simp add: ro2 2(1) disjoint_regions_def) linarith
    qed
    show "\<not> rivals (active_generation c) (header_at (cells (partition c3)) (spare_base c))"
      using hdr I(3) blank_not_rival 2(1) by auto
    show "e3 = ESP_OK \<longrightarrow> flashq_clean cells c \<longrightarrow> spare_clean (cells (partition c3)) (spare_base c) (region_size c)"
      using s3(4) unfolding ro2 by (auto simp: spare_clean_def flashq_clean_def 2(1))
  qed
qed

lemma recover_ok:
  assumes laws: "flash_laws F cells" "reads_ok F sz" and inv: "flashq_inv cells sz c"
    and stop: "log_stops (cells (partition c)) (active_base c) (region_size c) (scratch_size c) (cursor c)"
    and room: "generation_room c (length (index c) + 1)"
    and conf: "same_config c0 c" "cells (partition c0) = cells (partition c)"
    and run: "op_recover F c0 = (ESP_OK, c')"
  shows "flashq_inv cells sz c'" "contents cells c' = (\<lambda>mid. map_option requeued (contents cells c mid))"
    "fault c' = fault c0" "flashq_clean cells c \<Longrightarrow> erases_complete F sz \<Longrightarrow> flashq_clean cells c'"
    "same_config c' c" "unat (active_generation c') \<le> unat (active_generation c) + length (index c)"
proof -
  obtain e3 c3 where 3: "op_recover F c0 =
      (if e3 \<noteq> ESP_OK then (e3, c3) else scan_region F c3 (active_region c) (active_generation c))"
    "e3 = ESP_OK \<or> e3 = EDGESYNC_ERR_STORAGE" "frame c0 c3" "fault c3 = fault c0" "same_config c3 c"
    "\<forall>i. active_base c \<le> i \<longrightarrow> i < active_base c + region_size c \<longrightarrow> cells (partition c3) i = cells (partition c) i"
    "\<not> rivals (active_generation c) (header_at (cells (partition c3)) (spare_base c))"
    "e3 = ESP_OK \<longrightarrow> flashq_clean cells c \<longrightarrow> spare_clean (cells (partition c3)) (spare_base c) (region_size c)"
    by (rule recover_scans [OF laws inv conf])
  have e3: "e3 = ESP_OK" and run3: "scan_region F c3 (active_region c) (active_generation c) = (ESP_OK, c')"
    using run 3(1) by (auto split: if_splits)
  let ?c = "c\<lparr>partition := partition c3\<rparr>"
  note S = spare_change [OF inv 3(6) [rule_format] 3(7)]
  have conf3: "same_config c3 ?c" using 3(5) by (simp add: same_config_def)
  have ro3: "region_offset ?c = region_offset c" by (simp add: region_offset_def fun_eq_iff)
  have R: "flashq_inv cells sz c'" "contents cells c' = (\<lambda>mid. map_option requeued (contents cells ?c mid))"
    "fault c' = fault c3" "flashq_clean cells ?c \<Longrightarrow> erases_complete F sz \<Longrightarrow> flashq_clean cells c'"
    "same_config c' ?c" "unat (active_generation c') \<le> unat (active_generation ?c) + length (index ?c)"
    by (rule scan_region_ok [OF laws S(1) _ _ conf3]; use run3 S(3) stop room in \<open>simp add: ro3 generation_room_def\<close>)+
  show "flashq_inv cells sz c'" "contents cells c' = (\<lambda>mid. map_option requeued (contents cells c mid))"
    "same_config c' c" "unat (active_generation c') \<le> unat (active_generation c) + length (index c)"
    using R(1,2,5,6) S(2) by (simp_all add: same_config_def)
  show "fault c' = fault c0" using R(3) 3(4) by simp
  show "flashq_clean cells c'" if cl: "flashq_clean cells c" and ec: "erases_complete F sz"
    using R(4) S(4) 3(8) e3 cl ec by simp
qed

end
