(* ===== verification/Flashq_Live.thy ===== *)
theory Flashq_Live
  imports Flashq_Recovery
begin

text \<open>
  Success on a device whose operations inside the partition succeed: compaction completes,
  room is found as long as the live messages leave any, an append behind a blank tail is
  read back, and so every operation of the queue returns \<open>ESP_OK\<close> unless it refuses its
  argument.
\<close>

lemma reliable_erases: "flash_reliable F sz \<Longrightarrow> erases_complete F sz"
  by (simp add: flash_reliable_def erases_complete_def)

lemma ff_and [simp]: "(0xFF :: byte) AND x = x"
proof -
  have "(0xFF :: byte) = - 1" by simp
  then show ?thesis by (simp only: and.left_neutral)
qed

lemma write_blank_succeeds:
  assumes "flash_laws F cells" "flash_reliable F sz" "off + length data \<le> sz"
    and "blank_area (cells (partition c)) off (off + length data)"
    and "partition_write_verify F c off data = (err, c')"
  shows "err = ESP_OK"
  using partition_write_verify_succeeds [OF assms(1-3), of c] assms(4,5) by (simp add: blank_area_def)

section \<open>Compaction\<close>

lemma compact_loop_live:
  assumes laws: "flash_laws F cells" and rel: "flash_reliable F sz"
    and "n \<le> length (index c)" "disjoint_regions c source target"
    and "\<forall>e\<in>set (drop n (index c)).
        entry_fits (cells (partition c)) (region_offset c source) (region_size c) (scratch_size c) e"
    and "cur + live_size (drop n (index c)) \<le> region_size c"
    and "region_offset c source + region_size c \<le> sz" "region_offset c target + region_size c \<le> sz"
    and "blank_area (cells (partition c)) (region_offset c target + cur) (region_offset c target + region_size c)"
  shows "fst (compact_loop F source target [n..<length (index c)] c cur s) = ESP_OK"
  using assms(3-)
proof (induction "length (index c) - n" arbitrary: n c cur s)
  case 0
  then show ?case by simp
next
  case (Suc k)
  then have n: "n < length (index c)" by simp
  let ?e = "index c ! n"
  have l: "[n..<length (index c)] = n # [Suc n..<length (index c)]" using n by (rule upt_conv_Cons)
  have dn: "drop n (index c) = ?e # drop (Suc n) (index c)" using n by (simp add: Cons_nth_drop_Suc)
  have fit: "entry_fits (cells (partition c)) (region_offset c source) (region_size c) (scratch_size c) ?e"
    using Suc.prems(3) by (simp add: dn)
  have "fst (flash_read F c (region_offset c source + e_message_offset ?e) (HDR_SIZE + (entry_dlen ?e + entry_plen ?e))) \<noteq> None"
  proof -
    have "region_offset c source + e_message_offset ?e + (HDR_SIZE + (entry_dlen ?e + entry_plen ?e)) \<le> sz"
      using fit entry_size_ge [of ?e] Suc.prems(5) by (simp add: entry_fits_def)
    from flash_read_ok [OF laws reliable_reads [OF rel] this, of c] show ?thesis by (metis fst_conv option.distinct(1))
  qed
  with compact_step [OF laws fit, of target "[Suc n..<length (index c)]" cur s]
  obtain c1 bs where go: "frame c c1" "cells (partition c1) = cells (partition c)" "fault c1 = fault c"
      "encode_common (scratch_size c) (compact_hdr ?e s)
         (entry_dest (cells (partition c)) (region_offset c source) ?e)
         (entry_payload (cells (partition c)) (region_offset c source) ?e) = Some bs"
      "compact_loop F source target [n..<length (index c)] c cur s =
         (let (err, c2) = partition_write_verify F c1 (region_offset c target + cur) bs
          in if err \<noteq> ESP_OK then (err, c2, cur, s)
             else compact_loop F source target [Suc n..<length (index c)]
                    (c2\<lparr>index := (index c2)[n := ?e\<lparr>e_message_offset := cur\<rparr>]\<rparr>) (cur + length bs) (s + 1))"
    unfolding l by blast
  have len: "length bs = entry_size ?e"
    using encode_common_Some(1) [OF go(4)] by (simp add: entry_size_def)
  have room: "cur + length bs \<le> region_size c" using Suc.prems(4) len by (simp add: dn)
  obtain err c2 where w: "partition_write_verify F c1 (region_offset c target + cur) bs = (err, c2)"
    by (metis prod.exhaust)
  have "err = ESP_OK"
    using write_blank_succeeds [OF laws rel _ _ w] room Suc.prems(6,7) by (auto simp: go(2) blank_area_def)
  note w = w [unfolded this]
  note ws = partition_write_verify_spec [OF laws w]
  have fr2: "frame c c2" by (rule frame_trans [OF go(1) ws(1)])
  define c3 where "c3 = c2\<lparr>index := (index c2)[n := ?e\<lparr>e_message_offset := cur\<rparr>]\<rparr>"
  note step = compacted_step(1) [OF laws n refl Suc.prems(2,3,4) go(1-4) w c3_def]
  have l3: "length (index c3) = length (index c)" "region_size c3 = region_size c"
    "drop (Suc n) (index c3) = drop (Suc n) (index c)" "disjoint_regions c3 source target"
    "\<And>r. region_offset c3 r = region_offset c r" "partition c3 = partition c2"
    using Suc.prems(2) by (simp_all add: c3_def frame_fields [OF fr2] disjoint_regions_def region_offset_def)
  have "blank_area (cells (partition c3)) (region_offset c target + (cur + length bs)) (region_offset c target + region_size c)"
    using Suc.prems(7) ws(2) by (simp add: l3 blank_area_def go(2))
  then have "fst (compact_loop F source target [Suc n..<length (index c3)] c3 (cur + length bs) (s + 1)) = ESP_OK"
    using Suc.hyps(2) n Suc.prems(4-6) step l3 by (intro Suc.hyps(1)) (simp_all add: dn len)
  then show ?case using go(5) w l3 by (simp add: c3_def)
qed

lemma compact_prepare_live:
  assumes laws: "flash_laws F cells" and rel: "flash_reliable F sz" and inv: "inv_core cells sz c"
    and tgt: "target = 1 - active_region c"
    and sc: "spare_clean (cells (partition c)) (region_offset c target) (region_size c)"
  shows "fst (compact_prepare F c (active_region c) target) = ESP_OK"
proof -
  note I = inv_coreD [OF inv, folded tgt]
  let ?src = "active_region c" and ?tb = "region_offset c target" and ?rs = "region_size c"
  have disj: "disjoint_regions c ?src target" by (rule disjoint_regions_neq [OF I(16)])
  have ce: "compact_end c \<le> ?rs" using I(7) by (simp add: compact_ready_def)
  obtain e1 c1 where 1: "ensure_region_erased F c target = (e1, c1)" by (metis prod.exhaust)
  note er = ensure_region_erased_completes [OF laws reliable_erases [OF rel] I(1,15) 1 sc]
  note s1 = ensure_region_erased_spec [OF laws 1]
  obtain e2 c2 where 2: "partition_write_verify F c1 (region_offset c1 target)
      (region_hdr_bytes (fresh_region_hdr (active_generation c + 1) STATUS_COMPACTING)) = (e2, c2)" by (metis prod.exhaust)
  have e2: "e2 = ESP_OK"
  proof (rule write_blank_succeeds [OF laws rel _ _ 2])
    show "region_offset c1 target + length (region_hdr_bytes (fresh_region_hdr (active_generation c + 1) STATUS_COMPACTING)) \<le> sz"
      using I(13,18) by (simp add: frame_region_offset [OF s1(1)])
    show "blank_area (cells (partition c1)) (region_offset c1 target)
      (region_offset c1 target + length (region_hdr_bytes (fresh_region_hdr (active_generation c + 1) STATUS_COMPACTING)))"
      using er(2) I(13) by (simp add: frame_region_offset [OF s1(1)] blank_area_def)
  qed
  note h = prepare_header [OF laws I(1,15,3) 1 2]
  note f2 = frame_fields [OF h(5)] frame_region_offset [OF h(5)]
  have blank2: "blank_area (cells (partition c2)) (?tb + 12) (?tb + ?rs)" using h(4) er(1) sc by blast
  have fits: "\<forall>e\<in>set (drop 0 (index c2)). entry_fits (cells (partition c2)) (region_offset c2 ?src) (region_size c2) (scratch_size c2) e"
    unfolding drop_0
  proof (rule ready_frame [where cells = cells, OF I(7) h(5)])
    fix i assume "region_offset c ?src \<le> i" "i < region_offset c ?src + ?rs"
    then show "cells (partition c2) i = cells (partition c) i"
      using disj by (intro h(7)) (auto simp: disjoint_regions_def)
  qed
  obtain e3 c3 n3 s3 where 3: "compact_loop F ?src target [0..<length (index c2)] c2 (data_start c2) (next_seq c2) =
      (e3, c3, n3, s3)" by (metis prod.exhaust)
  have sp: "data_start c2 + live_size (drop 0 (index c2)) \<le> region_size c2"
    using ce I(10) by (simp add: f2 compact_end_def)
  have e3: "e3 = ESP_OK"
    using compact_loop_live [OF laws rel, of 0 c2 ?src target "data_start c2" "next_seq c2"] fits sp disj I(10,17,18) blank2 3
    by (simp add: f2 disjoint_regions_def blank_area_def)
  have "compacted cells ?src target 0 (data_start c2) (next_seq c2) c2 (e3, c3, n3, s3)"
    unfolding 3 [symmetric]
    using disj fits sp by (intro compact_loop_spec [OF laws]) (simp_all add: f2 disjoint_regions_def)
  note L = this [unfolded compacted_def Let_def prod.case f2 I(10) drop_0 take_0 append_Nil]
  note ok = L [THEN conjunct2, THEN conjunct2, THEN conjunct2, THEN conjunct2, rule_format, OF e3]
  have fr3: "frame (c\<lparr>index := index c3\<rparr>) c3" using L frame_trans [OF frame_index_upd [OF h(5)]] by blast
  note f3 = frame_fields [OF fr3, simplified] frame_region_offset [OF fr3]
  have ro3: "region_offset c3 r = region_offset c r" for r by (simp add: f3 region_offset_def)
  have n3: "n3 + 68 = compact_end c" using ok by (simp add: compact_end_def)
  obtain e4 c4 where 4: "partition_write_verify F c3 (?tb + n3) (encoded (encode_end (scratch_size c) s3)) = (e4, c4)"
    by (metis prod.exhaust)
  note E = prepare_end [OF laws _ 4 [folded f3(12)], unfolded f3, OF I(12)]
  have e4: "e4 = ESP_OK"
  proof (rule write_blank_succeeds [OF laws rel _ _ 4], unfold E(3))
    show "?tb + n3 + 68 \<le> sz" using n3 ce I(18) by linarith
    have "blank_area (cells (partition c2)) (?tb + n3) (?tb + ?rs)" using blank2 ok by (simp add: blank_area_def)
    then show "blank_area (cells (partition c3)) (?tb + n3) (?tb + n3 + 68)"
      using ok n3 ce by (simp add: blank_area_def)
  qed
  show ?thesis
    using er(1) e2 e3 e4
    by (simp add: compact_prepare_def Let_def 1 2 3 4 [unfolded f3(12)] frame_fields [OF s1(1)] ro3 E(3) f3(12) split_beta)
qed

lemma compact_locked_live:
  assumes laws: "flash_laws F cells" and rel: "flash_reliable F sz" and inv: "inv_core cells sz c"
    and gen: "generation_ok c" and sc: "spare_clean (cells (partition c)) (spare_base c) (region_size c)"
  shows "fst (compact_locked F c) = ESP_OK"
proof -
  note I = inv_coreD [OF inv]
  let ?src = "active_region c" and ?tgt = "1 - active_region c" and ?tb = "spare_base c"
  obtain e4 c4 cur s where prep: "compact_prepare F c ?src ?tgt = (e4, c4, cur, s)" by (metis prod.exhaust)
  have e4: "e4 = ESP_OK" using compact_prepare_live [OF laws rel inv refl sc] prep by simp
  note P = compact_prepare_spec [OF laws I(1,7) refl I(3), unfolded prep e4 prepared_def prod.case]
  have hdr: "header_at (cells (partition c4)) ?tb = region_hdr_bytes (fresh_region_hdr (active_generation c + 1) STATUS_COMPACTING)"
    using P by blast
  have fr4: "frame (c\<lparr>index := index c4\<rparr>) c4" using P by blast
  note f4 = frame_fields [OF fr4, simplified] frame_region_offset [OF fr4]
  have ro4: "region_offset c4 r = region_offset c r" for r by (simp add: f4 region_offset_def)
  have "fst (partition_write_verify F c4 (?tb + REGION_STATUS_OFFSET) [STATUS_ACTIVE]) = ESP_OK"
  proof (rule partition_write_verify_succeeds [OF laws rel])
    show "?tb + REGION_STATUS_OFFSET + length [STATUS_ACTIVE] \<le> sz" using I(13,18) by simp
    fix j assume "j < length [STATUS_ACTIVE]"
    moreover have "cells (partition c4) (?tb + 8) = 7"
      using mem_read_eqD [OF hdr, of 8] by (simp add: nth_fresh_hdr_status)
    ultimately show "cells (partition c4) (?tb + REGION_STATUS_OFFSET + j) AND [STATUS_ACTIVE] ! j = [STATUS_ACTIVE] ! j"
      by simp
  qed
  then show ?thesis
    by (simp add: compact_locked_alt prep e4 compact_finish_def ro4 split_beta del: One_nat_def)
qed

section \<open>Room\<close>

definition has_room :: "'p flashq_ctx \<Rightarrow> nat \<Rightarrow> bool" where
  "has_room c n \<longleftrightarrow> compact_end c + n \<le> region_size c"

lemma ensure_space_live:
  assumes laws: "flash_laws F cells" and rel: "flash_reliable F sz" and inv: "inv_core cells sz c"
    and gen: "generation_ok c" and cl: "flashq_clean cells c" and room: "has_room c n"
  obtains c' where "ensure_space_locked F c n = (ESP_OK, c')" "has_room c' n" "tail_blank cells c'"
proof -
  note I = inv_coreD [OF inv]
  obtain e1 c1 where 1: "compact_locked F c = (e1, c1)" by (metis prod.exhaust)
  have sc: "spare_clean (cells (partition c)) (spare_base c) (region_size c)" using cl by (simp add: flashq_clean_def)
  have e1: "e1 = ESP_OK" using compact_locked_live [OF laws rel inv gen sc] 1 by simp
  note cd = compact_keeps_inv(1) [OF laws inv gen 1 [unfolded e1]]
  note D = compact_done_inv [OF inv cd]
  have i1: "data_capacity c1 = region_size c1 - 4096" "data_start c1 = 4096" "region_size c1 = region_size c"
    using inv_coreD(10,11) [OF D(1)] D(4) by (simp_all add: moved_def)
  have fit1: "\<not> data_capacity c1 - (cursor c1 - data_start c1) < n" "has_room c1 n"
    using room D(5,8) i1 by (simp_all add: has_room_def compact_end_def)
  obtain e c' where run: "ensure_space_locked F c n = (e, c')" by (metis prod.exhaust)
  have "e = ESP_OK \<and> (c' = c \<or> c' = c1)"
    using run fit1 by (auto simp: ensure_space_locked_def Let_def 1 e1 split: if_splits)
  then show thesis
    using that [of c'] run room fit1 ensure_space_spec(10) [OF laws inv gen _ cl] by auto
qed

lemma has_room_fields [simp]:
  "has_room (c\<lparr>claim_scratch := s\<rparr>) n = has_room c n"
  "has_room (c\<lparr>updates_since_compaction := u\<rparr>) n = has_room c n"
  "has_room (c\<lparr>awaiting_gc_count := g\<rparr>) n = has_room c n"
  by (simp_all add: has_room_def compact_end_def)

lemma has_room_update:
  "pos < length (index c) \<Longrightarrow> same_message (index c ! pos) e \<Longrightarrow>
   has_room (c\<lparr>index := (index c)[pos := e]\<rparr>) n = has_room c n"
  using live_size_update [of pos "index c" e] by (simp add: has_room_def compact_end_def same_message_sizes)

lemma append_live:
  assumes laws: "flash_laws F cells" and rel: "flash_reliable F sz" and inv: "inv_core cells sz c"
    and tb: "tail_blank cells c" and fit: "cursor c + length bs \<le> region_size c"
  obtains c' where "append_locked F c bs = (ESP_OK, c')"
proof -
  obtain e1 c1 where w: "partition_write_verify F c (active_base c + cursor c) bs = (e1, c1)" by (metis prod.exhaust)
  have "e1 = ESP_OK"
    using write_blank_succeeds [OF laws rel _ _ w] fit inv_coreD(17) [OF inv] tb
    by (simp add: tail_blank_def blank_area_def)
  then show thesis using that w by (simp add: append_locked_def)
qed

lemma update_append_live:
  assumes laws: "flash_laws F cells" and rel: "flash_reliable F sz" and inv: "inv_core cells sz c"
    and tb: "tail_blank cells c" and fit: "cursor c + 68 \<le> region_size c"
  obtains c' where "append_locked F c (encoded (encode_update (scratch_size c) mid st att last_us next_us er s)) = (ESP_OK, c')"
proof -
  obtain bs where bs: "encoded (encode_update (scratch_size c) mid st att last_us next_us er s) = bs" "length bs = 68"
    by (rule update_encoded [OF inv_coreD(12) [OF inv], of mid st att last_us next_us er s]) 
  then obtain c' where "append_locked F c bs = (ESP_OK, c')"
    using append_live [OF laws rel inv tb, of bs] fit by (metis (no_types))
  then show thesis using that bs(1) by simp
qed

lemma update_size: "record_total_size 0 0 = 68"
  by (simp add: record_total_size_def round4_def)

lemma append_state_update_live:
  assumes laws: "flash_laws F cells" and rel: "flash_reliable F sz" and inv: "inv_core cells sz c"
    and gen: "generation_ok c" and cl: "flashq_clean cells c" and room: "has_room c 68"
  obtains c' where "append_state_update_locked F c pos st = (ESP_OK, c')"
proof -
  obtain c1 where 1: "ensure_space_locked F c 68 = (ESP_OK, c1)" "tail_blank cells c1"
    by (rule ensure_space_live [OF laws rel inv gen cl room])
  note R = ensure_space_spec [OF laws inv gen 1(1)]
  let ?e = "index c1 ! pos"
  obtain c2 where 2: "append_locked F c1 (encoded (encode_update (scratch_size c1) (e_id ?e) st (e_attempt_count ?e)
      (e_last_attempt_at_us ?e) (e_next_retry_at_us ?e) (e_last_error ?e) (next_seq c1))) = (ESP_OK, c2)"
    by (rule update_append_live [OF laws rel R(1) 1(2) R(3)])
  show thesis using that 1 2 by (simp add: append_state_update_locked_def update_size)
qed

lemma claim_commit_live:
  assumes laws: "flash_laws F cells" and rel: "flash_reliable F sz" and inv: "inv_core cells sz c"
    and gen: "generation_ok c" and cl: "flashq_clean cells c" and room: "has_room c 68"
  shows "fst (claim_commit F c now_us pos) = ESP_OK"
proof -
  obtain c1 where 1: "ensure_space_locked F c 68 = (ESP_OK, c1)" "tail_blank cells c1"
    by (rule ensure_space_live [OF laws rel inv gen cl room])
  note R = ensure_space_spec [OF laws inv gen 1(1)]
  let ?e = "index c1 ! pos"
  obtain c2 where 2: "append_locked F c1 (encoded (encode_update (scratch_size c1) (e_id ?e) STATE_IN_FLIGHT
      (e_attempt_count (index c ! pos) + 1) now_us (e_next_retry_at_us ?e) (e_last_error ?e) (next_seq c1))) = (ESP_OK, c2)"
    by (rule update_append_live [OF laws rel R(1) 1(2) R(3)])
  show ?thesis using 1 2 by (simp add: claim_commit_def update_size Let_def)
qed

section \<open>The operations\<close>

lemma retire_entry_live:
  assumes laws: "flash_laws F cells" and rel: "flash_reliable F sz" and inv: "flashq_inv cells sz c"
    and gen: "generation_ok c" and cl: "flashq_clean cells c" and room: "has_room c 68"
    and mid: "mid \<in> dom (contents cells c)"
  shows "fst (retire_entry F c mid st) = ESP_OK"
proof -
  have core: "inv_core cells sz c" using inv by (simp add: flashq_inv_def)
  obtain pos where f: "find_entry (index c) mid = Some pos"
    using mid find_None_contents [of c mid cells] by fastforce
  obtain c1 where "append_state_update_locked F c pos st = (ESP_OK, c1)"
    by (rule append_state_update_live [OF laws rel core gen cl room])
  then show ?thesis by (simp add: retire_entry_def f)
qed

lemma schedule_retry_live:
  assumes laws: "flash_laws F cells" and rel: "flash_reliable F sz" and inv: "flashq_inv cells sz c"
    and gen: "generation_ok c" and cl: "flashq_clean cells c" and room: "has_room c 68"
    and mid: "mid \<in> dom (contents cells c)"
  shows "fst (op_schedule_retry F c mid next_us dead er) = ESP_OK"
proof -
  have core: "inv_core cells sz c" using inv by (simp add: flashq_inv_def)
  obtain pos where f: "find_entry (index c) mid = Some pos"
    using mid find_None_contents [of c mid cells] by fastforce
  note C = find_contents(1) [OF core f]
  let ?e = "index c ! pos"
  let ?e1 = "?e\<lparr>e_next_retry_at_us := (if dead then 0 else next_us), e_last_error := er\<rparr>"
  let ?c0 = "c\<lparr>index := (index c)[pos := ?e1]\<rparr>"
  have same: "same_message ?e ?e1" by (simp add: same_message_def)
  have "live_state (e_state ?e)" using inv_coreD(6) [OF core] C by simp
  then have core0: "inv_core cells sz ?c0" by (intro inv_core_update [OF core C same]) simp
  have "generation_ok ?c0" "flashq_clean cells ?c0" "has_room ?c0 68"
    using gen cl room has_room_update [OF C same] by simp_all
  then obtain c1 where "append_state_update_locked F ?c0 pos (if dead then STATE_DEAD_LETTER else STATE_PENDING) = (ESP_OK, c1)"
    by (rule append_state_update_live [OF laws rel core0])
  then show ?thesis by (simp add: op_schedule_retry_def f Let_def)
qed

lemma claim_next_live:
  assumes laws: "flash_laws F cells" and rel: "flash_reliable F sz" and inv: "flashq_inv cells sz c"
    and gen: "generation_ok c" and cl: "flashq_clean cells c" and room: "has_room c 68"
  shows "fst (op_claim_next F c now_us) =
    (if claim_select now_us (index c) = None then EDGESYNC_ERR_NOT_FOUND else ESP_OK)"
proof (cases "claim_select now_us (index c)")
  case None
  then show ?thesis by (simp add: op_claim_next_def)
next
  case (Some pos)
  have core: "inv_core cells sz c" using inv by (simp add: flashq_inv_def)
  have pos: "pos < length (index c)"
    using select_loop_bound Some unfolding claim_select_def by blast
  let ?e = "index c ! pos"
  let ?d = "entry_dlen ?e" and ?p = "entry_plen ?e"
  have fit: "entry_fits (cells (partition c)) (active_base c) (region_size c) (scratch_size c) ?e"
    using inv_coreD(7) [OF core] pos by (simp add: compact_ready_def)
  have cap: "HDR_SIZE + (?d + ?p) + 4 \<le> scratch_size c"
    using fit entry_size_ge [of ?e] by (simp add: entry_fits_def)
  obtain rr c1 where rd: "flash_read F c (active_base c + e_message_offset ?e) (HDR_SIZE + (?d + ?p) + 4) = (rr, c1)"
    by (metis prod.exhaust)
  note s1 = flash_read_spec [OF laws rd]
  note k1 = reading_keeps [OF s1(1,2)]
  define c2 where "c2 = (case rr of None \<Rightarrow> c1 | Some raw \<Rightarrow> c1\<lparr>claim_scratch := raw\<rparr>)"
  let ?intact = "case rr of None \<Rightarrow> False | Some raw \<Rightarrow> (case decode_header raw of None \<Rightarrow> False
                   | Some hdr \<Rightarrow> verify_body hdr (drop HDR_SIZE raw))"
  have c2: "inv_core cells sz c2" "generation_ok c2" "flashq_clean cells c2" "has_room c2 68" "index c2 = index c"
    using core gen cl room k1 frame_fields [OF s1(1)]
    by (auto simp: c2_def has_room_def compact_end_def split: option.split)
  let ?c3 = "c2\<lparr>index := (index c)[pos := ?e\<lparr>e_last_error := EDGESYNC_ERR_STORAGE_CORRUPT\<rparr>]\<rparr>"
  have run: "op_claim_next F c now_us = (if ?intact then claim_commit F c2 now_us pos else
      (let (err, c4) = append_state_update_locked F ?c3 pos STATE_DEAD_LETTER
       in (if err = ESP_OK then EDGESYNC_ERR_STORAGE_CORRUPT else err, Some (blank_message (e_id ?e)), c4)))"
    unfolding op_claim_next_def Some option.case Let_def entry_dlen_def [symmetric] entry_plen_def [symmetric]
      buffer_use_fits [OF cap] rd prod.case c2_def [symmetric] c2(5) by simp
  have same: "same_message ?e (?e\<lparr>e_last_error := EDGESYNC_ERR_STORAGE_CORRUPT\<rparr>)" by (simp add: same_message_def)
  have "live_state (e_state ?e)" using inv_coreD(6) [OF core] pos by simp
  then have c3: "inv_core cells sz ?c3" "generation_ok ?c3" "flashq_clean cells ?c3" "has_room ?c3 68"
    using inv_core_update [OF c2(1), of pos] has_room_update [of pos c2] c2 pos same by simp_all
  obtain c4 where 4: "append_state_update_locked F ?c3 pos STATE_DEAD_LETTER = (ESP_OK, c4)"
    by (rule append_state_update_live [OF laws rel c3])
  show ?thesis
  proof (cases ?intact)
    case True
    then show ?thesis using run claim_commit_live [OF laws rel c2(1-4)] Some by simp
  next
    case False
    then have "op_claim_next F c now_us = (EDGESYNC_ERR_STORAGE_CORRUPT, Some (blank_message (e_id ?e)), c4)"
      by (simp only: run 4 if_False Let_def prod.case) simp
    then show ?thesis
      using claim_next_ok [OF laws inv gen] reliable_reads [OF rel] by (metis)
  qed
qed

text \<open>The refusals of \<open>enqueue\<close>: a full index, or a message the encoder does not take.\<close>

definition message_ok :: "'p flashq_ctx \<Rightarrow> message \<Rightarrow> bool" where
  "message_ok c msg \<longleftrightarrow> length (c_string (m_destination msg)) \<le> 63 \<and> message_len msg \<le> scratch_size c"

lemma encode_message_ok:
  "encode_message cap msg s = None \<longleftrightarrow>
     \<not> (length (c_string (m_destination msg)) \<le> 63 \<and> message_len msg \<le> cap)"
proof
  assume n: "encode_message cap msg s = None"
  show "\<not> (length (c_string (m_destination msg)) \<le> 63 \<and> message_len msg \<le> cap)"
  proof
    assume ok: "length (c_string (m_destination msg)) \<le> 63 \<and> message_len msg \<le> cap"
    then obtain bs where "encode_common cap (message_hdr msg s) (c_string (m_destination msg)) (m_payload msg) = Some bs"
      using encode_common_succeeds unfolding message_len_def by blast
    then show False using n ok
      by (simp add: encode_message_def encode_message_full_def message_hdr_def Let_def)
  qed
next
  assume n: "\<not> (length (c_string (m_destination msg)) \<le> 63 \<and> message_len msg \<le> cap)"
  show "encode_message cap msg s = None"
  proof (rule ccontr)
    assume "encode_message cap msg s \<noteq> None"
    then obtain bs where "encode_message cap msg s = Some bs" by blast
    from encode_message_Some [OF this] encode_common_Some(2) [OF encode_message_Some(1) [OF this]] n
    show False by (simp add: message_len_def)
  qed
qed

lemma enqueue_live:
  assumes laws: "flash_laws F cells" and rel: "flash_reliable F sz" and inv: "flashq_inv cells sz c"
    and gen: "generation_ok c" and cl: "flashq_clean cells c"
    and room: "length (index c) < index_capacity c \<Longrightarrow> message_ok c msg \<Longrightarrow> has_room c (message_len msg)"
  shows "fst (op_enqueue F c msg) = (if index_capacity c \<le> length (index c) then EDGESYNC_ERR_QUEUE_FULL
      else if \<not> message_ok c msg then EDGESYNC_ERR_SERIALIZATION else ESP_OK)"
    and "fst (op_enqueue F c msg) \<noteq> ESP_OK \<Longrightarrow> snd (op_enqueue F c msg) = c"
proof -
  have core: "inv_core cells sz c" using inv by (simp add: flashq_inv_def)
  have "fst (op_enqueue F c msg) = ESP_OK" if cap: "\<not> index_capacity c \<le> length (index c)" and ok: "message_ok c msg"
  proof -
    have en: "encode_message (scratch_size c) msg s \<noteq> None" for s
      using ok encode_message_ok by (metis message_ok_def)
    then obtain bs where bs: "encode_message (scratch_size c) msg (next_seq c) = Some bs" by blast
    have lb: "length bs = message_len msg" using encode_message_Some(3) [OF bs] by (simp add: message_len_def)
    obtain c1 where 1: "ensure_space_locked F c (length bs) = (ESP_OK, c1)" "tail_blank cells c1"
      using ensure_space_live [OF laws rel core gen cl room] cap ok unfolding lb by force
    note R = ensure_space_spec [OF laws core gen 1(1)]
    have sc: "scratch_size c1 = scratch_size c" using R(2) by (simp add: moved_def)
    obtain bs1 where bs1: "encode_message (scratch_size c1) msg (next_seq c1) = Some bs1"
      using en unfolding sc by blast
    have "length bs1 = length bs" using encode_message_Some(3) [OF bs1] lb by (simp add: message_len_def)
    then obtain c2 where "append_locked F c1 bs1 = (ESP_OK, c2)"
      using append_live [OF laws rel R(1) 1(2), of bs1] R(3) by auto
    then show ?thesis using cap bs 1 bs1 by (simp add: op_enqueue_def Let_def)
  qed
  note ok = this
  have "op_enqueue F c msg = (EDGESYNC_ERR_QUEUE_FULL, c)" if "index_capacity c \<le> length (index c)"
    using that by (simp add: op_enqueue_def)
  note ok = ok this
  have "op_enqueue F c msg = (EDGESYNC_ERR_SERIALIZATION, c)"
    if "\<not> index_capacity c \<le> length (index c)" "\<not> message_ok c msg"
    using that encode_message_ok [of "scratch_size c" msg "next_seq c"] by (simp add: op_enqueue_def message_ok_def)
  note res = ok this
  from res show "fst (op_enqueue F c msg) = (if index_capacity c \<le> length (index c) then EDGESYNC_ERR_QUEUE_FULL
      else if \<not> message_ok c msg then EDGESYNC_ERR_SERIALIZATION else ESP_OK)" by auto
  show "fst (op_enqueue F c msg) \<noteq> ESP_OK \<Longrightarrow> snd (op_enqueue F c msg) = c"
    using res by (metis snd_conv)
qed

section \<open>Partitions that are large enough\<close>

text \<open>
  A region that holds the largest record for every index slot, the END marker and one UPDATE
  behind its header sector never runs out of room.
\<close>

definition sized :: "'p flashq_ctx \<Rightarrow> bool" where
  "sized c \<longleftrightarrow> 4096 + index_capacity c * scratch_size c + 136 \<le> region_size c"

lemma sized_cong:
  "index_capacity c' = index_capacity c \<Longrightarrow> scratch_size c' = scratch_size c \<Longrightarrow> region_size c' = region_size c \<Longrightarrow>
   sized c' = sized c"
  by (simp add: sized_def)

lemma live_size_bound:
  assumes "\<And>e. e \<in> set es \<Longrightarrow> entry_size e \<le> n"
  shows "live_size es \<le> length es * n"
  using assms
proof (induction es)
  case (Cons e es)
  then show ?case using add_mono [of "entry_size e" n "live_size es" "length es * n"] by simp
qed simp

lemma sized_live:
  assumes inv: "inv_core cells sz c"
  shows "live_size (index c) \<le> length (index c) * scratch_size c"
  using inv_coreD(7) [OF inv] by (intro live_size_bound) (auto simp: compact_ready_def entry_fits_def)

lemma sized_room:
  assumes inv: "inv_core cells sz c" and sz: "sized c"
  shows "has_room c 68"
    and "length (index c) < index_capacity c \<Longrightarrow> message_ok c msg \<Longrightarrow> has_room c (message_len msg)"
proof -
  have "length (index c) * scratch_size c \<le> index_capacity c * scratch_size c"
    using inv_coreD(4) [OF inv] by (rule mult_le_mono1)
  then have "live_size (index c) \<le> index_capacity c * scratch_size c" using sized_live [OF inv] by (rule le_trans [rotated])
  then show "has_room c 68"
    using sz by (simp add: has_room_def compact_end_def sized_def)
  assume l: "length (index c) < index_capacity c" and ok: "message_ok c msg"
  from l have "Suc (length (index c)) * scratch_size c \<le> index_capacity c * scratch_size c"
    by (intro mult_le_mono1) simp
  then have "live_size (index c) + scratch_size c \<le> index_capacity c * scratch_size c" using sized_live [OF inv] by simp
  then show "has_room c (message_len msg)"
    using sz ok by (simp add: has_room_def compact_end_def sized_def message_ok_def)
qed

lemma requeue_loop_live:
  assumes laws: "flash_laws F cells" and rel: "flash_reliable F sz"
    and "flashq_inv cells sz c" "flashq_clean cells c" "sized c" "generation_room c (length js + 1)"
    and "set js \<subseteq> {..<length (index c)}"
  shows "fst (requeue_loop F js c) = ESP_OK"
  using assms(3-)
proof (induction js arbitrary: c)
  case Nil
  then show ?case by simp
next
  case (Cons i js)
  have core: "inv_core cells sz c" using Cons.prems(1) by (simp add: flashq_inv_def)
  have pos: "i < length (index c)" and gen: "generation_ok c"
    using Cons.prems(4,5) generation_room_ok by auto
  have gr: "generation_room c (length js + 1)" and sub: "set js \<subseteq> {..<length (index c)}"
    using Cons.prems(4,5) by (simp_all add: generation_room_def)
  show ?case
  proof (cases "e_state (index c ! i) = STATE_IN_FLIGHT")
    case False
    then show ?thesis using Cons.IH [OF Cons.prems(1-3) gr sub] by simp
  next
    case True
    let ?e1 = "(index c ! i)\<lparr>e_next_retry_at_us := 0\<rparr>"
    let ?c0 = "c\<lparr>index := (index c)[i := ?e1]\<rparr>"
    have same: "same_message (index c ! i) ?e1" by (simp add: same_message_def)
    have "inv_core cells sz ?c0" using True by (intro inv_core_update [OF core pos same]) (simp add: live_state_def)
    moreover have "generation_ok ?c0" "flashq_clean cells ?c0" "has_room ?c0 68"
      using gen Cons.prems(2) sized_room(1) [OF core Cons.prems(3)] has_room_update [OF pos same] by simp_all
    ultimately obtain c1 where 1: "append_state_update_locked F ?c0 i STATE_PENDING = (ESP_OK, c1)"
      by (rule append_state_update_live [OF laws rel])
    note R = requeue_one [OF laws Cons.prems(1) gen pos True 1]
    have "length (index c1) = length (index c)" using arg_cong [OF R(3), of length] by simp
    then have "fst (requeue_loop F js c1) = ESP_OK"
      using Cons.prems R(1,2) reliable_erases [OF rel]
      by (intro Cons.IH) (auto simp: keeps_def sized_def generation_room_def)
    then show ?thesis using True 1 by simp
  qed
qed

lemma recover_live:
  assumes laws: "flash_laws F cells" and rel: "flash_reliable F sz" and inv: "flashq_inv cells sz c"
    and cl: "flashq_clean cells c" and sz: "sized c"
    and stop: "log_stops (cells (partition c)) (active_base c) (region_size c) (scratch_size c) (cursor c)"
    and room: "generation_room c (length (index c) + 1)"
    and conf: "same_config c0 c" "cells (partition c0) = cells (partition c)"
  shows "fst (op_recover F c0) = ESP_OK"
proof -
  have core: "inv_core cells sz c" using inv by (simp add: flashq_inv_def)
  note I = inv_coreD [OF core]
  let ?m = "cells (partition c)" and ?r = "active_region c"
  obtain p2 where 2: "cells p2 = ?m" "op_recover F c0 =
      (let (err, ctx) = ensure_region_erased F (c0\<lparr>partition := p2\<rparr>) (1 - ?r)
       in if err \<noteq> ESP_OK then (err, ctx) else scan_region F ctx ?r (active_generation c))"
    by (rule recover_chooses [OF laws reliable_reads [OF rel] inv conf])
  let ?d = "c0\<lparr>partition := p2\<rparr>"
  obtain e3 c3 where 3: "ensure_region_erased F ?d (1 - ?r) = (e3, c3)" by (metis prod.exhaust)
  have ro: "region_offset ?d r = region_offset c r" "region_size ?d = region_size c" for r
    using conf(1) by (simp_all add: same_config_def region_offset_def)
  have "geometry sz (?d\<lparr>active_region := active_region c\<rparr>)"
    using I(1) conf(1) by (simp add: geometry_def same_config_def)
  moreover have "ensure_region_erased F (?d\<lparr>active_region := active_region c\<rparr>) (1 - ?r) =
      (e3, c3\<lparr>active_region := active_region c\<rparr>)"
    using 3 by (auto simp: ensure_region_erased_def region_header_read_def flash_read_def erase_region_def
        region_offset_def Let_def split: prod.splits option.splits if_splits)
  moreover have "spare_clean (cells (partition (?d\<lparr>active_region := active_region c\<rparr>)))
      (region_offset (?d\<lparr>active_region := active_region c\<rparr>) (1 - ?r))
      (region_size (?d\<lparr>active_region := active_region c\<rparr>))"
    using cl 2(1) conf(1) by (simp add: flashq_clean_def same_config_def region_offset_def)
  ultimately have e3: "e3 = ESP_OK" and blank: "blank_area (cells (partition c3)) (spare_base c) (spare_base c + region_size c)"
    using ensure_region_erased_completes [OF laws reliable_erases [OF rel] _ I(15), of "?d\<lparr>active_region := active_region c\<rparr>"]
      conf(1) by (auto simp: region_offset_def same_config_def)
  note s3 = ensure_region_erased_spec [OF laws 3, unfolded ro]
  let ?c = "c\<lparr>partition := partition c3\<rparr>"
  have disj: "disjoint_regions c ?r (1 - ?r)" by (rule disjoint_regions_neq [OF I(16)])
  have eq: "cells (partition c3) i = ?m i" if "active_base c \<le> i" "i < active_base c + region_size c" for i
    using s3(3) [of i] that disj by (simp add: 2(1) disjoint_regions_def) linarith
  have "header_at (cells (partition c3)) (spare_base c) = replicate 12 0xFF"
    using blank I(13) by (intro nth_equalityI) (simp_all add: blank_area_def)
  then have nr: "\<not> rivals (active_generation c) (header_at (cells (partition c3)) (spare_base c))"
    using blank_not_rival by metis
  note S = spare_change [OF inv eq nr]
  have ro3: "region_offset ?c = region_offset c" by (simp add: region_offset_def fun_eq_iff)
  have cl3: "flashq_clean cells ?c" using S(4) cl blank by (simp add: spare_clean_def)
  have conf3: "same_config c3 ?c" using conf(1) by (simp add: same_config_def frame_fields [OF s3(1)])
  obtain c4 where 4: "scan_region F c3 (active_region ?c) (active_generation ?c) = requeue_loop F [0..<length (index c4)] c4"
    "same_state cells c4 ?c"
    by (rule scan_region_loop [OF laws reliable_reads [OF rel] S(1) _ conf3]) (use S(3) stop in \<open>simp_all add: ro3\<close>)
  have "fst (requeue_loop F [0..<length (index c4)] c4) = ESP_OK"
  proof (rule requeue_loop_live [OF laws rel])
    show "flashq_inv cells sz c4" "flashq_clean cells c4"
      using S(1) cl3 same_state_keeps(1,3) [OF 4(2)] by blast+
    show "sized c4" "generation_room c4 (length [0..<length (index c4)] + 1)"
      using sz room 4(2) by (simp_all add: same_state_def same_config_def sized_def generation_room_def)
  qed auto
  then show ?thesis unfolding 2(2) 3 using e3 4(1) by simp
qed

end
