(* ===== verification/Flashq_Start.thy ===== *)
theory Flashq_Start
  imports Flashq_Live
begin

text \<open>
  How the invariant comes about: the constructor establishes the geometry of the partition,
  and recovery of a partition without an ACTIVE region formats it.
\<close>

lemma record_total_size_68: "68 \<le> record_total_size 63 n"
  using record_total_size_ge [of 63 n] by simp

lemma create_ok:
  assumes "flashq_create config ov pf a b = (ESP_OK, Some c)"
  obtains cfg p psize where "config = Some cfg" "fc_max_messages cfg \<noteq> 0"
    "pf (case fc_partition_label cfg of Some l \<Rightarrow> l | None \<Rightarrow> ''edgesync'') = Some (p, psize)"
    "psize mod 4096 = 0" "4 \<le> psize div 4096" "partition c = p" "psize \<le> 2 ^ 32 \<Longrightarrow> geometry psize c"
    "index_capacity c = unat (fc_max_messages cfg)"
    "scratch_size c = max_record_size (fc_max_message_size cfg)"
    "max_message_size c = fc_max_message_size cfg" "index c = []" "\<not> fault c"
    "region_size c = psize div 4096 div 2 * 4096"
proof -
  obtain cfg where cfg: "config = Some cfg" using assms by (cases config) (auto simp: flashq_create_def)
  let ?l = "case fc_partition_label cfg of Some l \<Rightarrow> l | None \<Rightarrow> ''edgesync''"
  obtain p psize where p: "pf ?l = Some (p, psize)"
    using assms cfg by (auto simp: flashq_create_def Let_def split: if_splits option.splits)
  have c: "fc_max_messages cfg \<noteq> 0" "psize mod 4096 = 0" "4 \<le> psize div 4096"
    "c = \<lparr>partition = p, sectors_per_region = psize div 4096 div 2, region_size = psize div 4096 div 2 * 4096,
       data_start = 4096, data_capacity = psize div 4096 div 2 * 4096 - 4096,
       active_region = 0, active_generation = 0, cursor = 0, next_seq = 0,
       index = [], index_capacity = unat (fc_max_messages cfg),
       max_message_size = fc_max_message_size cfg,
       scratch_size = max_record_size (fc_max_message_size cfg),
       claim_scratch = [], compactions_total = 0, awaiting_gc_count = 0,
       updates_since_compaction = 0, lock_created = False, fault = False\<rparr>"
    using assms p by (auto simp: cfg flashq_create_def Let_def split: if_splits)
  have "geometry psize c" if "psize \<le> 2 ^ 32"
  proof -
    have "2 \<le> psize div 4096 div 2" using c(3) by simp
    then have "8192 \<le> psize div 4096 div 2 * 4096" by simp
    moreover have "2 * (psize div 4096 div 2 * 4096) \<le> psize"
      using div_times_less_eq_dividend [of "psize div 4096" 2] div_times_less_eq_dividend [of psize 4096] by linarith
    ultimately show ?thesis
      using that record_total_size_68 by (simp add: geometry_def c(4) max_record_size_def)
  qed
  then show thesis using that cfg p c by simp
qed

section \<open>Formatting\<close>

lemma formatted_inv:
  assumes geo: "geometry sz c" and act: "active_region c = 0" "active_generation c = 1"
    and idx: "index c = []" and cur: "cursor c = 4096" and gc: "awaiting_gc_count c = 0"
    and hdr: "header_at (cells (partition c)) (region_offset c 0) = active_hdr 1"
    and blank: "blank_area (cells (partition c)) (region_offset c 0 + 12) (region_offset c 0 + region_size c)"
      "blank_area (cells (partition c)) (region_offset c 1) (region_offset c 1 + region_size c)"
  shows "flashq_inv cells sz c" "flashq_clean cells c" "contents cells c = Map.empty"
proof -
  have rs: "8192 \<le> region_size c" using geo by (simp add: geometry_def)
  have "header_at (cells (partition c)) (region_offset c 1) = replicate 12 0xFF"
    using blank(2) rs by (intro nth_equalityI) (simp_all add: blank_area_def)
  then have "\<not> rivals 1 (header_at (cells (partition c)) (region_offset c 1))"
    using blank_not_rival by metis
  then have "inv_core cells sz c"
    unfolding inv_core_def using geo hdr rs by (simp add: act idx cur compact_ready_def compact_end_def)
  moreover have "log_is cells c (index c) (awaiting_gc_count c)"
    unfolding log_is_def by (intro exI [of _ "[]"]) (simp add: idx cur gc log_fault_def)
  ultimately show "flashq_inv cells sz c" by (simp add: flashq_inv_def)
  have "tail_blank cells c" using blank(1) by (simp add: tail_blank_def act cur blank_area_def)
  moreover have "spare_clean (cells (partition c)) (spare_base c) (region_size c)"
    using blank(2) by (simp add: spare_clean_def act)
  ultimately show "flashq_clean cells c" by (simp add: flashq_clean_def)
  show "contents cells c = Map.empty" by (simp add: contents_def contents_of_def idx)
qed

definition formatted :: "'p flashq_ctx \<Rightarrow> 'p flashq_ctx" where
  "formatted c = c\<lparr>index := [], cursor := data_start c, next_seq := 1, active_region := 0,
     active_generation := 1, awaiting_gc_count := 0, compactions_total := 0\<rparr>"

lemma reinitialize_ok:
  assumes laws: "flash_laws F cells" and geo: "geometry sz c" and run: "reinitialize F c = (ESP_OK, c')"
  shows "flashq_inv cells sz c'" "flashq_clean cells c'" "contents cells c' = Map.empty"
    "same_config c' c" "active_generation c' = 1" "index c' = []" "fault c' = fault c"
    "cursor c' = 4096" "updates_since_compaction c' = updates_since_compaction c"
proof -
  obtain e1 c1 where 1: "erase_region F c 0 = (e1, c1)" by (metis prod.exhaust)
  obtain e2 c2 where 2: "erase_region F c1 1 = (e2, c2)" by (metis prod.exhaust)
  obtain e3 c3 where 3: "partition_write_verify F c2 (region_offset c2 0) (active_hdr 1) = (e3, c3)" by (metis prod.exhaust)
  have ok: "e1 = ESP_OK" "e2 = ESP_OK" "e3 = ESP_OK" and c': "c' = formatted c3"
    using run by (auto simp: reinitialize_def Let_def 1 2 3 formatted_def simp del: One_nat_def split: if_splits)
  note s1 = erase_region_spec [OF laws 1]
  note s2 = erase_region_spec [OF laws 2]
  note s3 = partition_write_verify_spec [OF laws 3]
  note fr = frame_trans [OF s1(1) frame_trans [OF s2(1) s3(1)]]
  note f = frame_fields [OF fr] frame_region_offset [OF fr]
  note f1 = frame_fields [OF s1(1)] frame_region_offset [OF s1(1)]
  note f2 = frame_fields [OF frame_trans [OF s1(1) s2(1)]] frame_region_offset [OF frame_trans [OF s1(1) s2(1)]]
  have rs: "8192 \<le> region_size c" using geo by (simp add: geometry_def)
  have ro: "region_offset c 0 = 0" "region_offset c 1 = region_size c" by (simp_all add: region_offset_def)
  have b2: "cells (partition c2) i = 0xFF" if "i < 2 * region_size c" for i
  proof (cases "i < region_size c")
    case True
    then show ?thesis using s1(4) [OF ok(1), of i] s2(3) [of i] by (simp add: f1 ro del: One_nat_def)
  next
    case False
    then show ?thesis using s2(4) [OF ok(2), of i] that by (simp add: f1 ro del: One_nat_def)
  qed
  have hdr: "header_at (cells (partition c3)) 0 = active_hdr 1"
    using s3(3) [OF ok(3)] by (simp add: f2 ro)
  have b3: "cells (partition c3) i = 0xFF" if "12 \<le> i" "i < 2 * region_size c" for i
    using s3(2) [of i] b2 [of i] that by (simp add: f2 ro)
  have geo': "geometry sz c'" using geo by (simp add: geometry_def c' formatted_def f)
  have fields: "partition c' = partition c3" "region_size c' = region_size c" "region_offset c' 0 = 0"
    "region_offset c' 1 = region_size c" "active_region c' = 0" "cursor c' = 4096" "awaiting_gc_count c' = 0"
    using geo by (simp_all add: c' formatted_def f region_offset_def geometry_def)
  show gen: "active_generation c' = 1" "index c' = []" by (simp_all add: c' formatted_def)
  show "same_config c' c" "updates_since_compaction c' = updates_since_compaction c"
    by (simp_all add: same_config_def c' formatted_def f)
  show "cursor c' = 4096" by (rule fields(6))
  show "fault c' = fault c"
    using s1(2) s2(2) s3(4) geo by (simp add: c' formatted_def f2 geometry_def)
  note I = formatted_inv [where cells = cells, OF geo' fields(5) gen fields(6,7)]
  show "flashq_inv cells sz c'" "flashq_clean cells c'" "contents cells c' = Map.empty"
    by (rule I; use hdr b3 rs in \<open>simp add: fields blank_area_def del: One_nat_def\<close>)+
qed

lemma reinitialize_live:
  assumes laws: "flash_laws F cells" and rel: "flash_reliable F sz" and geo: "geometry sz c"
  shows "fst (reinitialize F c) = ESP_OK"
proof -
  have dv: "4096 dvd region_size c" and rs: "8192 \<le> region_size c" "2 * region_size c \<le> sz"
    using geo by (simp_all add: geometry_def)
  obtain e1 c1 where 1: "erase_region F c 0 = (e1, c1)" by (metis prod.exhaust)
  obtain e2 c2 where 2: "erase_region F c1 1 = (e2, c2)" by (metis prod.exhaust)
  obtain e3 c3 where 3: "partition_write_verify F c2 (region_offset c2 0) (active_hdr 1) = (e3, c3)" by (metis prod.exhaust)
  note s1 = erase_region_spec [OF laws 1]
  note s2 = erase_region_spec [OF laws 2]
  note f1 = frame_fields [OF s1(1)] frame_region_offset [OF s1(1)]
  note f2 = frame_fields [OF frame_trans [OF s1(1) s2(1)]] frame_region_offset [OF frame_trans [OF s1(1) s2(1)]]
  have e1: "e1 = ESP_OK"
    using erase_region_succeeds [OF rel _ dv, of 0] 1 rs by (simp add: region_offset_def)
  have e2: "e2 = ESP_OK"
    using erase_region_succeeds [OF rel, of c1 1] 2 rs dv by (simp add: f1 region_offset_def)
  have "e3 = ESP_OK"
  proof (rule write_blank_succeeds [OF laws rel _ _ 3])
    show "blank_area (cells (partition c2)) (region_offset c2 0) (region_offset c2 0 + length (active_hdr 1))"
      using s1(4) [OF e1] s2(3) rs by (simp add: f2 f1 region_offset_def blank_area_def)
  qed (use rs in \<open>simp add: region_offset_def\<close>)
  then show ?thesis by (simp add: reinitialize_def Let_def 1 2 3 e1 e2 del: One_nat_def)
qed

section \<open>Recovery of a partition without an ACTIVE region\<close>

definition no_active_region :: "mem \<Rightarrow> 'p flashq_ctx \<Rightarrow> bool" where
  "no_active_region m c \<longleftrightarrow> (\<forall>r<2. \<not> rivals 0 (header_at m (region_offset c r)))"

lemma not_rival_inactive:
  "\<not> rivals 0 raw \<Longrightarrow> \<not> region_active (Some (region_hdr_of_bytes raw, b))"
  by (auto simp: rivals_def Let_def region_active_def region_valid_def)

lemma recover_formats:
  assumes laws: "flash_laws F cells" and geo: "geometry sz c" and none: "no_active_region (cells (partition c)) c"
  obtains c2 where "op_recover F c = reinitialize F c2" "frame c c2" "fault c2 = fault c"
proof -
  obtain h0 c1 where 1: "region_header_read F c 0 = (h0, c1)" by (metis prod.exhaust)
  obtain h1 c2 where 2: "region_header_read F c1 1 = (h1, c2)" by (metis prod.exhaust)
  note s1 = region_header_read_spec [OF laws 1] and s2 = region_header_read_spec [OF laws 2]
  have n: "\<not> rivals 0 (header_at (cells (partition c)) (region_offset c 0))"
    "\<not> rivals 0 (header_at (cells (partition c)) (region_offset c 1))"
    using none by (simp_all add: no_active_region_def)
  have ina: "\<not> region_active None" by (simp add: region_active_def region_valid_def)
  have "\<not> region_active h0" using s1(4) not_rival_inactive [OF n(1)] ina by (auto simp: Let_def)
  moreover have "\<not> region_active h1" using s2(4) not_rival_inactive [OF n(2)] ina
    unfolding s1(2) frame_region_offset [OF s1(1)] by (auto simp: Let_def)
  ultimately have "choose_region h0 h1 = None" by (simp add: choose_region_def)
  then show thesis
    using that [of c2] frame_trans [OF s1(1) s2(1)] s1(3) s2(3) by (simp add: op_recover_def 1 2 del: One_nat_def)
qed

lemma recover_fresh_ok:
  assumes laws: "flash_laws F cells" and geo: "geometry sz c" and none: "no_active_region (cells (partition c)) c"
    and run: "op_recover F c = (ESP_OK, c')"
  shows "flashq_inv cells sz c'" "flashq_clean cells c'" "contents cells c' = Map.empty"
    "same_config c' c" "active_generation c' = 1" "index c' = []" "fault c' = fault c"
    "cursor c' = 4096" "updates_since_compaction c' = updates_since_compaction c"
proof -
  obtain c2 where c2: "op_recover F c = reinitialize F c2" "frame c c2" "fault c2 = fault c"
    by (rule recover_formats [OF laws geo none])
  have geo2: "geometry sz c2" and sc: "same_config c2 c"
    using geo by (simp_all add: geometry_def same_config_def frame_fields [OF c2(2)])
  note R = reinitialize_ok [OF laws geo2 run [unfolded c2(1)]]
  show "flashq_inv cells sz c'" "flashq_clean cells c'" "contents cells c' = Map.empty"
    "same_config c' c" "active_generation c' = 1" "index c' = []" "fault c' = fault c"
    "cursor c' = 4096" "updates_since_compaction c' = updates_since_compaction c"
    using R sc c2(3) by (simp_all add: same_config_def frame_fields [OF c2(2)])
qed

lemma recover_fresh_live:
  assumes laws: "flash_laws F cells" and rel: "flash_reliable F sz" and geo: "geometry sz c"
    and none: "no_active_region (cells (partition c)) c"
  shows "fst (op_recover F c) = ESP_OK"
proof -
  obtain c2 where c2: "op_recover F c = reinitialize F c2" "frame c c2" "fault c2 = fault c"
    by (rule recover_formats [OF laws geo none])
  have "geometry sz c2" using geo by (simp add: geometry_def frame_fields [OF c2(2)])
  then show ?thesis unfolding c2(1) by (rule reinitialize_live [OF laws rel])
qed

end
