(* ===== verification/Flashq_Crash.thy ===== *)
theory Flashq_Crash
  imports Flashq_Recovery
begin

text \<open>
  What is on flash when an operation does not finish.  The device may fail at any access and
  stay dead afterwards, so every prefix of the flash accesses of an operation is covered: a power
  loss, a torn write, a torn erase.  The theorems say which messages a later recovery finds.
\<close>

section \<open>Flash images\<close>

text \<open>
  \<open>survives cells sz c p q\<close>: a recovery that sees the partition \<open>p\<close> finds the messages \<open>q\<close>; \<open>c\<close>
  gives the configuration and bounds the generation.
\<close>

definition survives ::
  "('p \<Rightarrow> mem) \<Rightarrow> nat \<Rightarrow> 'p flashq_ctx \<Rightarrow> 'p \<Rightarrow> (message_id \<Rightarrow> message option) \<Rightarrow> bool" where
  "survives cells sz c p q \<longleftrightarrow> (\<exists>g. flashq_inv cells sz g \<and> partition g = p \<and> same_config g c \<and>
     contents cells g = q \<and>
     log_stops (cells p) (active_base g) (region_size g) (scratch_size g) (cursor g) \<and>
     unat (active_generation g) \<le> unat (active_generation c) + 1 \<and> length (index g) \<le> length (index c) + 1)"

lemma survivesI:
  assumes "flashq_inv cells sz g" "partition g = p" "same_config g c" "contents cells g = q"
    "log_stops (cells p) (active_base g) (region_size g) (scratch_size g) (cursor g)"
    "unat (active_generation g) \<le> unat (active_generation c) + 1" "length (index g) \<le> length (index c) + 1"
  shows "survives cells sz c p q"
  using assms unfolding survives_def by blast

text \<open>Recovery on such an image.\<close>

lemma survives_recover:
  assumes laws: "flash_laws F cells" "reads_ok F sz" and surv: "survives cells sz c p q"
    and room: "generation_room c (length (index c) + 3)"
    and conf: "same_config c0 c" "cells (partition c0) = cells p"
    and run: "op_recover F c0 = (ESP_OK, c')"
  shows "flashq_inv cells sz c'" "contents cells c' = (\<lambda>mid. map_option requeued (q mid))" "fault c' = fault c0"
proof -
  obtain g where g: "flashq_inv cells sz g" "partition g = p" "same_config g c" "contents cells g = q"
    "log_stops (cells p) (active_base g) (region_size g) (scratch_size g) (cursor g)"
    "unat (active_generation g) \<le> unat (active_generation c) + 1" "length (index g) \<le> length (index c) + 1"
    using surv unfolding survives_def by blast
  have "generation_room g (length (index g) + 1)" using room g(6,7) by (simp add: generation_room_def)
  moreover have "same_config c0 g" using conf(1) g(3) by (simp add: same_config_def)
  ultimately show "flashq_inv cells sz c'" "contents cells c' = (\<lambda>mid. map_option requeued (q mid))" "fault c' = fault c0"
    using recover_ok [OF laws g(1) _ _ _ _ run] g(2,4,5) conf(2) by simp_all
qed

section \<open>A record that was being written\<close>

text \<open>
  The one thing that cannot be excluded: the partly programmed bytes happen to carry matching
  CRCs for a record nobody wrote.
\<close>

definition collides :: "mem \<Rightarrow> nat \<Rightarrow> nat \<Rightarrow> nat \<Rightarrow> record_hdr \<Rightarrow> byte list \<Rightarrow> bool" where
  "collides m base lim off h body \<longleftrightarrow> (\<exists>h'. off + HDR_SIZE \<le> lim \<and>
     decode_header (mem_read m (base + off) HDR_SIZE) = Some h' \<and> off + total_needed h' \<le> lim \<and>
     (h' \<noteq> h \<or> (verify_body h (mem_read m (base + off + HDR_SIZE) (body_len h + 4)) \<and>
               mem_read m (base + off + HDR_SIZE) (body_len h) \<noteq> body)))"

lemma tail_stops: "tail_blank cells c \<Longrightarrow> log_stops (cells (partition c)) (active_base c) (region_size c) cap (cursor c)"
  by (intro blank_stops) (simp add: tail_blank_def blank_area_def)

lemma append_torn:
  assumes laws: "flash_laws F cells" 
    and enc: "encode_common (scratch_size c) hdr dest body = Some bs"
    and len: "length dest < 2 ^ 16" "length body < 2 ^ 32"
    and room: "cursor c + length bs \<le> region_size c"
    and run: "append_locked F c bs = (err, c')" and err: "err \<noteq> ESP_OK"
  defines "h \<equiv> seal_hdr hdr (length dest) (length body)"
  defines "g \<equiv> c'\<lparr>cursor := cursor c + rec_len h, next_seq := next_seq c + 1\<rparr>"
  shows "frame c c'" "fault c' = fault c"
    and "\<And>i. i < active_base c + cursor c \<Longrightarrow> cells (partition c') i = cells (partition c) i"
    and "\<And>i. active_base c + region_size c \<le> i \<Longrightarrow> cells (partition c') i = cells (partition c) i"
    and "log_stops (cells (partition c')) (active_base c) (region_size c) (scratch_size c) (cursor c) \<or>
         written cells c g h (dest @ body) \<or>
         collides (cells (partition c')) (active_base c) (region_size c) (cursor c) h (dest @ body)"
proof -
  let ?off = "active_base c + cursor c"
  obtain e1 c1 where w: "partition_write_verify F c ?off bs = (e1, c1)" by (metis prod.exhaust)
  have c': "c' = c1" using run w err by (auto simp: append_locked_def Let_def split: if_splits)
  note s = partition_write_verify_spec [OF laws w [folded c']]
  show fr: "frame c c'" by (fact s(1))
  show flt: "fault c' = fault c" using s(4) encode_common_Some(2) [OF enc] by simp
  show "cells (partition c') i = cells (partition c) i" if "i < active_base c + cursor c" for i
    using that by (intro s(2)) simp
  show "cells (partition c') i = cells (partition c) i" if "active_base c + region_size c \<le> i" for i
    using that room by (intro s(2)) simp
  let ?m = "cells (partition c')" and ?b = "active_base c" and ?rs = "region_size c"
  have bl: "body_len h = length dest + length body"
    using len by (simp add: h_def body_len_def unat_of_nat_16 unat_of_nat_32)
  have rl: "rec_len h = length bs"
    using len encode_common_Some(1) [OF enc] by (simp add: h_def rec_len_alt unat_of_nat_16 unat_of_nat_32)
  have cap: "body_len h + 4 \<le> scratch_size c"
    using rec_len_ge [of h] encode_common_Some(2) [OF enc] by (simp add: rl total_needed_alt)
  show "log_stops ?m ?b ?rs (scratch_size c) (cursor c) \<or> written cells c g h (dest @ body) \<or>
        collides ?m ?b ?rs (cursor c) h (dest @ body)"
  proof (cases "collides ?m ?b ?rs (cursor c) h (dest @ body)")
    case False
    show ?thesis
    proof (cases "decode_header (mem_read ?m ?off HDR_SIZE) = Some h \<and>
        verify_body h (mem_read ?m (?off + HDR_SIZE) (body_len h + 4))")
      case True
      have tn: "cursor c + total_needed h \<le> ?rs" using rec_len_ge [of h] room by (simp add: rl)
      have b: "mem_read ?m (?off + HDR_SIZE) (body_len h) = dest @ body"
        using False True tn by (auto simp: collides_def total_needed_alt)
      have "rec_ok ?m ?b ?rs (cursor c) h" using True tn by (simp add: rec_ok_def total_needed_alt)
      moreover have "frame (c\<lparr>cursor := cursor c + rec_len h, next_seq := next_seq c + 1\<rparr>) g"
        using fr unfolding g_def frame_def by (cases c; cases c') simp
      ultimately have "written cells c g h (dest @ body)"
        using flt s(2) b encode_common_Some(2) [OF enc] room by (simp add: written_def g_def rl)
      then show ?thesis by blast
    next
      case no: False
      have "log_stops ?m ?b ?rs (scratch_size c) (cursor c)"
        unfolding log_stops_def
      proof (intro allI impI)
        fix h' assume h': "cursor c + HDR_SIZE \<le> ?rs \<and> decode_header (mem_read ?m ?off HDR_SIZE) = Some h' \<and>
            cursor c + total_needed h' \<le> ?rs"
        then have "h' = h" using False by (auto simp: collides_def)
        then show "\<not> verify_body h' (mem_read ?m (?off + HDR_SIZE) (body_len h' + 4)) \<and> body_len h' + 4 \<le> scratch_size c"
          using no h' cap by auto
      qed
      then show ?thesis ..
    qed
  qed simp
qed

section \<open>Interrupted compaction\<close>

text \<open>
  \<open>idx\<close> is the index as the log on flash gives it; the index in memory may be one change ahead
  of it.
\<close>

lemma compact_crash:
  assumes laws: "flash_laws F cells" and inv: "inv_core cells sz c" and gen: "generation_ok c"
    and old: "flashq_inv cells sz (c\<lparr>index := idx\<rparr>)" "length idx = length (index c)" and clean: "flashq_clean cells c"
    and run: "compact_locked F c = (err, c')" and err: "err \<noteq> ESP_OK"
  shows "survives cells sz c (partition c') (contents cells (c\<lparr>index := idx\<rparr>)) \<or>
         survives cells sz c (partition c') (contents cells c)" "fault c' = fault c"
proof -
  note I = inv_coreD [OF inv]
  let ?o = "c\<lparr>index := idx\<rparr>" and ?p = "partition c'" and ?m = "cells (partition c)"
  have cf: "compact_failed cells c c'"
    using compact_locked_cases(1) [OF laws I(1,7,2,3) gen [unfolded generation_ok_def] run err] .
  note D = cf [unfolded compact_failed_def Let_def]
  show "fault c' = fault c" using D by blast
  have disj: "disjoint_regions c (active_region c) (1 - active_region c)" by (rule disjoint_regions_neq [OF I(16)])
  have eq: "cells ?p i = ?m i" if "active_base c \<le> i" "i < active_base c + region_size c" for i
    using D that disj unfolding disjoint_regions_def by fastforce
  from D consider (old) "\<not> rivals (active_generation c) (header_at (cells ?p) (spare_base c))"
    | (new) "header_at (cells ?p) (spare_base c) = active_hdr (active_generation c + 1)"
        "copy_done ?m (cells ?p) c (1 - active_region c)" by blast
  then show "survives cells sz c ?p (contents cells ?o) \<or> survives cells sz c ?p (contents cells c)"
  proof cases
    case old': old
    have S: "flashq_inv cells sz (?o\<lparr>partition := ?p\<rparr>)" "contents cells (?o\<lparr>partition := ?p\<rparr>) = contents cells ?o"
      "log_stops (cells ?p) (active_base ?o) (region_size ?o) (scratch_size ?o) (cursor ?o) =
       log_stops (cells (partition ?o)) (active_base ?o) (region_size ?o) (scratch_size ?o) (cursor ?o)"
      by (rule spare_change [OF old(1)]; use eq old' in simp)+
    have st: "log_stops ?m (active_base c) (region_size c) (scratch_size c) (cursor c)"
      using clean by (intro tail_stops) (simp add: flashq_clean_def)
    have "survives cells sz c ?p (contents cells ?o)"
    proof (rule survivesI [OF S(1)])
      show "contents cells (?o\<lparr>partition := ?p\<rparr>) = contents cells ?o" by (fact S(2))
    qed (use S(3) st old(2) in \<open>simp_all add: same_config_def region_offset_def\<close>)
    then show ?thesis ..
  next
    case new
    define g where "g = (switched (c\<lparr>index := relocate 4096 (index c)\<rparr>) (1 - active_region c)
        (active_generation c + 1) (compact_end c) (compact_seq c + 1))\<lparr>partition := ?p\<rparr>"
    have gp: "partition g = ?p" "fault g = fault c" "region_offset g = region_offset c"
      by (simp_all add: g_def region_offset_def fun_eq_iff)
    have "header_at (cells ?p) (active_base c) = active_hdr (active_generation c)"
      using I(2,13) header_at_cong [of "active_base c" "cells ?p" ?m] eq by simp
    then have nr: "\<not> rivals (active_generation c + 1) (header_at (cells ?p) (active_base c))"
      using gen by (simp add: rivals_def Let_def generation_ok_def not_le)
    have "compact_done cells c g"
      unfolding compact_done_def Let_def gp using new nr by (simp add: g_def)
    note K = compact_done_inv [OF inv this]
    have gi: "flashq_inv cells sz g" using K(1-3) by (simp add: flashq_inv_def)
    have tb: "tail_blank cells g" using K(9) clean by (simp add: flashq_clean_def)
    have "survives cells sz c ?p (contents cells c)"
    proof (rule survivesI [OF gi gp(1)])
      show "contents cells g = contents cells c" by (fact K(7))
      show "log_stops (cells ?p) (active_base g) (region_size g) (scratch_size g) (cursor g)"
        using tail_stops [OF tb] by (simp add: gp)
      show "unat (active_generation g) \<le> unat (active_generation c) + 1" "length (index g) \<le> length (index c) + 1"
        using K(4) moved_length [OF K(4)] by (simp_all add: moved_def)
    qed (simp add: same_config_def g_def)
    then show ?thesis ..
  qed
qed

text \<open>Making room: either nothing is lost, or there was no room although everything worked.\<close>

lemma ensure_space_crash:
  assumes laws: "flash_laws F cells" and inv: "inv_core cells sz c" and gen: "generation_ok c"
    and old: "flashq_inv cells sz (c\<lparr>index := idx\<rparr>)" "length idx = length (index c)" and clean: "flashq_clean cells c"
    and run: "ensure_space_locked F c n = (err, c')" and err: "err \<noteq> ESP_OK"
  shows "survives cells sz c (partition c') (contents cells (c\<lparr>index := idx\<rparr>)) \<or>
         survives cells sz c (partition c') (contents cells c)" "fault c' = fault c"
proof -
  obtain e1 c1 where 1: "compact_locked F c = (e1, c1)" by (metis prod.exhaust)
  have st: "log_stops (cells (partition c)) (active_base c) (region_size c) (scratch_size c) (cursor c)"
    using clean by (intro tail_stops) (simp add: flashq_clean_def)
  have keep: "survives cells sz c (partition c) (contents cells (c\<lparr>index := idx\<rparr>))"
    by (rule survivesI [OF old(1)]) (use st old(2) in \<open>simp_all add: same_config_def\<close>)
  consider (keep) "c' = c" | (fail) "e1 \<noteq> ESP_OK" "c' = c1" | (full) "e1 = ESP_OK" "c' = c1"
    using run 1 by (auto simp: ensure_space_locked_def Let_def split: if_splits)
  then have "(survives cells sz c (partition c') (contents cells (c\<lparr>index := idx\<rparr>)) \<or>
      survives cells sz c (partition c') (contents cells c)) \<and> fault c' = fault c"
  proof cases
    case keep
    then show ?thesis using \<open>survives cells sz c (partition c) (contents cells (c\<lparr>index := idx\<rparr>))\<close> by simp
  next
    case fail
    then show ?thesis using compact_crash [OF laws inv gen old clean 1] by simp
  next
    case full
    note Q = compact_keeps_inv [OF laws inv gen 1 [unfolded full(1)]]
    note K = compact_done_inv [OF inv Q(1)]
    note f = switched_frame_fields [OF Q(1) [unfolded compact_done_def Let_def, THEN conjunct1]]
    have tb: "tail_blank cells c1" using K(9) clean by (simp add: flashq_clean_def)
    have gi: "flashq_inv cells sz c1" using K(1-3) by (simp add: flashq_inv_def)
    have "survives cells sz c (partition c1) (contents cells c)"
      by (rule survivesI [OF gi refl])
        (use K(4,7) tail_stops [OF tb] moved_length [OF K(4)] f in \<open>simp_all add: same_config_def moved_def\<close>)
    then show ?thesis using full K(6) by simp
  qed
  then show "survives cells sz c (partition c') (contents cells (c\<lparr>index := idx\<rparr>)) \<or>
      survives cells sz c (partition c') (contents cells c)" "fault c' = fault c" by blast+
qed

section \<open>Interrupted operations\<close>

lemma index_id: "c\<lparr>index := index c\<rparr> = c"
  by simp

text \<open>After room was made: the state the append starts from, seen as a state to recover.\<close>

lemma after_room:
  assumes laws: "flash_laws F cells" and inv: "inv_core cells sz c" and gen: "generation_ok c"
    and old: "flashq_inv cells sz (c\<lparr>index := idx\<rparr>)" "differ_at pos idx (index c)" and clean: "flashq_clean cells c"
    and run: "ensure_space_locked F c n = (ESP_OK, c1)"
  obtains idx1 where "flashq_inv cells sz (c1\<lparr>index := idx1\<rparr>)" "differ_at pos idx1 (index c1)" "tail_blank cells c1"
    "contents cells (c1\<lparr>index := idx1\<rparr>) = contents cells (c\<lparr>index := idx\<rparr>) \<or>
     contents cells (c1\<lparr>index := idx1\<rparr>) = contents cells c"
    "same_config c1 c" "unat (active_generation c1) \<le> unat (active_generation c) + 1" "length idx1 = length (index c)"
    "log_is cells c1 idx1 (awaiting_gc_count c1)"
proof -
  note R = ensure_space_spec [OF laws inv gen run]
  have tb: "tail_blank cells c1" by (rule R(10) [OF clean])
  have conf: "same_config c1 c"
    using R(2) inv_coreD(10,11) [OF R(1)] inv_coreD(10,11) [OF inv] by (simp add: same_config_def moved_def)
  have g: "unat (active_generation c1) \<le> unat (active_generation c) + 1" using R(2) by (simp add: moved_def)
  show thesis
  proof (cases "c1 = c")
    case True
    then show thesis using that [of idx] old tb conf g by (simp add: differ_at_def flashq_inv_def)
  next
    case False
    then have "log_is cells c1 (index c1) 0" "awaiting_gc_count c1 = 0" using R(8) by auto
    then show thesis using that [of "index c1"] R(1,6) tb conf g moved_length [OF R(2)]
      by (simp add: flashq_inv_def)
  qed
qed

text \<open>Whatever happens to the flash behind the cursor of the active region, the log before it stays.\<close>

lemma tail_change:
  assumes inv: "flashq_inv cells sz c"
    and lt: "\<And>i. i < active_base c + cursor c \<Longrightarrow> cells p i = cells (partition c) i"
    and ge: "\<And>i. active_base c + region_size c \<le> i \<Longrightarrow> cells p i = cells (partition c) i"
  shows "flashq_inv cells sz (c\<lparr>partition := p\<rparr>)" "contents cells (c\<lparr>partition := p\<rparr>) = contents cells c"
proof -
  let ?m = "cells (partition c)" and ?g = "c\<lparr>partition := p\<rparr>"
  have core: "inv_core cells sz c" and log: "log_is cells c (index c) (awaiting_gc_count c)"
    using inv by (simp_all add: flashq_inv_def)
  note I = inv_coreD [OF core]
  have ro: "region_offset ?g = region_offset c" by (simp add: region_offset_def fun_eq_iff)
  have disj: "disjoint_regions c (active_region c) (1 - active_region c)"
    by (rule disjoint_regions_neq) (use inv_coreD(16) [OF core] in simp)
  have spare: "cells p i = ?m i" if "spare_base c \<le> i" "i < spare_base c + region_size c" for i
  proof (cases "i < active_base c + cursor c")
    case True
    then show ?thesis by (rule lt)
  next
    case False
    then have "active_base c + region_size c \<le> i"
      using that disj I(9) by (auto simp: disjoint_regions_def)
    then show ?thesis by (rule ge)
  qed
  have hs: "header_at (cells p) (spare_base c) = header_at ?m (spare_base c)"
    using spare I(13) by (intro header_at_cong) simp
  have ha: "header_at (cells p) (active_base c) = header_at ?m (active_base c)"
    using lt I(8) by (intro header_at_cong) simp
  have parts: "entry_body (cells p) (active_base c) e = entry_body ?m (active_base c) e" if "e \<in> set (index c)" for e
    using inv_coreD(20) [OF core, of e] that by (intro entry_body_cong lt) simp
  have fits: "\<forall>e\<in>set (index c). entry_fits (cells p) (active_base c) (region_size c) (scratch_size c) e"
    using inv_coreD(7) [OF core] parts by (simp add: compact_ready_def entry_fits_def entry_dest_def)
  have "inv_core cells sz ?g"
    unfolding inv_core_def using inv_coreD(1-9,20) [OF core] hs ha fits
    by (simp add: ro geometry_def compact_ready_def compact_end_def)
  moreover have "log_is cells ?g (index c) (awaiting_gc_count c)"
  proof -
    obtain hs where hs: "log_ok ?m (active_base c) (region_size c) 4096 hs" "log_end 4096 hs = cursor c"
      "replay (index_capacity c) 4096 hs ([], 0) = (index c, awaiting_gc_count c)" "\<not> log_fault (scratch_size c) hs"
      using log by (auto simp: log_is_def)
    have "log_ok (cells p) (active_base c) (region_size c) 4096 hs"
      by (rule log_ok_cong [OF _ hs(1)]) (use lt hs(2) in auto)
    then show ?thesis using hs by (auto simp: log_is_def ro)
  qed
  ultimately show "flashq_inv cells sz ?g" by (simp add: flashq_inv_def)
  have "map (stored (cells p) (active_base c)) (index c) = map (stored ?m (active_base c)) (index c)"
    using parts by (simp add: stored_def entry_dest_def entry_payload_def)
  then show "contents cells ?g = contents cells c" by (simp add: contents_def ro contents_of_cong)
qed

lemma torn_survives:
  assumes inv: "flashq_inv cells sz (c1\<lparr>index := idx1\<rparr>)"
    and fr: "frame c1 c2" and lt: "\<And>i. i < active_base c1 + cursor c1 \<Longrightarrow> cells (partition c2) i = cells (partition c1) i"
    and ge: "\<And>i. active_base c1 + region_size c1 \<le> i \<Longrightarrow> cells (partition c2) i = cells (partition c1) i"
    and st: "log_stops (cells (partition c2)) (active_base c1) (region_size c1) (scratch_size c1) (cursor c1)"
    and conf: "same_config c1 c" "unat (active_generation c1) \<le> unat (active_generation c) + 1" "length idx1 \<le> length (index c) + 1"
  shows "survives cells sz c (partition c2) (contents cells (c1\<lparr>index := idx1\<rparr>))"
proof -
  have ro: "region_offset (c1\<lparr>index := idx1\<rparr>) = region_offset c1"
    "region_offset (c1\<lparr>index := idx1, partition := partition c2\<rparr>) = region_offset c1"
    by (simp_all add: region_offset_def fun_eq_iff)
  have T: "flashq_inv cells sz (c1\<lparr>index := idx1, partition := partition c2\<rparr>)"
    "contents cells (c1\<lparr>index := idx1, partition := partition c2\<rparr>) = contents cells (c1\<lparr>index := idx1\<rparr>)"
    by (rule tail_change [OF inv]; use lt ge in \<open>simp add: ro\<close>)+
  show ?thesis
    by (rule survivesI [OF T(1)]) (use T(2) st conf in \<open>simp_all add: ro same_config_def\<close>)
qed

lemma enqueue_crash:
  assumes laws: "flash_laws F cells" and inv: "flashq_inv cells sz c" and clean: "flashq_clean cells c"
    and gen: "generation_ok c" and new: "m_id msg \<notin> dom (contents cells c)"
    and run: "op_enqueue F c msg = (err, c')"
  shows "survives cells sz c (partition c') (contents cells c) \<or>
    survives cells sz c (partition c') ((contents cells c)(m_id msg \<mapsto> fresh msg)) \<or>
    collides (cells (partition c')) (active_base c') (region_size c') (cursor c')
      (message_rec msg (next_seq c')) (c_string (m_destination msg) @ m_payload msg)"
proof -
  have core: "inv_core cells sz c" using inv by (simp add: flashq_inv_def)
  have st: "log_stops (cells (partition c)) (active_base c) (region_size c) (scratch_size c) (cursor c)"
    using clean by (intro tail_stops) (simp add: flashq_clean_def)
  have stay: "survives cells sz c (partition c) (contents cells c)"
    by (rule survivesI [OF inv]) (use st in \<open>simp_all add: same_config_def\<close>)
  show ?thesis
  proof (cases "length (index c) \<ge> index_capacity c \<or> encode_message (scratch_size c) msg (next_seq c) = None")
    case True
    then have "c' = c" using run by (auto simp: op_enqueue_def split: if_splits)
    then show ?thesis using stay by simp
  next
    case False
    then have cap: "length (index c) < index_capacity c" by simp
    obtain bs0 where bs0: "encode_message (scratch_size c) msg (next_seq c) = Some bs0" using False by auto
    obtain e1 c1 where 1: "ensure_space_locked F c (length bs0) = (e1, c1)" by (metis prod.exhaust)
    note E0 = encode_message_Some [OF bs0]
    show ?thesis
    proof (cases "e1 = ESP_OK")
      case False
      then have "c' = c1" using run cap bs0 1 by (auto simp: op_enqueue_def)
      then show ?thesis using ensure_space_crash [OF laws core gen _ _ clean 1 False, of "index c"] inv by auto
    next
      case True
      note R = ensure_space_spec [OF laws core gen 1 [unfolded True]]
      obtain idx1 where A: "flashq_inv cells sz (c1\<lparr>index := idx1\<rparr>)" "tail_blank cells c1"
        "same_config c1 c" "unat (active_generation c1) \<le> unat (active_generation c) + 1"
        using after_room [OF laws core gen _ differ_at_refl [of 0] clean 1 [unfolded True]] inv by (simp add: index_id) metis
      have log0: "log_is cells c (index c) (awaiting_gc_count c)" using inv by (simp add: flashq_inv_def)
      have log1: "log_is cells c1 (index c1) (awaiting_gc_count c1)" using R(8) log0 by auto
      have inv1: "flashq_inv cells sz (c1\<lparr>index := index c1\<rparr>)" using R(1) log1 by (simp add: flashq_inv_def)
      have sc: "scratch_size c1 = scratch_size c" using R(2) by (simp add: moved_def)
      have "record_total_size (length (c_string (m_destination msg))) (length (m_payload msg)) \<le> scratch_size c"
        using encode_common_Some(1,2) [OF E0(1)] by simp
      then obtain bs where bs: "encode_common (scratch_size c1) (message_hdr msg (next_seq c1))
          (c_string (m_destination msg)) (m_payload msg) = Some bs"
        unfolding sc using encode_common_succeeds by metis
      have enc: "encode_message (scratch_size c1) msg (next_seq c1) = Some bs"
        using bs E0(2) by (simp add: encode_message_def encode_message_full_def message_hdr_def Let_def)
      have lb: "length bs = message_len msg" "length bs0 = message_len msg"
        using encode_common_Some(1) [OF bs] E0(3) by (simp_all add: message_len_def)
      have lp: "length (m_payload msg) < 2 ^ 32" using R(3) by (intro payload_bound [OF R(1)]) (simp add: lb)
      have ld: "length (c_string (m_destination msg)) < 2 ^ 16" using E0(2) by simp
      have roomb: "cursor c1 + length bs \<le> region_size c1" using R(3) by (simp add: lb)
      have len1: "length (index c1) < index_capacity c1" and idl: "length (index c1) = length (index c)"
        using cap moved_length [OF R(2)] R(2) by (simp_all add: moved_def)
      have new1: "m_id msg \<notin> dom (contents cells c1)" using new by (simp add: R(6))
      have room2: "compact_end c1 + message_len msg \<le> region_size c1" using R(4) by (simp add: lb)
      obtain e2 c2 where 2: "append_locked F c1 bs = (e2, c2)" by (metis prod.exhaust)
      have res: "c' = (if e2 = ESP_OK then c2\<lparr>index := index c2 @ [new_entry msg (cursor c1)]\<rparr> else c2)"
        using run cap bs0 1 True enc 2 by (auto simp: op_enqueue_def Let_def split: if_splits)
      let ?h = "message_rec msg (next_seq c1)" and ?body = "c_string (m_destination msg) @ m_payload msg"
      have done_: "survives cells sz c (partition g) ((contents cells c)(m_id msg \<mapsto> fresh msg))"
        if wr: "written cells c1 g ?h ?body" for g
      proof -
        note X = enqueue_effect [OF R(1) log1 len1 new1 E0(2) lp room2 wr]
        note f = frame_fields [OF written_spec(1) [OF R(1) log1 wr], simplified]
        let ?g = "g\<lparr>index := index g @ [new_entry msg (cursor c1)]\<rparr>"
        have tb: "tail_blank cells ?g" by (rule X(5) [OF A(2)])
        show ?thesis
          by (rule survivesI [OF X(1)])
            (use X(2) tail_stops [OF tb] A(3,4) R(6) idl in \<open>simp_all add: same_config_def f\<close>)
      qed
      show ?thesis
      proof (cases "e2 = ESP_OK")
        case ok: True
        have "written cells c1 c2 ?h ?body"
          unfolding message_rec_def by (rule append_ok [OF laws bs ld lp roomb 2 [unfolded ok]])
        from done_ [OF this] show ?thesis using res ok by simp
      next
        case bad: False
        note T = append_torn [OF laws bs ld lp roomb 2 bad, folded message_rec_def]
        note f2 = frame_fields [OF T(1)] frame_region_offset [OF T(1)]
        from T(5) show ?thesis
        proof (elim disjE)
          assume "log_stops (cells (partition c2)) (active_base c1) (region_size c1) (scratch_size c1) (cursor c1)"
          from torn_survives [OF inv1 T(1,3,4) this A(3,4)]
          show ?thesis using res bad R(6) idl by (simp add: index_id)
        next
          assume "written cells c1 (c2\<lparr>cursor := cursor c1 + rec_len ?h, next_seq := next_seq c1 + 1\<rparr>) ?h ?body"
          from done_ [OF this] show ?thesis using res bad by simp
        next
          assume "collides (cells (partition c2)) (active_base c1) (region_size c1) (cursor c1) ?h ?body"
          then show ?thesis using res bad by (simp add: f2)
        qed
      qed
    qed
  qed
qed

subsection \<open>State changes\<close>

text \<open>What an update record does to the messages.\<close>

definition with_update ::
  "(message_id \<Rightarrow> message option) \<Rightarrow> message_id \<Rightarrow> u8 \<Rightarrow> u32 \<Rightarrow> i64 \<Rightarrow> i64 \<Rightarrow> esp_err \<Rightarrow> message_id \<Rightarrow> message option" where
  "with_update q mid st att last_us next_us er =
     (if st = STATE_DELIVERED \<or> st = STATE_REMOVED then q(mid := None)
      else q(mid \<mapsto> (the (q mid))\<lparr>m_state := state_of st, m_attempt_count := att,
        m_last_attempt_at_us := last_us, m_next_retry_at_us := next_us, m_last_error := er\<rparr>))"

lemma update_effect_inv:
  assumes inv: "inv_core cells sz c1" and log: "log_is cells c1 idx1 (awaiting_gc_count c1)"
    and diff: "differ_at pos idx1 (index c1)" and pos: "pos < length (index c1)"
    and st: "live_state st \<or> st = STATE_DELIVERED \<or> st = STATE_REMOVED"
    and wr: "written cells c1 g (update_rec (e_id (index c1 ! pos)) st att last_us next_us er s) []"
  obtains g' where "flashq_inv cells sz g'" "partition g' = partition g" "same_config g' c1"
    "contents cells g' = with_update (contents cells c1) (e_id (index c1 ! pos)) st att last_us next_us er"
    "tail_blank cells c1 \<Longrightarrow> tail_blank cells g'" "active_generation g' = active_generation c1"
    "length (index g') \<le> length (index c1)"
proof -
  note U = update_effect [OF inv log diff pos wr]
  note f = frame_fields [OF written_spec(1) [OF inv log wr], simplified]
  let ?e' = "updated (index g ! pos) st att last_us next_us er"
  have posg: "pos < length (index g)" using pos by (simp add: U(3))
  have idg: "e_id (index g ! pos) = e_id (index c1 ! pos)" by (simp add: U(3))
  show thesis
  proof (cases "st = STATE_DELIVERED \<or> st = STATE_REMOVED")
    case True
    let ?g = "g\<lparr>index := remove_entry_at (index g) pos, awaiting_gc_count := awaiting_gc_count g + 1\<rparr>"
    have "log_is cells g (remove_entry_at (index g) pos) (awaiting_gc_count g + 1)"
      using U(7) True remove_entry_at_update [OF posg] by (simp split: if_splits)
    then have "flashq_inv cells sz ?g" using inv_core_remove [OF U(1) posg] by (simp add: flashq_inv_def)
    moreover have "contents cells ?g = with_update (contents cells c1) (e_id (index c1 ! pos)) st att last_us next_us er"
      using contents_of_remove [OF inv_coreD(5) [OF U(1)] posg] U(4) idg True
      by (simp add: contents_def with_update_def)
    moreover have "length (remove_entry_at (index g) pos) \<le> length (index c1)"
      using remove_entry_at_set(3) [OF inv_coreD(5) [OF U(1)] posg] by (simp add: U(3))
    ultimately show thesis using U(9) by (intro that [of ?g]) (simp_all add: same_config_def f)
  next
    case False
    let ?g = "g\<lparr>index := (index g)[pos := ?e']\<rparr>"
    have live: "live_state st" using st False by blast
    have "log_is cells g ((index g)[pos := ?e']) (awaiting_gc_count g)" using U(7) False by simp
    then have "flashq_inv cells sz ?g"
      using inv_core_update [OF U(1) posg, of ?e'] live by (simp add: flashq_inv_def)
    moreover have "contents cells ?g = with_update (contents cells c1) (e_id (index c1 ! pos)) st att last_us next_us er"
      using contents_updated [OF U(1) posg, of st att last_us next_us er] False
      by (simp add: U(4) idg with_update_def)
    ultimately show thesis using U(3,9) by (intro that [of ?g]) (simp_all add: same_config_def f)
  qed
qed

lemma update_append_crash:
  assumes laws: "flash_laws F cells" and inv: "inv_core cells sz c1"
    and old: "flashq_inv cells sz (c1\<lparr>index := idx1\<rparr>)" and log: "log_is cells c1 idx1 (awaiting_gc_count c1)"
    and diff: "differ_at pos idx1 (index c1)" and tb: "tail_blank cells c1" and pos: "pos < length (index c1)"
    and room: "cursor c1 + 68 \<le> region_size c1"
    and st: "live_state st \<or> st = STATE_DELIVERED \<or> st = STATE_REMOVED"
    and conf: "same_config c1 c" "unat (active_generation c1) \<le> unat (active_generation c) + 1" "length (index c1) = length (index c)"
    and run: "append_locked F c1 (encoded (encode_update (scratch_size c1) (e_id (index c1 ! pos)) st att
                last_us next_us er s)) = (err, c2)"
  shows "survives cells sz c (partition c2) (contents cells (c1\<lparr>index := idx1\<rparr>)) \<or>
    survives cells sz c (partition c2) (with_update (contents cells c1) (e_id (index c1 ! pos)) st att last_us next_us er) \<or>
    err \<noteq> ESP_OK \<and> collides (cells (partition c2)) (active_base c1) (region_size c1) (cursor c1)
      (update_rec (e_id (index c1 ! pos)) st att last_us next_us er s) []"
proof -
  let ?mid = "e_id (index c1 ! pos)"
  let ?h = "update_rec ?mid st att last_us next_us er s"
  obtain bs where bs: "encoded (encode_update (scratch_size c1) ?mid st att last_us next_us er s) = bs" "length bs = 68"
    "encode_common (scratch_size c1) (update_hdr ?mid st att last_us next_us er s) [] [] = Some bs"
    by (rule update_encoded [OF inv_coreD(12) [OF inv]])
  have roomb: "cursor c1 + length bs \<le> region_size c1" using room by (simp add: bs(2))
  have l0: "length ([] :: byte list) < 2 ^ 16" "length ([] :: byte list) < 2 ^ 32" by simp_all
  have run': "append_locked F c1 bs = (err, c2)" using run by (simp only: bs(1))
  have hh: "seal_hdr (update_hdr ?mid st att last_us next_us er s) (length ([] :: byte list)) (length ([] :: byte list)) = ?h"
    by (simp add: update_rec_def)
  have li: "length idx1 = length (index c1)" using diff by (simp add: differ_at_def)
  have done_: "survives cells sz c (partition g) (with_update (contents cells c1) ?mid st att last_us next_us er)"
    if wr: "written cells c1 g ?h []" for g
  proof -
    obtain g' where g': "flashq_inv cells sz g'" "partition g' = partition g" "same_config g' c1"
      "contents cells g' = with_update (contents cells c1) ?mid st att last_us next_us er"
      "tail_blank cells g'" "active_generation g' = active_generation c1"
      "length (index g') \<le> length (index c1)"
      by (rule update_effect_inv [OF inv log diff pos st wr]) (use tb in blast)
    show ?thesis
      by (rule survivesI [OF g'(1,2) _ g'(4)])
        (use g'(2,3,6,7) conf tail_stops [OF g'(5)] in \<open>simp_all add: same_config_def\<close>)
  qed
  show ?thesis
  proof (cases "err = ESP_OK")
    case True
    have "written cells c1 c2 ?h []" using append_ok [OF laws bs(3) l0 roomb run' [unfolded True]] by (simp add: hh [simplified])
    then show ?thesis using done_ by blast
  next
    case False
    note T = append_torn [OF laws bs(3) l0 roomb run' False, unfolded hh append_Nil]
    from T(5) show ?thesis
    proof (elim disjE)
      assume "log_stops (cells (partition c2)) (active_base c1) (region_size c1) (scratch_size c1) (cursor c1)"
      from torn_survives [OF old T(1,3,4) this conf(1,2)] show ?thesis using li conf(3) by simp
    next
      assume "written cells c1 (c2\<lparr>cursor := cursor c1 + rec_len ?h, next_seq := next_seq c1 + 1\<rparr>) ?h []"
      from done_ [OF this] show ?thesis by simp
    qed (use False in blast)
  qed
qed

end
