(* ===== verification/ES_Queue.thy ===== *)
theory ES_Queue
  imports ES_Storage
begin

text \<open>
  \<open>edgesync_queue.c\<close>: the mutex-guarded facade over a storage backend.  It applies the overflow
  policy, counts deliveries since boot and fires the application's events outside the lock.
  The mutex makes every storage section atomic.  A callback pointer is represented by whether
  it is set; a call of the event callback is appended to the event trace, a call of the wake
  callback is a boolean result.
\<close>

record 'c queue =
  q_storage_ops :: "'c storage_ops"
  q_storage_ctx :: 'c
  q_overflow_policy :: overflow_policy
  q_event_cb :: bool
  q_wake_cb :: bool
  q_successful_deliveries :: u64
  q_failed_deliveries :: u64

record 'c queue_config =
  qc_storage_ops :: "'c storage_ops option"
  qc_storage_ctx :: 'c
  qc_overflow_policy :: overflow_policy
  qc_event_cb :: bool

text \<open>The two flags are the outcomes of the allocation and of the creation of the mutex.\<close>

definition queue_create ::
  "'c queue_config option \<Rightarrow> bool \<Rightarrow> bool \<Rightarrow> bool \<Rightarrow> esp_err \<times> 'c queue option" where
  "queue_create config out_valid allocated lock_created =
     (case config of
        None \<Rightarrow> (ESP_ERR_INVALID_ARG, None)
      | Some cfg \<Rightarrow>
          (case qc_storage_ops cfg of
             None \<Rightarrow> (ESP_ERR_INVALID_ARG, None)
           | Some ops \<Rightarrow>
               if \<not> out_valid then (ESP_ERR_INVALID_ARG, None)
               else if \<not> allocated then (ESP_ERR_NO_MEM, None)
               else if \<not> lock_created then (ESP_ERR_NO_MEM, None)
               else (ESP_OK, Some \<lparr>q_storage_ops = ops, q_storage_ctx = qc_storage_ctx cfg,
                      q_overflow_policy = qc_overflow_policy cfg, q_event_cb = qc_event_cb cfg,
                      q_wake_cb = False, q_successful_deliveries = 0, q_failed_deliveries = 0\<rparr>)))"

definition queue_recover :: "'c queue \<Rightarrow> esp_err \<times> 'c queue" where
  "queue_recover q =
     (let (err, c) = so_init (q_storage_ops q) (q_storage_ctx q);
          q = q\<lparr>q_storage_ctx := c\<rparr>
      in if err \<noteq> ESP_OK then (err, q)
         else
           let (err, c) = so_recover (q_storage_ops q) (q_storage_ctx q)
           in (err, q\<lparr>q_storage_ctx := c\<rparr>))"

definition queue_set_wake_cb :: "'c queue \<Rightarrow> bool \<Rightarrow> 'c queue" where
  "queue_set_wake_cb q wake_cb = q\<lparr>q_wake_cb := wake_cb\<rparr>"

text \<open>
  The critical section of \<open>edgesync_queue_publish\<close>: enqueue and, when the backend is full,
  drop a message and try once more.  The result of \<open>remove\<close> is not looked at.
\<close>

definition publish_locked :: "'c queue \<Rightarrow> message \<Rightarrow> esp_err \<times> message_id option \<times> 'c queue" where
  "publish_locked q msg =
     (let ops = q_storage_ops q;
          (err, c) = so_enqueue ops (q_storage_ctx q) msg;
          q = q\<lparr>q_storage_ctx := c\<rparr>
      in if err = EDGESYNC_ERR_QUEUE_FULL \<and> q_overflow_policy q \<noteq> OVERFLOW_REJECT_NEW then
           (case so_find_drop_candidate ops c (q_overflow_policy q) of
              (found, dropped) \<Rightarrow>
                if found = ESP_OK then
                  let dropped_id = (case dropped of Some mid \<Rightarrow> mid | None \<Rightarrow> EDGESYNC_MESSAGE_ID_INVALID);
                      (_, c) = so_remove ops c dropped_id;
                      (err, c) = so_enqueue ops c msg
                  in (err, Some dropped_id, q\<lparr>q_storage_ctx := c\<rparr>)
                else (err, None, q))
         else (err, None, q))"

definition queue_publish :: "'c queue \<Rightarrow> message \<Rightarrow> event list \<Rightarrow> esp_err \<times> 'c queue \<times> event list \<times> bool" where
  "queue_publish q msg tr =
     (let (err, dropped, q) = publish_locked q msg;
          wake = (err = ESP_OK \<and> q_wake_cb q);
          tr = (case dropped of None \<Rightarrow> tr
                | Some mid \<Rightarrow> events_fire (q_event_cb q) EVENT_QUEUE_FULL (blank_message mid) tr)
      in if err = ESP_OK then (err, q, events_fire (q_event_cb q) EVENT_QUEUED msg tr, wake)
         else if err = EDGESYNC_ERR_QUEUE_FULL
         then (err, q, events_fire (q_event_cb q) EVENT_QUEUE_FULL msg tr, False)
         else (err, q, tr, False))"

definition queue_claim_next :: "'c queue \<Rightarrow> i64 \<Rightarrow> esp_err \<times> message option \<times> 'c queue" where
  "queue_claim_next q now_us =
     (let (err, r, c) = so_claim_next (q_storage_ops q) (q_storage_ctx q) now_us
      in (err, r, q\<lparr>q_storage_ctx := c\<rparr>))"

definition queue_mark_delivered :: "'c queue \<Rightarrow> message_id \<Rightarrow> esp_err \<times> 'c queue" where
  "queue_mark_delivered q mid =
     (let (err, c) = so_mark_delivered (q_storage_ops q) (q_storage_ctx q) mid;
          q = q\<lparr>q_storage_ctx := c\<rparr>
      in (err, if err = ESP_OK then q\<lparr>q_successful_deliveries := q_successful_deliveries q + 1\<rparr> else q))"

definition queue_schedule_retry ::
  "'c queue \<Rightarrow> message_id \<Rightarrow> i64 \<Rightarrow> bool \<Rightarrow> esp_err \<Rightarrow> esp_err \<times> 'c queue" where
  "queue_schedule_retry q mid next_retry_at_us dead_letter last_error =
     (let (err, c) = so_schedule_retry (q_storage_ops q) (q_storage_ctx q) mid next_retry_at_us dead_letter last_error;
          q = q\<lparr>q_storage_ctx := c\<rparr>
      in (err, if err = ESP_OK then q\<lparr>q_failed_deliveries := q_failed_deliveries q + 1\<rparr> else q))"

definition queue_get_stats :: "'c queue \<Rightarrow> esp_err \<times> stats" where
  "queue_get_stats q =
     (let (err, st) = so_get_stats (q_storage_ops q) (q_storage_ctx q) zero_stats
      in (err, st\<lparr>st_successful_deliveries := q_successful_deliveries q,
                  st_failed_deliveries := q_failed_deliveries q\<rparr>))"

section \<open>What a publish does\<close>

text \<open>
  The overflow policy as a specification over the stored messages: which message is given up,
  what is returned and what is stored afterwards.
\<close>

definition has_pending :: "queue_view \<Rightarrow> bool" where
  "has_pending v \<longleftrightarrow> (\<exists>mid msg. v mid = Some msg \<and> m_state msg = MSG_PENDING)"

definition publish_effect ::
  "overflow_policy \<Rightarrow> nat \<Rightarrow> (message \<Rightarrow> bool) \<Rightarrow> queue_view \<Rightarrow> message \<Rightarrow>
   esp_err \<Rightarrow> message option \<Rightarrow> queue_view \<Rightarrow> bool" where
  "publish_effect policy capacity accepts v msg err dropped v' \<longleftrightarrow>
     (let stored = (\<lambda>v. if accepts msg then err = ESP_OK \<and> v' = v(m_id msg \<mapsto> fresh msg)
                        else err = EDGESYNC_ERR_SERIALIZATION \<and> v' = v)
      in if card (dom v) < capacity then dropped = None \<and> stored v
         else if policy = OVERFLOW_REJECT_NEW \<or> \<not> has_pending v
         then dropped = None \<and> err = EDGESYNC_ERR_QUEUE_FULL \<and> v' = v
         else (\<exists>d. first_to_drop v policy d \<and> dropped = Some d \<and> stored (v(m_id d := None))))"

text \<open>The events of a publish, in order.\<close>

definition publish_events :: "message \<Rightarrow> esp_err \<Rightarrow> message option \<Rightarrow> event list" where
  "publish_events msg err dropped =
     (case dropped of None \<Rightarrow> [] | Some d \<Rightarrow> [(EVENT_QUEUE_FULL, blank_message (m_id d))]) @
     (if err = ESP_OK then [(EVENT_QUEUED, msg)]
      else if err = EDGESYNC_ERR_QUEUE_FULL then [(EVENT_QUEUE_FULL, msg)] else [])"

context reliable_backend
begin

lemma publish_locked_effect:
  assumes ops: "q_storage_ops q = ops" and good: "good (k + 3) (q_storage_ctx q)"
    and new: "m_id msg \<notin> dom (view (q_storage_ctx q))"
    and run: "publish_locked q msg = (err, dropped, q')"
  shows "\<exists>d. dropped = map_option m_id d \<and> q' = q\<lparr>q_storage_ctx := q_storage_ctx q'\<rparr> \<and> good k (q_storage_ctx q') \<and>
    publish_effect (q_overflow_policy q) capacity accepts (view (q_storage_ctx q)) msg err d (view (q_storage_ctx q'))"
proof -
  let ?c = "q_storage_ctx q"
  have g: "good (Suc (Suc (Suc k))) ?c" using good by (simp add: numeral_3_eq_3)
  obtain e1 c1 where 1: "so_enqueue ops ?c msg = (e1, c1)" by (metis prod.exhaust)
  note T1 = enqueue_total [OF g 1]
  have le: "card (dom (view ?c)) \<le> capacity" by (rule view_bounded [OF good])
  have down: "good k c" if "good (Suc (Suc (Suc k))) c \<or> good (Suc (Suc k)) c \<or> good (Suc k) c" for c
    using that good_mono by blast
  show ?thesis
  proof (cases "card (dom (view ?c)) < capacity")
    case True
    have ne: "e1 \<noteq> EDGESYNC_ERR_QUEUE_FULL" using T1 True by auto
    have r: "err = e1" "dropped = None" "q' = q\<lparr>q_storage_ctx := c1\<rparr>"
      using run ne by (simp_all add: publish_locked_def ops 1)
    show ?thesis
    proof (cases "accepts msg")
      case acc: True
      have "e1 = ESP_OK" using T1 True acc by simp
      then show ?thesis using enqueue_ok [OF g new, of c1] 1 r True acc down
        by (intro exI [of _ None]) (simp add: publish_effect_def)
    next
      case False
      have "e1 = EDGESYNC_ERR_SERIALIZATION" "c1 = ?c" using T1 True False by auto
      then show ?thesis using r True False down [of ?c] g
        by (intro exI [of _ None]) (simp add: publish_effect_def)
    qed
  next
    case full: False
    have e1: "e1 = EDGESYNC_ERR_QUEUE_FULL" "c1 = ?c" using T1 full by auto
    obtain found cand where f: "so_find_drop_candidate ops ?c (q_overflow_policy q) = (found, cand)" by (metis prod.exhaust)
    consider (reject) "q_overflow_policy q = OVERFLOW_REJECT_NEW"
      | (none) "q_overflow_policy q \<noteq> OVERFLOW_REJECT_NEW" "found \<noteq> ESP_OK"
      | (drop) "q_overflow_policy q \<noteq> OVERFLOW_REJECT_NEW" "found = ESP_OK" by blast
    then show ?thesis
    proof cases
      case reject
      then have "err = EDGESYNC_ERR_QUEUE_FULL" "dropped = None" "q' = q"
        using run e1 by (simp_all add: publish_locked_def ops 1)
      then show ?thesis using full reject down [of ?c] g
        by (intro exI [of _ None]) (simp add: publish_effect_def)
    next
      case none
      then have r: "err = EDGESYNC_ERR_QUEUE_FULL" "dropped = None" "q' = q"
        using run e1 f by (simp_all add: publish_locked_def ops 1)
      have "\<not> has_pending (view ?c)"
        using drop_none [OF good f none(2)] by (auto simp: has_pending_def)
      then show ?thesis using r full down [of ?c] g
        by (intro exI [of _ None]) (simp add: publish_effect_def)
    next
      case drop
      obtain d where d: "first_to_drop (view ?c) (q_overflow_policy q) d" "cand = Some (m_id d)"
        using drop_ok [OF good] f drop(2) by blast
      have pend: "has_pending (view ?c)" using d(1) by (auto simp: first_to_drop_def has_pending_def)
      have dm: "m_id d \<in> dom (view ?c)" using d(1) by (auto simp: first_to_drop_def)
      obtain e2 c2 where 2: "so_remove ops ?c (m_id d) = (e2, c2)" by (metis prod.exhaust)
      have e2: "e2 = ESP_OK" using removed_total [OF g 2] dm by simp
      note R = removed_ok [OF g 2 [unfolded e2]]
      have room: "\<not> capacity \<le> card (dom (view c2))"
        using removed_card [OF g 2 [unfolded e2]] le by simp
      obtain e3 c3 where 3: "so_enqueue ops c2 msg = (e3, c3)" by (metis prod.exhaust)
      have r: "err = e3" "dropped = Some (m_id d)" "q' = q\<lparr>q_storage_ctx := c3\<rparr>"
        using run e1 f drop d(2) 2 3 by (simp_all add: publish_locked_def ops 1)
      have g2: "good (Suc (Suc k)) c2" and v2: "view c2 = (view ?c)(m_id d := None)" using R by blast+
      note T3 = enqueue_total [OF g2 3]
      show ?thesis
      proof (cases "accepts msg")
        case acc: True
        have "e3 = ESP_OK" using T3 room acc by simp
        moreover have "m_id msg \<notin> dom (view c2)" using new by (simp add: v2)
        ultimately show ?thesis using enqueue_ok [OF g2, of msg c3] 3 r full drop(1) pend d(1) acc down v2
          by (intro exI [of _ "Some d"]) (simp add: publish_effect_def)
      next
        case False
        have "e3 = EDGESYNC_ERR_SERIALIZATION" "c3 = c2" using T3 room False by auto
        then show ?thesis using r full drop(1) pend d(1) False down [of c2] g2 v2
          by (intro exI [of _ "Some d"]) (simp add: publish_effect_def)
      qed
    qed
  qed
qed

lemma queue_publish_effect:
  assumes ops: "q_storage_ops q = ops" and good: "good (k + 3) (q_storage_ctx q)"
    and new: "m_id msg \<notin> dom (view (q_storage_ctx q))"
    and run: "queue_publish q msg tr = (err, q', tr', woken)"
  shows "\<exists>d. publish_effect (q_overflow_policy q) capacity accepts (view (q_storage_ctx q)) msg err d (view (q_storage_ctx q')) \<and>
      q' = q\<lparr>q_storage_ctx := q_storage_ctx q'\<rparr> \<and> good k (q_storage_ctx q') \<and>
      tr' = tr @ (if q_event_cb q then publish_events msg err d else []) \<and> woken = (err = ESP_OK \<and> q_wake_cb q)"
proof -
  obtain e dr q1 where 1: "publish_locked q msg = (e, dr, q1)" by (metis prod.exhaust)
  obtain d where d: "dr = map_option m_id d" "q1 = q\<lparr>q_storage_ctx := q_storage_ctx q1\<rparr>" "good k (q_storage_ctx q1)"
    "publish_effect (q_overflow_policy q) capacity accepts (view (q_storage_ctx q)) msg e d (view (q_storage_ctx q1))"
    using publish_locked_effect [OF ops good new 1] by blast
  have f: "q_event_cb q1 = q_event_cb q" "q_wake_cb q1 = q_wake_cb q" by (subst d(2), simp)+
  have "err = e \<and> q' = q1 \<and> woken = (e = ESP_OK \<and> q_wake_cb q) \<and>
      tr' = tr @ (if q_event_cb q then publish_events msg e d else [])"
    using run by (auto simp: queue_publish_def 1 Let_def f d(1) events_fire_def publish_events_def split: if_splits option.splits)
  then show ?thesis using d by blast
qed

end

end
