(* ===== verification/ES_Worker.thy ===== *)
theory ES_Worker
  imports ES_Queue ES_Retry
begin

text \<open>
  \<open>edgesync_worker.c\<close>: the task that drains the queue through the transport.  The clock
  (\<open>esp_timer_get_time\<close>), the random number generator and the stop flag are inputs of each
  iteration; the queue, which the worker shares with the publishing tasks, is passed along.
\<close>

section \<open>The transport interface\<close>

record 't transport_ops =
  tr_init :: "('t \<Rightarrow> esp_err \<times> 't) option"
  tr_deliver :: "'t \<Rightarrow> message \<Rightarrow> delivery_result \<times> int \<times> 't"
  tr_close :: "('t \<Rightarrow> esp_err \<times> 't) option"

section \<open>The worker\<close>

record worker =
  w_retry_cfg :: retry_config
  w_event_cb :: bool
  w_stop_requested :: bool

text \<open>Schedules a retry or dead-letters the message, firing the matching events.\<close>

definition handle_retryable_failure ::
  "worker \<Rightarrow> 'c queue \<Rightarrow> message \<Rightarrow> i64 \<Rightarrow> u32 \<Rightarrow> event list \<Rightarrow> 'c queue \<times> event list" where
  "handle_retryable_failure w q msg now_us rnd tr =
     (if \<not> retry_should_retry (w_retry_cfg w) (m_attempt_count msg) then
        let (_, q) = queue_schedule_retry q (m_id msg) 0 True EDGESYNC_ERR_TRANSPORT;
            tr = events_fire (w_event_cb w) EVENT_FAILED msg tr;
            tr = events_fire (w_event_cb w) EVENT_DEAD_LETTER msg tr
        in (q, tr)
      else
        let delay_ms = retry_compute_delay_ms (w_retry_cfg w) (m_attempt_count msg) rnd;
            next_retry_at_us = now_us + ucast delay_ms * 1000;
            (_, q) = queue_schedule_retry q (m_id msg) next_retry_at_us False EDGESYNC_ERR_TRANSPORT;
            tr = events_fire (w_event_cb w) EVENT_FAILED msg tr;
            tr = events_fire (w_event_cb w) EVENT_RETRY msg tr
        in (q, tr))"

definition handle_delivery_result ::
  "worker \<Rightarrow> 'c queue \<Rightarrow> message \<Rightarrow> delivery_result \<Rightarrow> i64 \<Rightarrow> u32 \<Rightarrow> event list \<Rightarrow> 'c queue \<times> event list" where
  "handle_delivery_result w q msg result now_us rnd tr =
     (case result of
        DELIVERY_SUCCESS \<Rightarrow>
          let (_, q) = queue_mark_delivered q (m_id msg)
          in (q, events_fire (w_event_cb w) EVENT_DELIVERED msg tr)
      | DELIVERY_PERMANENT_FAILURE \<Rightarrow>
          let (_, q) = queue_schedule_retry q (m_id msg) 0 True EDGESYNC_ERR_TRANSPORT;
              tr = events_fire (w_event_cb w) EVENT_FAILED msg tr
          in (q, events_fire (w_event_cb w) EVENT_DEAD_LETTER msg tr)
      | DELIVERY_RETRYABLE_FAILURE \<Rightarrow> handle_retryable_failure w q msg now_us rnd tr)"

text \<open>
  The first half of an iteration of \<open>worker_task\<close>: claim a message.  The outcome is a message to
  deliver, or to wait for a notification for so many milliseconds, or to go round again.
\<close>

abbreviation (input) CONFIG_EDGESYNC_WORKER_IDLE_POLL_MS :: nat where
  "CONFIG_EDGESYNC_WORKER_IDLE_POLL_MS \<equiv> 5000"

datatype claim_outcome = Wait nat | Again | Deliver message

definition worker_claim ::
  "worker \<Rightarrow> 'c queue \<Rightarrow> i64 \<Rightarrow> event list \<Rightarrow> claim_outcome \<times> 'c queue \<times> event list" where
  "worker_claim w q now_us tr =
     (let (err, r, q) = queue_claim_next q now_us;
          msg = (case r of Some m \<Rightarrow> m | None \<Rightarrow> blank_message 0)
      in if err = EDGESYNC_ERR_NOT_FOUND then (Wait CONFIG_EDGESYNC_WORKER_IDLE_POLL_MS, q, tr)
         else if err = EDGESYNC_ERR_STORAGE_CORRUPT
         then (Again, q, events_fire (w_event_cb w) EVENT_DEAD_LETTER msg tr)
         else if err \<noteq> ESP_OK then (Wait 1000, q, tr)
         else (Deliver msg, q, tr))"

text \<open>The second half: hand the message to the transport and act on the result.\<close>

definition worker_deliver ::
  "'t transport_ops \<Rightarrow> worker \<Rightarrow> 'c queue \<Rightarrow> 't \<Rightarrow> message \<Rightarrow> i64 \<Rightarrow> u32 \<Rightarrow> event list \<Rightarrow>
   'c queue \<times> 't \<times> event list" where
  "worker_deliver T w q t msg now_us rnd tr =
     (let (result, _, t) = tr_deliver T t msg;
          (q, tr) = handle_delivery_result w q msg result now_us rnd tr
      in (q, t, tr))"

definition worker_iteration ::
  "'t transport_ops \<Rightarrow> worker \<Rightarrow> 'c queue \<Rightarrow> 't \<Rightarrow> i64 \<Rightarrow> i64 \<Rightarrow> u32 \<Rightarrow> event list \<Rightarrow>
   'c queue \<times> 't \<times> event list" where
  "worker_iteration T w q t claim_us done_us rnd tr =
     (case worker_claim w q claim_us tr of
        (Deliver msg, q, tr) \<Rightarrow> worker_deliver T w q t msg done_us rnd tr
      | (_, q, tr) \<Rightarrow> (q, t, tr))"

text \<open>
  \<open>worker_task\<close>: iterations until the stop flag is seen.  Each list element gives the flag as
  read before an iteration and the clock and random values used in it; when the list ends
  the task is still running.
\<close>

fun worker_task ::
  "'t transport_ops \<Rightarrow> worker \<Rightarrow> (bool \<times> i64 \<times> i64 \<times> u32) list \<Rightarrow> 'c queue \<Rightarrow> 't \<Rightarrow> event list \<Rightarrow>
   bool \<times> 'c queue \<times> 't \<times> event list" where
  "worker_task T w [] q t tr = (False, q, t, tr)"
| "worker_task T w ((stop, claim_us, done_us, rnd) # env) q t tr =
     (if stop then (True, q, t, tr)
      else let (q, t, tr) = worker_iteration T w q t claim_us done_us rnd tr
           in worker_task T w env q t tr)"

text \<open>\<open>edgesync_worker_start\<close>.  \<open>pointers_set\<close> says that the queue and the transport operations are
  given; the last three flags are the outcomes of the allocation, the semaphore and the task
  creation.\<close>

record worker_config =
  wc_retry_cfg :: retry_config
  wc_event_cb :: bool
  wc_task_stack_size :: u32
  wc_task_priority :: u32
  wc_task_core_id :: int

definition worker_start ::
  "worker_config option \<Rightarrow> bool \<Rightarrow> bool \<Rightarrow> bool \<Rightarrow> bool \<Rightarrow> bool \<Rightarrow> 'c queue \<Rightarrow> esp_err \<times> worker option \<times> 'c queue" where
  "worker_start config pointers_set out_valid allocated sem_created task_created q =
     (case config of
        None \<Rightarrow> (ESP_ERR_INVALID_ARG, None, q)
      | Some cfg \<Rightarrow>
          if \<not> pointers_set \<or> \<not> out_valid then (ESP_ERR_INVALID_ARG, None, q)
          else if \<not> allocated then (ESP_ERR_NO_MEM, None, q)
          else if \<not> sem_created then (ESP_ERR_NO_MEM, None, q)
          else if \<not> task_created then (ESP_ERR_NO_MEM, None, q)
          else (ESP_OK, Some \<lparr>w_retry_cfg = wc_retry_cfg cfg, w_event_cb = wc_event_cb cfg, w_stop_requested = False\<rparr>,
                queue_set_wake_cb q True))"

text \<open>The part of \<open>edgesync_worker_stop\<close> before it waits for the task to finish.\<close>

definition worker_stop :: "worker \<Rightarrow> 'c queue \<Rightarrow> worker \<times> 'c queue" where
  "worker_stop w q = (w\<lparr>w_stop_requested := True\<rparr>, queue_set_wake_cb q False)"

end
