(* ===== verification/ES_Delivery.thy ===== *)
theory ES_Delivery
  imports ES_Worker
begin

text \<open>
  What one iteration of the worker does to the stored messages, and that the worker drains the
  queue: both proved once against the contract of a reliable storage backend.
\<close>

section \<open>One iteration\<close>

text \<open>
  The bookkeeping after an attempt as a function of the result: the new record of the message
  (\<open>None\<close> when it is gone) and the events.
\<close>

definition dead_lettered :: "(message \<Rightarrow> message) \<Rightarrow> message \<Rightarrow> message option \<times> event_id list" where
  "dead_lettered rewrite m = (Some (retried (rewrite m) 0 True EDGESYNC_ERR_TRANSPORT), [EVENT_FAILED, EVENT_DEAD_LETTER])"

definition settled ::
  "(message \<Rightarrow> message) \<Rightarrow> retry_config \<Rightarrow> message \<Rightarrow> delivery_result \<Rightarrow> i64 \<Rightarrow> u32 \<Rightarrow> message option \<times> event_id list" where
  "settled rewrite cfg m result now_us rnd =
     (case result of
        DELIVERY_SUCCESS \<Rightarrow> (None, [EVENT_DELIVERED])
      | DELIVERY_PERMANENT_FAILURE \<Rightarrow> dead_lettered rewrite m
      | DELIVERY_RETRYABLE_FAILURE \<Rightarrow>
          if max_attempts cfg \<noteq> 0 \<and> max_attempts cfg \<le> m_attempt_count m then dead_lettered rewrite m
          else (Some (retried (rewrite m) (now_us + ucast (retry_compute_delay_ms cfg (m_attempt_count m) rnd) * 1000)
                  False EDGESYNC_ERR_TRANSPORT), [EVENT_FAILED, EVENT_RETRY]))"

text \<open>What recording a state may do to a message: it may lose the payload, nothing else.\<close>

definition keeps_header :: "(message \<Rightarrow> message) \<Rightarrow> bool" where
  "keeps_header rewrite \<longleftrightarrow> (\<forall>m. rewrite m = m\<lparr>m_payload := m_payload (rewrite m)\<rparr>)"

lemma rewrite_fields:
  assumes "keeps_header rewrite"
  shows "m_id (rewrite m) = m_id m" "m_state (rewrite m) = m_state m" "m_attempt_count (rewrite m) = m_attempt_count m"
  using assms unfolding keeps_header_def
  by (metis message.select_convs(1) message.surjective message.update_convs(10),
      metis message.select_convs(4) message.surjective message.update_convs(10),
      metis message.select_convs(5) message.surjective message.update_convs(10))

lemma retried_fields [simp]:
  "m_attempt_count (retried m next_us dead er) = m_attempt_count m" "m_attempt_count (claimed m now_us) = m_attempt_count m + 1"
  "m_attempt_count (fresh m) = 0" "m_attempt_count (requeued m) = m_attempt_count m"
  by (simp_all add: retried_def claimed_def fresh_def requeued_def)

text \<open>What becomes of a message when its attempt is over.\<close>

lemma settled_cases:
  assumes "keeps_header rewrite" "fst (settled rewrite cfg m r now_us rnd) = Some m'"
  shows "m_id m' = m_id m" "m_attempt_count m' = m_attempt_count m" "r \<noteq> DELIVERY_SUCCESS"
    "m_state m' = MSG_DEAD_LETTER \<or> m_state m' = MSG_PENDING \<and>
      (max_attempts cfg = 0 \<or> m_attempt_count m < max_attempts cfg) \<and>
      m_next_retry_at_us m' = now_us + ucast (retry_compute_delay_ms cfg (m_attempt_count m) rnd) * 1000"
  using assms(2) rewrite_fields [OF assms(1)]
  by (auto simp: settled_def dead_lettered_def not_le retried_def split: delivery_result.splits if_splits)

context reliable_backend
begin

lemma mark_delivered_step:
  assumes ops: "q_storage_ops q = ops" and good: "good (Suc k) (q_storage_ctx q)"
    and v: "view (q_storage_ctx q) mid = Some m"
  obtains c where "queue_mark_delivered q mid = (ESP_OK, q\<lparr>q_storage_ctx := c,
      q_successful_deliveries := q_successful_deliveries q + 1\<rparr>)"
    "good k c" "view c = (view (q_storage_ctx q))(mid := None)"
proof -
  let ?c = "q_storage_ctx q"
  obtain err c where 1: "so_mark_delivered ops ?c mid = (err, c)" by (metis prod.exhaust)
  have e: "err = ESP_OK" using delivered_total [OF good 1] v by auto
  show thesis using that [of c] delivered_ok [OF good 1 [unfolded e]] by (simp add: queue_mark_delivered_def ops 1 e)
qed

lemma schedule_retry_step:
  assumes ops: "q_storage_ops q = ops" and good: "good (Suc k) (q_storage_ctx q)"
    and v: "view (q_storage_ctx q) mid = Some m"
  obtains c where "queue_schedule_retry q mid next_us dead er = (ESP_OK, q\<lparr>q_storage_ctx := c,
      q_failed_deliveries := q_failed_deliveries q + 1\<rparr>)"
    "good k c" "view c = (view (q_storage_ctx q))(mid \<mapsto> retried (rewrite m) next_us dead er)"
proof -
  let ?c = "q_storage_ctx q"
  obtain err c where 1: "so_schedule_retry ops ?c mid next_us dead er = (err, c)" by (metis prod.exhaust)
  have e: "err = ESP_OK" using retry_total [OF good 1] v by auto
  show thesis using that [of c] retry_ok [OF good 1 [unfolded e]] v by (simp add: queue_schedule_retry_def ops 1 e)
qed

lemma settle_effect:
  assumes ops: "q_storage_ops q = ops" and good: "good (Suc k) (q_storage_ctx q)"
    and v: "view (q_storage_ctx q) (m_id m) = Some m"
    and run: "handle_delivery_result w q m result now_us rnd tr = (q', tr')"
  shows "q_storage_ops q' = ops \<and> good k (q_storage_ctx q') \<and>
    view (q_storage_ctx q') = (view (q_storage_ctx q))(m_id m := fst (settled rewrite (w_retry_cfg w) m result now_us rnd)) \<and>
    tr' = tr @ (if w_event_cb w then map (\<lambda>ev. (ev, m)) (snd (settled rewrite (w_retry_cfg w) m result now_us rnd)) else [])"
proof -
  note D = mark_delivered_step [OF ops good v] and R = schedule_retry_step [OF ops good v, where er = EDGESYNC_ERR_TRANSPORT]
  have sr: "retry_should_retry cfg a \<longleftrightarrow> \<not> (max_attempts cfg \<noteq> 0 \<and> max_attempts cfg \<le> a)" for cfg a
    by (auto simp: retry_should_retry_def)
  show ?thesis
  proof (cases result)
    case DELIVERY_SUCCESS
    show ?thesis
      by (rule D) (use run DELIVERY_SUCCESS ops in \<open>auto simp: handle_delivery_result_def settled_def events_fire_def\<close>)
  next
    case DELIVERY_PERMANENT_FAILURE
    show ?thesis
      by (rule R [where next_us = 0 and dead = True])
        (use run DELIVERY_PERMANENT_FAILURE ops in
          \<open>auto simp: handle_delivery_result_def settled_def dead_lettered_def events_fire_def\<close>)
  next
    case DELIVERY_RETRYABLE_FAILURE
    show ?thesis
    proof (cases "retry_should_retry (w_retry_cfg w) (m_attempt_count m)")
      case True
      show ?thesis
        by (rule R [where dead = False and
              next_us = "now_us + ucast (retry_compute_delay_ms (w_retry_cfg w) (m_attempt_count m) rnd) * 1000"])
          (use run DELIVERY_RETRYABLE_FAILURE True ops True [unfolded sr] in
            \<open>auto simp: handle_delivery_result_def handle_retryable_failure_def settled_def events_fire_def Let_def\<close>)
    next
      case False
      show ?thesis
        by (rule R [where next_us = 0 and dead = True])
          (use run DELIVERY_RETRYABLE_FAILURE False ops False [unfolded sr not_not] in
            \<open>auto simp: handle_delivery_result_def handle_retryable_failure_def settled_def dead_lettered_def events_fire_def Let_def\<close>)
    qed
  qed
qed

lemma worker_claim_effect:
  assumes ops: "q_storage_ops q = ops" and good: "good (Suc k) (q_storage_ctx q)"
    and run: "worker_claim w q now_us tr = (out, q', tr')"
  shows "q_storage_ops q' = ops \<and> good k (q_storage_ctx q') \<and> tr' = tr \<and>
    (if \<exists>mid m. view (q_storage_ctx q) mid = Some m \<and> eligible now_us m
     then \<exists>m. first_to_claim (view (q_storage_ctx q)) now_us m \<and> out = Deliver (claimed m now_us) \<and>
       view (q_storage_ctx q') = (view (q_storage_ctx q))(m_id m \<mapsto> claimed m now_us)
     else out = Wait CONFIG_EDGESYNC_WORKER_IDLE_POLL_MS \<and> view (q_storage_ctx q') = view (q_storage_ctx q))"
proof -
  let ?c = "q_storage_ctx q" and ?E = "\<exists>mid m. view (q_storage_ctx q) mid = Some m \<and> eligible now_us m"
  obtain err r c where 1: "so_claim_next ops ?c now_us = (err, r, c)" by (metis prod.exhaust)
  have e: "err = (if ?E then ESP_OK else EDGESYNC_ERR_NOT_FOUND)" by (rule claim_total [OF good 1])
  show ?thesis
  proof (cases ?E)
    case True
    then have ok: "err = ESP_OK" using e by simp
    obtain m where m: "first_to_claim (view ?c) now_us m" "r = Some (claimed m now_us)" "good k c"
      "view c = (view ?c)(m_id m \<mapsto> claimed m now_us)" using claim_ok [OF good 1 [unfolded ok]] by blast
    have "out = Deliver (claimed m now_us)" "q' = q\<lparr>q_storage_ctx := c\<rparr>" "tr' = tr"
      using run by (simp_all add: worker_claim_def queue_claim_next_def ops 1 ok m(2))
    then show ?thesis unfolding if_P [OF True] using m ops by auto
  next
    case False
    then have nf: "err = EDGESYNC_ERR_NOT_FOUND" using e by simp
    show ?thesis using claim_none [OF good 1 [unfolded nf]] run
      unfolding if_not_P [OF False] by (auto simp: worker_claim_def queue_claim_next_def ops 1 nf)
  qed
qed

lemma worker_iteration_effect:
  assumes ops: "q_storage_ops q = ops" and good: "good (Suc (Suc k)) (q_storage_ctx q)"
    and run: "worker_iteration T w q t claim_us done_us rnd tr = (q', t', tr')"
  shows "q_storage_ops q' = ops \<and> good k (q_storage_ctx q') \<and>
    (if \<exists>mid m. view (q_storage_ctx q) mid = Some m \<and> eligible claim_us m
     then \<exists>m result status. first_to_claim (view (q_storage_ctx q)) claim_us m \<and>
       tr_deliver T t (claimed m claim_us) = (result, status, t') \<and>
       view (q_storage_ctx q') = (view (q_storage_ctx q))
         (m_id m := fst (settled rewrite (w_retry_cfg w) (claimed m claim_us) result done_us rnd)) \<and>
       tr' = tr @ (if w_event_cb w then map (\<lambda>ev. (ev, claimed m claim_us))
         (snd (settled rewrite (w_retry_cfg w) (claimed m claim_us) result done_us rnd)) else [])
     else t' = t \<and> tr' = tr \<and> view (q_storage_ctx q') = view (q_storage_ctx q))"
proof -
  let ?E = "\<exists>mid m. view (q_storage_ctx q) mid = Some m \<and> eligible claim_us m"
  obtain out q1 tr1 where 1: "worker_claim w q claim_us tr = (out, q1, tr1)" by (metis prod.exhaust)
  note C = worker_claim_effect [OF ops good 1]
  show ?thesis
  proof (cases ?E)
    case True
    obtain m where m: "first_to_claim (view (q_storage_ctx q)) claim_us m" "out = Deliver (claimed m claim_us)"
      "view (q_storage_ctx q1) = (view (q_storage_ctx q))(m_id m \<mapsto> claimed m claim_us)"
      using C unfolding if_P [OF True] by blast
    obtain result status t1 where d: "tr_deliver T t (claimed m claim_us) = (result, status, t1)" by (metis prod.exhaust)
    obtain q2 tr2 where h: "handle_delivery_result w q1 (claimed m claim_us) result done_us rnd tr1 = (q2, tr2)"
      by (metis prod.exhaust)
    have r: "q' = q2" "t' = t1" "tr' = tr2"
      using run by (simp_all add: worker_iteration_def 1 m(2) worker_deliver_def d h)
    have c1: "q_storage_ops q1 = ops" "good (Suc k) (q_storage_ctx q1)" "tr1 = tr" using C by blast+
    have v1: "view (q_storage_ctx q1) (m_id (claimed m claim_us)) = Some (claimed m claim_us)" by (simp add: m(3))
    note H = settle_effect [OF c1(1,2) v1 h]
    show ?thesis unfolding if_P [OF True] r
      using H m(1) d by (simp add: c1(3) m(3)) blast
  next
    case False
    have c1: "out = Wait CONFIG_EDGESYNC_WORKER_IDLE_POLL_MS" "view (q_storage_ctx q1) = view (q_storage_ctx q)"
      "q_storage_ops q1 = ops" "good (Suc k) (q_storage_ctx q1)" "tr1 = tr"
      using C unfolding if_not_P [OF False] by blast+
    have r: "q' = q1" "t' = t" "tr' = tr1" using run by (simp_all add: worker_iteration_def 1 c1(1))
    show ?thesis unfolding if_not_P [OF False] r using c1 good_mono by simp
  qed
qed

end

section \<open>Draining\<close>

text \<open>The messages that wait for delivery, and those among them whose time has come.\<close>

definition pending_ids :: "queue_view \<Rightarrow> message_id set" where
  "pending_ids v = {mid. \<exists>m. v mid = Some m \<and> m_state m = MSG_PENDING}"

definition all_due :: "queue_view \<Rightarrow> i64 \<Rightarrow> bool" where
  "all_due v now_us \<longleftrightarrow> (\<forall>mid m. v mid = Some m \<and> m_state m = MSG_PENDING \<longrightarrow> sint (m_next_retry_at_us m) \<le> sint now_us)"

definition always_delivers :: "'t transport_ops \<Rightarrow> bool" where
  "always_delivers T \<longleftrightarrow> (\<forall>t m. fst (tr_deliver T t m) = DELIVERY_SUCCESS)"

context reliable_backend
begin

text \<open>Every iteration over a working connection removes one due message.\<close>

lemma iteration_drains:
  assumes ops: "q_storage_ops q = ops" and good: "good (Suc (Suc k)) (q_storage_ctx q)"
    and T: "always_delivers T" and due: "all_due (view (q_storage_ctx q)) claim_us"
    and run: "worker_iteration T w q t claim_us done_us rnd tr = (q', t', tr')"
  shows "q_storage_ops q' = ops" "good k (q_storage_ctx q')"
    "card (pending_ids (view (q_storage_ctx q'))) = card (pending_ids (view (q_storage_ctx q))) - 1"
    "\<And>now_us. all_due (view (q_storage_ctx q)) now_us \<Longrightarrow> all_due (view (q_storage_ctx q')) now_us"
    "\<And>mid. mid \<notin> pending_ids (view (q_storage_ctx q)) \<Longrightarrow> view (q_storage_ctx q') mid = view (q_storage_ctx q) mid"
proof -
  let ?v = "view (q_storage_ctx q)" and ?v' = "view (q_storage_ctx q')"
  note E = worker_iteration_effect [OF ops good run]
  show "q_storage_ops q' = ops" "good k (q_storage_ctx q')" using E by blast+
  have fin: "finite (pending_ids ?v)"
    by (rule finite_subset [OF _ view_finite [OF good]]) (auto simp: pending_ids_def)
  have "card (pending_ids ?v') = card (pending_ids ?v) - 1 \<and> (\<forall>now_us. all_due ?v now_us \<longrightarrow> all_due ?v' now_us) \<and>
    (\<forall>mid. mid \<notin> pending_ids ?v \<longrightarrow> ?v' mid = ?v mid)"
  proof (cases "\<exists>mid m. ?v mid = Some m \<and> eligible claim_us m")
    case True
    obtain m result status where m: "first_to_claim ?v claim_us m"
      "tr_deliver T t (claimed m claim_us) = (result, status, t')"
      "?v' = ?v(m_id m := fst (settled rewrite (w_retry_cfg w) (claimed m claim_us) result done_us rnd))"
      using E unfolding if_P [OF True] by blast
    have "fst (tr_deliver T t (claimed m claim_us)) = DELIVERY_SUCCESS" using T unfolding always_delivers_def by blast
    then have v': "?v' = ?v(m_id m := None)" using m(2,3) by (simp add: settled_def)
    have mp: "m_id m \<in> pending_ids ?v" using m(1) by (auto simp: first_to_claim_def eligible_def pending_ids_def)
    have "pending_ids ?v' = pending_ids ?v - {m_id m}" by (auto simp: v' pending_ids_def)
    then have "card (pending_ids ?v') = card (pending_ids ?v) - 1" using fin mp by simp
    moreover have "all_due ?v' now_us" if "all_due ?v now_us" for now_us
      using that unfolding all_due_def v' by (metis fun_upd_apply option.distinct(1))
    moreover have "?v' mid = ?v mid" if "mid \<notin> pending_ids ?v" for mid using that mp by (auto simp: v')
    ultimately show ?thesis by blast
  next
    case False
    have "pending_ids ?v = {}" using False due by (auto simp: pending_ids_def all_due_def eligible_def)
    moreover have "?v' = ?v" using E unfolding if_not_P [OF False] by blast
    ultimately show ?thesis by simp
  qed
  then show "card (pending_ids ?v') = card (pending_ids ?v) - 1" "\<And>now_us. all_due ?v now_us \<Longrightarrow> all_due ?v' now_us"
    "\<And>mid. mid \<notin> pending_ids ?v \<Longrightarrow> ?v' mid = ?v mid" by blast+
qed

lemma worker_drains:
  assumes T: "always_delivers T"
  shows "q_storage_ops q = ops \<Longrightarrow> good (k + 2 * length env) (q_storage_ctx q) \<Longrightarrow>
    \<forall>(stop, claim_us, done_us, rnd)\<in>set env. \<not> stop \<and> all_due (view (q_storage_ctx q)) claim_us \<Longrightarrow>
    worker_task T w env q t tr = (stopped, q', t', tr') \<Longrightarrow>
    card (pending_ids (view (q_storage_ctx q'))) = card (pending_ids (view (q_storage_ctx q))) - length env \<and>
    (\<forall>mid. mid \<notin> pending_ids (view (q_storage_ctx q)) \<longrightarrow>
       view (q_storage_ctx q') mid = view (q_storage_ctx q) mid) \<and> good k (q_storage_ctx q')"
proof (induction env arbitrary: q t tr)
  case Nil
  then show ?case by simp
next
  case (Cons e env)
  obtain claim_us done_us rnd where e: "e = (False, claim_us, done_us, rnd)" using Cons.prems(3) by (cases e) auto
  obtain q1 t1 tr1 where 1: "worker_iteration T w q t claim_us done_us rnd tr = (q1, t1, tr1)" by (metis prod.exhaust)
  have g: "good (Suc (Suc (k + 2 * length env))) (q_storage_ctx q)" using Cons.prems(2) by simp
  have due: "all_due (view (q_storage_ctx q)) claim_us" using Cons.prems(3) by (simp add: e)
  note I = iteration_drains [OF Cons.prems(1) g T due 1]
  have rest: "\<forall>(stop, claim_us, done_us, rnd)\<in>set env. \<not> stop \<and> all_due (view (q_storage_ctx q1)) claim_us"
    using Cons.prems(3) I(4) by fastforce
  have run: "worker_task T w env q1 t1 tr1 = (stopped, q', t', tr')" using Cons.prems(4) by (simp add: e 1)
  note IH = Cons.IH [OF I(1,2) rest run]
  have "card (pending_ids (view (q_storage_ctx q'))) = card (pending_ids (view (q_storage_ctx q))) - length (e # env)"
    using IH I(3) by simp
  moreover have "view (q_storage_ctx q') mid = view (q_storage_ctx q) mid" if "mid \<notin> pending_ids (view (q_storage_ctx q))" for mid
  proof -
    have "view (q_storage_ctx q1) mid = view (q_storage_ctx q) mid" by (rule I(5) [OF that])
    moreover from this that have "mid \<notin> pending_ids (view (q_storage_ctx q1))" by (simp add: pending_ids_def)
    ultimately show ?thesis using IH by simp
  qed
  ultimately show ?case using IH by blast
qed

end

end
