(* ===== verification/ES_Settling.thy ===== *)
theory ES_Settling
  imports ES_Delivery
begin

text \<open>
  With a retry limit the worker settles every message whatever the transport answers: each
  attempt takes one from a number that is fixed when the message is stored.
\<close>

section \<open>What is left to do\<close>

text \<open>The attempts a waiting message may still see, and their sum over the queue.\<close>

definition attempts_left :: "retry_config \<Rightarrow> message \<Rightarrow> nat" where
  "attempts_left cfg m = max 1 (unat (max_attempts cfg) - unat (m_attempt_count m))"

definition work_left :: "retry_config \<Rightarrow> queue_view \<Rightarrow> nat" where
  "work_left cfg v = (\<Sum>mid\<in>pending_ids v. attempts_left cfg (the (v mid)))"

text \<open>No attempt counter is about to wrap, and a message that has left the waiting ones is settled.\<close>

definition counters_ok :: "queue_view \<Rightarrow> bool" where
  "counters_ok v \<longleftrightarrow> (\<forall>mid m. v mid = Some m \<and> m_state m = MSG_PENDING \<longrightarrow> unat (m_attempt_count m) + 1 < 2 ^ 32)"

definition gone_or_dead :: "queue_view \<Rightarrow> message_id \<Rightarrow> bool" where
  "gone_or_dead v mid \<longleftrightarrow> (case v mid of None \<Rightarrow> True | Some m \<Rightarrow> m_state m = MSG_DEAD_LETTER)"

text \<open>
  The worker is not stopped, and comes round again only when the longest delay has passed since
  the attempt before; the clock does not reach its end.
\<close>

fun paced :: "retry_config \<Rightarrow> (bool \<times> i64 \<times> i64 \<times> u32) list \<Rightarrow> bool" where
  "paced cfg [] = True"
| "paced cfg ((stop, claim_us, done_us, rnd) # env) \<longleftrightarrow> \<not> stop \<and> paced cfg env \<and>
     sint done_us + int (unat (max_delay_ms cfg)) * 1000 < 2 ^ 63 \<and>
     (\<forall>(stop', claim_us', done_us', rnd')\<in>set env. sint done_us + int (unat (max_delay_ms cfg)) * 1000 \<le> sint claim_us')"

lemma work_left_pending: "finite (dom v) \<Longrightarrow> work_left cfg v = 0 \<longleftrightarrow> pending_ids v = {}"
proof -
  assume "finite (dom v)"
  then have "finite (pending_ids v)" by (rule rev_finite_subset) (auto simp: pending_ids_def)
  then show ?thesis by (auto simp: work_left_def attempts_left_def)
qed

lemma work_left_bound:
  assumes "max_attempts cfg \<noteq> 0"
  shows "work_left cfg v \<le> unat (max_attempts cfg) * card (pending_ids v)"
proof -
  have "0 < unat (max_attempts cfg)" using assms by (simp add: unat_gt_0)
  then have "attempts_left cfg m \<le> unat (max_attempts cfg)" for m by (simp add: attempts_left_def)
  then have "work_left cfg v \<le> of_nat (card (pending_ids v)) * unat (max_attempts cfg)"
    unfolding work_left_def by (rule sum_bounded_above)
  then show ?thesis by (simp add: mult.commute)
qed

lemma pending_ids_upd:
  "pending_ids (v(mid := None)) = pending_ids v - {mid}"
  "pending_ids (v(mid \<mapsto> m)) = (if m_state m = MSG_PENDING then insert mid (pending_ids v) else pending_ids v - {mid})"
  by (auto simp: pending_ids_def)

lemma sint_later:
  assumes "sint (d :: i64) + int (unat (x :: u32)) * 1000 < 2 ^ 63"
  shows "sint (d + ucast x * 1000) = sint d + int (unat x) * 1000"
proof -
  have b: "- (2 ^ 63) \<le> sint d" using sint_ge [of d] by simp
  have "uint x < 2 ^ 64" using uint_lt2p [of x] by simp
  then have u: "uint (ucast x :: i64) = uint x" by (simp add: unsigned_ucast_eq take_bit_int_eq_self_iff)
  have x: "uint x < 2 ^ 32" using uint_lt2p [of x] by simp
  then have s: "sint (ucast x :: i64) = uint x" using u by (simp add: sint_uint signed_take_bit_int_eq_self order_trans [OF _ uint_ge_0])
  have m: "signed_take_bit 63 (uint x * 1000) = uint x * 1000"
    by (rule signed_take_bit_int_eq_self [OF order_trans [OF _ mult_nonneg_nonneg [OF uint_ge_0]]]) (use x in simp_all)
  have "sint (d + ucast x * 1000) = signed_take_bit 63 (sint d + int (unat x) * 1000)"
    by (simp add: sint_word_ariths s m)
  also have "\<dots> = sint d + int (unat x) * 1000"
    by (rule signed_take_bit_int_eq_self) (use assms b of_nat_0_le_iff [of "unat x", where ?'a = int] in linarith)+
  finally show ?thesis .
qed

text \<open>What becomes of a waiting message that is attempted.\<close>

lemma attempt_settles:
  assumes "keeps_header rewrite" "max_attempts cfg \<noteq> 0" "1 \<le> unat (multiplier cfg)" "unat (m_attempt_count m) + 1 < 2 ^ 32"
    and "sint done_us + int (unat (max_delay_ms cfg)) * 1000 < 2 ^ 63"
    and "fst (settled rewrite cfg (claimed m claim_us) r done_us rnd) = Some m'" "m_state m' = MSG_PENDING"
  shows "attempts_left cfg m' < attempts_left cfg m" "unat (m_attempt_count m') + 1 < 2 ^ 32"
    "sint (m_next_retry_at_us m') \<le> sint done_us + int (unat (max_delay_ms cfg)) * 1000"
proof -
  note S = settled_cases [OF assms(1,6)]
  have a: "m_attempt_count m' = m_attempt_count m + 1" using S(2) by simp
  have u: "unat (m_attempt_count m + 1) = unat (m_attempt_count m) + 1" using assms(4) by (simp add: unat_word_ariths)
  have "m_attempt_count m + 1 < max_attempts cfg" using S(4) assms(2,7) by auto
  then have l: "unat (m_attempt_count m) + 1 < unat (max_attempts cfg)" using u by (simp add: word_less_nat_alt)
  then show "attempts_left cfg m' < attempts_left cfg m" by (simp add: attempts_left_def a u)
  show "unat (m_attempt_count m') + 1 < 2 ^ 32" using l u32_bound [of "max_attempts cfg"] by (simp add: a u)
  let ?d = "retry_compute_delay_ms cfg (m_attempt_count m + 1) rnd"
  have "unat ?d \<le> unat (max_delay_ms cfg)"
    using jittered_delay_le backoff_base_le_max [of cfg "m_attempt_count m + 1"]
    by (simp add: compute_delay_eq [OF assms(3)]) (metis le_trans)
  then have d: "int (unat ?d) * 1000 \<le> int (unat (max_delay_ms cfg)) * 1000"
    by (rule mult_right_mono [OF of_nat_mono]) simp
  have "m_next_retry_at_us m' = done_us + ucast ?d * 1000" using S(4) assms(7) by auto
  then show "sint (m_next_retry_at_us m') \<le> sint done_us + int (unat (max_delay_ms cfg)) * 1000"
    using sint_later [of done_us ?d] d assms(5) by simp
qed

section \<open>Every iteration makes progress\<close>

text \<open>One step towards an empty queue; what is due at \<open>bound\<close> or later stays due then.\<close>

definition settling_step :: "retry_config \<Rightarrow> int \<Rightarrow> queue_view \<Rightarrow> queue_view \<Rightarrow> bool" where
  "settling_step cfg bound v v' \<longleftrightarrow> work_left cfg v' \<le> work_left cfg v - 1 \<and> counters_ok v' \<and>
     (\<forall>now_us. all_due v now_us \<and> bound \<le> sint now_us \<longrightarrow> all_due v' now_us) \<and>
     (\<forall>mid. mid \<notin> pending_ids v \<longrightarrow> v' mid = v mid) \<and>
     (\<forall>mid. mid \<in> pending_ids v - pending_ids v' \<longrightarrow> gone_or_dead v' mid)"

lemma work_left_others:
  assumes "finite (pending_ids v)" "mid \<in> pending_ids v"
  shows "work_left cfg v = attempts_left cfg (the (v mid)) +
    (\<Sum>i\<in>pending_ids v - {mid}. attempts_left cfg (the ((v(mid := r)) i)))"
proof -
  have "(\<Sum>i\<in>pending_ids v - {mid}. attempts_left cfg (the ((v(mid := r)) i))) =
      (\<Sum>i\<in>pending_ids v - {mid}. attempts_left cfg (the (v i)))"
    by (rule sum.cong) auto
  then show ?thesis unfolding work_left_def by (simp add: sum.remove [OF assms])
qed

lemma retry_step:
  assumes fin: "finite (pending_ids v)" and v: "counters_ok v" "v mid = Some m" "m_state m = MSG_PENDING"
    and m': "m_state m' = MSG_PENDING" "attempts_left cfg m' < attempts_left cfg m" "unat (m_attempt_count m') + 1 < 2 ^ 32"
      "sint (m_next_retry_at_us m') \<le> bound"
  shows "settling_step cfg bound v (v(mid \<mapsto> m'))"
proof -
  have mp: "mid \<in> pending_ids v" using v by (simp add: pending_ids_def)
  then have p: "pending_ids (v(mid \<mapsto> m')) = pending_ids v" by (auto simp: pending_ids_upd m'(1))
  have "work_left cfg (v(mid \<mapsto> m')) = attempts_left cfg m' +
      (\<Sum>i\<in>pending_ids v - {mid}. attempts_left cfg (the ((v(mid \<mapsto> m')) i)))"
    unfolding work_left_def p by (subst sum.remove [OF fin mp]) simp
  then have "work_left cfg (v(mid \<mapsto> m')) < work_left cfg v"
    using work_left_others [OF fin mp, of cfg "Some m'"] m'(2) v(2) by simp
  then show ?thesis using v(1) m' mp by (auto simp: settling_step_def p counters_ok_def all_due_def)
qed

lemma end_step:
  assumes fin: "finite (pending_ids v)" and v: "counters_ok v" "mid \<in> pending_ids v"
    and r: "r = None \<or> (\<exists>m'. r = Some m' \<and> m_state m' = MSG_DEAD_LETTER)"
  shows "settling_step cfg bound v (v(mid := r))"
proof -
  have p: "pending_ids (v(mid := r)) = pending_ids v - {mid}" using r by (auto simp: pending_ids_upd)
  have "1 \<le> attempts_left cfg (the (v mid))" by (simp add: attempts_left_def)
  then have "work_left cfg (v(mid := r)) < work_left cfg v"
    using work_left_others [OF fin v(2), of cfg r] by (simp add: work_left_def p)
  then show ?thesis using v r by (auto simp: settling_step_def p counters_ok_def all_due_def gone_or_dead_def)
qed

context reliable_backend
begin

lemma keeps_rewrite: "keeps_header rewrite"
  using rewrite_body by (simp add: keeps_header_def)

lemma iteration_settles:
  assumes cfg: "max_attempts (w_retry_cfg w) \<noteq> 0" "1 \<le> unat (multiplier (w_retry_cfg w))"
    and ops: "q_storage_ops q = ops" and good: "good (Suc (Suc k)) (q_storage_ctx q)"
    and v: "counters_ok (view (q_storage_ctx q))" "all_due (view (q_storage_ctx q)) claim_us"
    and time: "sint done_us + int (unat (max_delay_ms (w_retry_cfg w))) * 1000 < 2 ^ 63"
    and run: "worker_iteration T w q t claim_us done_us rnd tr = (q', t', tr')"
  shows "settling_step (w_retry_cfg w) (sint done_us + int (unat (max_delay_ms (w_retry_cfg w))) * 1000)
    (view (q_storage_ctx q)) (view (q_storage_ctx q'))"
proof -
  let ?v = "view (q_storage_ctx q)" and ?v' = "view (q_storage_ctx q')" and ?cfg = "w_retry_cfg w"
  note E = worker_iteration_effect [OF ops good run]
  have fin: "finite (pending_ids ?v)"
    by (rule finite_subset [OF _ view_finite [OF good]]) (auto simp: pending_ids_def)
  show ?thesis
  proof (cases "\<exists>mid m. ?v mid = Some m \<and> eligible claim_us m")
    case True
    obtain m r where m: "?v (m_id m) = Some m" "m_state m = MSG_PENDING"
      "?v' = ?v(m_id m := fst (settled rewrite ?cfg (claimed m claim_us) r done_us rnd))"
      using E unfolding if_P [OF True] by (auto simp: first_to_claim_def eligible_def)
    have mp: "m_id m \<in> pending_ids ?v" using m by (simp add: pending_ids_def)
    have c: "unat (m_attempt_count m) + 1 < 2 ^ 32" using v(1) m by (auto simp: counters_ok_def)
    show ?thesis
    proof (cases "\<exists>m'. fst (settled rewrite ?cfg (claimed m claim_us) r done_us rnd) = Some m' \<and> m_state m' = MSG_PENDING")
      case True
      then obtain m' where m': "fst (settled rewrite ?cfg (claimed m claim_us) r done_us rnd) = Some m'" "m_state m' = MSG_PENDING"
        by blast
      show ?thesis unfolding m(3) m'(1)
        by (rule retry_step [OF fin v(1) m(1,2) m'(2)]) (rule attempt_settles [OF keeps_rewrite cfg c time m'])+
    next
      case False
      show ?thesis unfolding m(3)
        by (rule end_step [OF fin v(1) mp]) (use False settled_cases(4) [OF keeps_rewrite] in \<open>metis option.exhaust\<close>)
    qed
  next
    case False
    then have "pending_ids ?v = {}" using v(2) by (auto simp: pending_ids_def all_due_def eligible_def)
    moreover have "?v' = ?v" using E unfolding if_not_P [OF False] by blast
    ultimately show ?thesis using v(1) by (simp add: settling_step_def work_left_def)
  qed
qed

lemma worker_settles:
  assumes cfg: "max_attempts (w_retry_cfg w) \<noteq> 0" "1 \<le> unat (multiplier (w_retry_cfg w))"
  shows "q_storage_ops q = ops \<Longrightarrow> good (k + 2 * length env) (q_storage_ctx q) \<Longrightarrow> paced (w_retry_cfg w) env \<Longrightarrow>
    counters_ok (view (q_storage_ctx q)) \<Longrightarrow>
    \<forall>(stop, claim_us, done_us, rnd)\<in>set env. all_due (view (q_storage_ctx q)) claim_us \<Longrightarrow>
    worker_task T w env q t tr = (stopped, q', t', tr') \<Longrightarrow>
    work_left (w_retry_cfg w) (view (q_storage_ctx q')) \<le> work_left (w_retry_cfg w) (view (q_storage_ctx q)) - length env \<and>
    good k (q_storage_ctx q') \<and>
    (\<forall>mid. mid \<notin> pending_ids (view (q_storage_ctx q)) \<longrightarrow> view (q_storage_ctx q') mid = view (q_storage_ctx q) mid) \<and>
    (\<forall>mid. mid \<in> pending_ids (view (q_storage_ctx q)) - pending_ids (view (q_storage_ctx q')) \<longrightarrow> gone_or_dead (view (q_storage_ctx q')) mid)"
proof (induction env arbitrary: q t tr)
  case Nil
  then show ?case by simp
next
  case (Cons e env)
  let ?v = "\<lambda>q. view (q_storage_ctx q)" and ?cfg = "w_retry_cfg w"
  obtain claim_us done_us rnd where e: "e = (False, claim_us, done_us, rnd)" using Cons.prems(3) by (cases e) auto
  obtain q1 t1 tr1 where 1: "worker_iteration T w q t claim_us done_us rnd tr = (q1, t1, tr1)" by (metis prod.exhaust)
  have g: "good (Suc (Suc (k + 2 * length env))) (q_storage_ctx q)" using Cons.prems(2) by simp
  have due: "all_due (?v q) claim_us" and time: "sint done_us + int (unat (max_delay_ms ?cfg)) * 1000 < 2 ^ 63"
    using Cons.prems(3,5) by (simp_all add: e)
  have S: "settling_step ?cfg (sint done_us + int (unat (max_delay_ms ?cfg)) * 1000) (?v q) (?v q1)"
    by (rule iteration_settles [OF cfg Cons.prems(1) g Cons.prems(4) due time 1])
  have q1: "q_storage_ops q1 = ops" "good (k + 2 * length env) (q_storage_ctx q1)"
    using worker_iteration_effect [OF Cons.prems(1) g 1] by blast+
  have later: "\<forall>(stop, claim_us, done_us, rnd)\<in>set env. all_due (?v q1) claim_us"
    using Cons.prems(3,5) S by (fastforce simp: e settling_step_def)
  have run: "worker_task T w env q1 t1 tr1 = (stopped, q', t', tr')" using Cons.prems(6) by (simp add: e 1)
  have pc: "paced ?cfg env" "counters_ok (?v q1)" using Cons.prems(3) S by (simp_all add: e settling_step_def)
  note IH = Cons.IH [OF q1 pc later run]
  have "work_left ?cfg (?v q') \<le> work_left ?cfg (?v q) - length (e # env)"
    using conjunct1 [OF IH] conjunct1 [OF S [unfolded settling_step_def]] by simp
  moreover have "?v q' mid = ?v q mid" if "mid \<notin> pending_ids (?v q)" for mid
  proof -
    have "?v q1 mid = ?v q mid" using S that by (simp add: settling_step_def)
    then show ?thesis using IH that by (simp add: pending_ids_def)
  qed
  moreover have "gone_or_dead (?v q') mid" if "mid \<in> pending_ids (?v q) - pending_ids (?v q')" for mid
  proof (cases "mid \<in> pending_ids (?v q1)")
    case True
    then show ?thesis using IH that by blast
  next
    case False
    then have "gone_or_dead (?v q1) mid" "?v q' mid = ?v q1 mid" using S IH that by (auto simp: settling_step_def)
    then show ?thesis by (simp add: gone_or_dead_def)
  qed
  ultimately show ?case using IH by blast
qed

end

end
