(* ===== verification/ES_Wakeup.thy ===== *)
theory ES_Wakeup
  imports ES_Settling
begin

text \<open>
  The tasks of a running instance at the grain of their synchronisation: publishers inside
  \<open>edgesync_queue_publish\<close> (\<open>edgesync_queue.c\<close>), the worker task with its notification, and the task
  that calls \<open>edgesync_worker_stop\<close> (\<open>edgesync_worker.c\<close>).  Each task has a program counter; the
  functions below are its steps, \<open>None\<close> where it is blocked, and \<open>cc_step\<close> interleaves them.
\<close>

section \<open>State\<close>

datatype worker_pc = Checking | Claiming | Waiting nat | Delivering message | Handling message delivery_result | Ended

datatype stop_pc = Running | Cleared | Requested | Joining | Stopped

text \<open>A publisher that has left the critical section and has its events and the wake-up still to do.\<close>

record publishing =
  pb_msg :: message
  pb_err :: esp_err
  pb_dropped :: "message_id option"
  pb_wake :: bool

text \<open>
  \<open>cc_notified\<close> is the notification value of the worker task, \<open>cc_freed\<close> says that the worker
  structure has been freed and \<open>cc_fault\<close> that it was used after that.  Two variables are history:
  the time of the last claim and the identifiers in use.
\<close>

record ('c, 't) tasks =
  cc_queue :: "'c queue"
  cc_transport :: 't
  cc_worker :: worker
  cc_pc :: worker_pc
  cc_notified :: nat
  cc_stopped_sem :: bool
  cc_stop :: stop_pc
  cc_publishing :: "publishing list"
  cc_trace :: "event list"
  cc_freed :: bool
  cc_fault :: bool
  cc_last_claim :: i64
  cc_used :: "message_id set"

definition cc_start :: "'c queue \<Rightarrow> worker \<Rightarrow> 't \<Rightarrow> message_id set \<Rightarrow> ('c, 't) tasks" where
  "cc_start q w t used = \<lparr>cc_queue = q, cc_transport = t, cc_worker = w, cc_pc = Checking, cc_notified = 0,
     cc_stopped_sem = False, cc_stop = Running, cc_publishing = [], cc_trace = [], cc_freed = False, cc_fault = False,
     cc_last_claim = 0, cc_used = used\<rparr>"

section \<open>Steps\<close>

definition use_worker :: "('c, 't) tasks \<Rightarrow> ('c, 't) tasks" where
  "use_worker s = s\<lparr>cc_fault := cc_fault s \<or> cc_freed s\<rparr>"

text \<open>\<open>xTaskNotifyGive\<close> of FreeRTOS increments the notification value of the task.\<close>

definition notify_give :: "('c, 't) tasks \<Rightarrow> ('c, 't) tasks" where
  "notify_give s = s\<lparr>cc_notified := cc_notified s + 1\<rparr>"

definition wake_cb :: "('c, 't) tasks \<Rightarrow> ('c, 't) tasks" where
  "wake_cb s = notify_give (use_worker s)"

text \<open>\<open>ulTaskNotifyTake(pdTRUE, ...)\<close> returns once the value is not zero, or on a timeout, and clears it.\<close>

definition notify_take :: "bool \<Rightarrow> ('c, 't) tasks \<Rightarrow> ('c, 't) tasks option" where
  "notify_take timed_out s = (if cc_notified s \<noteq> 0 \<or> timed_out then Some (s\<lparr>cc_notified := 0\<rparr>) else None)"

text \<open>
  \<open>edgesync_queue_publish\<close>: the critical section, in which the callback pointer is copied, and what
  comes after the mutex is released: the events, and the call of the copied pointer.
\<close>

definition publish_enter :: "message \<Rightarrow> ('c, 't) tasks \<Rightarrow> ('c, 't) tasks" where
  "publish_enter msg s =
     (let (err, dropped, q) = publish_locked (cc_queue s) msg
      in s\<lparr>cc_queue := q, cc_used := insert (m_id msg) (cc_used s),
           cc_publishing := cc_publishing s @
             [\<lparr>pb_msg = msg, pb_err = err, pb_dropped = dropped, pb_wake = (err = ESP_OK \<and> q_wake_cb q)\<rparr>]\<rparr>)"

definition publish_leave :: "publishing \<Rightarrow> ('c, 't) tasks \<Rightarrow> ('c, 't) tasks" where
  "publish_leave p s =
     (let cb = q_event_cb (cc_queue s);
          tr = (case pb_dropped p of None \<Rightarrow> cc_trace s
                | Some mid \<Rightarrow> events_fire cb EVENT_QUEUE_FULL (blank_message mid) (cc_trace s));
          s = s\<lparr>cc_publishing := remove1 p (cc_publishing s)\<rparr>
      in if pb_err p = ESP_OK then
           let s = s\<lparr>cc_trace := events_fire cb EVENT_QUEUED (pb_msg p) tr\<rparr>
           in if pb_wake p then wake_cb s else s
         else if pb_err p = EDGESYNC_ERR_QUEUE_FULL
         then s\<lparr>cc_trace := events_fire cb EVENT_QUEUE_FULL (pb_msg p) tr\<rparr>
         else s\<lparr>cc_trace := tr\<rparr>)"

text \<open>
  One step of \<open>worker_task\<close>: the test of the stop flag, the claim, the wait, the transmission, the
  bookkeeping.  The environment gives the clock, the random value and whether a wait times out.
\<close>

type_synonym env = "i64 \<times> u32 \<times> bool"

definition task_step :: "'t transport_ops \<Rightarrow> env \<Rightarrow> ('c, 't) tasks \<Rightarrow> ('c, 't) tasks option" where
  "task_step T env s =
     (case env of (now_us, rnd, timed_out) \<Rightarrow> let w = cc_worker s in
      case cc_pc s of
        Checking \<Rightarrow>
          Some (if w_stop_requested w then (use_worker s)\<lparr>cc_stopped_sem := True, cc_pc := Ended\<rparr>
                else (use_worker s)\<lparr>cc_pc := Claiming\<rparr>)
      | Claiming \<Rightarrow>
          let (out, q, tr) = worker_claim w (cc_queue s) now_us (cc_trace s)
          in Some ((use_worker s)\<lparr>cc_queue := q, cc_trace := tr, cc_last_claim := now_us,
               cc_pc := (case out of Wait ms \<Rightarrow> Waiting ms | Again \<Rightarrow> Checking | Deliver msg \<Rightarrow> Delivering msg)\<rparr>)
      | Waiting ms \<Rightarrow> map_option (\<lambda>s. s\<lparr>cc_pc := Checking\<rparr>) (notify_take timed_out s)
      | Delivering msg \<Rightarrow>
          let (result, _, t) = tr_deliver T (cc_transport s) msg
          in Some ((use_worker s)\<lparr>cc_transport := t, cc_pc := Handling msg result\<rparr>)
      | Handling msg result \<Rightarrow>
          let (q, tr) = handle_delivery_result w (cc_queue s) msg result now_us rnd (cc_trace s)
          in Some ((use_worker s)\<lparr>cc_queue := q, cc_trace := tr, cc_pc := Checking\<rparr>)
      | Ended \<Rightarrow> None)"

text \<open>One step of \<open>edgesync_worker_stop\<close>; the last one waits for the semaphore and frees the worker.\<close>

definition stop_step :: "('c, 't) tasks \<Rightarrow> ('c, 't) tasks option" where
  "stop_step s =
     (case cc_stop s of
        Running \<Rightarrow> Some (s\<lparr>cc_queue := queue_set_wake_cb (cc_queue s) False, cc_stop := Cleared\<rparr>)
      | Cleared \<Rightarrow> Some (s\<lparr>cc_worker := (cc_worker s)\<lparr>w_stop_requested := True\<rparr>, cc_stop := Requested\<rparr>)
      | Requested \<Rightarrow> Some ((notify_give s)\<lparr>cc_stop := Joining\<rparr>)
      | Joining \<Rightarrow>
          if cc_stopped_sem s then Some (s\<lparr>cc_stopped_sem := False, cc_freed := True, cc_stop := Stopped\<rparr>) else None
      | Stopped \<Rightarrow> None)"

text \<open>The interleaving; each step is labelled with the task that makes it.\<close>

datatype label = Publish message | Leave publishing | Work | Stop

inductive cc_step :: "'t transport_ops \<Rightarrow> ('c, 't) tasks \<Rightarrow> label \<Rightarrow> ('c, 't) tasks \<Rightarrow> bool" for T where
  enter: "cc_step T s (Publish msg) (publish_enter msg s)" if "m_id msg \<notin> cc_used s"
| leave: "cc_step T s (Leave p) (publish_leave p s)" if "p \<in> set (cc_publishing s)"
| work: "cc_step T s Work s'" if "task_step T env s = Some s'"
| stop: "cc_step T s Stop s'" if "stop_step s = Some s'"

inductive_cases cc_stepE: "cc_step T s l s'"
inductive_simps cc_step_work: "cc_step T s Work s'"
inductive_simps cc_step_stop: "cc_step T s Stop s'"

inductive cc_run :: "'t transport_ops \<Rightarrow> ('c, 't) tasks \<Rightarrow> label list \<Rightarrow> ('c, 't) tasks \<Rightarrow> bool" for T where
  cc_refl: "cc_run T s [] s"
| cc_more: "cc_run T s (ls @ [l]) s''" if "cc_run T s ls s'" "cc_step T s' l s''"

text \<open>The storage operations a step may perform.\<close>

fun label_cost :: "label \<Rightarrow> nat" where
  "label_cost (Publish msg) = 3"
| "label_cost (Leave p) = 0"
| "label_cost Work = 1"
| "label_cost Stop = 0"

definition run_cost :: "label list \<Rightarrow> nat" where
  "run_cost ls = sum_list (map label_cost ls)"

lemma run_cost_simps [simp]: "run_cost [] = 0" "run_cost (ls @ ms) = run_cost ls + run_cost ms"
  "run_cost (l # ls) = label_cost l + run_cost ls"
  by (simp_all add: run_cost_def)

lemma cc_step_new: "cc_step T s (Publish msg) s' \<Longrightarrow> m_id msg \<notin> cc_used s \<and> s' = publish_enter msg s"
  by (auto elim: cc_stepE)

lemma publish_steps_frame [simp]:
  "cc_pc (publish_enter msg s) = cc_pc s" "cc_pc (publish_leave p s) = cc_pc s"
  "cc_worker (publish_enter msg s) = cc_worker s" "cc_worker (publish_leave p s) = cc_worker s"
  "cc_stop (publish_enter msg s) = cc_stop s" "cc_stop (publish_leave p s) = cc_stop s"
  "cc_freed (publish_enter msg s) = cc_freed s" "cc_freed (publish_leave p s) = cc_freed s"
  "cc_stopped_sem (publish_enter msg s) = cc_stopped_sem s" "cc_stopped_sem (publish_leave p s) = cc_stopped_sem s"
  "cc_notified (publish_enter msg s) = cc_notified s" "cc_fault (publish_enter msg s) = cc_fault s"
  "cc_queue (publish_leave p s) = cc_queue s" "cc_last_claim (publish_enter msg s) = cc_last_claim s"
  "cc_last_claim (publish_leave p s) = cc_last_claim s" "cc_used (publish_leave p s) = cc_used s"
  "cc_used (publish_enter msg s) = insert (m_id msg) (cc_used s)"
  "cc_publishing (publish_leave p s) = remove1 p (cc_publishing s)"
  by (simp_all add: publish_enter_def publish_leave_def wake_cb_def notify_give_def use_worker_def Let_def split_def)

lemma publish_leave_notified:
  "cc_notified (publish_leave p s) = cc_notified s + of_bool (pb_err p = ESP_OK \<and> pb_wake p)"
  "cc_fault (publish_leave p s) = (cc_fault s \<or> cc_freed s \<and> pb_err p = ESP_OK \<and> pb_wake p)"
  by (simp_all add: publish_leave_def wake_cb_def notify_give_def use_worker_def Let_def)

text \<open>With nothing in between, the two halves are \<open>queue_publish\<close>.\<close>

lemma publish_halves:
  assumes "queue_publish (cc_queue s) msg (cc_trace s) = (err, q, tr, woken)"
  shows "\<exists>p. pb_err p = err \<and> cc_publishing (publish_enter msg s) = cc_publishing s @ [p] \<and>
    (let s' = publish_leave p (publish_enter msg s)
     in cc_queue s' = q \<and> cc_trace s' = tr \<and> cc_notified s' = cc_notified s + of_bool woken)"
proof -
  obtain e d q1 where 1: "publish_locked (cc_queue s) msg = (e, d, q1)" by (metis prod.exhaust)
  let ?p = "\<lparr>pb_msg = msg, pb_err = e, pb_dropped = d, pb_wake = (e = ESP_OK \<and> q_wake_cb q1)\<rparr>"
  have "err = e" "q = q1" "woken = (e = ESP_OK \<and> q_wake_cb q1)"
    using assms by (auto simp: queue_publish_def 1 Let_def split: if_splits)
  moreover have "cc_trace (publish_leave ?p (publish_enter msg s)) = tr"
    using assms by (auto simp: queue_publish_def 1 Let_def publish_leave_def publish_enter_def wake_cb_def notify_give_def
        use_worker_def split: if_splits option.splits)
  ultimately show ?thesis
    by (intro exI [of _ ?p]) (simp add: 1 publish_leave_notified Let_def publish_enter_def)
qed

text \<open>What \<open>edgesync_worker_start\<close> leaves behind.\<close>

lemma worker_started:
  assumes "worker_start config pointers_set out_valid allocated sem_created task_created q0 = (ESP_OK, Some w, q)"
  shows "q = queue_set_wake_cb q0 True" "q_wake_cb q" "\<not> w_stop_requested w" "q_storage_ops q = q_storage_ops q0"
    "q_storage_ctx q = q_storage_ctx q0"
  using assms by (auto simp: worker_start_def queue_set_wake_cb_def split: option.splits if_splits)

section \<open>Stopping\<close>

text \<open>What holds whatever the storage does.\<close>

definition stop_inv :: "('c, 't) tasks \<Rightarrow> bool" where
  "stop_inv s \<longleftrightarrow>
     (w_stop_requested (cc_worker s) \<longleftrightarrow> cc_stop s \<in> {Requested, Joining, Stopped}) \<and>
     (cc_stop s = Running \<longrightarrow> q_wake_cb (cc_queue s)) \<and> (cc_stop s \<noteq> Running \<longrightarrow> \<not> q_wake_cb (cc_queue s)) \<and>
     (cc_freed s \<longleftrightarrow> cc_stop s = Stopped) \<and>
     (cc_pc s = Ended \<longrightarrow> cc_stopped_sem s \<or> cc_stop s = Stopped) \<and>
     (cc_stopped_sem s \<or> cc_stop s = Stopped \<longrightarrow> cc_pc s = Ended) \<and>
     (cc_stop s = Joining \<and> cc_pc s \<notin> {Checking, Ended} \<longrightarrow> cc_notified s \<noteq> 0) \<and>
     (\<forall>p\<in>set (cc_publishing s). pb_wake p \<longrightarrow> pb_err p = ESP_OK)"

lemma publish_locked_cb: "publish_locked q msg = (err, dropped, q') \<Longrightarrow> q_wake_cb q' = q_wake_cb q"
  by (auto simp: publish_locked_def Let_def split: prod.splits if_splits)

lemma worker_claim_cb: "worker_claim w q now_us tr = (out, q', tr') \<Longrightarrow> q_wake_cb q' = q_wake_cb q"
  by (auto simp: worker_claim_def queue_claim_next_def Let_def split: prod.splits if_splits)

lemma queue_bookkeeping_cb:
  "q_wake_cb (snd (queue_mark_delivered q mid)) = q_wake_cb q"
  "q_wake_cb (snd (queue_schedule_retry q mid next_us dead er)) = q_wake_cb q"
  by (simp_all add: queue_mark_delivered_def queue_schedule_retry_def Let_def split: prod.splits)

lemma handle_result_cb:
  "handle_delivery_result w q msg result now_us rnd tr = (q', tr') \<Longrightarrow> q_wake_cb q' = q_wake_cb q"
  by (auto simp: handle_delivery_result_def handle_retryable_failure_def Let_def split_def queue_bookkeeping_cb
      split: delivery_result.splits if_splits)

lemma stop_inv_start:
  assumes "q_wake_cb q" "\<not> w_stop_requested w"
  shows "stop_inv (cc_start q w t used)"
  using assms by (simp add: stop_inv_def cc_start_def)

lemma stop_inv_publish: "stop_inv s \<Longrightarrow> stop_inv (publish_enter msg s)"
  by (cases "publish_locked (cc_queue s) msg")
    (auto simp: stop_inv_def publish_enter_def Let_def dest: publish_locked_cb)

lemma stop_inv_leave: "stop_inv s \<Longrightarrow> stop_inv (publish_leave p s)"
  unfolding stop_inv_def publish_steps_frame publish_leave_notified
  by (auto dest: notin_set_remove1)

lemma task_step_cases:
  assumes "task_step T (now_us, rnd, timed_out) s = Some s'"
  obtains (leave_loop) "cc_pc s = Checking" "w_stop_requested (cc_worker s)"
      "s' = (use_worker s)\<lparr>cc_stopped_sem := True, cc_pc := Ended\<rparr>"
  | (go_on) "cc_pc s = Checking" "\<not> w_stop_requested (cc_worker s)" "s' = (use_worker s)\<lparr>cc_pc := Claiming\<rparr>"
  | (claim) out q tr where "cc_pc s = Claiming" "worker_claim (cc_worker s) (cc_queue s) now_us (cc_trace s) = (out, q, tr)"
      "s' = (use_worker s)\<lparr>cc_queue := q, cc_trace := tr, cc_last_claim := now_us,
         cc_pc := (case out of Wait ms \<Rightarrow> Waiting ms | Again \<Rightarrow> Checking | Deliver msg \<Rightarrow> Delivering msg)\<rparr>"
  | (wake) ms where "cc_pc s = Waiting ms" "cc_notified s \<noteq> 0 \<or> timed_out" "s' = s\<lparr>cc_notified := 0, cc_pc := Checking\<rparr>"
  | (send) msg result status t where "cc_pc s = Delivering msg" "tr_deliver T (cc_transport s) msg = (result, status, t)"
      "s' = (use_worker s)\<lparr>cc_transport := t, cc_pc := Handling msg result\<rparr>"
  | (settle) msg result q tr where "cc_pc s = Handling msg result"
      "handle_delivery_result (cc_worker s) (cc_queue s) msg result now_us rnd (cc_trace s) = (q, tr)"
      "s' = (use_worker s)\<lparr>cc_queue := q, cc_trace := tr, cc_pc := Checking\<rparr>"
proof (cases "cc_pc s")
  case Checking
  then show thesis using assms leave_loop go_on
    by (cases "w_stop_requested (cc_worker s)") (simp_all add: task_step_def Let_def)
next
  case Claiming
  obtain out q tr where "worker_claim (cc_worker s) (cc_queue s) now_us (cc_trace s) = (out, q, tr)" by (metis prod.exhaust)
  then show thesis using assms Claiming claim by (simp add: task_step_def Let_def)
next
  case (Waiting ms)
  then show thesis using assms wake by (simp add: task_step_def notify_take_def Let_def split: if_splits)
next
  case (Delivering msg)
  obtain result status t where "tr_deliver T (cc_transport s) msg = (result, status, t)" by (metis prod.exhaust)
  then show thesis using assms Delivering send by (simp add: task_step_def Let_def)
next
  case (Handling msg result)
  obtain q tr where "handle_delivery_result (cc_worker s) (cc_queue s) msg result now_us rnd (cc_trace s) = (q, tr)"
    by (metis prod.exhaust)
  then show thesis using assms Handling settle by (simp add: task_step_def Let_def)
next
  case Ended
  then show thesis using assms by (simp add: task_step_def Let_def)
qed

lemma use_worker_frame [simp]:
  "cc_pc (use_worker s) = cc_pc s" "cc_worker (use_worker s) = cc_worker s" "cc_stop (use_worker s) = cc_stop s"
  "cc_freed (use_worker s) = cc_freed s" "cc_stopped_sem (use_worker s) = cc_stopped_sem s"
  "cc_notified (use_worker s) = cc_notified s" "cc_queue (use_worker s) = cc_queue s"
  "cc_publishing (use_worker s) = cc_publishing s" "cc_last_claim (use_worker s) = cc_last_claim s"
  "cc_used (use_worker s) = cc_used s" "cc_fault (use_worker s) = (cc_fault s \<or> cc_freed s)"
  by (simp_all add: use_worker_def)

lemma stop_inv_work:
  assumes inv: "stop_inv s" and step: "task_step T env s = Some s'"
  shows "stop_inv s'"
proof -
  obtain now_us rnd timed where "env = (now_us, rnd, timed)" by (metis prod.exhaust)
  from step [unfolded this] show ?thesis
  proof (cases rule: task_step_cases)
    case (claim out q tr)
    then show ?thesis using inv worker_claim_cb [OF claim(2)] by (cases out) (auto simp: stop_inv_def)
  next
    case (settle msg result q tr)
    then show ?thesis using inv handle_result_cb [OF settle(2)] by (auto simp: stop_inv_def)
  qed (use inv in \<open>auto simp: stop_inv_def\<close>)
qed

lemma stop_inv_stop: "stop_inv s \<Longrightarrow> stop_step s = Some s' \<Longrightarrow> stop_inv s'"
  by (cases "cc_stop s") (auto simp: stop_step_def stop_inv_def notify_give_def queue_set_wake_cb_def split: if_splits)

lemma stop_inv_step: "cc_step T s l s' \<Longrightarrow> stop_inv s \<Longrightarrow> stop_inv s'"
  by (erule cc_stepE) (auto intro: stop_inv_publish stop_inv_leave stop_inv_work stop_inv_stop)

lemma stop_inv_run: "cc_run T s ls s' \<Longrightarrow> stop_inv s \<Longrightarrow> stop_inv s'"
  by (induction rule: cc_run.induct) (auto intro: stop_inv_step)

text \<open>The steps the worker has left once the stop flag is set.\<close>

fun steps_left :: "worker_pc \<Rightarrow> nat" where
  "steps_left Ended = 0"
| "steps_left Checking = 1"
| "steps_left (Waiting ms) = 2"
| "steps_left (Handling msg result) = 2"
| "steps_left (Delivering msg) = 3"
| "steps_left Claiming = 4"

lemma work_progress:
  assumes "w_stop_requested (cc_worker s)" "task_step T env s = Some s'"
  shows "steps_left (cc_pc s') < steps_left (cc_pc s)" "cc_worker s' = cc_worker s" "cc_stop s' = cc_stop s"
proof -
  obtain now_us rnd timed where "env = (now_us, rnd, timed)" by (metis prod.exhaust)
  from assms(2) [unfolded this]
  have "steps_left (cc_pc s') < steps_left (cc_pc s) \<and> cc_worker s' = cc_worker s \<and> cc_stop s' = cc_stop s"
  proof (cases rule: task_step_cases)
    case (claim out q tr)
    then show ?thesis by (cases out) simp_all
  qed (use assms(1) in simp_all)
  then show "steps_left (cc_pc s') < steps_left (cc_pc s)" "cc_worker s' = cc_worker s" "cc_stop s' = cc_stop s" by blast+
qed

lemma step_progress:
  assumes "cc_step T s l s'" "stop_inv s" "cc_stop s \<in> {Joining, Stopped}"
  shows "steps_left (cc_pc s') + of_bool (l = Work) \<le> steps_left (cc_pc s)" "cc_stop s' \<in> {Joining, Stopped}"
proof -
  have r: "w_stop_requested (cc_worker s)" using assms(2,3) by (auto simp: stop_inv_def)
  have "steps_left (cc_pc s') + of_bool (l = Work) \<le> steps_left (cc_pc s) \<and> cc_stop s' \<in> {Joining, Stopped}"
    using assms(1)
  proof cases
    case (work env)
    then show ?thesis using work_progress [OF r work(2)] assms(3) by simp
  next
    case stop
    then show ?thesis using assms(3) by (auto simp: stop_step_def split: if_splits)
  qed (use assms(3) in auto)
  then show "steps_left (cc_pc s') + of_bool (l = Work) \<le> steps_left (cc_pc s)" "cc_stop s' \<in> {Joining, Stopped}"
    by blast+
qed

lemma run_progress:
  assumes "cc_run T s ls s'" "stop_inv s" "cc_stop s \<in> {Joining, Stopped}"
  shows "steps_left (cc_pc s') + count_list ls Work \<le> steps_left (cc_pc s) \<and> cc_stop s' \<in> {Joining, Stopped}"
  using assms
proof (induction rule: cc_run.induct)
  case (cc_refl s)
  then show ?case by simp
next
  case (cc_more s ls s' l s'')
  have i: "stop_inv s'" by (rule stop_inv_run [OF cc_more.hyps(1) cc_more.prems(1)])
  have "steps_left (cc_pc s') + count_list ls Work \<le> steps_left (cc_pc s)" "cc_stop s' \<in> {Joining, Stopped}"
    using cc_more.IH [OF cc_more.prems] by blast+
  then show ?case using step_progress [OF cc_more.hyps(2) i] by (cases "l = Work") auto
qed

text \<open>The worker is not blocked while it is asked to stop.\<close>

lemma work_enabled:
  assumes "stop_inv s" "cc_stop s = Joining" "cc_pc s \<noteq> Ended"
  shows "task_step T env s \<noteq> None"
  using assms by (cases "cc_pc s") (simp_all add: task_step_def stop_inv_def notify_take_def Let_def split_def)

text \<open>Left alone with the processor, it ends and the stopping task frees it.\<close>

lemma cc_run_append: "cc_run T s' ms s'' \<Longrightarrow> cc_run T s ls s' \<Longrightarrow> cc_run T s (ls @ ms) s''"
proof (induction rule: cc_run.induct)
  case (cc_refl s)
  then show ?case by simp
next
  case (cc_more s1 ms s2 l s3)
  show ?case unfolding append_assoc [symmetric] by (rule cc_run.cc_more [OF cc_more.IH [OF cc_more.prems] cc_more.hyps(2)])
qed

lemma cc_one: "cc_step T s l s' \<Longrightarrow> cc_run T s [l] s'"
  using cc_more [OF cc_refl, of T s l s'] by simp

lemma work_publishing: "task_step T env s = Some s' \<Longrightarrow> cc_publishing s' = cc_publishing s"
proof -
  assume step: "task_step T env s = Some s'"
  obtain now_us rnd timed where "env = (now_us, rnd, timed)" by (metis prod.exhaust)
  from step [unfolded this] show ?thesis by (cases rule: task_step_cases) simp_all
qed

lemma stop_publishing: "stop_step s = Some s' \<Longrightarrow> cc_publishing s' = cc_publishing s"
  by (auto simp: stop_step_def notify_give_def split: stop_pc.splits if_splits)

lemma join_completes:
  assumes "stop_inv s" "cc_stop s = Joining"
  shows "\<exists>ls s'. cc_run T s ls s' \<and> set ls \<subseteq> {Work, Stop} \<and> cc_stop s' = Stopped \<and> cc_publishing s' = cc_publishing s"
  using assms
proof (induction "steps_left (cc_pc s)" arbitrary: s rule: less_induct)
  case less
  show ?case
  proof (cases "cc_pc s = Ended")
    case True
    then have "cc_stopped_sem s" using less.prems by (simp add: stop_inv_def)
    then obtain s' where s': "stop_step s = Some s'" "cc_stop s' = Stopped" using less.prems(2) by (simp add: stop_step_def)
    show ?thesis using cc_one [OF cc_step.stop [OF s'(1)]] s' stop_publishing [OF s'(1)]
      by (intro exI [of _ "[Stop]"] exI [of _ s']) simp
  next
    case False
    obtain s' where s': "task_step T (0, 0, False) s = Some s'" using work_enabled [OF less.prems False] by blast
    have r: "w_stop_requested (cc_worker s)" using less.prems by (simp add: stop_inv_def)
    note P = work_progress [OF r s']
    obtain ls s'' where R: "cc_run T s' ls s''" "set ls \<subseteq> {Work, Stop}" "cc_stop s'' = Stopped"
      "cc_publishing s'' = cc_publishing s'"
      using less.hyps [OF P(1) stop_inv_work [OF less.prems(1) s']] P(3) less.prems(2) by auto
    show ?thesis using cc_run_append [OF R(1) cc_one [OF cc_step.work [OF s']]] R work_publishing [OF s']
      by (intro exI [of _ "[Work] @ ls"] exI [of _ s'']) simp
  qed
qed

lemma stop_completes_from:
  assumes "stop_inv s" "cc_stop s = Running"
  shows "\<exists>ls s'. cc_run T s ls s' \<and> set ls \<subseteq> {Work, Stop} \<and> cc_stop s' = Stopped \<and> cc_publishing s' = cc_publishing s"
proof -
  obtain s1 where 1: "stop_step s = Some s1" "cc_stop s1 = Cleared" using assms(2) by (simp add: stop_step_def)
  obtain s2 where 2: "stop_step s1 = Some s2" "cc_stop s2 = Requested" using 1(2) by (simp add: stop_step_def)
  obtain s3 where 3: "stop_step s2 = Some s3" "cc_stop s3 = Joining" using 2(2) by (simp add: stop_step_def)
  have i: "stop_inv s3" using assms(1) stop_inv_stop 1(1) 2(1) 3(1) by metis
  obtain ls s' where R: "cc_run T s3 ls s'" "set ls \<subseteq> {Work, Stop}" "cc_stop s' = Stopped"
    "cc_publishing s' = cc_publishing s3" using join_completes [OF i 3(2)] by blast
  have "cc_run T s ((([] @ [Stop]) @ [Stop]) @ [Stop]) s3"
    by (rule cc_more [OF cc_more [OF cc_more [OF cc_refl]]]) (rule cc_step.stop, fact)+
  from cc_run_append [OF R(1) this] show ?thesis
    using R(2-4) stop_publishing [OF 1(1)] stop_publishing [OF 2(1)] stop_publishing [OF 3(1)]
    by (intro exI [of _ "((([] @ [Stop]) @ [Stop]) @ [Stop]) @ ls"] exI [of _ s']) simp
qed

section \<open>No wake-up is lost\<close>

text \<open>
  A sleeping worker has nothing to do unless a notification is on its way: it is pending, or a
  publisher still holds the callback it copied.
\<close>

definition notified_soon :: "('c, 't) tasks \<Rightarrow> bool" where
  "notified_soon s \<longleftrightarrow> cc_notified s \<noteq> 0 \<or> (\<exists>p\<in>set (cc_publishing s). pb_wake p)"

definition nothing_due :: "queue_view \<Rightarrow> i64 \<Rightarrow> bool" where
  "nothing_due v now_us \<longleftrightarrow> (\<forall>mid m. v mid = Some m \<longrightarrow> \<not> eligible now_us m)"

definition task_holds :: "worker_pc \<Rightarrow> message option" where
  "task_holds pc = (case pc of Delivering m \<Rightarrow> Some m | Handling m r \<Rightarrow> Some m | _ \<Rightarrow> None)"

definition wake_inv :: "queue_view \<Rightarrow> ('c, 't) tasks \<Rightarrow> bool" where
  "wake_inv v s \<longleftrightarrow> stop_inv s \<and> dom v \<subseteq> cc_used s \<and>
     (\<forall>m. task_holds (cc_pc s) = Some m \<longrightarrow> v (m_id m) = Some m \<and> m_state m = MSG_IN_FLIGHT) \<and>
     (\<forall>ms. cc_pc s = Waiting ms \<longrightarrow> ms = CONFIG_EDGESYNC_WORKER_IDLE_POLL_MS \<and>
        (cc_stop s = Running \<and> \<not> notified_soon s \<longrightarrow> nothing_due v (cc_last_claim s)))"

lemma task_holds_simps [simp]:
  "task_holds Checking = None" "task_holds Claiming = None" "task_holds (Waiting ms) = None"
  "task_holds (Delivering m) = Some m" "task_holds (Handling m r) = Some m" "task_holds Ended = None"
  by (simp_all add: task_holds_def)

text \<open>What a publish adds to the stored messages and what it leaves alone.\<close>

lemma publish_effect_view:
  assumes "publish_effect policy capacity accepts v msg err d v'" "m_id msg \<notin> dom v"
  shows "v' mid = Some m \<Longrightarrow> v mid = Some m \<or> err = ESP_OK \<and> mid = m_id msg"
    "v mid = Some m \<Longrightarrow> m_state m \<noteq> MSG_PENDING \<Longrightarrow> v' mid = Some m"
  using assms
  by (auto simp: publish_effect_def Let_def first_to_drop_def split: if_splits)

context reliable_backend
begin

lemma wake_inv_publish:
  assumes ops: "q_storage_ops (cc_queue s) = ops" and good: "good (k + 3) (q_storage_ctx (cc_queue s))"
    and inv: "wake_inv (view (q_storage_ctx (cc_queue s))) s" and new: "m_id msg \<notin> cc_used s"
  shows "let s' = publish_enter msg s in q_storage_ops (cc_queue s') = ops \<and> good k (q_storage_ctx (cc_queue s')) \<and>
    wake_inv (view (q_storage_ctx (cc_queue s'))) s'"
proof -
  let ?v = "view (q_storage_ctx (cc_queue s))" and ?s' = "publish_enter msg s"
  obtain err dropped q where run: "publish_locked (cc_queue s) msg = (err, dropped, q)" by (metis prod.exhaust)
  have nd: "m_id msg \<notin> dom ?v" using inv new by (auto simp: wake_inv_def)
  obtain d where d: "q = (cc_queue s)\<lparr>q_storage_ctx := q_storage_ctx q\<rparr>" "good k (q_storage_ctx q)"
    "publish_effect (q_overflow_policy (cc_queue s)) capacity accepts ?v msg err d (view (q_storage_ctx q))"
    using publish_locked_effect [OF ops good nd run] by blast
  note V = publish_effect_view [OF d(3) nd]
  have q': "cc_queue ?s' = q" by (simp add: publish_enter_def run)
  have o: "q_storage_ops q = ops" using ops by (subst d(1)) simp
  have cb: "q_wake_cb q = q_wake_cb (cc_queue s)" by (rule publish_locked_cb [OF run])
  have "stop_inv ?s'" using inv stop_inv_publish by (auto simp: wake_inv_def)
  moreover have "dom (view (q_storage_ctx q)) \<subseteq> cc_used ?s'" using inv V(1) by (fastforce simp: wake_inv_def)
  moreover have "view (q_storage_ctx q) (m_id m) = Some m \<and> m_state m = MSG_IN_FLIGHT"
    if "task_holds (cc_pc ?s') = Some m" for m
  proof -
    have "?v (m_id m) = Some m" "m_state m = MSG_IN_FLIGHT" using that inv by (auto simp: wake_inv_def)
    then show ?thesis using V(2) by simp
  qed
  moreover have "nothing_due (view (q_storage_ctx q)) (cc_last_claim ?s')"
    if w: "cc_pc ?s' = Waiting ms" "cc_stop ?s' = Running" "\<not> notified_soon ?s'" for ms
  proof -
    have "q_wake_cb q" using w(2) inv by (simp add: cb wake_inv_def stop_inv_def)
    then have e: "err \<noteq> ESP_OK" using w(3) by (auto simp: notified_soon_def publish_enter_def run)
    have "\<not> notified_soon s" using w(3) by (auto simp: notified_soon_def publish_enter_def run)
    then have "nothing_due ?v (cc_last_claim s)" using w inv by (simp add: wake_inv_def)
    then show ?thesis using V(1) e by (fastforce simp: nothing_due_def)
  qed
  ultimately show ?thesis using inv o d(2) by (auto simp: wake_inv_def q' Let_def)
qed

lemma wake_inv_leave:
  assumes inv: "wake_inv v s"
  shows "wake_inv v (publish_leave p s)"
proof -
  have si: "stop_inv s" using inv by (simp add: wake_inv_def)
  have "notified_soon (publish_leave p s)" if n: "notified_soon s"
  proof -
    consider "cc_notified s \<noteq> 0" | p' where "p' \<in> set (cc_publishing s)" "pb_wake p'" "p' \<noteq> p"
      | "pb_wake p" "p \<in> set (cc_publishing s)"
      using n by (auto simp: notified_soon_def)
    then show ?thesis
    proof cases
      case 3
      then have "pb_err p = ESP_OK" using si by (simp add: stop_inv_def)
      then show ?thesis using 3 by (simp add: notified_soon_def publish_leave_notified)
    qed (auto simp: notified_soon_def publish_leave_notified)
  qed
  then show ?thesis using inv stop_inv_leave [OF si] by (auto simp: wake_inv_def)
qed

lemma wake_inv_work:
  assumes ops: "q_storage_ops (cc_queue s) = ops" and good: "good (k + 1) (q_storage_ctx (cc_queue s))"
    and inv: "wake_inv (view (q_storage_ctx (cc_queue s))) s" and step: "task_step T env s = Some s'"
  shows "q_storage_ops (cc_queue s') = ops \<and> good k (q_storage_ctx (cc_queue s')) \<and>
    wake_inv (view (q_storage_ctx (cc_queue s'))) s'"
proof -
  have g: "good (Suc k) (q_storage_ctx (cc_queue s))" using good by simp
  then have gk: "good k (q_storage_ctx (cc_queue s))" by (rule good_mono)
  have si: "stop_inv s'" using stop_inv_work [OF _ step] inv by (simp add: wake_inv_def)
  obtain now_us rnd timed where "env = (now_us, rnd, timed)" by (metis prod.exhaust)
  from step [unfolded this] show ?thesis
  proof (cases rule: task_step_cases)
    case (claim out q tr)
    let ?v = "view (q_storage_ctx (cc_queue s))"
    note C = worker_claim_effect [OF ops g claim(2)]
    have s': "cc_queue s' = q" "cc_used s' = cc_used s" "cc_last_claim s' = now_us" by (simp_all add: claim(3))
    show ?thesis
    proof (cases "\<exists>mid m. ?v mid = Some m \<and> eligible now_us m")
      case True
      obtain m where m: "first_to_claim ?v now_us m" "out = Deliver (claimed m now_us)"
        "view (q_storage_ctx q) = ?v(m_id m \<mapsto> claimed m now_us)" using C unfolding if_P [OF True] by blast
      have "m_id m \<in> cc_used s" using m(1) inv by (auto simp: first_to_claim_def wake_inv_def)
      then show ?thesis using C inv si m(2,3) by (auto simp: wake_inv_def s' claim(3))
    next
      case False
      have "out = Wait CONFIG_EDGESYNC_WORKER_IDLE_POLL_MS" "view (q_storage_ctx q) = ?v"
        using C unfolding if_not_P [OF False] by blast+
      then show ?thesis using C inv si False by (auto simp: wake_inv_def s' claim(3) nothing_due_def)
    qed
  next
    case (settle msg result q tr)
    let ?v = "view (q_storage_ctx (cc_queue s))"
    have v: "?v (m_id msg) = Some msg" using inv settle(1) by (simp add: wake_inv_def)
    have "dom ((?v)(m_id msg := x)) \<subseteq> cc_used s" for x using inv v by (auto simp: wake_inv_def)
    then show ?thesis using settle_effect [OF ops g v settle(2)] si by (simp add: wake_inv_def settle(3))
  qed (use ops gk inv si in \<open>auto simp: wake_inv_def\<close>)
qed

lemma wake_inv_stop:
  assumes "wake_inv v s" "stop_step s = Some s'"
  shows "wake_inv v s' \<and> q_storage_ops (cc_queue s') = q_storage_ops (cc_queue s) \<and>
    q_storage_ctx (cc_queue s') = q_storage_ctx (cc_queue s)"
proof -
  have "stop_inv s'" using assms stop_inv_stop by (auto simp: wake_inv_def)
  moreover have "cc_pc s' = cc_pc s" "cc_used s' = cc_used s" "cc_stop s' \<noteq> Running"
    "q_storage_ops (cc_queue s') = q_storage_ops (cc_queue s)" "q_storage_ctx (cc_queue s') = q_storage_ctx (cc_queue s)"
    using assms(2) by (auto simp: stop_step_def notify_give_def queue_set_wake_cb_def split: stop_pc.splits if_splits)
  ultimately show ?thesis using assms(1) by (simp add: wake_inv_def)
qed

lemma wake_inv_run:
  assumes "cc_run T s ls s'" "q_storage_ops (cc_queue s) = ops" "wake_inv (view (q_storage_ctx (cc_queue s))) s"
  shows "good (k + run_cost ls) (q_storage_ctx (cc_queue s)) \<Longrightarrow> q_storage_ops (cc_queue s') = ops \<and>
    good k (q_storage_ctx (cc_queue s')) \<and> wake_inv (view (q_storage_ctx (cc_queue s'))) s'"
  using assms
proof (induction arbitrary: k rule: cc_run.induct)
  case (cc_refl s)
  then show ?case by simp
next
  case (cc_more s ls s1 l s2)
  have "good (k + label_cost l + run_cost ls) (q_storage_ctx (cc_queue s))"
    using cc_more.prems(1) by (simp add: ac_simps)
  then have I: "q_storage_ops (cc_queue s1) = ops" "good (k + label_cost l) (q_storage_ctx (cc_queue s1))"
    "wake_inv (view (q_storage_ctx (cc_queue s1))) s1" using cc_more.IH cc_more.prems(2,3) by blast+
  show ?case using cc_more.hyps(2)
  proof cases
    case (enter msg)
    then show ?thesis using wake_inv_publish [of s1 k msg] I by (simp add: Let_def)
  next
    case (leave p)
    then show ?thesis using wake_inv_leave I by simp
  next
    case (work env)
    then show ?thesis using wake_inv_work [OF I(1) _ I(3)] I(2) by simp
  next
    case stop
    then show ?thesis using wake_inv_stop [OF I(3)] I(1,2) by simp
  qed
qed

lemma sleeping_worker_idle:
  assumes run: "cc_run T (cc_start q w t used) ls s" and ops: "q_storage_ops q = ops"
    and good: "good (k + run_cost ls) (q_storage_ctx q)" and used: "dom (view (q_storage_ctx q)) \<subseteq> used"
    and started: "q_wake_cb q" "\<not> w_stop_requested w"
    and sleep: "cc_pc s = Waiting ms" "cc_stop s = Running"
  shows "ms = CONFIG_EDGESYNC_WORKER_IDLE_POLL_MS \<and>
    (notified_soon s \<or> nothing_due (view (q_storage_ctx (cc_queue s))) (cc_last_claim s))"
proof -
  have "wake_inv (view (q_storage_ctx q)) (cc_start q w t used)"
    using used stop_inv_start [OF started] by (simp add: wake_inv_def) (simp add: cc_start_def)
  then have "wake_inv (view (q_storage_ctx (cc_queue s))) s"
    using wake_inv_run [OF run] ops good by (simp add: cc_start_def)
  then show ?thesis using sleep by (auto simp: wake_inv_def)
qed

end

end
