(* ===== verification/ES_System.thy ===== *)
theory ES_System
  imports ES_Wakeup
begin

text \<open>
  The composition: publishing tasks, the worker task, the transport and the storage backend, as a
  step relation.  The mutex of the queue makes every storage section one step; the worker's call
  of the transport is a step of its own, so that publishing tasks run and power is lost between
  a claim, the transmission and the bookkeeping that follows it.  The history variables record
  what the application was promised and what the transport was given.
\<close>

section \<open>The system\<close>

datatype task = Idle | Holding message | Settling message delivery_result

record ('c, 't) system =
  sy_queue :: "'c queue"
  sy_transport :: 't
  sy_task :: task
  sy_trace :: "event list"
  sy_accepted :: "message_id \<Rightarrow> message option"  \<comment> \<open>publish returned \<open>ESP_OK\<close>\<close>
  sy_sent :: "(message \<times> delivery_result) list"  \<comment> \<open>what the transport was given, and its answers\<close>
  sy_dropped :: "message_id set"  \<comment> \<open>given up by the overflow policy\<close>

definition held :: "task \<Rightarrow> message option" where
  "held t = (case t of Idle \<Rightarrow> None | Holding m \<Rightarrow> Some m | Settling m r \<Rightarrow> Some m)"

lemma held_simps [simp]: "held Idle = None" "held (Holding m) = Some m" "held (Settling m r) = Some m"
  by (simp_all add: held_def)

definition sent_ok :: "('c, 't) system \<Rightarrow> message_id set" where
  "sent_ok s = {mid. \<exists>m. m_id m = mid \<and> (m, DELIVERY_SUCCESS) \<in> set (sy_sent s)}"

text \<open>
  A step and the number of storage operations it accounts for.  An identifier is used for one
  accepted message only, as the documentation of \<open>edgesync_publish\<close> demands.  A restart may come
  at any point between two storage sections: the process starts again on the storage as it
  was, with a new queue and an idle worker.
\<close>

inductive sys_step ::
  "'t transport_ops \<Rightarrow> worker \<Rightarrow> ('c \<Rightarrow> 'c \<Rightarrow> bool) \<Rightarrow> nat \<Rightarrow> ('c, 't) system \<Rightarrow> nat \<Rightarrow> ('c, 't) system \<Rightarrow> bool"
  for T w reboot cap where
  publish: "sys_step T w reboot cap s 3 (s\<lparr>sy_queue := q', sy_trace := tr',
      sy_accepted := (if err = ESP_OK then (sy_accepted s)(m_id msg \<mapsto> msg) else sy_accepted s),
      sy_dropped := sy_dropped s \<union> set_option dropped\<rparr>)"
    if "sy_accepted s (m_id msg) = None" "publish_locked (sy_queue s) msg = (err, dropped, q')"
      "queue_publish (sy_queue s) msg (sy_trace s) = (err, q', tr', woken)"
| claim: "sys_step T w reboot cap s 1 (s\<lparr>sy_queue := q', sy_trace := tr',
      sy_task := (case out of Deliver msg \<Rightarrow> Holding msg | _ \<Rightarrow> Idle)\<rparr>)"
    if "sy_task s = Idle" "worker_claim w (sy_queue s) now_us (sy_trace s) = (out, q', tr')"
| send: "sys_step T w reboot cap s 0 (s\<lparr>sy_transport := t', sy_task := Settling msg result,
      sy_sent := sy_sent s @ [(msg, result)]\<rparr>)"
    if "sy_task s = Holding msg" "tr_deliver T (sy_transport s) msg = (result, status, t')"
| settle: "sys_step T w reboot cap s 1 (s\<lparr>sy_queue := q', sy_trace := tr', sy_task := Idle\<rparr>)"
    if "sy_task s = Settling msg result"
      "handle_delivery_result w (sy_queue s) msg result now_us rnd (sy_trace s) = (q', tr')"
| restart: "sys_step T w reboot cap s (cap + 1) (s\<lparr>sy_queue := q', sy_transport := t', sy_task := Idle\<rparr>)"
    if "reboot (q_storage_ctx (sy_queue s)) c0"
      "queue_create (Some \<lparr>qc_storage_ops = Some (q_storage_ops (sy_queue s)), qc_storage_ctx = c0,
         qc_overflow_policy = policy, qc_event_cb = cb\<rparr>) True True True = (ESP_OK, Some q0)"
      "queue_recover q0 = (ESP_OK, q')"

inductive_cases sys_stepE: "sys_step T w reboot cap s n s'"

inductive sys_run ::
  "'t transport_ops \<Rightarrow> worker \<Rightarrow> ('c \<Rightarrow> 'c \<Rightarrow> bool) \<Rightarrow> nat \<Rightarrow> ('c, 't) system \<Rightarrow> nat \<Rightarrow> ('c, 't) system \<Rightarrow> bool"
  for T w reboot cap where
  run_refl: "sys_run T w reboot cap s 0 s"
| run_step: "sys_run T w reboot cap s (n + m) s''"
    if "sys_run T w reboot cap s n s'" "sys_step T w reboot cap s' m s''"

text \<open>The state in which a process starts on an empty storage.\<close>

definition sys_start :: "'c queue \<Rightarrow> 't \<Rightarrow> ('c, 't) system" where
  "sys_start q t = \<lparr>sy_queue = q, sy_transport = t, sy_task = Idle, sy_trace = [], sy_accepted = Map.empty,
     sy_sent = [], sy_dropped = {}\<rparr>"

section \<open>The invariant\<close>

text \<open>The message as it was published; \<open>exact\<close> says whether the payload is covered.\<close>

definition body_of :: "bool \<Rightarrow> message \<Rightarrow> message \<Rightarrow> bool" where
  "body_of exact a m \<longleftrightarrow> m_destination m = c_string (m_destination a) \<and> m_priority m = m_priority a \<and>
     m_created_at_us m = m_created_at_us a \<and> (exact \<longrightarrow> m_payload m = m_payload a)"

definition published :: "bool \<Rightarrow> ('c, 't) system \<Rightarrow> message \<Rightarrow> bool" where
  "published exact s m \<longleftrightarrow> (\<exists>a. sy_accepted s (m_id m) = Some a \<and> body_of exact a m)"

definition sys_inv :: "bool \<Rightarrow> queue_view \<Rightarrow> ('c, 't) system \<Rightarrow> bool" where
  "sys_inv exact v s \<longleftrightarrow>
     (\<forall>mid m. v mid = Some m \<longrightarrow> m_id m = mid \<and> published exact s m) \<and>
     (\<forall>mid. sy_accepted s mid \<noteq> None \<longrightarrow> v mid \<noteq> None \<or> mid \<in> sent_ok s \<or> mid \<in> sy_dropped s) \<and>
     (\<forall>m r. (m, r) \<in> set (sy_sent s) \<longrightarrow> published exact s m) \<and>
     (\<forall>mid m. v mid = Some m \<and> m_state m = MSG_IN_FLIGHT \<longrightarrow> held (sy_task s) = Some m) \<and>
     (\<forall>m. held (sy_task s) = Some m \<longrightarrow> v (m_id m) = Some m \<and> m_state m = MSG_IN_FLIGHT) \<and>
     (\<forall>m r. sy_task s = Settling m r \<longrightarrow> (m, r) \<in> set (sy_sent s))"

lemma sys_invD:
  assumes "sys_inv exact v s"
  shows "v mid = Some m \<Longrightarrow> m_id m = mid" "v mid = Some m \<Longrightarrow> published exact s m"
    "sy_accepted s mid = Some a \<Longrightarrow> v mid \<noteq> None \<or> mid \<in> sent_ok s \<or> mid \<in> sy_dropped s"
    "(m, r) \<in> set (sy_sent s) \<Longrightarrow> published exact s m"
    "v mid = Some m \<Longrightarrow> m_state m = MSG_IN_FLIGHT \<Longrightarrow> held (sy_task s) = Some m"
    "held (sy_task s) = Some m \<Longrightarrow> v (m_id m) = Some m" "held (sy_task s) = Some m \<Longrightarrow> m_state m = MSG_IN_FLIGHT"
    "sy_task s = Settling m r \<Longrightarrow> (m, r) \<in> set (sy_sent s)"
  using assms unfolding sys_inv_def by blast+

lemma sys_invI:
  assumes "\<And>mid m. v mid = Some m \<Longrightarrow> m_id m = mid \<and> published exact s m"
    and "\<And>mid a. sy_accepted s mid = Some a \<Longrightarrow> v mid \<noteq> None \<or> mid \<in> sent_ok s \<or> mid \<in> sy_dropped s"
    and "\<And>m r. (m, r) \<in> set (sy_sent s) \<Longrightarrow> published exact s m"
    and "\<And>mid m. v mid = Some m \<Longrightarrow> m_state m = MSG_IN_FLIGHT \<Longrightarrow> held (sy_task s) = Some m"
    and "\<And>m. held (sy_task s) = Some m \<Longrightarrow> v (m_id m) = Some m \<and> m_state m = MSG_IN_FLIGHT"
    and "\<And>m r. sy_task s = Settling m r \<Longrightarrow> (m, r) \<in> set (sy_sent s)"
  shows "sys_inv exact v s"
  using assms unfolding sys_inv_def by blast

lemma sys_inv_start: "sys_inv exact Map.empty (sys_start q t)"
  by (simp add: sys_inv_def sys_start_def)

lemma body_of_steps [simp]:
  "body_of exact a (fresh m) \<longleftrightarrow> body_of exact a (m\<lparr>m_destination := c_string (m_destination m)\<rparr>)"
  "body_of exact a (claimed m now_us) = body_of exact a m"
  "body_of exact a (retried m next_us dead er) = body_of exact a m"
  "body_of exact a (requeued m) = body_of exact a m"
  by (simp_all add: body_of_def fresh_def claimed_def retried_def requeued_def)

lemma c_string_idem [simp]: "c_string (c_string xs) = c_string xs"
  by (simp add: c_string_def takeWhile_idem)

lemma body_of_fresh [simp]: "body_of exact m (m\<lparr>m_destination := c_string (m_destination m)\<rparr>)"
  by (simp add: body_of_def)

section \<open>Preservation\<close>

text \<open>Each kind of step on the stored messages, whatever the backend.\<close>

lemma published_cong:
  "sy_accepted s' = sy_accepted s \<Longrightarrow> published exact s' m = published exact s m"
  by (simp add: published_def)

lemma sent_ok_cong: "sy_sent s' = sy_sent s \<Longrightarrow> sent_ok s' = sent_ok s"
  by (simp add: sent_ok_def)

text \<open>One stored message is replaced and the worker changes its state; nothing else changes.\<close>

lemma sys_inv_update:
  assumes inv: "sys_inv exact v s" and i: "m_id m' = mid" and p: "published exact s m'"
    and others: "\<And>m. held (sy_task s) = Some m \<Longrightarrow> m_id m = mid"
    and h: "held task = (if m_state m' = MSG_IN_FLIGHT then Some m' else None)"
    and st: "\<And>m r. task = Settling m r \<Longrightarrow> (m, r) \<in> set (sy_sent s)"
  shows "sys_inv exact (v(mid \<mapsto> m')) (s\<lparr>sy_task := task\<rparr>)"
proof -
  note I = sys_invD [OF inv]
  let ?s = "s\<lparr>sy_task := task\<rparr>"
  have ps: "published exact ?s m = published exact s m" for m by (rule published_cong) simp
  have so: "sent_ok ?s = sent_ok s" by (rule sent_ok_cong) simp
  have fl: "mid' = mid" if "v mid' = Some m" "m_state m = MSG_IN_FLIGHT" for mid' m
    using others [OF I(5) [OF that]] I(1) [OF that(1)] by simp
  show ?thesis
  proof (rule sys_invI)
    fix k m assume "(v(mid \<mapsto> m')) k = Some m"
    then show "m_id m = k \<and> published exact ?s m" using i p I(1,2) [of k m] by (auto simp: ps split: if_splits)
  next
    fix k a assume "sy_accepted ?s k = Some a"
    then have "sy_accepted s k = Some a" by simp
    from I(3) [OF this] show "(v(mid \<mapsto> m')) k \<noteq> None \<or> k \<in> sent_ok ?s \<or> k \<in> sy_dropped ?s" by (simp add: so)
  next
    fix m r assume "(m, r) \<in> set (sy_sent ?s)"
    then show "published exact ?s m" using I(4) [of m r] by (simp add: ps)
  next
    fix k m assume "(v(mid \<mapsto> m')) k = Some m" "m_state m = MSG_IN_FLIGHT"
    then show "held (sy_task ?s) = Some m" using fl [of k m] by (simp add: h split: if_splits)
  next
    fix m assume "held (sy_task ?s) = Some m"
    then have "m = m' \<and> m_state m' = MSG_IN_FLIGHT" by (simp add: h split: if_splits)
    then show "(v(mid \<mapsto> m')) (m_id m) = Some m \<and> m_state m = MSG_IN_FLIGHT" by (simp add: i)
  next
    fix m r assume "sy_task ?s = Settling m r"
    then show "(m, r) \<in> set (sy_sent ?s)" using st by simp
  qed
qed

lemma sys_inv_remove:
  assumes inv: "sys_inv exact v s" and other: "\<And>m. held task = Some m \<Longrightarrow> held (sy_task s) = Some m \<and> m_id m \<noteq> mid"
    and fl: "\<And>m. held (sy_task s) = Some m \<Longrightarrow> m_id m \<noteq> mid \<Longrightarrow> held task = Some m"
    and st: "\<And>m r. task = Settling m r \<Longrightarrow> (m, r) \<in> set (sy_sent s)"
    and why: "mid \<in> sent_ok s \<or> mid \<in> sy_dropped s"
  shows "sys_inv exact (v(mid := None)) (s\<lparr>sy_task := task\<rparr>)"
proof -
  note I = sys_invD [OF inv]
  let ?s = "s\<lparr>sy_task := task\<rparr>"
  have ps: "published exact ?s m = published exact s m" for m by (rule published_cong) simp
  have so: "sent_ok ?s = sent_ok s" by (rule sent_ok_cong) simp
  show ?thesis
  proof (rule sys_invI)
    fix k m assume "(v(mid := None)) k = Some m"
    then have "v k = Some m" by (simp split: if_splits)
    then show "m_id m = k \<and> published exact ?s m" using I(1,2) [of k m] by (simp add: ps)
  next
    fix k a assume "sy_accepted ?s k = Some a"
    then have "sy_accepted s k = Some a" by simp
    from I(3) [OF this] why show "(v(mid := None)) k \<noteq> None \<or> k \<in> sent_ok ?s \<or> k \<in> sy_dropped ?s" by (auto simp: so)
  next
    fix m r assume "(m, r) \<in> set (sy_sent ?s)"
    then show "published exact ?s m" using I(4) [of m r] by (simp add: ps)
  next
    fix k m assume a: "(v(mid := None)) k = Some m" "m_state m = MSG_IN_FLIGHT"
    then have b: "v k = Some m" "k \<noteq> mid" by (simp_all split: if_splits)
    then show "held (sy_task ?s) = Some m" using fl [OF I(5) [OF b(1) a(2)]] I(1) [OF b(1)] by simp
  next
    fix m assume "held (sy_task ?s) = Some m"
    then have "held (sy_task s) = Some m" "m_id m \<noteq> mid" using other by simp_all
    then show "(v(mid := None)) (m_id m) = Some m \<and> m_state m = MSG_IN_FLIGHT" using I(6,7) [of m] by simp
  next
    fix m r assume "sy_task ?s = Settling m r"
    then show "(m, r) \<in> set (sy_sent ?s)" using st by simp
  qed
qed

lemma sys_inv_add:
  assumes inv: "sys_inv exact v s" and new: "sy_accepted s (m_id msg) = None"
  shows "sys_inv exact (v(m_id msg \<mapsto> fresh msg)) (s\<lparr>sy_accepted := (sy_accepted s)(m_id msg \<mapsto> msg)\<rparr>)"
proof -
  let ?s = "s\<lparr>sy_accepted := (sy_accepted s)(m_id msg \<mapsto> msg)\<rparr>"
  note I = sys_invD [OF inv]
  have p: "published exact ?s m" if "published exact s m" for m
    using that new by (auto simp: published_def)
  have p0: "published exact ?s (fresh msg)" by (simp add: published_def)
  have nv: "k \<noteq> m_id msg" if "v k = Some m" for k m
    using I(1,2) [OF that] new by (auto simp: published_def)
  have so: "sent_ok ?s = sent_ok s" by (rule sent_ok_cong) simp
  show ?thesis
  proof (rule sys_invI)
    fix k m assume "(v(m_id msg \<mapsto> fresh msg)) k = Some m"
    then show "m_id m = k \<and> published exact ?s m"
      using p0 p [of m] I(1,2) [of k m] by (auto split: if_splits)
  next
    fix k a assume "sy_accepted ?s k = Some a"
    then have "k \<noteq> m_id msg \<Longrightarrow> sy_accepted s k = Some a" by simp
    then show "(v(m_id msg \<mapsto> fresh msg)) k \<noteq> None \<or> k \<in> sent_ok ?s \<or> k \<in> sy_dropped ?s"
      using I(3) [of k a] by (auto simp: so)
  next
    fix m r assume "(m, r) \<in> set (sy_sent ?s)"
    then show "published exact ?s m" using p I(4) [of m r] by simp
  next
    fix k m assume "(v(m_id msg \<mapsto> fresh msg)) k = Some m" "m_state m = MSG_IN_FLIGHT"
    then show "held (sy_task ?s) = Some m" using I(5) [of k m] by (auto split: if_splits)
  next
    fix m assume h: "held (sy_task ?s) = Some m"
    then have "v (m_id m) = Some m" "m_state m = MSG_IN_FLIGHT" using I(6,7) [of m] by simp_all
    then show "(v(m_id msg \<mapsto> fresh msg)) (m_id m) = Some m \<and> m_state m = MSG_IN_FLIGHT"
      using nv by auto
  next
    fix m r assume "sy_task ?s = Settling m r"
    then show "(m, r) \<in> set (sy_sent ?s)" using I(8) [of m r] by simp
  qed
qed

text \<open>History variables that only grow, and fields the invariant does not read.\<close>

lemma sys_inv_weaken:
  assumes inv: "sys_inv exact v s" and a: "sy_accepted s' = sy_accepted s" and t: "sy_task s' = sy_task s"
    and se: "sy_sent s' = sy_sent s" and d: "sy_dropped s \<subseteq> sy_dropped s'"
  shows "sys_inv exact v s'"
proof -
  note I = sys_invD [OF inv]
  have so: "sent_ok s' = sent_ok s" by (rule sent_ok_cong) (rule se)
  have ps: "published exact s' m = published exact s m" for m by (rule published_cong) (rule a)
  show ?thesis
  proof (rule sys_invI; unfold ps so a t se)
    fix mid m assume "v mid = Some m"
    then show "m_id m = mid \<and> published exact s m" using I(1,2) [of mid m] by simp
  next
    fix mid x assume "sy_accepted s mid = Some x"
    from I(3) [OF this] d show "v mid \<noteq> None \<or> mid \<in> sent_ok s \<or> mid \<in> sy_dropped s'" by blast
  next
    fix m assume "held (sy_task s) = Some m"
    then show "v (m_id m) = Some m \<and> m_state m = MSG_IN_FLIGHT" using I(6,7) [of m] by simp
  qed (fact I(4,5,8))+
qed

lemma sys_inv_drop:
  assumes inv: "sys_inv exact v s" and d: "first_to_drop v policy d"
  shows "sys_inv exact (v(m_id d := None)) (s\<lparr>sy_dropped := insert (m_id d) (sy_dropped s)\<rparr>)"
proof -
  let ?s = "s\<lparr>sy_dropped := insert (m_id d) (sy_dropped s)\<rparr>"
  have pend: "v (m_id d) = Some d" "m_state d = MSG_PENDING" using d by (auto simp: first_to_drop_def)
  have inv': "sys_inv exact v ?s" by (rule sys_inv_weaken [OF inv]) auto
  note I = sys_invD [OF inv']
  have other: "m_id m \<noteq> m_id d" if "held (sy_task ?s) = Some m" for m
  proof
    assume same: "m_id m = m_id d"
    have "Some m = Some d" unfolding I(6) [OF that, symmetric] pend(1) [symmetric] same by (rule refl)
    then show False using I(7) [OF that] pend(2) by simp
  qed
  have "sys_inv exact (v(m_id d := None)) (?s\<lparr>sy_task := sy_task ?s\<rparr>)"
  proof (rule sys_inv_remove [OF inv'])
    show "m_id d \<in> sent_ok ?s \<or> m_id d \<in> sy_dropped ?s" by simp
  qed (use other I(8) in blast)+
  then show ?thesis by simp
qed

lemma sys_inv_claim:
  assumes inv: "sys_inv exact v s" and idle: "sy_task s = Idle" and first: "first_to_claim v now_us msg"
  shows "sys_inv exact (v(m_id msg \<mapsto> claimed msg now_us)) (s\<lparr>sy_task := Holding (claimed msg now_us)\<rparr>)"
proof -
  have v: "v (m_id msg) = Some msg" using first by (simp add: first_to_claim_def)
  have p: "published exact s (claimed msg now_us)" using sys_invD(2) [OF inv v] by (simp add: published_def)
  show ?thesis by (rule sys_inv_update [OF inv _ p]) (simp_all add: idle)
qed

lemma sys_inv_send:
  assumes inv: "sys_inv exact v s" and h: "sy_task s = Holding msg"
  shows "sys_inv exact v (s\<lparr>sy_transport := t, sy_task := Settling msg r, sy_sent := sy_sent s @ [(msg, r)]\<rparr>)"
proof -
  note I = sys_invD [OF inv]
  let ?s = "s\<lparr>sy_transport := t, sy_task := Settling msg r, sy_sent := sy_sent s @ [(msg, r)]\<rparr>"
  have v: "v (m_id msg) = Some msg" "m_state msg = MSG_IN_FLIGHT" using I(6,7) [of msg] h by simp_all
  have ps: "published exact ?s m = published exact s m" for m by (rule published_cong) simp
  have so: "sent_ok s \<subseteq> sent_ok ?s" by (auto simp: sent_ok_def)
  show ?thesis
  proof (rule sys_invI)
    fix k m assume "v k = Some m"
    then show "m_id m = k \<and> published exact ?s m" using I(1,2) [of k m] by (simp add: ps)
  next
    fix k a assume "sy_accepted ?s k = Some a"
    then have "sy_accepted s k = Some a" by simp
    from I(3) [OF this] show "v k \<noteq> None \<or> k \<in> sent_ok ?s \<or> k \<in> sy_dropped ?s" using so by auto
  next
    fix m r' assume "(m, r') \<in> set (sy_sent ?s)"
    then have "m = msg \<or> (m, r') \<in> set (sy_sent s)" by auto
    then show "published exact ?s m" using I(4) [of m r'] I(2) [OF v(1)] by (auto simp: ps)
  next
    fix k m assume "v k = Some m" "m_state m = MSG_IN_FLIGHT"
    from I(5) [OF this] show "held (sy_task ?s) = Some m" by (simp add: h)
  next
    fix m assume "held (sy_task ?s) = Some m"
    then show "v (m_id m) = Some m \<and> m_state m = MSG_IN_FLIGHT" using v by simp
  next
    fix m r' assume "sy_task ?s = Settling m r'"
    then show "(m, r') \<in> set (sy_sent ?s)" by simp
  qed
qed

lemma sys_inv_delivered:
  assumes inv: "sys_inv exact v s" and h: "sy_task s = Settling msg DELIVERY_SUCCESS"
  shows "sys_inv exact (v(m_id msg := None)) (s\<lparr>sy_task := Idle\<rparr>)"
proof -
  have "m_id msg \<in> sent_ok s" using sys_invD(8) [OF inv h] by (auto simp: sent_ok_def)
  then show ?thesis by (intro sys_inv_remove [OF inv]) (simp_all add: h)
qed

lemma sys_inv_retried:
  assumes inv: "sys_inv exact v s" and h: "sy_task s = Settling msg r"
    and rw: "rewrite msg = msg\<lparr>m_payload := m_payload (rewrite msg)\<rparr>" "exact \<Longrightarrow> rewrite msg = msg"
  shows "sys_inv exact (v(m_id msg \<mapsto> retried (rewrite msg) next_us dead er)) (s\<lparr>sy_task := Idle\<rparr>)"
proof -
  have v: "v (m_id msg) = Some msg" using sys_invD(6) [OF inv, of msg] h by simp
  have i: "m_id (rewrite msg) = m_id msg" by (subst rw(1)) simp
  have b: "body_of exact a (rewrite msg)" if "body_of exact a msg" for a
    using that rw(2) by (subst rw(1)) (auto simp: body_of_def)
  have p: "published exact s (retried (rewrite msg) next_us dead er)"
    using sys_invD(2) [OF inv v] b by (auto simp: published_def i)
  show ?thesis by (rule sys_inv_update [OF inv _ p]) (simp_all add: h i)
qed

lemma sys_inv_restart:
  assumes inv: "sys_inv exact v s"
    and rw: "\<And>m. rewrite m = m\<lparr>m_payload := m_payload (rewrite m)\<rparr>" "\<And>m. exact \<Longrightarrow> rewrite m = m"
  shows "sys_inv exact (\<lambda>mid. map_option (requeued_with rewrite) (v mid)) (s\<lparr>sy_task := Idle\<rparr>)"
proof -
  note I = sys_invD [OF inv]
  let ?s = "s\<lparr>sy_task := Idle\<rparr>"
  have i: "m_id (rewrite m) = m_id m" "m_state (rewrite m) = m_state m" for m by (subst rw(1), simp)+
  have b: "body_of exact a (rewrite m)" if "body_of exact a m" for a m
    using that rw(2) by (subst rw(1)) (auto simp: body_of_def)
  have p: "published exact ?s (requeued_with rewrite m)" if "published exact s m" for m
    using that b by (auto simp: published_def requeued_with_def i)
  have st: "m_state (requeued_with rewrite m) \<noteq> MSG_IN_FLIGHT" for m
    by (simp add: requeued_with_def requeued_def i)
  have mi: "m_id (requeued_with rewrite m) = m_id m" for m by (simp add: requeued_with_def i)
  have ps: "published exact ?s m = published exact s m" for m by (rule published_cong) simp
  have so: "sent_ok ?s = sent_ok s" by (rule sent_ok_cong) simp
  show ?thesis
  proof (rule sys_invI)
    fix k m' assume "map_option (requeued_with rewrite) (v k) = Some m'"
    then obtain m where "v k = Some m" "m' = requeued_with rewrite m" by auto
    then show "m_id m' = k \<and> published exact ?s m'" using I(1,2) [of k m] p by (simp add: mi)
  next
    fix k a assume "sy_accepted ?s k = Some a"
    then have "sy_accepted s k = Some a" by simp
    from I(3) [OF this]
    show "map_option (requeued_with rewrite) (v k) \<noteq> None \<or> k \<in> sent_ok ?s \<or> k \<in> sy_dropped ?s" by (simp add: so)
  next
    fix m r assume "(m, r) \<in> set (sy_sent ?s)"
    then show "published exact ?s m" using I(4) [of m r] by (simp add: ps)
  next
    fix k m' assume "map_option (requeued_with rewrite) (v k) = Some m'" "m_state m' = MSG_IN_FLIGHT"
    then show "held (sy_task ?s) = Some m'" using st by auto
  qed simp_all
qed

section \<open>Every step\<close>

lemma queue_recover_ctx:
  assumes "queue_create (Some \<lparr>qc_storage_ops = Some ops, qc_storage_ctx = c0, qc_overflow_policy = policy,
      qc_event_cb = cb\<rparr>) True True True = (ESP_OK, Some q0)" and "queue_recover q0 = (ESP_OK, q')"
  shows "q_storage_ops q' = ops" "so_recover ops (snd (so_init ops c0)) = (ESP_OK, q_storage_ctx q')"
  using assms by (auto simp: queue_create_def queue_recover_def Let_def split: prod.splits if_splits)

lemma queue_publish_result:
  assumes "publish_locked q msg = (err, dropped, q1)" "queue_publish q msg tr = (err', q', tr', woken)"
  shows "err' = err" "q' = q1"
  using assms by (auto simp: queue_publish_def Let_def split: if_splits)

lemma queue_schedule_retry_ctx:
  "q_storage_ops (snd (queue_schedule_retry q mid next_us dead er)) = q_storage_ops q"
  "\<exists>err. so_schedule_retry (q_storage_ops q) (q_storage_ctx q) mid next_us dead er =
    (err, q_storage_ctx (snd (queue_schedule_retry q mid next_us dead er)))"
  by (simp_all add: queue_schedule_retry_def Let_def split: prod.splits)

lemma handle_result_cases:
  assumes "handle_delivery_result w q msg result now_us rnd tr = (q', tr')"
  shows "(result = DELIVERY_SUCCESS \<and> q_storage_ops q' = q_storage_ops q \<and>
      (\<exists>err. so_mark_delivered (q_storage_ops q) (q_storage_ctx q) (m_id msg) = (err, q_storage_ctx q'))) \<or>
    (\<exists>next_us dead err. q_storage_ops q' = q_storage_ops q \<and>
      so_schedule_retry (q_storage_ops q) (q_storage_ctx q) (m_id msg) next_us dead EDGESYNC_ERR_TRANSPORT = (err, q_storage_ctx q'))"
proof (cases result)
  case DELIVERY_SUCCESS
  then show ?thesis using assms
    by (auto simp: handle_delivery_result_def queue_mark_delivered_def Let_def split: prod.splits if_splits)
next
  case DELIVERY_PERMANENT_FAILURE
  then have "q' = snd (queue_schedule_retry q (m_id msg) 0 True EDGESYNC_ERR_TRANSPORT)"
    using assms by (simp add: handle_delivery_result_def split_def)
  then show ?thesis using queue_schedule_retry_ctx by metis
next
  case DELIVERY_RETRYABLE_FAILURE
  then have "\<exists>next_us dead. q' = snd (queue_schedule_retry q (m_id msg) next_us dead EDGESYNC_ERR_TRANSPORT)"
    using assms by (auto simp: handle_delivery_result_def handle_retryable_failure_def split_def Let_def split: if_splits)
  then show ?thesis using queue_schedule_retry_ctx by metis
qed

context durable_backend
begin

lemma down: "good (k + n) c \<Longrightarrow> good k c"
  by (induction n) (auto dest: good_mono)

lemma publish_step:
  assumes ops: "q_storage_ops (sy_queue s) = ops" and good: "good (k + 3) (q_storage_ctx (sy_queue s))"
    and inv: "sys_inv exact (view (q_storage_ctx (sy_queue s))) s" and new: "sy_accepted s (m_id msg) = None"
    and run: "publish_locked (sy_queue s) msg = (err, dropped, q')"
  shows "q_storage_ops q' = ops \<and> good k (q_storage_ctx q') \<and> sys_inv exact (view (q_storage_ctx q')) (s\<lparr>
      sy_queue := q', sy_trace := tr', sy_accepted := (if err = ESP_OK then (sy_accepted s)(m_id msg \<mapsto> msg) else sy_accepted s),
      sy_dropped := sy_dropped s \<union> set_option dropped\<rparr>)"
proof -
  let ?v = "view (q_storage_ctx (sy_queue s))"
  let ?v' = "view (q_storage_ctx q')"
  have nd: "m_id msg \<notin> dom ?v"
    using sys_invD(1,2) [OF inv, of "m_id msg"] new by (fastforce simp: published_def)
  obtain d where d: "dropped = map_option m_id d" "q' = (sy_queue s)\<lparr>q_storage_ctx := q_storage_ctx q'\<rparr>"
    "good k (q_storage_ctx q')" "publish_effect (q_overflow_policy (sy_queue s)) capacity accepts ?v msg err d ?v'"
    using publish_locked_effect [OF ops good nd run] by blast
  have o: "q_storage_ops q' = ops" using ops by (subst d(2)) simp
  have stored: "sys_inv exact v' (s1\<lparr>sy_accepted := (if err = ESP_OK then (sy_accepted s1)(m_id msg \<mapsto> msg) else sy_accepted s1)\<rparr>)"
    if "sys_inv exact v1 s1" "sy_accepted s1 (m_id msg) = None"
      "if accepts msg then err = ESP_OK \<and> v' = v1(m_id msg \<mapsto> fresh msg) else err = EDGESYNC_ERR_SERIALIZATION \<and> v' = v1"
    for v1 v' and s1 :: "('a, 'c) system"
    using that sys_inv_add [OF that(1,2)] by (auto split: if_splits)
  let ?s1 = "s\<lparr>sy_dropped := sy_dropped s \<union> set_option dropped\<rparr>"
  let ?s2 = "?s1\<lparr>sy_accepted := (if err = ESP_OK then (sy_accepted ?s1)(m_id msg \<mapsto> msg) else sy_accepted ?s1)\<rparr>"
  have "sys_inv exact ?v' ?s2"
  proof (cases d)
    case None
    then have s1: "?s1 = s" by (simp add: d(1))
    consider "if accepts msg then err = ESP_OK \<and> ?v' = ?v(m_id msg \<mapsto> fresh msg) else err = EDGESYNC_ERR_SERIALIZATION \<and> ?v' = ?v"
      | "err = EDGESYNC_ERR_QUEUE_FULL" "?v' = ?v"
      using d(4) unfolding publish_effect_def Let_def None by (auto split: if_splits)
    then show ?thesis
    proof cases
      case 1
      then show ?thesis unfolding s1 by (rule stored [OF inv new])
    next
      case 2
      then show ?thesis using inv unfolding s1 by simp
    qed
  next
    case (Some m)
    then have "first_to_drop ?v (q_overflow_policy (sy_queue s)) m"
      and st: "if accepts msg then err = ESP_OK \<and> ?v' = (?v(m_id m := None))(m_id msg \<mapsto> fresh msg)
        else err = EDGESYNC_ERR_SERIALIZATION \<and> ?v' = ?v(m_id m := None)"
      using d(4) unfolding publish_effect_def Let_def by (auto split: if_splits)
    then have "sys_inv exact (?v(m_id m := None)) (s\<lparr>sy_dropped := insert (m_id m) (sy_dropped s)\<rparr>)"
      using sys_inv_drop [OF inv] by blast
    moreover have "?s1 = s\<lparr>sy_dropped := insert (m_id m) (sy_dropped s)\<rparr>" by (simp add: d(1) Some)
    ultimately have "sys_inv exact (?v(m_id m := None)) ?s1" by simp
    then show ?thesis by (rule stored) (use new st in simp_all)
  qed
  then have "sys_inv exact ?v' (s\<lparr>sy_queue := q', sy_trace := tr',
      sy_accepted := (if err = ESP_OK then (sy_accepted s)(m_id msg \<mapsto> msg) else sy_accepted s),
      sy_dropped := sy_dropped s \<union> set_option dropped\<rparr>)"
    by (rule sys_inv_weaken) simp_all
  then show ?thesis using o d(3) by blast
qed

lemma claim_step:
  assumes ops: "q_storage_ops (sy_queue s) = ops" and good: "good (k + 1) (q_storage_ctx (sy_queue s))"
    and inv: "sys_inv exact (view (q_storage_ctx (sy_queue s))) s" and idle: "sy_task s = Idle"
    and run: "worker_claim w (sy_queue s) now_us (sy_trace s) = (out, q', tr')"
  shows "q_storage_ops q' = ops \<and> good k (q_storage_ctx q') \<and> sys_inv exact (view (q_storage_ctx q'))
    (s\<lparr>sy_queue := q', sy_trace := tr', sy_task := (case out of Deliver msg \<Rightarrow> Holding msg | _ \<Rightarrow> Idle)\<rparr>)"
proof -
  let ?c = "q_storage_ctx (sy_queue s)"
  have g: "good (Suc k) ?c" using good by simp
  obtain err r c where 1: "so_claim_next ops ?c now_us = (err, r, c)" by (metis prod.exhaust)
  have "err = ESP_OK \<or> err = EDGESYNC_ERR_NOT_FOUND" using claim_total [OF g 1] by (auto split: if_splits)
  then show ?thesis
  proof
    assume e: "err = ESP_OK"
    obtain m where m: "first_to_claim (view ?c) now_us m" "r = Some (claimed m now_us)" "good k c"
      "view c = (view ?c)(m_id m \<mapsto> claimed m now_us)" using claim_ok [OF g 1 [unfolded e]] by blast
    have out: "out = Deliver (claimed m now_us)" "q' = (sy_queue s)\<lparr>q_storage_ctx := c\<rparr>"
      using run 1 ops by (simp_all add: worker_claim_def queue_claim_next_def e m(2))
    have "sys_inv exact (view c) (s\<lparr>sy_task := Holding (claimed m now_us)\<rparr>)"
      unfolding m(4) by (rule sys_inv_claim [OF inv idle m(1)])
    then have "sys_inv exact (view c) (s\<lparr>sy_queue := q', sy_trace := tr', sy_task := Holding (claimed m now_us)\<rparr>)"
      by (rule sys_inv_weaken) simp_all
    then show ?thesis using m(3) ops by (simp add: out)
  next
    assume e: "err = EDGESYNC_ERR_NOT_FOUND"
    have m: "good k c" "view c = view ?c" using claim_none [OF g 1 [unfolded e]] by blast+
    have out: "out = Wait 5000" "q' = (sy_queue s)\<lparr>q_storage_ctx := c\<rparr>"
      using run 1 ops by (simp_all add: worker_claim_def queue_claim_next_def e)
    have "sys_inv exact (view c) (s\<lparr>sy_queue := q', sy_trace := tr', sy_task := Idle\<rparr>)"
      unfolding m(2) by (rule sys_inv_weaken [OF inv]) (simp_all add: idle)
    then show ?thesis using m(1) ops by (simp add: out)
  qed
qed

lemma settle_step:
  assumes ops: "q_storage_ops (sy_queue s) = ops" and good: "good (k + 1) (q_storage_ctx (sy_queue s))"
    and inv: "sys_inv exact (view (q_storage_ctx (sy_queue s))) s" and st: "sy_task s = Settling msg result"
    and rw: "\<And>m. exact \<Longrightarrow> rewrite m = m"
    and run: "handle_delivery_result w (sy_queue s) msg result now_us rnd (sy_trace s) = (q', tr')"
  shows "q_storage_ops q' = ops \<and> good k (q_storage_ctx q') \<and> sys_inv exact (view (q_storage_ctx q'))
    (s\<lparr>sy_queue := q', sy_trace := tr', sy_task := Idle\<rparr>)"
proof -
  let ?c = "q_storage_ctx (sy_queue s)"
  let ?c' = "q_storage_ctx q'"
  have g: "good (Suc k) ?c" using good by simp
  have v: "view ?c (m_id msg) = Some msg" using sys_invD(6) [OF inv, of msg] st by simp
  then have dm: "m_id msg \<in> dom (view ?c)" by auto
  have "q_storage_ops q' = ops \<and> good k ?c' \<and> sys_inv exact (view ?c') (s\<lparr>sy_task := Idle\<rparr>)"
    using handle_result_cases [OF run]
  proof (elim disjE conjE exE)
    fix err assume r: "result = DELIVERY_SUCCESS" and o: "q_storage_ops q' = q_storage_ops (sy_queue s)"
      and "so_mark_delivered (q_storage_ops (sy_queue s)) ?c (m_id msg) = (err, ?c')"
    then have 1: "so_mark_delivered ops ?c (m_id msg) = (err, ?c')" by (simp add: ops)
    have e: "err = ESP_OK" using delivered_total [OF g 1] dm by simp
    have D: "good k ?c'" "view ?c' = (view ?c)(m_id msg := None)" using delivered_ok [OF g 1 [unfolded e]] by blast+
    show ?thesis using sys_inv_delivered [OF inv st [unfolded r]] D o ops by simp
  next
    fix next_us dead err assume o: "q_storage_ops q' = q_storage_ops (sy_queue s)"
      and "so_schedule_retry (q_storage_ops (sy_queue s)) ?c (m_id msg) next_us dead EDGESYNC_ERR_TRANSPORT = (err, ?c')"
    then have 1: "so_schedule_retry ops ?c (m_id msg) next_us dead EDGESYNC_ERR_TRANSPORT = (err, ?c')" by (simp add: ops)
    have e: "err = ESP_OK" using retry_total [OF g 1] dm by simp
    have D: "good k ?c'" "view ?c' = (view ?c)(m_id msg \<mapsto> retried (rewrite msg) next_us dead EDGESYNC_ERR_TRANSPORT)"
      using retry_ok [OF g 1 [unfolded e]] by (simp_all add: v)
    show ?thesis using sys_inv_retried [where rewrite = rewrite, OF inv st rewrite_body rw] D o ops by simp
  qed
  then show ?thesis using sys_inv_weaken [of exact "view ?c'" "s\<lparr>sy_task := Idle\<rparr>" "s\<lparr>sy_queue := q', sy_trace := tr', sy_task := Idle\<rparr>"]
    by simp
qed

lemma restart_step:
  assumes ops: "q_storage_ops (sy_queue s) = ops" and good: "good (k + (capacity + 1)) (q_storage_ctx (sy_queue s))"
    and inv: "sys_inv exact (view (q_storage_ctx (sy_queue s))) s"
    and rw: "\<And>m. exact \<Longrightarrow> rewrite m = m" and rb: "reboot (q_storage_ctx (sy_queue s)) c0"
    and run: "queue_create (Some \<lparr>qc_storage_ops = Some (q_storage_ops (sy_queue s)), qc_storage_ctx = c0,
         qc_overflow_policy = policy, qc_event_cb = cb\<rparr>) True True True = (ESP_OK, Some q0)"
      "queue_recover q0 = (ESP_OK, q')"
  shows "q_storage_ops q' = ops \<and> good k (q_storage_ctx q') \<and> sys_inv exact (view (q_storage_ctx q'))
    (s\<lparr>sy_queue := q', sy_transport := t', sy_task := Idle\<rparr>)"
proof -
  let ?c = "q_storage_ctx (sy_queue s)"
  note Q = queue_recover_ctx [OF run, unfolded ops]
  have "card (dom (view ?c)) \<le> capacity" by (rule view_bounded [OF good])
  then obtain n where "capacity = card (dom (view ?c)) + n" by (auto simp: le_iff_add)
  then have g: "good (k + card (dom (view ?c)) + 1) ?c"
    using good down [of "k + card (dom (view ?c)) + 1" n] by (simp add: ac_simps)
  have R: "good k (q_storage_ctx q')" "view (q_storage_ctx q') = (\<lambda>mid. map_option (requeued_with rewrite) (view ?c mid))"
    using restart_ok [OF g reboot_init [OF rb] Q(2)] by blast+
  have "sys_inv exact (view (q_storage_ctx q')) (s\<lparr>sy_task := Idle\<rparr>)"
    unfolding R(2) by (rule sys_inv_restart [OF inv rewrite_body rw])
  then have "sys_inv exact (view (q_storage_ctx q')) (s\<lparr>sy_queue := q', sy_transport := t', sy_task := Idle\<rparr>)"
    by (rule sys_inv_weaken) simp_all
  then show ?thesis using Q(1) R(1) by blast
qed

text \<open>The whole system: an induction over the steps.\<close>

lemma system_step:
  assumes step: "sys_step T w reboot capacity s n s'" and ops: "q_storage_ops (sy_queue s) = ops"
    and good: "good (k + n) (q_storage_ctx (sy_queue s))" and inv: "sys_inv exact (view (q_storage_ctx (sy_queue s))) s"
    and rw: "\<And>m. exact \<Longrightarrow> rewrite m = m"
  shows "q_storage_ops (sy_queue s') = ops \<and> good k (q_storage_ctx (sy_queue s')) \<and>
    sys_inv exact (view (q_storage_ctx (sy_queue s'))) s'"
  using step
proof cases
  case (publish msg err dropped q' tr' woken)
  show ?thesis unfolding publish(2) using publish_step [OF ops good [unfolded publish(1)] inv publish(3,4)] by simp
next
  case (claim now_us out q' tr')
  show ?thesis unfolding claim(2) using claim_step [OF ops good [unfolded claim(1)] inv claim(3,4)] by simp
next
  case (send msg result status t')
  show ?thesis unfolding send(2) using sys_inv_send [OF inv send(3)] ops good [unfolded send(1)] by simp
next
  case (settle msg result now_us rnd q' tr')
  show ?thesis unfolding settle(2)
    using settle_step [OF ops good [unfolded settle(1)] inv settle(3) rw settle(4)] by simp
next
  case (restart c0 policy cb q0 q' t')
  show ?thesis unfolding restart(2)
    using restart_step [OF ops good [unfolded restart(1)] inv rw restart(3,4,5)] by simp
qed

lemma system_run:
  assumes "sys_run T w reboot capacity s n s'" and "q_storage_ops (sy_queue s) = ops"
    and "sys_inv exact (view (q_storage_ctx (sy_queue s))) s" and rw: "\<And>m. exact \<Longrightarrow> rewrite m = m"
  shows "good (k + n) (q_storage_ctx (sy_queue s)) \<Longrightarrow> q_storage_ops (sy_queue s') = ops \<and>
    good k (q_storage_ctx (sy_queue s')) \<and> sys_inv exact (view (q_storage_ctx (sy_queue s'))) s'"
  using assms(1-3)
proof (induction arbitrary: k rule: sys_run.induct)
  case (run_refl s)
  then show ?case by simp
next
  case (run_step s n s' m s'')
  have g: "good (k + m + n) (q_storage_ctx (sy_queue s))" using run_step.prems(1) by (simp add: ac_simps)
  have IH: "q_storage_ops (sy_queue s') = ops" "good (k + m) (q_storage_ctx (sy_queue s'))"
    "sys_inv exact (view (q_storage_ctx (sy_queue s'))) s'"
    using run_step.IH [OF g run_step.prems(2,3)] by blast+
  show ?case by (rule system_step [OF run_step.hyps(2) IH rw])
qed

text \<open>
  The promise of the system.  Whatever the interleaving and however often it restarts: what the
  application was told is accepted is still stored, or the transport said it was delivered, or
  the overflow policy gave it up; the transport was given nothing but accepted messages, with
  the destination they were published with; at most one message is in flight.
\<close>

lemma system_promise:
  assumes run: "sys_run T w reboot capacity (sys_start q t) n s" and ops: "q_storage_ops q = ops"
    and good: "good n (q_storage_ctx q)" and empty: "view (q_storage_ctx q) = Map.empty"
    and rw: "\<And>m. exact \<Longrightarrow> rewrite m = m"
  shows "(\<forall>mid. sy_accepted s mid \<noteq> None \<longrightarrow>
      view (q_storage_ctx (sy_queue s)) mid \<noteq> None \<or> mid \<in> sent_ok s \<or> mid \<in> sy_dropped s) \<and>
    (\<forall>m r. (m, r) \<in> set (sy_sent s) \<longrightarrow> published exact s m) \<and>
    (\<forall>mid m. view (q_storage_ctx (sy_queue s)) mid = Some m \<longrightarrow> published exact s m) \<and>
    card {mid. \<exists>m. view (q_storage_ctx (sy_queue s)) mid = Some m \<and> m_state m = MSG_IN_FLIGHT} \<le> 1"
proof -
  have q: "sy_queue (sys_start q t) = q" by (simp add: sys_start_def)
  have "good (0 + n) (q_storage_ctx q)" using good by simp
  then have inv: "sys_inv exact (view (q_storage_ctx (sy_queue s))) s"
    using system_run [OF run _ _ rw, of exact 0] ops empty by (simp add: q sys_inv_start)
  note I = sys_invD [OF inv]
  let ?F = "{mid. \<exists>m. view (q_storage_ctx (sy_queue s)) mid = Some m \<and> m_state m = MSG_IN_FLIGHT}"
  let ?H = "m_id ` set_option (held (sy_task s))"
  have "finite ?H" "card ?H \<le> 1" by (cases "held (sy_task s)", simp_all)+
  moreover have "?F \<subseteq> ?H" using I(1,5) by force
  ultimately have F: "card ?F \<le> 1" using card_mono le_trans by blast
  show ?thesis
  proof (intro conjI allI impI)
    fix mid assume "sy_accepted s mid \<noteq> None"
    then show "view (q_storage_ctx (sy_queue s)) mid \<noteq> None \<or> mid \<in> sent_ok s \<or> mid \<in> sy_dropped s" using I(3) by blast
  qed (fact I(2,4) F | erule I(2) I(4))+
qed

text \<open>Runs for concrete scenarios: a first publish, and a whole attempt on the only stored message.\<close>

lemma first_publish:
  assumes ops: "q_storage_ops q = ops" and good: "good (k + 3) (q_storage_ctx q)"
    and empty: "view (q_storage_ctx q) = Map.empty" and room: "0 < capacity" and acc: "accepts msg"
  shows "\<exists>s. sys_run T w rb capacity (sys_start q t) 3 s \<and> sy_accepted s = [m_id msg \<mapsto> msg] \<and>
    view (q_storage_ctx (sy_queue s)) = [m_id msg \<mapsto> fresh msg] \<and> sy_sent s = [] \<and> sy_task s = Idle \<and>
    sy_transport s = t \<and> q_storage_ops (sy_queue s) = ops \<and> good k (q_storage_ctx (sy_queue s))"
proof -
  let ?s0 = "sys_start q t"
  have q0: "sy_queue ?s0 = q" "sy_trace ?s0 = []" by (simp_all add: sys_start_def)
  obtain err d q1 where p: "publish_locked q msg = (err, d, q1)" by (metis prod.exhaust)
  obtain e tr1 woken where p': "queue_publish q msg [] = (e, q1, tr1, woken)"
    using queue_publish_result(2) [OF p] by (metis prod.exhaust)
  have nd: "m_id msg \<notin> dom (view (q_storage_ctx q))" by (simp add: empty)
  obtain d' where "d = map_option m_id d'" "publish_effect (q_overflow_policy q) capacity accepts (view (q_storage_ctx q))
      msg err d' (view (q_storage_ctx q1))" "q1 = q\<lparr>q_storage_ctx := q_storage_ctx q1\<rparr>" "good k (q_storage_ctx q1)"
    using publish_locked_effect [OF ops good nd p] by blast
  then have P: "err = ESP_OK" "d = None" "view (q_storage_ctx q1) = [m_id msg \<mapsto> fresh msg]" "q_storage_ops q1 = ops"
    "good k (q_storage_ctx q1)"
    using room acc ops by (simp_all add: publish_effect_def empty) (metis queue.select_convs(1) queue.surjective queue.update_convs(2))
  have e: "e = err" by (rule queue_publish_result(1) [OF p p'])
  define s1 where "s1 = ?s0\<lparr>sy_queue := q1, sy_trace := tr1,
      sy_accepted := (if err = ESP_OK then (sy_accepted ?s0)(m_id msg \<mapsto> msg) else sy_accepted ?s0),
      sy_dropped := sy_dropped ?s0 \<union> set_option d\<rparr>"
  have "sys_step T w rb capacity ?s0 3 s1"
    unfolding s1_def by (rule publish [where woken = woken]) (use p p' in \<open>simp_all add: q0 e, simp add: sys_start_def\<close>)
  then have "sys_run T w rb capacity ?s0 3 s1" using run_step [OF run_refl] by fastforce
  then show ?thesis using P by (intro exI [of _ s1]) (simp add: s1_def sys_start_def)
qed

lemma attempt_run:
  assumes run: "sys_run T w rb capacity s0 n s" and ops: "q_storage_ops (sy_queue s) = ops"
    and good: "good (k + 2) (q_storage_ctx (sy_queue s))" and idle: "sy_task s = Idle"
    and v: "view (q_storage_ctx (sy_queue s)) = [m_id m \<mapsto> m]" and el: "eligible now_us m"
    and d: "tr_deliver T (sy_transport s) (claimed m now_us) = (result, status, t)"
  shows "\<exists>s'. sys_run T w rb capacity s0 (n + 2) s' \<and> sy_accepted s' = sy_accepted s \<and>
    view (q_storage_ctx (sy_queue s')) =
      Map.empty(m_id m := fst (settled rewrite (w_retry_cfg w) (claimed m now_us) result now_us rnd)) \<and>
    sy_sent s' = sy_sent s @ [(claimed m now_us, result)] \<and> sy_task s' = Idle \<and> sy_transport s' = t \<and>
    q_storage_ops (sy_queue s') = ops \<and> good k (q_storage_ctx (sy_queue s'))"
proof -
  let ?m = "claimed m now_us"
  obtain out q2 tr2 where c: "worker_claim w (sy_queue s) now_us (sy_trace s) = (out, q2, tr2)" by (metis prod.exhaust)
  have g: "good (Suc (k + 1)) (q_storage_ctx (sy_queue s))" using good by (simp add: eval_nat_numeral)
  have ex: "\<exists>mid m. view (q_storage_ctx (sy_queue s)) mid = Some m \<and> eligible now_us m" using el by (simp add: v)
  have ft: "m' = m" if "first_to_claim [m_id m \<mapsto> m] now_us m'" for m'
    using that by (auto simp: first_to_claim_def split: if_splits)
  have C: "q_storage_ops q2 = ops" "good (k + 1) (q_storage_ctx q2)" "out = Deliver ?m"
    "view (q_storage_ctx q2) = [m_id m \<mapsto> ?m]"
    using worker_claim_effect [OF ops g c] ft unfolding if_P [OF ex] by (auto simp: v dest!: ft)
  define s2 where "s2 = s\<lparr>sy_queue := q2, sy_trace := tr2, sy_task := Holding ?m\<rparr>"
  have r2: "sys_step T w rb capacity s 1 s2"
    using claim [OF idle, of w now_us out q2 tr2 T rb capacity] c by (simp add: s2_def C(3))
  define s3 where "s3 = s2\<lparr>sy_transport := t, sy_task := Settling ?m result, sy_sent := sy_sent s2 @ [(?m, result)]\<rparr>"
  have r3: "sys_step T w rb capacity s2 0 s3"
    unfolding s3_def by (rule send [where status = status]) (use d in \<open>simp_all add: s2_def\<close>)
  have f3: "sy_queue s3 = q2" "sy_task s3 = Settling ?m result" by (simp_all add: s3_def s2_def)
  obtain q4 tr4 where h: "handle_delivery_result w (sy_queue s3) ?m result now_us rnd (sy_trace s3) = (q4, tr4)"
    by (metis prod.exhaust)
  have v2: "view (q_storage_ctx q2) (m_id ?m) = Some ?m" by (simp add: C(4))
  have g2: "good (Suc k) (q_storage_ctx q2)" using C(2) by simp
  note H = settle_effect [OF C(1) g2 v2 h [unfolded f3(1)]]
  define s4 where "s4 = s3\<lparr>sy_queue := q4, sy_trace := tr4, sy_task := Idle\<rparr>"
  have r4: "sys_step T w rb capacity s3 1 s4" unfolding s4_def by (rule settle [OF f3(2) h])
  have "sys_run T w rb capacity s0 (n + 1 + 0 + 1) s4" by (rule run_step [OF run_step [OF run_step [OF run r2] r3] r4])
  then have "sys_run T w rb capacity s0 (n + 2) s4" by simp
  moreover have "view (q_storage_ctx q4) =
      Map.empty(m_id m := fst (settled rewrite (w_retry_cfg w) ?m result now_us rnd))"
    using H by (simp add: C(4))
  ultimately show ?thesis using H by (intro exI [of _ s4]) (simp add: s4_def s3_def s2_def)
qed

lemma fresh_eligible: "0 \<le> sint now_us \<Longrightarrow> eligible now_us (fresh msg)"
  by (simp add: eligible_def) (simp add: fresh_def)

text \<open>A message is published, claimed, transmitted and confirmed.\<close>

lemma one_delivery:
  assumes ops: "q_storage_ops q = ops" and good: "good (k + 5) (q_storage_ctx q)"
    and empty: "view (q_storage_ctx q) = Map.empty" and room: "0 < capacity" and acc: "accepts msg"
    and T: "always_delivers T" and now: "0 \<le> sint now_us"
  shows "\<exists>s m. sys_run T w rb capacity (sys_start q t) 5 s \<and> sy_accepted s = [m_id msg \<mapsto> msg] \<and>
    view (q_storage_ctx (sy_queue s)) = Map.empty \<and> sy_sent s = [(m, DELIVERY_SUCCESS)] \<and>
    m = claimed (fresh msg) now_us"
proof -
  have g3: "good (k + 2 + 3) (q_storage_ctx q)" using good by (simp add: eval_nat_numeral)
  obtain s where s: "sys_run T w rb capacity (sys_start q t) 3 s" "sy_accepted s = [m_id msg \<mapsto> msg]"
    "view (q_storage_ctx (sy_queue s)) = [m_id (fresh msg) \<mapsto> fresh msg]" "sy_sent s = []" "sy_task s = Idle"
    "q_storage_ops (sy_queue s) = ops" "good (k + 2) (q_storage_ctx (sy_queue s))"
    using first_publish [OF ops g3 empty room acc, of T w rb t] by auto
  obtain result status t' where d: "tr_deliver T (sy_transport s) (claimed (fresh msg) now_us) = (result, status, t')"
    by (metis prod.exhaust)
  have r: "result = DELIVERY_SUCCESS" using T d unfolding always_delivers_def by (metis fst_conv)
  have "3 + 2 = (5 :: nat)" by simp
  then show ?thesis
    using attempt_run [OF s(1,6,7,5,3) fresh_eligible [OF now] d, where rnd = 0] s(2,4) by (simp add: r settled_def) auto
qed

end

end
