(* ===== verification/ES_Machine.thy ===== *)
theory ES_Machine
  imports ES_System
begin

text \<open>
  What the whole system promises, as an abstract machine: a map of messages, the task of the worker
  and the transmissions so far.  Every run of publishers, worker, transport, storage and restarts
  is a run of this machine, for any backend that keeps the contract.  How often a message is
  transmitted is then a matter of the machine alone.
\<close>

section \<open>The machine\<close>

record machine =
  ma_view :: queue_view
  ma_task :: task
  ma_sent :: "(message \<times> delivery_result) list"
  ma_accepted :: "message_id set"

definition machine_of :: "('c \<Rightarrow> queue_view) \<Rightarrow> ('c, 't) system \<Rightarrow> machine" where
  "machine_of view s = \<lparr>ma_view = view (q_storage_ctx (sy_queue s)), ma_task = sy_task s, ma_sent = sy_sent s,
     ma_accepted = dom (sy_accepted s)\<rparr>"

definition machine_start :: machine where
  "machine_start = \<lparr>ma_view = Map.empty, ma_task = Idle, ma_sent = [], ma_accepted = {}\<rparr>"

text \<open>
  The steps, with the number of storage operations each accounts for.  \<open>restarts\<close> says whether the
  process may be started again.
\<close>

inductive machine_step ::
  "(message \<Rightarrow> message) \<Rightarrow> retry_config \<Rightarrow> nat \<Rightarrow> (message \<Rightarrow> bool) \<Rightarrow> bool \<Rightarrow> machine \<Rightarrow> nat \<Rightarrow> machine \<Rightarrow> bool"
  for rewrite cfg cap accepts restarts where
  m_publish: "machine_step rewrite cfg cap accepts restarts a 3 (a\<lparr>ma_view := v',
      ma_accepted := (if err = ESP_OK then insert (m_id msg) (ma_accepted a) else ma_accepted a)\<rparr>)"
    if "m_id msg \<notin> ma_accepted a" "publish_effect policy cap accepts (ma_view a) msg err d v'"
| m_claim: "machine_step rewrite cfg cap accepts restarts a 1 (a\<lparr>ma_view := (ma_view a)(m_id m \<mapsto> claimed m now_us),
      ma_task := Holding (claimed m now_us)\<rparr>)"
    if "ma_task a = Idle" "first_to_claim (ma_view a) now_us m"
| m_nothing: "machine_step rewrite cfg cap accepts restarts a 1 a"
    if "ma_task a = Idle" "\<forall>mid m. ma_view a mid = Some m \<longrightarrow> \<not> eligible now_us m"
| m_send: "machine_step rewrite cfg cap accepts restarts a 0 (a\<lparr>ma_task := Settling m r, ma_sent := ma_sent a @ [(m, r)]\<rparr>)"
    if "ma_task a = Holding m"
| m_settle: "machine_step rewrite cfg cap accepts restarts a 1
      (a\<lparr>ma_view := (ma_view a)(m_id m := fst (settled rewrite cfg m r now_us rnd)), ma_task := Idle\<rparr>)"
    if "ma_task a = Settling m r"
| m_restart: "machine_step rewrite cfg cap accepts restarts a (cap + 1)
      (a\<lparr>ma_view := (\<lambda>mid. map_option (requeued_with rewrite) (ma_view a mid)), ma_task := Idle\<rparr>)"
    if restarts

inductive machine_run ::
  "(message \<Rightarrow> message) \<Rightarrow> retry_config \<Rightarrow> nat \<Rightarrow> (message \<Rightarrow> bool) \<Rightarrow> bool \<Rightarrow> machine \<Rightarrow> nat \<Rightarrow> machine \<Rightarrow> bool"
  for rewrite cfg cap accepts restarts where
  m_refl: "machine_run rewrite cfg cap accepts restarts a 0 a"
| m_step: "machine_run rewrite cfg cap accepts restarts a (n + m) a''"
    if "machine_run rewrite cfg cap accepts restarts a n a'" "machine_step rewrite cfg cap accepts restarts a' m a''"

section \<open>The system refines the machine\<close>

lemma sys_step_mono: "sys_step T w r cap s n s' \<Longrightarrow> (\<And>c c'. r c c' \<Longrightarrow> r' c c') \<Longrightarrow> sys_step T w r' cap s n s'"
  by (erule sys_step.cases; hypsubst; rule sys_step.intros; auto)

lemma machine_of_simps [simp]:
  "ma_view (machine_of view s) = view (q_storage_ctx (sy_queue s))" "ma_task (machine_of view s) = sy_task s"
  "ma_sent (machine_of view s) = sy_sent s" "ma_accepted (machine_of view s) = dom (sy_accepted s)"
  by (simp_all add: machine_of_def)

context durable_backend
begin

lemma machine_publish:
  assumes ops: "q_storage_ops (sy_queue s) = ops" and good: "good (k + 3) (q_storage_ctx (sy_queue s))"
    and inv: "sys_inv exact (view (q_storage_ctx (sy_queue s))) s" and new: "sy_accepted s (m_id msg) = None"
    and run: "publish_locked (sy_queue s) msg = (err, dropped, q')"
  shows "machine_step rewrite cfg capacity accepts restarts (machine_of view s) 3 (machine_of view (s\<lparr>sy_queue := q',
      sy_trace := tr', sy_accepted := (if err = ESP_OK then (sy_accepted s)(m_id msg \<mapsto> msg) else sy_accepted s),
      sy_dropped := sy_dropped s \<union> set_option dropped\<rparr>))"
proof -
  let ?v = "view (q_storage_ctx (sy_queue s))" and ?m = "machine_of view s"
  have nd: "m_id msg \<notin> dom ?v" using sys_invD(1,2) [OF inv, of "m_id msg"] new by (fastforce simp: published_def)
  obtain d where "publish_effect (q_overflow_policy (sy_queue s)) capacity accepts ?v msg err d (view (q_storage_ctx q'))"
    using publish_locked_effect [OF ops good nd run] by blast
  then have "machine_step rewrite cfg capacity accepts restarts ?m 3 (?m\<lparr>ma_view := view (q_storage_ctx q'),
      ma_accepted := (if err = ESP_OK then insert (m_id msg) (ma_accepted ?m) else ma_accepted ?m)\<rparr>)"
    by (intro m_publish) (use new in auto)
  then show ?thesis by (simp add: machine_of_def split: if_splits)
qed

lemma machine_claim:
  assumes ops: "q_storage_ops (sy_queue s) = ops" and good: "good (k + 1) (q_storage_ctx (sy_queue s))"
    and idle: "sy_task s = Idle" and run: "worker_claim w (sy_queue s) now_us (sy_trace s) = (out, q', tr')"
  shows "machine_step rewrite cfg capacity accepts restarts (machine_of view s) 1 (machine_of view
    (s\<lparr>sy_queue := q', sy_trace := tr', sy_task := (case out of Deliver msg \<Rightarrow> Holding msg | _ \<Rightarrow> Idle)\<rparr>))"
proof -
  let ?v = "view (q_storage_ctx (sy_queue s))" and ?m = "machine_of view s"
  have g: "good (Suc k) (q_storage_ctx (sy_queue s))" using good by simp
  note C = worker_claim_effect [OF ops g run]
  show ?thesis
  proof (cases "\<exists>mid m. ?v mid = Some m \<and> eligible now_us m")
    case True
    obtain m where m: "first_to_claim ?v now_us m" "out = Deliver (claimed m now_us)"
      "view (q_storage_ctx q') = ?v(m_id m \<mapsto> claimed m now_us)" using C unfolding if_P [OF True] by blast
    have "machine_step rewrite cfg capacity accepts restarts ?m 1 (?m\<lparr>ma_view := (ma_view ?m)(m_id m \<mapsto> claimed m now_us),
        ma_task := Holding (claimed m now_us)\<rparr>)" by (rule m_claim) (use idle m(1) in simp_all)
    then show ?thesis by (simp add: machine_of_def m(2,3))
  next
    case False
    have o: "out = Wait CONFIG_EDGESYNC_WORKER_IDLE_POLL_MS" "view (q_storage_ctx q') = ?v"
      using C unfolding if_not_P [OF False] by blast+
    have "machine_step rewrite cfg capacity accepts restarts ?m 1 ?m"
      by (rule m_nothing [of _ now_us]) (use idle False in auto)
    then show ?thesis using idle by (simp add: machine_of_def o)
  qed
qed

lemma machine_settle:
  assumes ops: "q_storage_ops (sy_queue s) = ops" and good: "good (k + 1) (q_storage_ctx (sy_queue s))"
    and inv: "sys_inv exact (view (q_storage_ctx (sy_queue s))) s" and st: "sy_task s = Settling msg result"
    and run: "handle_delivery_result w (sy_queue s) msg result now_us rnd (sy_trace s) = (q', tr')"
  shows "machine_step rewrite (w_retry_cfg w) capacity accepts restarts (machine_of view s) 1
    (machine_of view (s\<lparr>sy_queue := q', sy_trace := tr', sy_task := Idle\<rparr>))"
proof -
  let ?m = "machine_of view s"
  have g: "good (Suc k) (q_storage_ctx (sy_queue s))" using good by simp
  have v: "view (q_storage_ctx (sy_queue s)) (m_id msg) = Some msg" using sys_invD(6) [OF inv, of msg] st by simp
  have "machine_step rewrite (w_retry_cfg w) capacity accepts restarts ?m 1 (?m\<lparr>ma_view := (ma_view ?m)
      (m_id msg := fst (settled rewrite (w_retry_cfg w) msg result now_us rnd)), ma_task := Idle\<rparr>)"
    by (rule m_settle) (simp add: st)
  then show ?thesis using settle_effect [OF ops g v run] by (simp add: machine_of_def)
qed

lemma machine_restart:
  assumes ops: "q_storage_ops (sy_queue s) = ops" and good: "good (k + (capacity + 1)) (q_storage_ctx (sy_queue s))"
    and rb: "reboot (q_storage_ctx (sy_queue s)) c0" and rs: restarts
    and run: "queue_create (Some \<lparr>qc_storage_ops = Some (q_storage_ops (sy_queue s)), qc_storage_ctx = c0,
         qc_overflow_policy = policy, qc_event_cb = cb\<rparr>) True True True = (ESP_OK, Some q0)"
      "queue_recover q0 = (ESP_OK, q')"
  shows "machine_step rewrite cfg capacity accepts restarts (machine_of view s) (capacity + 1)
    (machine_of view (s\<lparr>sy_queue := q', sy_transport := t', sy_task := Idle\<rparr>))"
proof -
  let ?c = "q_storage_ctx (sy_queue s)" and ?m = "machine_of view s"
  note Q = queue_recover_ctx [OF run, unfolded ops]
  have "card (dom (view ?c)) \<le> capacity" by (rule view_bounded [OF good])
  then obtain n where "capacity = card (dom (view ?c)) + n" by (auto simp: le_iff_add)
  then have g: "good (k + card (dom (view ?c)) + 1) ?c"
    using good down [of "k + card (dom (view ?c)) + 1" n] by (simp add: ac_simps)
  have "view (q_storage_ctx q') = (\<lambda>mid. map_option (requeued_with rewrite) (view ?c mid))"
    using restart_ok [OF g reboot_init [OF rb] Q(2)] by blast
  moreover have "machine_step rewrite cfg capacity accepts restarts ?m (capacity + 1)
      (?m\<lparr>ma_view := (\<lambda>mid. map_option (requeued_with rewrite) (ma_view ?m mid)), ma_task := Idle\<rparr>)"
    by (rule m_restart) (rule rs)
  ultimately show ?thesis by (simp add: machine_of_def)
qed

lemma system_refines_step:
  assumes step: "sys_step T w r capacity s n s'" and ops: "q_storage_ops (sy_queue s) = ops"
    and good: "good (k + n) (q_storage_ctx (sy_queue s))" and inv: "sys_inv exact (view (q_storage_ctx (sy_queue s))) s"
    and r: "\<And>c c'. r c c' \<Longrightarrow> reboot c c' \<and> restarts"
  shows "machine_step rewrite (w_retry_cfg w) capacity accepts restarts (machine_of view s) n (machine_of view s')"
  using step
proof cases
  case (publish msg err dropped q' tr' woken)
  show ?thesis unfolding publish(1,2) by (rule machine_publish [OF ops good [unfolded publish(1)] inv publish(3,4)])
next
  case (claim now_us out q' tr')
  show ?thesis unfolding claim(1,2) by (rule machine_claim [OF ops good [unfolded claim(1)] claim(3,4)])
next
  case (send msg result status t')
  have "machine_step rewrite (w_retry_cfg w) capacity accepts restarts (machine_of view s) 0 ((machine_of view s)\<lparr>
      ma_task := Settling msg result, ma_sent := ma_sent (machine_of view s) @ [(msg, result)]\<rparr>)"
    by (rule m_send) (simp add: send(3))
  then show ?thesis unfolding send(1,2) by (simp add: machine_of_def)
next
  case (settle msg result now_us rnd q' tr')
  show ?thesis unfolding settle(1,2) by (rule machine_settle [OF ops good [unfolded settle(1)] inv settle(3,4)])
next
  case (restart c0 policy cb q0 q' t')
  show ?thesis unfolding restart(1,2)
    by (rule machine_restart [OF ops good [unfolded restart(1)] _ _ restart(4,5)]) (use r [OF restart(3)] in blast)+
qed

lemma system_refines:
  assumes run: "sys_run T w r capacity (sys_start q t) n s" and ops: "q_storage_ops q = ops"
    and good: "good (k + n) (q_storage_ctx q)" and empty: "view (q_storage_ctx q) = Map.empty"
    and r: "\<And>c c'. r c c' \<Longrightarrow> reboot c c' \<and> restarts"
  shows "machine_run rewrite (w_retry_cfg w) capacity accepts restarts machine_start n (machine_of view s) \<and>
    q_storage_ops (sy_queue s) = ops \<and> good k (q_storage_ctx (sy_queue s)) \<and>
    sys_inv False (view (q_storage_ctx (sy_queue s))) s"
  using run good
proof (induction "sys_start q t" n s arbitrary: k rule: sys_run.induct)
  case run_refl
  have "machine_of view (sys_start q t) = machine_start"
    using empty by (simp add: machine_of_def sys_start_def machine_start_def)
  then show ?case using run_refl ops empty by (simp add: m_refl sys_inv_start) (simp add: sys_start_def sys_inv_def)
next
  case (run_step n s1 m s2)
  have g: "good ((k + m) + n) (q_storage_ctx q)" using run_step.prems by (simp add: ac_simps)
  have I: "machine_run rewrite (w_retry_cfg w) capacity accepts restarts machine_start n (machine_of view s1)"
    "q_storage_ops (sy_queue s1) = ops" "good (k + m) (q_storage_ctx (sy_queue s1))"
    "sys_inv False (view (q_storage_ctx (sy_queue s1))) s1" using run_step.hyps(2) [OF g] by blast+
  have st: "sys_step T w reboot capacity s1 m s2" by (rule sys_step_mono [OF run_step.hyps(3)]) (use r in blast)
  show ?case
    using m_step [OF I(1) system_refines_step [OF run_step.hyps(3) I(2,3,4) r]] system_step [OF st I(2,3,4)] by blast
qed

end

section \<open>How often a message is transmitted\<close>

lemma requeued_fields:
  assumes "keeps_header rewrite"
  shows "m_id (requeued_with rewrite m) = m_id m" "m_attempt_count (requeued_with rewrite m) = m_attempt_count m"
    "m_state (requeued_with rewrite m) = (if m_state m = MSG_IN_FLIGHT then MSG_PENDING else m_state m)"
  using rewrite_fields [OF assms] by (simp_all add: requeued_with_def requeued_def)

text \<open>The messages, the one at hand and the transmissions belong together.\<close>

definition machine_inv :: "machine \<Rightarrow> bool" where
  "machine_inv a \<longleftrightarrow>
     (\<forall>mid m. ma_view a mid = Some m \<longrightarrow> m_id m = mid \<and> mid \<in> ma_accepted a) \<and>
     (\<forall>m. held (ma_task a) = Some m \<longrightarrow> ma_view a (m_id m) = Some m \<and> m_state m = MSG_IN_FLIGHT) \<and>
     (\<forall>m r. (m, r) \<in> set (ma_sent a) \<longrightarrow> m_id m \<in> ma_accepted a)"

lemma machine_invD:
  assumes "machine_inv a"
  shows "ma_view a mid = Some m \<Longrightarrow> m_id m = mid" "ma_view a mid = Some m \<Longrightarrow> mid \<in> ma_accepted a"
    "held (ma_task a) = Some m \<Longrightarrow> ma_view a (m_id m) = Some m" "held (ma_task a) = Some m \<Longrightarrow> m_state m = MSG_IN_FLIGHT"
    "(m, r) \<in> set (ma_sent a) \<Longrightarrow> m_id m \<in> ma_accepted a"
  using assms unfolding machine_inv_def by blast+

lemma publish_effect_new:
  assumes "publish_effect policy capacity accepts v msg err d v'" "m_id msg \<notin> dom v"
  shows "v' mid = Some m \<Longrightarrow> v mid = Some m \<or> err = ESP_OK \<and> mid = m_id msg \<and> m = fresh msg"
  using assms by (auto simp: publish_effect_def Let_def split: if_splits)

lemma machine_inv_step:
  assumes step: "machine_step rewrite cfg cap accepts restarts a n a'" and inv: "machine_inv a" and rw: "keeps_header rewrite"
  shows "machine_inv a'"
  using step
proof cases
  case (m_publish msg policy err d v')
  have nd: "m_id msg \<notin> dom (ma_view a)" using inv m_publish(3) by (auto simp: machine_inv_def)
  note N = publish_effect_new [OF m_publish(4) nd] and V = publish_effect_view(2) [OF m_publish(4) nd]
  have acc: "ma_accepted a \<subseteq> ma_accepted a'" by (auto simp: m_publish(2))
  have "m_id m = mid \<and> mid \<in> ma_accepted a'" if "v' mid = Some m" for mid m
    using N [OF that] inv by (auto simp: machine_inv_def m_publish(2))
  moreover have "v' (m_id m) = Some m \<and> m_state m = MSG_IN_FLIGHT" if "held (ma_task a) = Some m" for m
  proof -
    have h: "ma_view a (m_id m) = Some m" "m_state m = MSG_IN_FLIGHT" using that inv by (auto simp: machine_inv_def)
    then show ?thesis using V [OF h(1)] by simp
  qed
  moreover have "m_id m \<in> ma_accepted a'" if "(m, r) \<in> set (ma_sent a)" for m r
    using that inv acc by (auto simp: machine_inv_def)
  moreover have "ma_view a' = v'" "ma_task a' = ma_task a" "ma_sent a' = ma_sent a" by (simp_all add: m_publish(2))
  ultimately show ?thesis by (simp only: machine_inv_def) blast
next
  case (m_claim now_us m)
  then show ?thesis using inv by (auto simp: machine_inv_def first_to_claim_def)
next
  case m_nothing
  then show ?thesis using inv by simp
next
  case (m_send m r)
  then show ?thesis using inv by (auto simp: machine_inv_def)
next
  case (m_settle m r now_us rnd)
  have acc: "m_id m \<in> ma_accepted a" using machine_invD(2,3) [OF inv] m_settle(3) by fastforce
  have "m_id m' = mid \<and> mid \<in> ma_accepted a" if "ma_view a' mid = Some m'" for mid m'
  proof (cases "mid = m_id m")
    case True
    then have "fst (settled rewrite cfg m r now_us rnd) = Some m'" using that by (simp add: m_settle(2))
    then show ?thesis using settled_cases(1) [OF rw] acc True by metis
  next
    case False
    then show ?thesis using that machine_invD(1,2) [OF inv] by (simp add: m_settle(2))
  qed
  moreover have "held (ma_task a') = None" "ma_sent a' = ma_sent a" "ma_accepted a' = ma_accepted a"
    by (simp_all add: m_settle(2))
  ultimately show ?thesis using machine_invD(5) [OF inv] by (simp add: machine_inv_def)
next
  case m_restart
  then show ?thesis using inv by (auto simp: machine_inv_def requeued_fields [OF rw])
qed

lemma machine_inv_start: "machine_inv machine_start"
  by (simp add: machine_inv_def machine_start_def)

subsection \<open>Not after a success\<close>

text \<open>A message that was delivered is no longer stored, or is about to be removed.\<close>

definition once_inv :: "machine \<Rightarrow> bool" where
  "once_inv a \<longleftrightarrow>
     (\<forall>m. (m, DELIVERY_SUCCESS) \<in> set (ma_sent a) \<longrightarrow> ma_view a (m_id m) = None \<or>
        (\<exists>m'. ma_task a = Settling m' DELIVERY_SUCCESS \<and> m_id m' = m_id m)) \<and>
     (\<forall>i j. i < j \<and> j < length (ma_sent a) \<and> m_id (fst (ma_sent a ! i)) = m_id (fst (ma_sent a ! j)) \<longrightarrow>
        snd (ma_sent a ! i) \<noteq> DELIVERY_SUCCESS)"

lemma once_inv_step:
  assumes step: "machine_step rewrite cfg cap accepts False a n a'" and inv: "machine_inv a" and once: "once_inv a"
    and rw: "keeps_header rewrite"
  shows "once_inv a'"
  using step
proof cases
  case (m_publish msg policy err d v')
  have nd: "m_id msg \<notin> dom (ma_view a)" using inv m_publish(3) by (auto simp: machine_inv_def)
  note N = publish_effect_new [OF m_publish(4) nd]
  have "v' (m_id m) = None \<or> (\<exists>m'. ma_task a = Settling m' DELIVERY_SUCCESS \<and> m_id m' = m_id m)"
    if s: "(m, DELIVERY_SUCCESS) \<in> set (ma_sent a)" for m
  proof -
    have "m_id m \<in> ma_accepted a" using inv s by (auto simp: machine_inv_def)
    then have "m_id m \<noteq> m_id msg" using m_publish(3) by metis
    then have "ma_view a (m_id m) = None \<Longrightarrow> v' (m_id m) = None" using N [of "m_id m"] by (cases "v' (m_id m)") auto
    then show ?thesis using once s by (auto simp: once_inv_def)
  qed
  then show ?thesis using once by (simp add: once_inv_def m_publish(2))
next
  case (m_claim now_us m)
  then show ?thesis using once by (auto simp: once_inv_def first_to_claim_def)
next
  case m_nothing
  then show ?thesis using once by simp
next
  case (m_send m r)
  have v: "ma_view a (m_id m) = Some m" using inv m_send(3) by (simp add: machine_inv_def)
  have new: "r' \<noteq> DELIVERY_SUCCESS" if "(m', r') \<in> set (ma_sent a)" "m_id m' = m_id m" for m' r'
    using once that v m_send(3) by (auto simp: once_inv_def)
  have old: "snd (ma_sent a ! i) \<noteq> DELIVERY_SUCCESS" if "i < length (ma_sent a)" "m_id (fst (ma_sent a ! i)) = m_id m" for i
    using new [of "fst (ma_sent a ! i)" "snd (ma_sent a ! i)"] that by simp
  have "\<forall>i j. i < j \<and> j < length (ma_sent a') \<and> m_id (fst (ma_sent a' ! i)) = m_id (fst (ma_sent a' ! j)) \<longrightarrow>
      snd (ma_sent a' ! i) \<noteq> DELIVERY_SUCCESS"
    using once old by (auto simp: m_send(2) once_inv_def nth_append less_Suc_eq)
  moreover have "ma_view a' (m_id m') = None \<or> (\<exists>x. ma_task a' = Settling x DELIVERY_SUCCESS \<and> m_id x = m_id m')"
    if "(m', DELIVERY_SUCCESS) \<in> set (ma_sent a')" for m'
    using that once m_send(3) by (auto simp: m_send(2) once_inv_def)
  ultimately show ?thesis by (simp add: once_inv_def)
next
  case (m_settle m r now_us rnd)
  have "ma_view a' (m_id m') = None" if s: "(m', DELIVERY_SUCCESS) \<in> set (ma_sent a)" for m'
  proof (cases "m_id m' = m_id m")
    case True
    have "ma_view a (m_id m') = Some m" using inv m_settle(3) by (simp add: machine_inv_def True)
    then have "r = DELIVERY_SUCCESS" using once s m_settle(3) by (auto simp: once_inv_def)
    then show ?thesis by (simp add: m_settle(2) True settled_def)
  next
    case False
    then show ?thesis using once s m_settle(3) by (auto simp: once_inv_def m_settle(2))
  qed
  then show ?thesis using once by (simp add: once_inv_def m_settle(2))
next
  case m_restart
  then show ?thesis by simp
qed

lemma once_inv_run:
  assumes "machine_run rewrite cfg cap accepts False a n a'" "keeps_header rewrite"
  shows "machine_inv a \<Longrightarrow> once_inv a \<Longrightarrow> machine_inv a' \<and> once_inv a'"
  using assms by (induction rule: machine_run.induct) (auto intro: machine_inv_step once_inv_step)

lemma never_sent_again:
  assumes "machine_run rewrite cfg cap accepts False machine_start n a" "keeps_header rewrite"
    and "i < j" "j < length (ma_sent a)" "m_id (fst (ma_sent a ! i)) = m_id (fst (ma_sent a ! j))"
  shows "snd (ma_sent a ! i) \<noteq> DELIVERY_SUCCESS"
proof -
  have "once_inv machine_start" by (simp add: once_inv_def machine_start_def)
  then have "once_inv a" using once_inv_run [OF assms(1,2) machine_inv_start] by blast
  then show ?thesis using assms(3-5) unfolding once_inv_def by blast
qed

subsection \<open>How often\<close>

definition transmissions :: "(message \<times> delivery_result) list \<Rightarrow> message_id \<Rightarrow> nat" where
  "transmissions sent mid = length (filter (\<lambda>(m, r). m_id m = mid) sent)"

text \<open>The transmissions of a message, the one that is about to be made included.\<close>

definition started :: "machine \<Rightarrow> message_id \<Rightarrow> nat" where
  "started a mid = transmissions (ma_sent a) mid + of_bool (\<exists>m. ma_task a = Holding m \<and> m_id m = mid)"

definition attempts_inv :: "nat \<Rightarrow> nat \<Rightarrow> machine \<Rightarrow> bool" where
  "attempts_inv b p a \<longleftrightarrow>
     (\<forall>mid m. ma_view a mid = Some m \<longrightarrow> started a mid \<le> unat (m_attempt_count m) \<and> unat (m_attempt_count m) \<le> b \<and>
        (m_state m = MSG_PENDING \<longrightarrow> unat (m_attempt_count m) \<le> p)) \<and>
     (\<forall>mid. transmissions (ma_sent a) mid \<le> b)"

lemma transmissions_append [simp]:
  "transmissions (sent @ [(m, r)]) mid = transmissions sent mid + of_bool (m_id m = mid)"
  by (simp add: transmissions_def)

lemma not_transmitted:
  assumes "machine_inv a" "mid \<notin> ma_accepted a"
  shows "transmissions (ma_sent a) mid = 0"
  using assms by (auto simp: transmissions_def machine_inv_def filter_empty_conv)

text \<open>
  A bound \<open>b\<close> on the attempts of any message and \<open>p\<close> on those of a waiting one, before and after a
  step.  Waiting messages stay below the bound because of the retry limit, or because the bounds
  grow with the run.
\<close>

lemma attempts_step:
  assumes step: "machine_step rewrite cfg cap accepts restarts a n a'" and inv: "machine_inv a" and att: "attempts_inv b p a"
    and rw: "keeps_header rewrite" and le: "b \<le> b'" "p \<le> p'" "p + min 1 n \<le> b'" "b' < 2 ^ 32"
    and bound: "b \<le> p' \<or> max_attempts cfg \<noteq> 0 \<and> unat (max_attempts cfg) \<le> p' + 1 \<and> \<not> restarts"
  shows "attempts_inv b' p' a'"
proof -
  have A: "started a mid \<le> unat (m_attempt_count m)" "unat (m_attempt_count m) \<le> b"
    "m_state m = MSG_PENDING \<Longrightarrow> unat (m_attempt_count m) \<le> p" if "ma_view a mid = Some m" for mid m
    using that att by (auto simp: attempts_inv_def)
  have B: "transmissions (ma_sent a) mid \<le> b" for mid using att by (simp add: attempts_inv_def)
  have keep: "transmissions (ma_sent a) mid \<le> b'" for mid using B [of mid] le(1) by simp
  have A': "unat (m_attempt_count m) \<le> b'" "m_state m = MSG_PENDING \<Longrightarrow> unat (m_attempt_count m) \<le> p'"
    if "ma_view a mid = Some m" for mid m
    using A(2,3) [OF that] le(1,2) by simp_all
  from step show ?thesis
  proof cases
    case (m_publish msg policy err d v')
    have nd: "m_id msg \<notin> dom (ma_view a)" using inv m_publish(3) by (auto simp: machine_inv_def)
    note N = publish_effect_new [OF m_publish(4) nd]
    have st: "started a' mid = started a mid" for mid by (simp add: started_def m_publish(2))
    have "ma_task a \<noteq> Holding m \<or> m_id m \<noteq> m_id msg" for m using inv nd by (auto simp: machine_inv_def)
    then have "started a (m_id msg) = 0" using not_transmitted [OF inv m_publish(3)] by (auto simp: started_def)
    then have "started a mid \<le> unat (m_attempt_count m) \<and> unat (m_attempt_count m) \<le> b' \<and>
        (m_state m = MSG_PENDING \<longrightarrow> unat (m_attempt_count m) \<le> p')" if "v' mid = Some m" for mid m
      using N [OF that] A [of mid m] le by auto
    then show ?thesis using keep by (simp add: attempts_inv_def st) (simp add: m_publish(2))
  next
    case (m_claim now_us m)
    have v: "ma_view a (m_id m) = Some m" "m_state m = MSG_PENDING"
      using m_claim(4) by (auto simp: first_to_claim_def eligible_def)
    have p: "unat (m_attempt_count m) \<le> p" by (rule A(3) [OF v])
    then have "unat (m_attempt_count m) + 1 < 2 ^ 32" using le(3,4) m_claim(1) by simp
    then have u: "unat (m_attempt_count m + 1) = unat (m_attempt_count m) + 1" by (simp add: unat_word_ariths)
    have st: "started a' mid = started a mid + of_bool (mid = m_id m)" for mid
      using m_claim(3) by (auto simp: started_def m_claim(2))
    have "started a' mid \<le> unat (m_attempt_count m') \<and> unat (m_attempt_count m') \<le> b' \<and>
        (m_state m' = MSG_PENDING \<longrightarrow> unat (m_attempt_count m') \<le> p')" if "ma_view a' mid = Some m'" for mid m'
    proof (cases "mid = m_id m")
      case True
      then have "m' = claimed m now_us" using that by (simp add: m_claim(2))
      then show ?thesis using A(1) [OF v(1)] p le(3) m_claim(1) u by (simp add: st True)
    next
      case False
      then have "ma_view a mid = Some m'" using that by (simp add: m_claim(2))
      then show ?thesis using A(1) A' False by (simp add: st)
    qed
    then show ?thesis using keep by (simp add: attempts_inv_def) (simp add: m_claim(2))
  next
    case m_nothing
    then show ?thesis using A(1) A' keep by (simp add: attempts_inv_def)
  next
    case (m_send m r)
    have v: "ma_view a (m_id m) = Some m" using inv m_send(3) by (simp add: machine_inv_def)
    have st: "started a' mid = started a mid" for mid using m_send(3) by (auto simp: started_def m_send(2))
    have "transmissions (ma_sent a') mid \<le> b'" for mid
      using keep [of mid] A(1,2) [OF v] m_send(3) le(1) by (auto simp: m_send(2) started_def)
    moreover have "ma_view a' = ma_view a" by (simp add: m_send(2))
    ultimately show ?thesis using A(1) A' by (simp add: attempts_inv_def st)
  next
    case (m_settle m r now_us rnd)
    have v: "ma_view a (m_id m) = Some m" using inv m_settle(3) by (simp add: machine_inv_def)
    have st: "started a' mid = started a mid" for mid using m_settle(3) by (simp add: started_def m_settle(2))
    have "unat (m_attempt_count m') \<le> p'" if "fst (settled rewrite cfg m r now_us rnd) = Some m'" "m_state m' = MSG_PENDING" for m'
      using settled_cases [OF rw that(1)] that(2) A(2) [OF v] bound by (auto simp: word_less_nat_alt)
    then have "started a mid \<le> unat (m_attempt_count m') \<and> unat (m_attempt_count m') \<le> b' \<and>
        (m_state m' = MSG_PENDING \<longrightarrow> unat (m_attempt_count m') \<le> p')"
      if "((ma_view a)(m_id m := fst (settled rewrite cfg m r now_us rnd))) mid = Some m'" for mid m'
      using that settled_cases(2) [OF rw, of cfg m r now_us rnd m'] A [of mid m'] A [OF v] le by (auto split: if_splits)
    then show ?thesis using keep by (simp add: attempts_inv_def st) (simp add: m_settle(2))
  next
    case m_restart
    have st: "started a' mid \<le> started a mid" for mid by (simp add: started_def m_restart(2))
    have "b \<le> p'" using bound m_restart(3) by blast
    then have "started a' mid \<le> unat (m_attempt_count m) \<and> unat (m_attempt_count m) \<le> b' \<and>
        unat (m_attempt_count m) \<le> p'" if "ma_view a mid = Some m" for mid m
      using A [OF that] le st [of mid] by simp
    moreover have "ma_view a' = (\<lambda>mid. map_option (requeued_with rewrite) (ma_view a mid))" "ma_sent a' = ma_sent a"
      by (simp_all add: m_restart(2))
    ultimately show ?thesis using keep by (auto simp: attempts_inv_def requeued_fields [OF rw])
  qed
qed

lemma attempts_inv_start: "attempts_inv b p machine_start"
  by (simp add: attempts_inv_def machine_start_def transmissions_def)

text \<open>With restarts: the recorded attempts are never fewer than the transmissions.\<close>

lemma attempts_not_undercounted:
  assumes "machine_run rewrite cfg cap accepts restarts a n a'" "keeps_header rewrite"
  shows "machine_inv a \<Longrightarrow> attempts_inv b b a \<Longrightarrow> b + n < 2 ^ 32 \<Longrightarrow> machine_inv a' \<and> attempts_inv (b + n) (b + n) a'"
  using assms
proof (induction rule: machine_run.induct)
  case (m_refl a)
  then show ?case by simp
next
  case (m_step a n a1 m a2)
  have lt: "b + n < 2 ^ 32" using m_step.prems(3) by simp
  have I: "machine_inv a1" "attempts_inv (b + n) (b + n) a1" using m_step.IH [OF m_step.prems(1,2) lt m_step.prems(4)] by blast+
  have "attempts_inv (b + (n + m)) (b + (n + m)) a2"
    by (rule attempts_step [OF m_step.hyps(2) I m_step.prems(4)]) (use m_step.prems(3) in auto)
  then show ?case using machine_inv_step [OF m_step.hyps(2) I(1) m_step.prems(4)] by blast
qed

text \<open>Without a restart: the retry limit bounds the transmissions.\<close>

lemma transmissions_limited:
  assumes "machine_run rewrite cfg cap accepts False a n a'" "keeps_header rewrite" "max_attempts cfg \<noteq> 0"
  shows "machine_inv a \<Longrightarrow> attempts_inv (unat (max_attempts cfg)) (unat (max_attempts cfg) - 1) a \<Longrightarrow>
    machine_inv a' \<and> attempts_inv (unat (max_attempts cfg)) (unat (max_attempts cfg) - 1) a'"
  using assms
proof (induction rule: machine_run.induct)
  case (m_refl a)
  then show ?case by simp
next
  case (m_step a n a1 m a2)
  let ?b = "unat (max_attempts cfg)"
  have I: "machine_inv a1" "attempts_inv ?b (?b - 1) a1" using m_step.IH [OF m_step.prems] by blast+
  have "0 < ?b" using m_step.prems(4) by (simp add: unat_gt_0)
  moreover have "?b < 2 ^ LENGTH(32)" by (rule unsigned_less)
  ultimately have "attempts_inv ?b (?b - 1) a2"
    by (intro attempts_step [OF m_step.hyps(2) I m_step.prems(3)]) (use m_step.prems(4) in auto)
  then show ?case using machine_inv_step [OF m_step.hyps(2) I(1) m_step.prems(3)] by blast
qed

end
