(* ===== verification/Flashq_Backend.thy ===== *)
theory Flashq_Backend
  imports Flashq_Start Flashq_Crash ES_Machine
begin

text \<open>
  The flash queue as a storage backend: its operations table, the selections of \<open>claim_next\<close>
  and \<open>find_drop_candidate\<close> in terms of the stored messages, and the interpretation of the
  two contracts.
\<close>

definition flashq_ops :: "'p flash_ops \<Rightarrow> bool \<Rightarrow> 'p flashq_ctx storage_ops" where
  "flashq_ops F mutex_created =
     \<lparr>so_init = op_init mutex_created, so_recover = op_recover F, so_enqueue = op_enqueue F,
      so_claim_next = op_claim_next F, so_mark_delivered = op_mark_delivered F,
      so_schedule_retry = op_schedule_retry F, so_remove = op_remove F,
      so_find_drop_candidate = op_find_drop_candidate, so_get_stats = op_get_stats, so_close = op_close\<rparr>"

lemma flashq_ops_simps [simp]:
  "so_init (flashq_ops F mc) = op_init mc" "so_recover (flashq_ops F mc) = op_recover F"
  "so_enqueue (flashq_ops F mc) = op_enqueue F" "so_claim_next (flashq_ops F mc) = op_claim_next F"
  "so_mark_delivered (flashq_ops F mc) = op_mark_delivered F"
  "so_schedule_retry (flashq_ops F mc) = op_schedule_retry F" "so_remove (flashq_ops F mc) = op_remove F"
  "so_find_drop_candidate (flashq_ops F mc) = op_find_drop_candidate"
  "so_get_stats (flashq_ops F mc) = op_get_stats" "so_close (flashq_ops F mc) = op_close"
  by (simp_all add: flashq_ops_def)

section \<open>Entries and stored messages\<close>

lemma contents_entry:
  assumes "inv_core cells sz c" "contents cells c mid = Some msg"
  obtains i where "i < length (index c)" "e_id (index c ! i) = mid"
    "msg = stored (cells (partition c)) (active_base c) (index c ! i)"
proof -
  have "mid \<in> e_id ` set (index c)"
    using assms(2) dom_contents_of unfolding contents_def by (metis domI)
  then obtain i where i: "i < length (index c)" "e_id (index c ! i) = mid" by (auto simp: in_set_conv_nth)
  then show thesis using that contents_nth [OF assms(1) i(1)] assms(2) by simp
qed

lemma contents_card:
  assumes "inv_core cells sz c"
  shows "finite (dom (contents cells c))" "card (dom (contents cells c)) = length (index c)"
proof -
  have d: "dom (contents cells c) = set (map e_id (index c))"
    by (simp add: contents_def dom_contents_of)
  then show "finite (dom (contents cells c))" by simp
  show "card (dom (contents cells c)) = length (index c)"
    unfolding d using distinct_card [OF inv_coreD(5) [OF assms]] by simp
qed

lemma state_of_pending: "live_state s \<Longrightarrow> state_of s = MSG_PENDING \<longleftrightarrow> s = STATE_PENDING"
  by (auto simp: live_state_def state_of_def)

definition entry_claim_key :: "index_entry \<Rightarrow> int \<times> int \<times> int" where
  "entry_claim_key e = (- uint (e_priority e), sint (e_next_retry_at_us e), sint (e_created_at_us e))"

definition entry_drop_key :: "overflow_policy \<Rightarrow> index_entry \<Rightarrow> int \<times> int" where
  "entry_drop_key policy e =
     ((if policy = OVERFLOW_DROP_LOWEST_PRIORITY then uint (e_priority e) else 0), sint (e_created_at_us e))"

lemma sint_inject: "sint x = sint y \<longleftrightarrow> x = (y :: 'a::len word)"
  by (metis uint_sint word_uint_eqI)

lemma claim_better_key: "claim_better e best = (entry_claim_key e < entry_claim_key best)"
  by (auto simp: claim_better_def entry_claim_key_def less_prod_def word_less_def sint_inject
      simp flip: word_uint_eq_iff)

lemma drop_better_key: "drop_better policy e best = (entry_drop_key policy e < entry_drop_key policy best)"
  by (auto simp: drop_better_def entry_drop_key_def less_prod_def word_less_def simp flip: word_uint_eq_iff)

lemma claim_select_least: "first_least (claim_eligible now_us) entry_claim_key xs (length xs) (claim_select now_us xs)"
  unfolding claim_select_def by (rule select_loop_correct) (rule claim_better_key)

lemma drop_select_least:
  "first_least drop_eligible (entry_drop_key policy) xs (length xs)
     (select_loop drop_eligible (drop_better policy) xs [0..<length xs] None)"
  by (rule select_loop_correct) (rule drop_better_key)

lemma stored_keys:
  "claim_key (stored m base e) = entry_claim_key e" "drop_key policy (stored m base e) = entry_drop_key policy e"
  "m_id (stored m base e) = e_id e" "m_state (stored m base e) = state_of (e_state e)"
  by (simp_all add: claim_key_def entry_claim_key_def drop_key_def entry_drop_key_def stored_def)

lemma stored_eligible:
  "live_state (e_state e) \<Longrightarrow> eligible now_us (stored m base e) = claim_eligible now_us e"
  by (auto simp: eligible_def claim_eligible_def stored_def state_of_pending)

lemma claim_select_first:
  assumes inv: "inv_core cells sz c" and sel: "claim_select now_us (index c) = Some pos"
  shows "first_to_claim (contents cells c) now_us (stored (cells (partition c)) (active_base c) (index c ! pos))"
proof -
  let ?st = "stored (cells (partition c)) (active_base c)"
  have "first_least (claim_eligible now_us) entry_claim_key (index c) (length (index c)) (Some pos)"
    using claim_select_least [of now_us "index c"] sel by simp
  then have p: "pos < length (index c)" "claim_eligible now_us (index c ! pos)"
    and least: "\<And>j. j < length (index c) \<Longrightarrow> claim_eligible now_us (index c ! j) \<Longrightarrow>
      entry_claim_key (index c ! pos) \<le> entry_claim_key (index c ! j)"
    by (simp_all add: first_least_def)
  have live: "live_state (e_state (index c ! j))" if "j < length (index c)" for j
    using inv_coreD(6) [OF inv] that by simp
  show ?thesis
    unfolding first_to_claim_def
  proof (intro conjI allI impI)
    show "contents cells c (m_id (?st (index c ! pos))) = Some (?st (index c ! pos))"
      using contents_nth [OF inv p(1)] by (simp add: stored_keys)
    show "eligible now_us (?st (index c ! pos))" using p live by (simp add: stored_eligible)
    fix mid msg' assume m: "contents cells c mid = Some msg' \<and> eligible now_us msg'"
    then obtain j where j: "j < length (index c)" "msg' = ?st (index c ! j)"
      by (metis contents_entry [OF inv])
    then show "claim_key (?st (index c ! pos)) \<le> claim_key msg'"
      using least m live by (simp add: stored_keys stored_eligible)
  qed
qed

lemma claim_select_none:
  assumes inv: "inv_core cells sz c"
  shows "claim_select now_us (index c) = None \<longleftrightarrow> \<not> (\<exists>mid msg. contents cells c mid = Some msg \<and> eligible now_us msg)"
proof
  assume n: "claim_select now_us (index c) = None"
  have none: "\<not> claim_eligible now_us (index c ! j)" if "j < length (index c)" for j
    using claim_select_least [of now_us "index c"] n that by (simp add: first_least_def)
  show "\<not> (\<exists>mid msg. contents cells c mid = Some msg \<and> eligible now_us msg)"
  proof
    assume "\<exists>mid msg. contents cells c mid = Some msg \<and> eligible now_us msg"
    then obtain mid msg where m: "contents cells c mid = Some msg" "eligible now_us msg" by blast
    obtain j where "j < length (index c)" "msg = stored (cells (partition c)) (active_base c) (index c ! j)"
      by (rule contents_entry [OF inv m(1)])
    then show False using none m(2) inv_coreD(6) [OF inv] by (simp add: stored_eligible)
  qed
next
  assume n: "\<not> (\<exists>mid msg. contents cells c mid = Some msg \<and> eligible now_us msg)"
  show "claim_select now_us (index c) = None"
  proof (rule ccontr)
    assume "claim_select now_us (index c) \<noteq> None"
    then obtain pos where "claim_select now_us (index c) = Some pos" by blast
    from claim_select_first [OF inv this] n show False by (auto simp: first_to_claim_def)
  qed
qed

lemma drop_candidate_first:
  assumes inv: "inv_core cells sz c"
  shows "op_find_drop_candidate c policy = (ESP_OK, dropped) \<Longrightarrow>
      \<exists>msg. first_to_drop (contents cells c) policy msg \<and> dropped = Some (m_id msg)"
    and "op_find_drop_candidate c policy = (err, dropped) \<Longrightarrow> err \<noteq> ESP_OK \<Longrightarrow>
      \<forall>mid msg. contents cells c mid = Some msg \<longrightarrow> m_state msg \<noteq> MSG_PENDING"
proof -
  let ?st = "stored (cells (partition c)) (active_base c)"
  note L = drop_select_least [of policy "index c"]
  have live: "m_state (?st (index c ! j)) = MSG_PENDING \<longleftrightarrow> drop_eligible (index c ! j)" if "j < length (index c)" for j
    using inv_coreD(6) [OF inv] that by (simp add: stored_keys state_of_pending drop_eligible_def)
  show "\<exists>msg. first_to_drop (contents cells c) policy msg \<and> dropped = Some (m_id msg)"
    if run: "op_find_drop_candidate c policy = (ESP_OK, dropped)"
  proof -
    obtain pos where sel: "select_loop drop_eligible (drop_better policy) (index c) [0..<length (index c)] None = Some pos"
      using run by (cases "select_loop drop_eligible (drop_better policy) (index c) [0..<length (index c)] None")
        (auto simp: op_find_drop_candidate_def)
    have p: "pos < length (index c)" "drop_eligible (index c ! pos)"
      and least: "\<And>j. j < length (index c) \<Longrightarrow> drop_eligible (index c ! j) \<Longrightarrow>
        entry_drop_key policy (index c ! pos) \<le> entry_drop_key policy (index c ! j)"
      using L sel by (simp_all add: first_least_def)
    have "first_to_drop (contents cells c) policy (?st (index c ! pos))"
      unfolding first_to_drop_def
    proof (intro conjI allI impI)
      show "contents cells c (m_id (?st (index c ! pos))) = Some (?st (index c ! pos))"
        using contents_nth [OF inv p(1)] by (simp add: stored_keys)
      show "m_state (?st (index c ! pos)) = MSG_PENDING" using p live by simp
      fix mid msg' assume m: "contents cells c mid = Some msg' \<and> m_state msg' = MSG_PENDING"
      then obtain j where j: "j < length (index c)" "msg' = ?st (index c ! j)"
        by (metis contents_entry [OF inv])
      then show "drop_key policy (?st (index c ! pos)) \<le> drop_key policy msg'"
        using least m live by (simp add: stored_keys)
    qed
    moreover have "dropped = Some (m_id (?st (index c ! pos)))"
      using run sel by (simp add: op_find_drop_candidate_def stored_keys)
    ultimately show ?thesis by blast
  qed
  show "\<forall>mid msg. contents cells c mid = Some msg \<longrightarrow> m_state msg \<noteq> MSG_PENDING"
    if run: "op_find_drop_candidate c policy = (err, dropped)" and err: "err \<noteq> ESP_OK"
  proof (intro allI impI notI)
    fix mid msg assume m: "contents cells c mid = Some msg" "m_state msg = MSG_PENDING"
    obtain j where j: "j < length (index c)" "msg = ?st (index c ! j)"
      by (rule contents_entry [OF inv m(1)])
    have "select_loop drop_eligible (drop_better policy) (index c) [0..<length (index c)] None = None"
      using run err by (auto simp: op_find_drop_candidate_def split: option.splits)
    then show False using L j m(2) live by (simp add: first_least_def)
  qed
qed

section \<open>The contracts\<close>

definition flashq_good :: "('p \<Rightarrow> mem) \<Rightarrow> 'p flash_ops \<Rightarrow> nat \<Rightarrow> nat \<Rightarrow> 'p flashq_ctx \<Rightarrow> bool" where
  "flashq_good cells F sz k c \<longleftrightarrow> flash_laws F cells \<and> flashq_inv cells sz c \<and> generation_room c k"

lemma flashq_goodD:
  assumes "flashq_good cells F sz (Suc k) c"
  shows "flash_laws F cells" "flashq_inv cells sz c" "generation_ok c" "inv_core cells sz c"
  using assms generation_room_ok by (auto simp: flashq_good_def flashq_inv_def)

lemma flashq_good_step:
  assumes "flashq_good cells F sz (Suc k) c" "flashq_inv cells sz c'" "keeps cells F sz c c'"
  shows "flashq_good cells F sz k c'"
  using assms by (auto simp: flashq_good_def keeps_def generation_room_def)

lemma flashq_claim:
  assumes good: "flashq_good cells F sz (Suc k) c"
    and run: "op_claim_next F c now_us = (err, r, c')" and err: "err = ESP_OK \<or> err = EDGESYNC_ERR_STORAGE_CORRUPT"
  obtains msg where "first_to_claim (contents cells c) now_us msg" "flashq_good cells F sz k c'" "keeps cells F sz c c'"
    "err = ESP_OK \<Longrightarrow> r = Some (claimed msg now_us) \<and>
       contents cells c' = (contents cells c)(m_id msg \<mapsto> claimed msg now_us)"
    "err = EDGESYNC_ERR_STORAGE_CORRUPT \<Longrightarrow> r = Some (blank_message (m_id msg)) \<and>
       contents cells c' = (contents cells c)(m_id msg \<mapsto> corrupted msg)"
    "err = EDGESYNC_ERR_STORAGE_CORRUPT \<Longrightarrow> \<not> reads_ok F sz"
proof -
  note G = flashq_goodD [OF good]
  obtain pos mid msg where m: "claim_select now_us (index c) = Some pos" "pos < length (index c)"
    "mid = e_id (index c ! pos)" "contents cells c mid = Some msg"
    "msg = stored (cells (partition c)) (active_base c) (index c ! pos)"
    "flashq_inv cells sz c'" "keeps cells F sz c c'"
    "err = ESP_OK \<Longrightarrow> r = Some (claimed msg now_us) \<and> contents cells c' = (contents cells c)(mid \<mapsto> claimed msg now_us)"
    "err = EDGESYNC_ERR_STORAGE_CORRUPT \<Longrightarrow> r = Some (blank_message mid) \<and> contents cells c' =
       (contents cells c)(mid \<mapsto> msg\<lparr>m_state := MSG_DEAD_LETTER, m_last_error := EDGESYNC_ERR_STORAGE_CORRUPT\<rparr>)"
    "err = EDGESYNC_ERR_STORAGE_CORRUPT \<Longrightarrow> \<not> reads_ok F sz"
    by (rule claim_next_ok [OF G(1,2,3) run err]) blast
  have "m_id msg = mid" by (simp add: m(3,5) stored_keys)
  then show thesis
    using that claim_select_first [OF G(4) m(1), folded m(5)] flashq_good_step [OF good m(6,7)] m(7-10)
    by (simp add: corrupted_def)
qed

lemma enqueue_full_unchanged:
  assumes "op_enqueue F c msg = (EDGESYNC_ERR_QUEUE_FULL, c')"
  shows "c' = c"
  using assms
  by (auto simp: op_enqueue_def Let_def split: if_splits option.splits prod.splits dest!: low_error_space low_error_append)
    (auto simp: low_error_def)

lemma claim_none_unchanged:
  assumes "op_claim_next F c now_us = (EDGESYNC_ERR_NOT_FOUND, r, c')"
  shows "claim_select now_us (index c) = None" "r = None" "c' = c"
proof -
  show n: "claim_select now_us (index c) = None"
  proof (cases "claim_select now_us (index c)")
    case (Some pos)
    then show ?thesis using assms
      by (auto simp: op_claim_next_def Let_def low_error_def split: prod.splits option.splits if_splits
          dest!: low_error_update low_error_commit)
  qed
  show "r = None" "c' = c" using assms n by (simp_all add: op_claim_next_def)
qed

interpretation flashq: storage_backend "flashq_ops F mc" "flashq_good cells F sz" "contents cells"
  "\<lambda>m. m"
  for F :: "'p flash_ops" and mc :: bool and cells :: "'p \<Rightarrow> mem" and sz :: nat
proof (unfold_locales, unfold flashq_ops_simps requeued_with_id)
  fix k c c' mid next_us dead er policy dropped r now_us err and msg :: message
  show "msg = msg\<lparr>m_payload := m_payload msg\<rparr>" by simp
  show "flashq_good cells F sz (Suc k) c \<Longrightarrow> flashq_good cells F sz k c"
    by (simp add: flashq_good_def generation_room_def)
  show "flashq_good cells F sz k c \<Longrightarrow> contents cells c mid = Some msg \<Longrightarrow> m_id msg = mid"
    by (metis contents_entry flashq_good_def flashq_inv_def stored_keys(3))
  show "flashq_good cells F sz (Suc k) c \<Longrightarrow> m_id msg \<notin> dom (contents cells c) \<Longrightarrow> op_enqueue F c msg = (ESP_OK, c') \<Longrightarrow>
      flashq_good cells F sz k c' \<and> contents cells c' = (contents cells c)(m_id msg \<mapsto> fresh msg)"
    by (metis enqueue_ok flashq_goodD(1-3) flashq_good_step)
  show "flashq_good cells F sz k c \<Longrightarrow> op_enqueue F c msg = (EDGESYNC_ERR_QUEUE_FULL, c') \<Longrightarrow> c' = c"
    by (rule enqueue_full_unchanged)
  show "flashq_good cells F sz (Suc k) c \<Longrightarrow> op_claim_next F c now_us = (ESP_OK, r, c') \<Longrightarrow>
      \<exists>msg. first_to_claim (contents cells c) now_us msg \<and> r = Some (claimed msg now_us) \<and>
        flashq_good cells F sz k c' \<and> contents cells c' = (contents cells c)(m_id msg \<mapsto> claimed msg now_us)"
    by (metis flashq_claim)
  show "flashq_good cells F sz (Suc k) c \<Longrightarrow> op_claim_next F c now_us = (EDGESYNC_ERR_NOT_FOUND, r, c') \<Longrightarrow>
      r = None \<and> flashq_good cells F sz k c' \<and> contents cells c' = contents cells c"
    by (frule claim_none_unchanged(2), drule claim_none_unchanged(3)) (simp add: flashq_good_def generation_room_def)
  show "flashq_good cells F sz (Suc k) c \<Longrightarrow> op_claim_next F c now_us = (EDGESYNC_ERR_STORAGE_CORRUPT, r, c') \<Longrightarrow>
      \<exists>msg. first_to_claim (contents cells c) now_us msg \<and> r = Some (blank_message (m_id msg)) \<and>
        flashq_good cells F sz k c' \<and> contents cells c' = (contents cells c)(m_id msg \<mapsto> corrupted msg)"
    by (metis flashq_claim)
  show "flashq_good cells F sz (Suc k) c \<Longrightarrow> op_mark_delivered F c mid = (ESP_OK, c') \<Longrightarrow>
      flashq_good cells F sz k c' \<and> mid \<in> dom (contents cells c) \<and> contents cells c' = (contents cells c)(mid := None)"
    unfolding op_mark_delivered_def by (metis retire_entry_ok flashq_goodD(1-3) flashq_good_step)
  show "flashq_good cells F sz (Suc k) c \<Longrightarrow> op_remove F c mid = (ESP_OK, c') \<Longrightarrow>
      flashq_good cells F sz k c' \<and> mid \<in> dom (contents cells c) \<and> contents cells c' = (contents cells c)(mid := None)"
    unfolding op_remove_def by (metis retire_entry_ok flashq_goodD(1-3) flashq_good_step)
  show "flashq_good cells F sz (Suc k) c \<Longrightarrow> op_schedule_retry F c mid next_us dead er = (ESP_OK, c') \<Longrightarrow>
      flashq_good cells F sz k c' \<and> mid \<in> dom (contents cells c) \<and>
      contents cells c' = (contents cells c)(mid \<mapsto> retried (the (contents cells c mid)) next_us dead er)"
    by (metis schedule_retry_ok flashq_goodD(1-3) flashq_good_step)
  show "flashq_good cells F sz k c \<Longrightarrow> op_find_drop_candidate c policy = (ESP_OK, dropped) \<Longrightarrow>
      \<exists>msg. first_to_drop (contents cells c) policy msg \<and> dropped = Some (m_id msg)"
    by (metis drop_candidate_first(1) flashq_good_def flashq_inv_def)
  show "flashq_good cells F sz k c \<Longrightarrow> op_find_drop_candidate c policy = (err, dropped) \<Longrightarrow> err \<noteq> ESP_OK \<Longrightarrow>
      \<forall>mid msg. contents cells c mid = Some msg \<longrightarrow> m_state msg \<noteq> MSG_PENDING"
    by (metis drop_candidate_first(2) flashq_good_def flashq_inv_def)
qed

text \<open>
  On a reliable device: the tail of the log is blank, and the regions are large enough for
  \<open>cap\<close> messages of records of at most \<open>scr\<close> bytes.
\<close>

definition flashq_sound ::
  "('p \<Rightarrow> mem) \<Rightarrow> 'p flash_ops \<Rightarrow> nat \<Rightarrow> nat \<Rightarrow> nat \<Rightarrow> nat \<Rightarrow> 'p flashq_ctx \<Rightarrow> bool" where
  "flashq_sound cells F sz cap scr k c \<longleftrightarrow> flashq_good cells F sz k c \<and> flash_reliable F sz \<and>
     flashq_clean cells c \<and> sized c \<and> index_capacity c = cap \<and> scratch_size c = scr"

lemma flashq_soundD:
  assumes "flashq_sound cells F sz cap scr (Suc k) c"
  shows "flash_laws F cells" "flash_reliable F sz" "flashq_inv cells sz c" "generation_ok c" "flashq_clean cells c"
    "inv_core cells sz c" "has_room c 68" "flashq_good cells F sz (Suc k) c" "index_capacity c = cap"
    "scratch_size c = scr" "sized c"
  using assms flashq_goodD [of cells F sz k c] sized_room(1) by (auto simp: flashq_sound_def)

lemma flashq_sound_step:
  assumes "flashq_sound cells F sz cap scr (Suc k) c" "flashq_inv cells sz c'" "keeps cells F sz c c'"
  shows "flashq_sound cells F sz cap scr k c'"
  using assms flashq_good_step [of cells F sz k c c'] reliable_erases [of F sz]
  by (auto simp: flashq_sound_def keeps_def sized_def)

lemma retire_entry_total:
  assumes "flashq_sound cells F sz cap scr (Suc k) c" "retire_entry F c mid st = (err, c')"
  shows "err = (if mid \<in> dom (contents cells c) then ESP_OK else EDGESYNC_ERR_NOT_FOUND) \<and> (err \<noteq> ESP_OK \<longrightarrow> c' = c)"
proof (cases "mid \<in> dom (contents cells c)")
  case True
  then show ?thesis using retire_entry_live [OF flashq_soundD(1,2,3,4,5,7) [OF assms(1)] True, of st] assms(2) by simp
next
  case False
  then have "find_entry (index c) mid = None" using find_None_contents [of c mid cells] by auto
  then show ?thesis using assms(2) False by (simp add: retire_entry_def)
qed

lemma schedule_retry_total:
  assumes "flashq_sound cells F sz cap scr (Suc k) c" "op_schedule_retry F c mid next_us dead er = (err, c')"
  shows "err = (if mid \<in> dom (contents cells c) then ESP_OK else EDGESYNC_ERR_NOT_FOUND) \<and> (err \<noteq> ESP_OK \<longrightarrow> c' = c)"
proof (cases "mid \<in> dom (contents cells c)")
  case True
  then show ?thesis
    using schedule_retry_live [OF flashq_soundD(1,2,3,4,5,7) [OF assms(1)] True, of next_us dead er] assms(2) by simp
next
  case False
  then have "find_entry (index c) mid = None" using find_None_contents [of c mid cells] by auto
  then show ?thesis using assms(2) False by (simp add: op_schedule_retry_def)
qed

lemma enqueue_total_flashq:
  assumes "flashq_sound cells F sz cap scr (Suc k) c" "op_enqueue F c msg = (err, c')"
  shows "err = (if cap \<le> card (dom (contents cells c)) then EDGESYNC_ERR_QUEUE_FULL
             else if \<not> message_accepted scr msg then EDGESYNC_ERR_SERIALIZATION else ESP_OK) \<and> (err \<noteq> ESP_OK \<longrightarrow> c' = c)"
proof -
  note S = flashq_soundD [OF assms(1)]
  have "fst (op_enqueue F c msg) = (if index_capacity c \<le> length (index c) then EDGESYNC_ERR_QUEUE_FULL
      else if \<not> message_ok c msg then EDGESYNC_ERR_SERIALIZATION else ESP_OK)"
    "fst (op_enqueue F c msg) \<noteq> ESP_OK \<Longrightarrow> snd (op_enqueue F c msg) = c"
    using enqueue_live [OF S(1-5)] sized_room(2) [OF S(6,11)] by blast+
  then show ?thesis using assms(2) contents_card(2) [OF S(6)] S(9,10) by (simp add: message_ok_def message_accepted_def)
qed

lemma claim_total_flashq:
  assumes "flashq_sound cells F sz cap scr (Suc k) c" "op_claim_next F c now_us = (err, r, c')"
  shows "err = (if \<exists>mid msg. contents cells c mid = Some msg \<and> eligible now_us msg then ESP_OK else EDGESYNC_ERR_NOT_FOUND)"
  using claim_next_live [OF flashq_soundD(1,2,3,4,5,7) [OF assms(1)], of now_us] assms(2)
    claim_select_none [OF flashq_soundD(6) [OF assms(1)], of now_us] by simp

text \<open>A reboot starts from the same configuration and the flash as it was left.\<close>

definition flashq_reboot :: "('p \<Rightarrow> mem) \<Rightarrow> 'p flashq_ctx \<Rightarrow> 'p flashq_ctx \<Rightarrow> bool" where
  "flashq_reboot cells c c0 \<longleftrightarrow> same_config c0 c \<and> cells (partition c0) = cells (partition c)"

lemma restart_flashq:
  assumes s: "flashq_sound cells F sz cap scr (k + card (dom (contents cells c)) + 1) c"
    and rb: "flashq_reboot cells c c0" and run: "op_recover F c0 = (err, c')"
  shows "err = ESP_OK \<and> flashq_sound cells F sz cap scr k c' \<and>
    contents cells c' = (\<lambda>mid. map_option requeued (contents cells c mid))"
proof -
  have "flashq_sound cells F sz cap scr (Suc (k + card (dom (contents cells c)))) c" using s by simp
  note S = flashq_soundD [OF this]
  have room: "generation_room c (length (index c) + 1)" "generation_room c (k + length (index c) + 1)"
    using s contents_card(2) [OF S(6)] by (simp_all add: flashq_sound_def flashq_good_def generation_room_def)
  have tb: "tail_blank cells c" using S(5) by (simp add: flashq_clean_def)
  have conf: "same_config c0 c" "cells (partition c0) = cells (partition c)" using rb by (simp_all add: flashq_reboot_def)
  note stop = tail_stops [OF tb, of "scratch_size c"]
  have err: "err = ESP_OK" using recover_live [OF S(1,2,3,5,11) stop room(1) conf] run by simp
  note R = recover_ok [OF S(1) reliable_reads [OF S(2)] S(3) stop room(1) conf run [unfolded err]]
  have "flashq_sound cells F sz cap scr k c'"
    using R(1,4,5,6) S(1,2,5,9,10,11) reliable_erases [OF S(2)] room(2)
    by (auto simp: flashq_sound_def flashq_good_def generation_room_def same_config_def sized_def)
  then show ?thesis using err R(2) by simp
qed

interpretation flashq_reliable: lossless_backend "flashq_ops F mc" "flashq_sound cells F sz cap scr" "contents cells"
  "\<lambda>m. m" cap "message_accepted scr" "flashq_reboot cells"
  for F :: "'p flash_ops" and mc :: bool and cells :: "'p \<Rightarrow> mem" and sz cap scr :: nat
proof (unfold_locales, unfold flashq_ops_simps requeued_with_id)
  fix k c c' c0 mid next_us dead er policy dropped r now_us err and msg :: message
  let ?good = "flashq_sound cells F sz cap scr"
  show "msg = msg\<lparr>m_payload := m_payload msg\<rparr>" "msg = msg" by simp_all
  show "?good (Suc k) c \<Longrightarrow> ?good k c"
    by (simp add: flashq_sound_def flashq_good_def generation_room_def)
  show "?good k c \<Longrightarrow> contents cells c mid = Some msg \<Longrightarrow> m_id msg = mid"
    unfolding flashq_sound_def by (metis flashq.view_id)
  show "?good (Suc k) c \<Longrightarrow> m_id msg \<notin> dom (contents cells c) \<Longrightarrow> op_enqueue F c msg = (ESP_OK, c') \<Longrightarrow>
      ?good k c' \<and> contents cells c' = (contents cells c)(m_id msg \<mapsto> fresh msg)"
    by (metis enqueue_ok flashq_soundD(1,3,4) flashq_sound_step)
  show "?good k c \<Longrightarrow> op_enqueue F c msg = (EDGESYNC_ERR_QUEUE_FULL, c') \<Longrightarrow> c' = c"
    by (rule enqueue_full_unchanged)
  show "?good (Suc k) c \<Longrightarrow> op_claim_next F c now_us = (ESP_OK, r, c') \<Longrightarrow>
      \<exists>msg. first_to_claim (contents cells c) now_us msg \<and> r = Some (claimed msg now_us) \<and>
        ?good k c' \<and> contents cells c' = (contents cells c)(m_id msg \<mapsto> claimed msg now_us)"
    by (metis flashq_claim flashq_soundD(8) flashq_sound_step flashq_good_def)
  show "?good (Suc k) c \<Longrightarrow> op_claim_next F c now_us = (EDGESYNC_ERR_NOT_FOUND, r, c') \<Longrightarrow>
      r = None \<and> ?good k c' \<and> contents cells c' = contents cells c"
    by (frule claim_none_unchanged(2), drule claim_none_unchanged(3))
      (simp add: flashq_sound_def flashq_good_def generation_room_def)
  show "?good (Suc k) c \<Longrightarrow> op_claim_next F c now_us = (EDGESYNC_ERR_STORAGE_CORRUPT, r, c') \<Longrightarrow>
      \<exists>msg. first_to_claim (contents cells c) now_us msg \<and> r = Some (blank_message (m_id msg)) \<and>
        ?good k c' \<and> contents cells c' = (contents cells c)(m_id msg \<mapsto> corrupted msg)"
    by (metis flashq_claim flashq_soundD(2,8) reliable_reads)
  show "?good (Suc k) c \<Longrightarrow> op_mark_delivered F c mid = (ESP_OK, c') \<Longrightarrow>
      ?good k c' \<and> mid \<in> dom (contents cells c) \<and> contents cells c' = (contents cells c)(mid := None)"
    unfolding op_mark_delivered_def by (metis retire_entry_ok flashq_soundD(1,3,4) flashq_sound_step)
  show "?good (Suc k) c \<Longrightarrow> op_remove F c mid = (ESP_OK, c') \<Longrightarrow>
      ?good k c' \<and> mid \<in> dom (contents cells c) \<and> contents cells c' = (contents cells c)(mid := None)"
    unfolding op_remove_def by (metis retire_entry_ok flashq_soundD(1,3,4) flashq_sound_step)
  show "?good (Suc k) c \<Longrightarrow> op_schedule_retry F c mid next_us dead er = (ESP_OK, c') \<Longrightarrow>
      ?good k c' \<and> mid \<in> dom (contents cells c) \<and>
      contents cells c' = (contents cells c)(mid \<mapsto> retried (the (contents cells c mid)) next_us dead er)"
    by (metis schedule_retry_ok flashq_soundD(1,3,4) flashq_sound_step)
  show "?good k c \<Longrightarrow> op_find_drop_candidate c policy = (ESP_OK, dropped) \<Longrightarrow>
      \<exists>msg. first_to_drop (contents cells c) policy msg \<and> dropped = Some (m_id msg)"
    unfolding flashq_sound_def by (metis flashq.drop_ok flashq_ops_simps(8))
  show "?good k c \<Longrightarrow> op_find_drop_candidate c policy = (err, dropped) \<Longrightarrow> err \<noteq> ESP_OK \<Longrightarrow>
      \<forall>mid msg. contents cells c mid = Some msg \<longrightarrow> m_state msg \<noteq> MSG_PENDING"
    unfolding flashq_sound_def by (metis flashq.drop_none flashq_ops_simps(8))
  show "?good k c \<Longrightarrow> finite (dom (contents cells c))"
    by (auto simp: flashq_sound_def flashq_good_def flashq_inv_def dest: contents_card(1))
  show "?good k c \<Longrightarrow> card (dom (contents cells c)) \<le> cap"
    using contents_card(2) [of cells sz c] inv_coreD(4) [of cells sz c]
    by (auto simp: flashq_sound_def flashq_good_def flashq_inv_def)
  show "?good (Suc k) c \<Longrightarrow> op_enqueue F c msg = (err, c') \<Longrightarrow>
      err = (if cap \<le> card (dom (contents cells c)) then EDGESYNC_ERR_QUEUE_FULL
             else if \<not> message_accepted scr msg then EDGESYNC_ERR_SERIALIZATION else ESP_OK) \<and> (err \<noteq> ESP_OK \<longrightarrow> c' = c)"
    by (rule enqueue_total_flashq)
  show "?good (Suc k) c \<Longrightarrow> op_claim_next F c now_us = (err, r, c') \<Longrightarrow>
      err = (if \<exists>mid msg. contents cells c mid = Some msg \<and> eligible now_us msg then ESP_OK else EDGESYNC_ERR_NOT_FOUND)"
    by (rule claim_total_flashq)
  show "?good (Suc k) c \<Longrightarrow> op_mark_delivered F c mid = (err, c') \<Longrightarrow>
      err = (if mid \<in> dom (contents cells c) then ESP_OK else EDGESYNC_ERR_NOT_FOUND) \<and> (err \<noteq> ESP_OK \<longrightarrow> c' = c)"
    unfolding op_mark_delivered_def by (rule retire_entry_total)
  show "?good (Suc k) c \<Longrightarrow> op_remove F c mid = (err, c') \<Longrightarrow>
      err = (if mid \<in> dom (contents cells c) then ESP_OK else EDGESYNC_ERR_NOT_FOUND) \<and> (err \<noteq> ESP_OK \<longrightarrow> c' = c)"
    unfolding op_remove_def by (rule retire_entry_total)
  show "?good (Suc k) c \<Longrightarrow> op_schedule_retry F c mid next_us dead er = (err, c') \<Longrightarrow>
      err = (if mid \<in> dom (contents cells c) then ESP_OK else EDGESYNC_ERR_NOT_FOUND) \<and> (err \<noteq> ESP_OK \<longrightarrow> c' = c)"
    by (rule schedule_retry_total)
  show "flashq_reboot cells c c0 \<Longrightarrow> flashq_reboot cells c (snd (op_init mc c0))"
    by (simp add: flashq_reboot_def same_config_def op_init_def Let_def)
  show "?good (k + card (dom (contents cells c)) + 1) c \<Longrightarrow> flashq_reboot cells c c0 \<Longrightarrow> op_recover F c0 = (err, c') \<Longrightarrow>
      err = ESP_OK \<and> ?good k c' \<and> contents cells c' = (\<lambda>mid. map_option requeued (contents cells c mid))"
    by (rule restart_flashq)
qed

end
