(* ===== verification/Nvs_Library.thy ===== *)
theory Nvs_Library
  imports ES_Prelude
begin

text \<open>
  The NVS library of ESP-IDF (\<open>nvs.h\<close>), which is not part of this repository: an operations
  record over an abstract handle.  \<open>nvs_laws\<close> states the documented behaviour and nothing about
  success; \<open>blobs\<close> is what a read sees, \<open>durable\<close> what a power loss leaves.  A write or an erase
  that fails may have happened or not; a commit makes everything written so far durable.
\<close>

type_synonym blob_map = "byte list \<Rightarrow> byte list option"

record 'n nvs_lib =
  nv_get_size :: "'n \<Rightarrow> byte list \<Rightarrow> nat option \<times> 'n"  \<comment> \<open>\<open>nvs_get_blob\<close> without a buffer\<close>
  nv_get_blob :: "'n \<Rightarrow> byte list \<Rightarrow> nat \<Rightarrow> byte list option \<times> 'n"
  nv_set_blob :: "'n \<Rightarrow> byte list \<Rightarrow> byte list \<Rightarrow> bool \<times> 'n"
  nv_erase_key :: "'n \<Rightarrow> byte list \<Rightarrow> bool \<times> 'n"
  nv_commit :: "'n \<Rightarrow> bool \<times> 'n"
  nv_get_stats :: "'n \<Rightarrow> (nat \<times> nat) option"  \<comment> \<open>total and used entries\<close>
  nv_close :: "'n \<Rightarrow> 'n"

definition nvs_read_laws :: "'n nvs_lib \<Rightarrow> ('n \<Rightarrow> blob_map) \<Rightarrow> ('n \<Rightarrow> blob_map) \<Rightarrow> bool" where
  "nvs_read_laws N blobs durable \<longleftrightarrow>
     (\<forall>n key. blobs (snd (nv_get_size N n key)) = blobs n \<and> durable (snd (nv_get_size N n key)) = durable n \<and>
        (\<forall>l. fst (nv_get_size N n key) = Some l \<longrightarrow> (\<exists>v. blobs n key = Some v \<and> length v = l))) \<and>
     (\<forall>n key cap. blobs (snd (nv_get_blob N n key cap)) = blobs n \<and> durable (snd (nv_get_blob N n key cap)) = durable n \<and>
        (\<forall>v. fst (nv_get_blob N n key cap) = Some v \<longrightarrow> blobs n key = Some v \<and> length v \<le> cap))"

definition nvs_write_laws :: "'n nvs_lib \<Rightarrow> ('n \<Rightarrow> blob_map) \<Rightarrow> ('n \<Rightarrow> blob_map) \<Rightarrow> bool" where
  "nvs_write_laws N blobs durable \<longleftrightarrow>
     (\<forall>n key v. let n' = snd (nv_set_blob N n key v) in
        (blobs n' = (blobs n)(key \<mapsto> v) \<or> \<not> fst (nv_set_blob N n key v) \<and> blobs n' = blobs n) \<and>
        (durable n' = durable n \<or> durable n' = (durable n)(key \<mapsto> v))) \<and>
     (\<forall>n key. let n' = snd (nv_erase_key N n key) in
        (blobs n' = (blobs n)(key := None) \<or> \<not> fst (nv_erase_key N n key) \<and> blobs n' = blobs n) \<and>
        (durable n' = durable n \<or> durable n' = (durable n)(key := None))) \<and>
     (\<forall>n. blobs (snd (nv_commit N n)) = blobs n \<and> (fst (nv_commit N n) \<longrightarrow> durable (snd (nv_commit N n)) = blobs n))"

definition nvs_laws :: "'n nvs_lib \<Rightarrow> ('n \<Rightarrow> blob_map) \<Rightarrow> ('n \<Rightarrow> blob_map) \<Rightarrow> bool" where
  "nvs_laws N blobs durable \<longleftrightarrow> nvs_read_laws N blobs durable \<and> nvs_write_laws N blobs durable"

text \<open>A device with enough space that works: every operation on an existing key succeeds.\<close>

definition nvs_reliable :: "'n nvs_lib \<Rightarrow> ('n \<Rightarrow> blob_map) \<Rightarrow> bool" where
  "nvs_reliable N blobs \<longleftrightarrow>
     (\<forall>n key v. blobs n key = Some v \<longrightarrow> fst (nv_get_size N n key) = Some (length v)) \<and>
     (\<forall>n key v cap. blobs n key = Some v \<and> length v \<le> cap \<longrightarrow> fst (nv_get_blob N n key cap) = Some v) \<and>
     (\<forall>n key v. fst (nv_set_blob N n key v)) \<and>
     (\<forall>n key. blobs n key \<noteq> None \<longrightarrow> fst (nv_erase_key N n key)) \<and>
     (\<forall>n. fst (nv_commit N n))"

lemma nvs_get_size:
  assumes "nvs_laws N blobs durable" "nv_get_size N n key = (r, n')"
  shows "blobs n' = blobs n" "durable n' = durable n"
    "r = Some l \<Longrightarrow> \<exists>v. blobs n key = Some v \<and> length v = l"
  using assms unfolding nvs_laws_def nvs_read_laws_def by (metis fst_conv snd_conv)+

lemma nvs_get_blob:
  assumes "nvs_laws N blobs durable" "nv_get_blob N n key cap = (r, n')"
  shows "blobs n' = blobs n" "durable n' = durable n" "r = Some v \<Longrightarrow> blobs n key = Some v \<and> length v \<le> cap"
  using assms unfolding nvs_laws_def nvs_read_laws_def by (metis fst_conv snd_conv)+

lemma nvs_set_blob:
  assumes "nvs_laws N blobs durable" "nv_set_blob N n key v = (ok, n')"
  shows "ok \<Longrightarrow> blobs n' = (blobs n)(key \<mapsto> v)" "blobs n' = (blobs n)(key \<mapsto> v) \<or> blobs n' = blobs n"
    "durable n' = durable n \<or> durable n' = (durable n)(key \<mapsto> v)"
  using assms unfolding nvs_laws_def nvs_write_laws_def Let_def by (metis fst_conv snd_conv)+

lemma nvs_erase_key:
  assumes "nvs_laws N blobs durable" "nv_erase_key N n key = (ok, n')"
  shows "ok \<Longrightarrow> blobs n' = (blobs n)(key := None)" "blobs n' = (blobs n)(key := None) \<or> blobs n' = blobs n"
    "durable n' = durable n \<or> durable n' = (durable n)(key := None)"
  using assms unfolding nvs_laws_def nvs_write_laws_def Let_def by (metis fst_conv snd_conv)+

lemma nvs_commit:
  assumes "nvs_laws N blobs durable" "nv_commit N n = (ok, n')"
  shows "blobs n' = blobs n" "ok \<Longrightarrow> durable n' = blobs n"
  using assms unfolding nvs_laws_def nvs_write_laws_def by (metis fst_conv snd_conv)+

section \<open>An instance\<close>

text \<open>An ideal NVS without a size limit, whose writes are durable at once.\<close>

definition ideal_nvs :: "blob_map nvs_lib" where
  "ideal_nvs =
     \<lparr>nv_get_size = (\<lambda>n key. (map_option length (n key), n)),
      nv_get_blob = (\<lambda>n key cap. (case n key of None \<Rightarrow> (None, n)
                                  | Some v \<Rightarrow> (if length v \<le> cap then Some v else None, n))),
      nv_set_blob = (\<lambda>n key v. (True, n(key \<mapsto> v))),
      nv_erase_key = (\<lambda>n key. (n key \<noteq> None, n(key := None))),
      nv_commit = (\<lambda>n. (True, n)), nv_get_stats = (\<lambda>n. None), nv_close = (\<lambda>n. n)\<rparr>"

lemma ideal_nvs_laws: "nvs_laws ideal_nvs (\<lambda>n. n) (\<lambda>n. n)"
  by (auto simp: nvs_laws_def nvs_read_laws_def nvs_write_laws_def ideal_nvs_def Let_def split: option.splits if_splits)

lemma ideal_nvs_reliable: "nvs_reliable ideal_nvs (\<lambda>n. n)"
  by (simp add: nvs_reliable_def ideal_nvs_def)

end
