(* ===== verification/ES_Keyed.thy ===== *)
theory ES_Keyed
  imports ES_Prelude "HOL-Library.Multiset"
begin

text \<open>
  Arrays of records with a key field: lookup by key, removal by moving the last element into
  the hole, and the finite map such an array stands for.
\<close>

section \<open>Lookup\<close>

fun find_pos :: "('e \<Rightarrow> 'k) \<Rightarrow> 'e list \<Rightarrow> 'k \<Rightarrow> nat option" where
  "find_pos key [] k = None"
| "find_pos key (x # xs) k = (if key x = k then Some 0 else map_option Suc (find_pos key xs k))"

lemma find_pos_Some: "find_pos key xs k = Some pos \<Longrightarrow> pos < length xs \<and> key (xs ! pos) = k"
  by (induction xs arbitrary: pos) (auto split: if_splits)

lemma find_pos_None: "find_pos key xs k = None \<longleftrightarrow> k \<notin> key ` set xs"
  by (induction xs) auto

section \<open>Removal\<close>

definition swap_remove :: "'e list \<Rightarrow> nat \<Rightarrow> 'e list" where
  "swap_remove xs pos = butlast (xs[pos := last xs])"

lemma mset_swap_remove:
  assumes "pos < length xs"
  shows "mset (swap_remove xs pos) = mset xs - {#xs ! pos#}"
proof -
  let ?ys = "xs[pos := last xs]"
  have ne: "xs \<noteq> []" "?ys \<noteq> []" using assms by auto
  have "last ?ys = last xs" using ne assms by (cases "pos = length xs - 1") (simp_all add: last_conv_nth)
  then have "add_mset (last xs) (mset (butlast ?ys)) = mset ?ys"
    using ne(2) by (metis append_butlast_last_id mset.simps add.commute add_mset_add_single mset_append union_code)
  also have "\<dots> = add_mset (last xs) (mset xs - {#xs ! pos#})" using assms by (simp add: mset_update)
  finally show ?thesis by (simp add: swap_remove_def)
qed

lemma length_swap_remove [simp]: "length (swap_remove xs pos) = length xs - 1"
  by (simp add: swap_remove_def)

lemma swap_remove_distinct:
  assumes "distinct (map key xs)" "pos < length xs"
  shows "set (swap_remove xs pos) = {x \<in> set xs. key x \<noteq> key (xs ! pos)}"
    and "distinct (map key (swap_remove xs pos))"
proof -
  let ?x = "xs ! pos" and ?r = "swap_remove xs pos"
  have m: "mset xs = add_mset ?x (mset ?r)" using assms(2) by (simp add: mset_swap_remove)
  have "mset (map key xs) = mset (map key (?x # ?r))" using arg_cong [OF m, of "image_mset key"] by simp
  then have d: "distinct (map key (?x # ?r))" using assms(1) mset_eq_imp_distinct_iff by blast
  have "set xs = insert ?x (set ?r)" using arg_cong [OF m, of set_mset] by simp
  with d show "set ?r = {x \<in> set xs. key x \<noteq> key ?x}" by auto (metis imageI)
  show "distinct (map key ?r)" using d by simp
qed

section \<open>The map an array stands for\<close>

definition keyed_map :: "('e \<Rightarrow> 'k) \<Rightarrow> ('e \<Rightarrow> 'v) \<Rightarrow> 'e list \<Rightarrow> 'k \<Rightarrow> 'v option" where
  "keyed_map key f xs = map_of (map (\<lambda>x. (key x, f x)) xs)"

lemma keyed_map_Some:
  assumes "distinct (map key xs)"
  shows "keyed_map key f xs k = Some v \<longleftrightarrow> (\<exists>x\<in>set xs. key x = k \<and> f x = v)"
proof -
  have "distinct (map fst (map (\<lambda>x. (key x, f x)) xs))" using assms by (simp add: comp_def)
  from map_of_eq_Some_iff [OF this, of k v] show ?thesis by (auto simp: keyed_map_def)
qed

lemma keyed_map_None: "keyed_map key f xs k = None \<longleftrightarrow> k \<notin> key ` set xs"
  by (simp add: keyed_map_def map_of_eq_None_iff image_image)

lemma dom_keyed_map: "dom (keyed_map key f xs) = key ` set xs"
  by (simp add: keyed_map_def dom_map_of_conv_image_fst image_image)

lemma keyed_map_nth: "distinct (map key xs) \<Longrightarrow> i < length xs \<Longrightarrow> keyed_map key f xs (key (xs ! i)) = Some (f (xs ! i))"
proof -
  assume d: "distinct (map key xs)" and i: "i < length xs"
  show ?thesis using keyed_map_Some [OF d, of f "key (xs ! i)" "f (xs ! i)"] nth_mem [OF i] by blast
qed

lemma option_eqI: "(\<And>v. a = Some v \<longleftrightarrow> b = Some v) \<Longrightarrow> a = b"
  by (cases a; cases b) auto

lemma keyed_map_eqI:
  assumes "distinct (map key xs)" "distinct (map key ys)"
    and "(\<lambda>x. (key x, f x)) ` set xs = (\<lambda>y. (key y, g y)) ` set ys"
  shows "keyed_map key f xs = keyed_map key g ys"
proof (rule ext, rule option_eqI)
  fix k v
  have "(k, v) \<in> (\<lambda>x. (key x, f x)) ` set xs \<longleftrightarrow> (k, v) \<in> (\<lambda>y. (key y, g y)) ` set ys"
    by (simp only: assms(3))
  then show "keyed_map key f xs k = Some v \<longleftrightarrow> keyed_map key g ys k = Some v"
    unfolding keyed_map_Some [OF assms(1)] keyed_map_Some [OF assms(2)] by (auto simp: image_iff)
qed

lemma keyed_map_append: "key x \<notin> key ` set xs \<Longrightarrow> keyed_map key f (xs @ [x]) = (keyed_map key f xs)(key x \<mapsto> f x)"
proof -
  assume "key x \<notin> key ` set xs"
  then have "key x \<notin> dom (map_of (map (\<lambda>x. (key x, f x)) xs))" by (simp add: dom_map_of_conv_image_fst image_image)
  then show ?thesis by (simp add: keyed_map_def map_add_upd_left)
qed

lemma keyed_map_update:
  assumes "distinct (map key xs)" "pos < length xs" "key y = key (xs ! pos)"
    and "\<And>x. x \<in> set xs \<Longrightarrow> key x \<noteq> key y \<Longrightarrow> g x = f x"
  shows "keyed_map key g (xs[pos := y]) = (keyed_map key f xs)(key y \<mapsto> g y)"
proof (rule ext)
  fix k
  have d: "distinct (map key (xs[pos := y]))" using assms(1-3) by (metis list_update_id map_update)
  have s: "x \<in> set (xs[pos := y]) \<longleftrightarrow> x = y \<or> x \<in> set xs \<and> key x \<noteq> key y" for x
  proof -
    have "x \<in> set xs \<and> key x \<noteq> key y" if "x \<in> set (xs[pos := y])" "x \<noteq> y"
    proof -
      from that(1) obtain j where "j < length (xs[pos := y])" "xs[pos := y] ! j = x"
        unfolding in_set_conv_nth by blast
      then have j: "j < length xs" "x = xs[pos := y] ! j" by simp_all
      then have "j \<noteq> pos" using that(2) by auto
      then have "x = xs ! j" using j by simp
      moreover have "map key xs ! j \<noteq> map key xs ! pos"
        using assms(1,2) j(1) \<open>j \<noteq> pos\<close> by (simp add: nth_eq_iff_index_eq del: nth_map)
      ultimately show ?thesis using j(1) assms(2,3) by auto
    qed
    moreover have "x \<in> set (xs[pos := y])" if x: "x \<in> set xs" "key x \<noteq> key y"
    proof -
      obtain j where j: "j < length xs" "x = xs ! j" using x(1) by (auto simp: in_set_conv_nth)
      then have "xs[pos := y] ! j = x" using x(2) assms(3) by (cases "j = pos") auto
      then show ?thesis using j(1) by (metis length_list_update nth_mem)
    qed
    moreover have "y \<in> set (xs[pos := y])" using assms(2) by (rule set_update_memI)
    ultimately show ?thesis by blast
  qed
  show "keyed_map key g (xs[pos := y]) k = ((keyed_map key f xs)(key y \<mapsto> g y)) k"
  proof (cases "k = key y")
    case True
    then have "keyed_map key g (xs[pos := y]) k = Some (g y)"
      unfolding keyed_map_Some [OF d] using set_update_memI [OF assms(2), of y] by auto
    then show ?thesis using True by simp
  next
    case False
    have "keyed_map key g (xs[pos := y]) k = Some v \<longleftrightarrow> keyed_map key f xs k = Some v" for v
      unfolding keyed_map_Some [OF d] keyed_map_Some [OF assms(1)] proof
      assume "\<exists>x\<in>set (xs[pos := y]). key x = k \<and> g x = v"
      then obtain x where x: "x \<in> set (xs[pos := y])" "key x = k" "g x = v" by blast
      then have "x \<in> set xs \<and> key x \<noteq> key y" using s [of x] False by blast
      then show "\<exists>x\<in>set xs. key x = k \<and> f x = v" using x(2,3) assms(4) [of x] by auto
    next
      assume "\<exists>x\<in>set xs. key x = k \<and> f x = v"
      then obtain x where x: "x \<in> set xs" "key x = k" "f x = v" by blast
      then have "x \<in> set (xs[pos := y])" "g x = v" using s [of x] False assms(4) [of x] by simp_all
      then show "\<exists>x\<in>set (xs[pos := y]). key x = k \<and> g x = v" using x(2) by blast
    qed
    from option_eqI [OF this] show ?thesis using False by simp
  qed
qed

lemma keyed_map_remove:
  assumes "distinct (map key xs)" "pos < length xs"
    and "\<And>x. x \<in> set xs \<Longrightarrow> key x \<noteq> key (xs ! pos) \<Longrightarrow> g x = f x"
  shows "keyed_map key g (swap_remove xs pos) = (keyed_map key f xs)(key (xs ! pos) := None)"
proof (rule ext)
  fix k
  note r = swap_remove_distinct [OF assms(1,2)]
  show "keyed_map key g (swap_remove xs pos) k = ((keyed_map key f xs)(key (xs ! pos) := None)) k"
  proof (cases "k = key (xs ! pos)")
    case True
    then have "k \<notin> key ` set (swap_remove xs pos)" unfolding r(1) by auto
    then have "keyed_map key g (swap_remove xs pos) k = None" by (rule keyed_map_None [THEN iffD2])
    then show ?thesis using True by simp
  next
    case False
    have "keyed_map key g (swap_remove xs pos) k = Some v \<longleftrightarrow> keyed_map key f xs k = Some v" for v
      unfolding keyed_map_Some [OF r(2)] keyed_map_Some [OF assms(1)] r(1)
      by (metis (mono_tags, lifting) assms(3) False mem_Collect_eq)
    from option_eqI [OF this] show ?thesis using False by simp
  qed
qed

end
