(* ===== verification/Nvs_Storage.thy ===== *)
theory Nvs_Storage
  imports Nvs_Library Flashq_Format ES_Keyed ES_Storage
begin

text \<open>
  \<open>edgesync_storage_nvs.c\<close>: the backend that keeps each message as one NVS blob, keyed by a slot
  number, in the record format of the flash queue.  A pointer into the index array is a position;
  \<open>index_count\<close> is the length of the list.  The buffer \<open>scratch\<close> is part of the state, because
  \<open>write_entry\<close> is called with a payload pointer into the very buffer it encodes into.
  \<open>n_fault\<close> is not in the C structure: it becomes true when the code would touch memory outside
  a buffer or copy between overlapping ranges, which is undefined behaviour in C.
\<close>

section \<open>State\<close>

record nvs_entry =
  ne_id :: message_id
  ne_state :: u8
  ne_priority :: u8
  ne_destination_len :: u16
  ne_attempt_count :: u32
  ne_payload_len :: u32
  ne_slot :: nat
  ne_created_at_us :: i64
  ne_last_attempt_at_us :: i64
  ne_next_retry_at_us :: i64
  ne_last_error :: esp_err

record 'n nvs_ctx =
  n_handle :: 'n
  n_max_messages :: nat
  n_max_message_size :: u32
  n_slot_used :: "bool list"
  n_index :: "nvs_entry list"
  n_index_capacity :: nat
  n_scratch_size :: nat
  n_scratch :: "byte list"
  n_claim_scratch :: "byte list"
  n_lock_created :: bool
  n_fault :: bool

section \<open>Helpers\<close>

text \<open>\<open>snprintf(out, 16, "s%05u", slot % 100000)\<close>: the letter s and five decimal digits.\<close>

definition slot_key :: "nat \<Rightarrow> byte list" where
  "slot_key slot = 0x73 # map (\<lambda>d. of_nat (0x30 + slot mod 100000 div 10 ^ d mod 10)) [4, 3, 2, 1, 0]"

definition nvs_find_entry :: "'n nvs_ctx \<Rightarrow> message_id \<Rightarrow> nat option" where
  "nvs_find_entry ctx mid = find_pos ne_id (n_index ctx) mid"

definition nvs_remove_entry_at :: "'n nvs_ctx \<Rightarrow> nat \<Rightarrow> 'n nvs_ctx" where
  "nvs_remove_entry_at ctx pos =
     ctx\<lparr>n_slot_used := (n_slot_used ctx)[ne_slot (n_index ctx ! pos) := False],
         n_index := swap_remove (n_index ctx) pos\<rparr>"

definition find_free_slot :: "'n nvs_ctx \<Rightarrow> nat option" where
  "find_free_slot ctx = List.find (\<lambda>i. \<not> n_slot_used ctx ! i) [0..<n_max_messages ctx]"

text \<open>Touching \<open>n\<close> bytes of a buffer of \<open>cap\<close> bytes.\<close>

definition nvs_use :: "nat \<Rightarrow> nat \<Rightarrow> 'n nvs_ctx \<Rightarrow> 'n nvs_ctx" where
  "nvs_use n cap ctx = ctx\<lparr>n_fault := n_fault ctx \<or> cap < n\<rparr>"

text \<open>
  Where a payload pointer points: to bytes elsewhere, those that \<open>payload_len\<close> covers, or to an
  offset in \<open>scratch\<close> itself.  In the second case the bytes are what \<open>encode_common\<close> finds there when it comes to copy the body: it
  has zeroed the buffer up to the end of the record and written the header and the destination
  (the offset is never inside the header, whose bytes are left out here).
\<close>

datatype payload_ptr = Elsewhere "byte list" | In_scratch nat

definition payload_bytes :: "byte list \<Rightarrow> byte list \<Rightarrow> nat \<Rightarrow> payload_ptr \<Rightarrow> byte list" where
  "payload_bytes scratch dest len src = (case src of
     Elsewhere bs \<Rightarrow> bs
   | In_scratch off \<Rightarrow>
       let total = record_total_size (length dest) len
       in take len (drop off (replicate HDR_SIZE 0 @ dest @ replicate (total - (HDR_SIZE + length dest)) 0 @
            drop total scratch)))"

text \<open>A body pointer into \<open>scratch\<close> is sound only in place: the copy then moves nothing.\<close>

definition payload_fault :: "nat \<Rightarrow> byte list \<Rightarrow> nat \<Rightarrow> payload_ptr \<Rightarrow> bool" where
  "payload_fault cap dest len src = (case src of
     Elsewhere bs \<Rightarrow> length bs < len
   | In_scratch off \<Rightarrow> 0 < len \<and> (cap < off + len \<or> off \<noteq> HDR_SIZE + length dest))"

definition write_entry ::
  "'n nvs_lib \<Rightarrow> 'n nvs_ctx \<Rightarrow> nvs_entry \<Rightarrow> byte list \<Rightarrow> payload_ptr \<Rightarrow> esp_err \<times> 'n nvs_ctx" where
  "write_entry N ctx e destination src =
     (let plen = unat (ne_payload_len e); dest = c_string destination
      in case encode_message_full (n_scratch_size ctx) (ne_id e) destination (ne_priority e) (ne_state e)
                (ne_attempt_count e) (ne_created_at_us e) (ne_last_attempt_at_us e) (ne_next_retry_at_us e)
                (ne_last_error e) (payload_bytes (n_scratch ctx) dest plen src) 0 of
           None \<Rightarrow> (EDGESYNC_ERR_SERIALIZATION, ctx)
         | Some bs \<Rightarrow>
             let ctx = ctx\<lparr>n_scratch := bs @ drop (length bs) (n_scratch ctx),
                           n_fault := n_fault ctx \<or> payload_fault (n_scratch_size ctx) dest plen src\<rparr>;
                 (ok, n) = nv_set_blob N (n_handle ctx) (slot_key (ne_slot e)) bs;
                 ctx = ctx\<lparr>n_handle := n\<rparr>
             in if \<not> ok then (EDGESYNC_ERR_STORAGE, ctx)
                else
                  let (ok, n) = nv_commit N (n_handle ctx)
                  in (if ok then ESP_OK else EDGESYNC_ERR_STORAGE, ctx\<lparr>n_handle := n\<rparr>))"

definition read_and_verify :: "'n nvs_lib \<Rightarrow> 'n nvs_ctx \<Rightarrow> nat \<Rightarrow> esp_err \<times> record_hdr option \<times> 'n nvs_ctx" where
  "read_and_verify N ctx slot =
     (let (r, n) = nv_get_size N (n_handle ctx) (slot_key slot); ctx = ctx\<lparr>n_handle := n\<rparr>
      in case r of
           None \<Rightarrow> (EDGESYNC_ERR_NOT_FOUND, None, ctx)
         | Some len \<Rightarrow>
             if len > n_scratch_size ctx then (EDGESYNC_ERR_STORAGE_CORRUPT, None, ctx)
             else
               let (r, n) = nv_get_blob N (n_handle ctx) (slot_key slot) len; ctx = ctx\<lparr>n_handle := n\<rparr>
               in case r of
                    None \<Rightarrow> (EDGESYNC_ERR_STORAGE, None, ctx)
                  | Some blob \<Rightarrow>
                      let ctx = ctx\<lparr>n_scratch := blob @ drop (length blob) (n_scratch ctx)\<rparr>
                      in case decode_header blob of
                           None \<Rightarrow> (EDGESYNC_ERR_STORAGE_CORRUPT, None, ctx)
                         | Some hdr \<Rightarrow>
                             if \<not> verify_body hdr (drop HDR_SIZE blob)
                             then (EDGESYNC_ERR_STORAGE_CORRUPT, None, ctx)
                             else (ESP_OK, Some hdr, ctx))"

text \<open>Erasing a slot and committing, with both results ignored.\<close>

definition discard_slot :: "'n nvs_lib \<Rightarrow> 'n nvs_ctx \<Rightarrow> nat \<Rightarrow> 'n nvs_ctx" where
  "discard_slot N ctx slot =
     (let (_, n) = nv_erase_key N (n_handle ctx) (slot_key slot); (_, n) = nv_commit N n
      in ctx\<lparr>n_handle := n\<rparr>)"

section \<open>Operations\<close>

definition nvs_op_init :: "bool \<Rightarrow> 'n nvs_ctx \<Rightarrow> esp_err \<times> 'n nvs_ctx" where
  "nvs_op_init mutex_created ctx =
     (if mutex_created then ESP_OK else ESP_ERR_NO_MEM, ctx\<lparr>n_lock_created := mutex_created\<rparr>)"

definition nvs_entry_of_hdr :: "record_hdr \<Rightarrow> nat \<Rightarrow> nvs_entry" where
  "nvs_entry_of_hdr hdr slot =
     \<lparr>ne_id = h_message_id hdr, ne_state = h_state hdr, ne_priority = h_priority hdr,
      ne_destination_len = h_destination_len hdr, ne_attempt_count = h_attempt_count hdr,
      ne_payload_len = h_body_len hdr, ne_slot = slot, ne_created_at_us = h_created_at_us hdr,
      ne_last_attempt_at_us = h_last_attempt_at_us hdr, ne_next_retry_at_us = h_next_retry_at_us hdr,
      ne_last_error = h_last_error hdr\<rparr>"

text \<open>The first loop of \<open>op_recover\<close>: every slot is read and the index rebuilt.\<close>

fun nvs_scan_loop :: "'n nvs_lib \<Rightarrow> nat list \<Rightarrow> 'n nvs_ctx \<Rightarrow> esp_err \<times> 'n nvs_ctx" where
  "nvs_scan_loop N [] ctx = (ESP_OK, ctx)"
| "nvs_scan_loop N (slot # slots) ctx =
     (let (err, hdr, ctx) = read_and_verify N ctx slot
      in if err = EDGESYNC_ERR_NOT_FOUND then nvs_scan_loop N slots ctx
         else if err = EDGESYNC_ERR_STORAGE_CORRUPT then nvs_scan_loop N slots (discard_slot N ctx slot)
         else if err \<noteq> ESP_OK then (err, ctx)
         else case hdr of
                None \<Rightarrow> (err, ctx)
              | Some hdr \<Rightarrow>
                  if length (n_index ctx) \<ge> n_index_capacity ctx then nvs_scan_loop N slots ctx
                  else nvs_scan_loop N slots
                         (ctx\<lparr>n_index := n_index ctx @ [nvs_entry_of_hdr hdr slot],
                              n_slot_used := (n_slot_used ctx)[slot := True]\<rparr>))"

text \<open>
  Reading a record back for rewriting it: the destination is copied out, the payload stays in
  \<open>scratch\<close>.
\<close>

definition body_in_scratch :: "'n nvs_ctx \<Rightarrow> record_hdr \<Rightarrow> byte list \<times> payload_ptr \<times> 'n nvs_ctx" where
  "body_in_scratch ctx hdr =
     (let dlen = unat (h_destination_len hdr)
      in (take dlen (drop HDR_SIZE (n_scratch ctx)), In_scratch (HDR_SIZE + dlen),
          nvs_use dlen EDGESYNC_MAX_DESTINATION_LEN ctx))"

text \<open>The second loop: messages that were in flight become pending again.\<close>

fun nvs_requeue_loop :: "'n nvs_lib \<Rightarrow> nat list \<Rightarrow> 'n nvs_ctx \<Rightarrow> esp_err \<times> 'n nvs_ctx" where
  "nvs_requeue_loop N [] ctx = (ESP_OK, ctx)"
| "nvs_requeue_loop N (i # js) ctx =
     (if ne_state (n_index ctx ! i) \<noteq> STATE_IN_FLIGHT then nvs_requeue_loop N js ctx
      else
        let (err, hdr, ctx) = read_and_verify N ctx (ne_slot (n_index ctx ! i))
        in case hdr of
             None \<Rightarrow> (err, ctx)
           | Some hdr \<Rightarrow>
               let (destination, payload, ctx) = body_in_scratch ctx hdr;
                   e = (n_index ctx ! i)\<lparr>ne_state := STATE_PENDING, ne_next_retry_at_us := 0\<rparr>;
                   (err, ctx) = write_entry N (ctx\<lparr>n_index := (n_index ctx)[i := e]\<rparr>) e destination payload
               in if err \<noteq> ESP_OK then (err, ctx) else nvs_requeue_loop N js ctx)"

definition nvs_op_recover :: "'n nvs_lib \<Rightarrow> 'n nvs_ctx \<Rightarrow> esp_err \<times> 'n nvs_ctx" where
  "nvs_op_recover N ctx =
     (let ctx = ctx\<lparr>n_index := [], n_slot_used := replicate (n_max_messages ctx) False\<rparr>;
          (err, ctx) = nvs_scan_loop N [0..<n_max_messages ctx] ctx
      in if err \<noteq> ESP_OK then (err, ctx) else nvs_requeue_loop N [0..<length (n_index ctx)] ctx)"

definition nvs_new_entry :: "message \<Rightarrow> nat \<Rightarrow> nvs_entry" where
  "nvs_new_entry msg slot =
     \<lparr>ne_id = m_id msg, ne_state = STATE_PENDING, ne_priority = m_priority msg,
      ne_destination_len = of_nat (length (c_string (m_destination msg))), ne_attempt_count = 0,
      ne_payload_len = of_nat (length (m_payload msg)), ne_slot = slot,
      ne_created_at_us = m_created_at_us msg, ne_last_attempt_at_us = 0, ne_next_retry_at_us = 0,
      ne_last_error = ESP_OK\<rparr>"

definition nvs_op_enqueue :: "'n nvs_lib \<Rightarrow> 'n nvs_ctx \<Rightarrow> message \<Rightarrow> esp_err \<times> 'n nvs_ctx" where
  "nvs_op_enqueue N ctx msg =
     (if length (n_index ctx) \<ge> n_index_capacity ctx then (EDGESYNC_ERR_QUEUE_FULL, ctx)
      else case find_free_slot ctx of
             None \<Rightarrow> (EDGESYNC_ERR_QUEUE_FULL, ctx)
           | Some slot \<Rightarrow>
               let e = nvs_new_entry msg slot;
                   (err, ctx) = write_entry N ctx e (m_destination msg) (Elsewhere (m_payload msg))
               in if err \<noteq> ESP_OK then (err, ctx)
                  else (ESP_OK, ctx\<lparr>n_index := n_index ctx @ [e], n_slot_used := (n_slot_used ctx)[slot := True]\<rparr>))"

definition nvs_claim_eligible :: "i64 \<Rightarrow> nvs_entry \<Rightarrow> bool" where
  "nvs_claim_eligible now_us e \<longleftrightarrow> \<not> (ne_state e \<noteq> STATE_PENDING \<or> sint (ne_next_retry_at_us e) > sint now_us)"

definition nvs_claim_better :: "nvs_entry \<Rightarrow> nvs_entry \<Rightarrow> bool" where
  "nvs_claim_better e best \<longleftrightarrow> ne_priority e > ne_priority best \<or>
     (ne_priority e = ne_priority best \<and> sint (ne_next_retry_at_us e) < sint (ne_next_retry_at_us best)) \<or>
     (ne_priority e = ne_priority best \<and> ne_next_retry_at_us e = ne_next_retry_at_us best \<and>
      sint (ne_created_at_us e) < sint (ne_created_at_us best))"

definition nvs_claim_select :: "i64 \<Rightarrow> nvs_entry list \<Rightarrow> nat option" where
  "nvs_claim_select now_us es = select_loop (nvs_claim_eligible now_us) nvs_claim_better es [0..<length es] None"

text \<open>The message handed out: the metadata from the entry, the body from \<open>claim_scratch\<close>.\<close>

definition nvs_claimed_message :: "nvs_entry \<Rightarrow> i64 \<Rightarrow> byte list \<Rightarrow> message" where
  "nvs_claimed_message e now_us body =
     \<lparr>m_id = ne_id e, m_destination = c_string (take (unat (ne_destination_len e)) body),
      m_priority = ne_priority e, m_state = MSG_IN_FLIGHT, m_attempt_count = ne_attempt_count e,
      m_created_at_us = ne_created_at_us e, m_last_attempt_at_us = now_us,
      m_next_retry_at_us = ne_next_retry_at_us e, m_last_error = ne_last_error e,
      m_payload = take (unat (ne_payload_len e)) (drop (unat (ne_destination_len e)) body)\<rparr>"

text \<open>The part of \<open>op_claim_next\<close> after the record of the selected entry was read and proved intact.\<close>

definition nvs_claim_commit ::
  "'n nvs_lib \<Rightarrow> 'n nvs_ctx \<Rightarrow> i64 \<Rightarrow> nat \<Rightarrow> record_hdr \<Rightarrow> esp_err \<times> message option \<times> 'n nvs_ctx" where
  "nvs_claim_commit N ctx now_us pos hdr =
     (let best = n_index ctx ! pos;
          body_bytes = unat (h_destination_len hdr) + unat (h_body_len hdr);
          ctx = nvs_use (HDR_SIZE + body_bytes) (n_scratch_size ctx) ctx;
          claim = take body_bytes (drop HDR_SIZE (n_scratch ctx)) @ drop body_bytes (n_claim_scratch ctx);
          best = best\<lparr>ne_attempt_count := ne_attempt_count best + 1, ne_state := STATE_IN_FLIGHT,
                      ne_last_attempt_at_us := now_us\<rparr>;
          ctx = ctx\<lparr>n_claim_scratch := claim, n_index := (n_index ctx)[pos := best]\<rparr>;
          dlen = unat (ne_destination_len best); plen = unat (ne_payload_len best);
          ctx = nvs_use dlen EDGESYNC_MAX_DESTINATION_LEN ctx;
          (err, ctx) = write_entry N ctx best (take dlen claim) (Elsewhere (take plen (drop dlen claim)))
      in if err \<noteq> ESP_OK then (err, None, ctx)
         else (ESP_OK, Some (nvs_claimed_message best now_us claim), ctx))"

definition nvs_op_claim_next ::
  "'n nvs_lib \<Rightarrow> 'n nvs_ctx \<Rightarrow> i64 \<Rightarrow> esp_err \<times> message option \<times> 'n nvs_ctx" where
  "nvs_op_claim_next N ctx now_us =
     (case nvs_claim_select now_us (n_index ctx) of
        None \<Rightarrow> (EDGESYNC_ERR_NOT_FOUND, None, ctx)
      | Some pos \<Rightarrow>
          let best = n_index ctx ! pos;
              (err, hdr, ctx) = read_and_verify N ctx (ne_slot best)
          in if err = EDGESYNC_ERR_STORAGE_CORRUPT then
               let ctx = ctx\<lparr>n_index := (n_index ctx)[pos := best\<lparr>ne_last_error := EDGESYNC_ERR_STORAGE_CORRUPT,
                               ne_state := STATE_DEAD_LETTER\<rparr>]\<rparr>
               in (EDGESYNC_ERR_STORAGE_CORRUPT, Some (blank_message (ne_id best)),
                   discard_slot N ctx (ne_slot best))
             else case hdr of
                    None \<Rightarrow> (err, None, ctx)
                  | Some hdr \<Rightarrow> nvs_claim_commit N ctx now_us pos hdr)"

definition nvs_op_mark_delivered :: "'n nvs_lib \<Rightarrow> 'n nvs_ctx \<Rightarrow> message_id \<Rightarrow> esp_err \<times> 'n nvs_ctx" where
  "nvs_op_mark_delivered N ctx mid =
     (case nvs_find_entry ctx mid of
        None \<Rightarrow> (EDGESYNC_ERR_NOT_FOUND, ctx)
      | Some pos \<Rightarrow>
          let (ok, n) = nv_erase_key N (n_handle ctx) (slot_key (ne_slot (n_index ctx ! pos)));
              (ok, n) = (if ok then nv_commit N n else (ok, n));
              ctx = ctx\<lparr>n_handle := n\<rparr>
          in if ok then (ESP_OK, nvs_remove_entry_at ctx pos) else (EDGESYNC_ERR_STORAGE, ctx))"

definition nvs_op_schedule_retry ::
  "'n nvs_lib \<Rightarrow> 'n nvs_ctx \<Rightarrow> message_id \<Rightarrow> i64 \<Rightarrow> bool \<Rightarrow> esp_err \<Rightarrow> esp_err \<times> 'n nvs_ctx" where
  "nvs_op_schedule_retry N ctx mid next_retry_time_us dead_letter last_error =
     (case nvs_find_entry ctx mid of
        None \<Rightarrow> (EDGESYNC_ERR_NOT_FOUND, ctx)
      | Some pos \<Rightarrow>
          let (err, hdr, ctx) = read_and_verify N ctx (ne_slot (n_index ctx ! pos))
          in case hdr of
               None \<Rightarrow> (err, ctx)
             | Some hdr \<Rightarrow>
                 let (destination, payload, ctx) = body_in_scratch ctx hdr;
                     e = (n_index ctx ! pos)\<lparr>
                           ne_state := (if dead_letter then STATE_DEAD_LETTER else STATE_PENDING),
                           ne_next_retry_at_us := (if dead_letter then 0 else next_retry_time_us),
                           ne_last_error := last_error\<rparr>
                 in write_entry N (ctx\<lparr>n_index := (n_index ctx)[pos := e]\<rparr>) e destination payload)"

definition nvs_op_remove :: "'n nvs_lib \<Rightarrow> 'n nvs_ctx \<Rightarrow> message_id \<Rightarrow> esp_err \<times> 'n nvs_ctx" where
  "nvs_op_remove N ctx mid = nvs_op_mark_delivered N ctx mid"

definition nvs_drop_eligible :: "nvs_entry \<Rightarrow> bool" where
  "nvs_drop_eligible e \<longleftrightarrow> \<not> ne_state e \<noteq> STATE_PENDING"

definition nvs_drop_better :: "overflow_policy \<Rightarrow> nvs_entry \<Rightarrow> nvs_entry \<Rightarrow> bool" where
  "nvs_drop_better policy e best \<longleftrightarrow>
     (if policy = OVERFLOW_DROP_LOWEST_PRIORITY
      then ne_priority e < ne_priority best \<or>
           (ne_priority e = ne_priority best \<and> sint (ne_created_at_us e) < sint (ne_created_at_us best))
      else sint (ne_created_at_us e) < sint (ne_created_at_us best))"

definition nvs_op_find_drop_candidate :: "'n nvs_ctx \<Rightarrow> overflow_policy \<Rightarrow> esp_err \<times> message_id option" where
  "nvs_op_find_drop_candidate ctx policy =
     (case select_loop nvs_drop_eligible (nvs_drop_better policy) (n_index ctx) [0..<length (n_index ctx)] None of
        None \<Rightarrow> (EDGESYNC_ERR_NOT_FOUND, None)
      | Some pos \<Rightarrow> (ESP_OK, Some (ne_id (n_index ctx ! pos))))"

definition nvs_count_entry :: "stats \<Rightarrow> nvs_entry \<Rightarrow> stats" where
  "nvs_count_entry st e =
     (if ne_state e = STATE_PENDING then
        (let st = (if ne_attempt_count e = 0 then st\<lparr>st_pending_messages := st_pending_messages st + 1\<rparr>
                   else st\<lparr>st_retrying_messages := st_retrying_messages st + 1\<rparr>)
         in st\<lparr>st_bytes_queued := st_bytes_queued st + ucast (ne_payload_len e)\<rparr>)
      else if ne_state e = STATE_IN_FLIGHT then
        st\<lparr>st_in_flight_messages := st_in_flight_messages st + 1,
           st_bytes_queued := st_bytes_queued st + ucast (ne_payload_len e)\<rparr>
      else if ne_state e = STATE_DEAD_LETTER then
        st\<lparr>st_dead_letter_messages := st_dead_letter_messages st + 1,
           st_bytes_queued := st_bytes_queued st + ucast (ne_payload_len e)\<rparr>
      else st)"

definition nvs_op_get_stats :: "'n nvs_lib \<Rightarrow> 'n nvs_ctx \<Rightarrow> stats \<Rightarrow> esp_err \<times> stats" where
  "nvs_op_get_stats N ctx st =
     (let st = (foldl nvs_count_entry st (n_index ctx))\<lparr>st_queue_capacity := of_nat (n_index_capacity ctx)\<rparr>
      in (ESP_OK, case nv_get_stats N (n_handle ctx) of
            None \<Rightarrow> st
          | Some (total_entries, used_entries) \<Rightarrow>
              st\<lparr>st_storage_bytes_capacity := of_nat total_entries * 32,
                 st_storage_bytes_used := of_nat used_entries * 32\<rparr>))"

definition nvs_op_close :: "'n nvs_lib \<Rightarrow> 'n nvs_ctx \<Rightarrow> esp_err \<times> 'n nvs_ctx" where
  "nvs_op_close N ctx = (ESP_OK, ctx\<lparr>n_handle := nv_close N (n_handle ctx), n_lock_created := False\<rparr>)"

definition nvs_ops :: "'n nvs_lib \<Rightarrow> bool \<Rightarrow> 'n nvs_ctx storage_ops" where
  "nvs_ops N mutex_created =
     \<lparr>so_init = nvs_op_init mutex_created, so_recover = nvs_op_recover N, so_enqueue = nvs_op_enqueue N,
      so_claim_next = nvs_op_claim_next N, so_mark_delivered = nvs_op_mark_delivered N,
      so_schedule_retry = nvs_op_schedule_retry N, so_remove = nvs_op_remove N,
      so_find_drop_candidate = nvs_op_find_drop_candidate, so_get_stats = nvs_op_get_stats N,
      so_close = nvs_op_close N\<rparr>"

section \<open>Constructor\<close>

record nvs_storage_config =
  nc_namespace :: "string option"
  nc_max_messages :: u32
  nc_max_message_size :: u32

text \<open>
  \<open>edgesync_nvs_storage_create\<close>.  \<open>nvs_open\<close> maps a namespace to a handle; the two flags are the
  outcomes of the allocations, \<open>garbage\<close> is what the two uninitialised buffers hold.
\<close>

definition nvs_storage_create ::
  "nvs_storage_config option \<Rightarrow> bool \<Rightarrow> (string \<Rightarrow> 'n option) \<Rightarrow> bool \<Rightarrow> bool \<Rightarrow> (nat \<Rightarrow> byte) \<Rightarrow>
   esp_err \<times> 'n nvs_ctx option" where
  "nvs_storage_create config out_valid nvs_open ctx_allocated buffers_allocated garbage =
     (case config of
        None \<Rightarrow> (ESP_ERR_INVALID_ARG, None)
      | Some cfg \<Rightarrow>
          if \<not> out_valid \<or> nc_max_messages cfg = 0 then (ESP_ERR_INVALID_ARG, None)
          else if \<not> ctx_allocated then (ESP_ERR_NO_MEM, None)
          else
            case nvs_open (case nc_namespace cfg of Some ns \<Rightarrow> ns | None \<Rightarrow> ''edgesync'') of
              None \<Rightarrow> (EDGESYNC_ERR_STORAGE, None)
            | Some handle \<Rightarrow>
                let size = record_total_size EDGESYNC_MAX_DESTINATION_LEN (unat (nc_max_message_size cfg))
                in if \<not> buffers_allocated then (ESP_ERR_NO_MEM, None)
                   else (ESP_OK, Some \<lparr>n_handle = handle, n_max_messages = unat (nc_max_messages cfg),
                           n_max_message_size = nc_max_message_size cfg,
                           n_slot_used = replicate (unat (nc_max_messages cfg)) False, n_index = [],
                           n_index_capacity = unat (nc_max_messages cfg), n_scratch_size = size,
                           n_scratch = map garbage [0..<size], n_claim_scratch = map garbage [0..<size],
                           n_lock_created = False, n_fault = False\<rparr>))"

end
