(* ===== verification/Nvs_Inv.thy ===== *)
theory Nvs_Inv
  imports Nvs_Storage
begin

text \<open>
  The invariant of the NVS backend, the stored messages it stands for, and the effect of reading
  and writing one slot.
\<close>

section \<open>Slot keys\<close>

lemma digit_inject:
  assumes "of_nat (0x30 + s mod 10) = (of_nat (0x30 + t mod 10) :: byte)"
  shows "s mod 10 = (t mod 10 :: nat)"
proof -
  have v: "unat (of_nat (0x30 + u mod 10) :: byte) = 0x30 + u mod 10" for u :: nat
  proof -
    have "0x30 + u mod 10 < 2 ^ LENGTH(8)" by (rule less_trans [of _ "0x30 + 10"]) simp_all
    then show ?thesis by (simp only: unat_of_nat mod_less)
  qed
  have "0x30 + s mod 10 = unat (of_nat (0x30 + s mod 10) :: byte)" by (rule v [symmetric])
  also have "\<dots> = unat (of_nat (0x30 + t mod 10) :: byte)" by (simp only: assms)
  also have "\<dots> = 0x30 + t mod 10" by (rule v)
  finally show ?thesis by (rule add_left_imp_eq)
qed

lemma slot_key_inject:
  assumes "slot_key s = slot_key t" "s < 100000" "t < 100000"
  shows "s = t"
proof -
  have d: "s div 10 ^ k mod 10 = t div 10 ^ k mod 10" if "k \<in> {0, 1, 2, 3, 4}" for k
    using assms(1) that digit_inject [of "s div 10 ^ k" "t div 10 ^ k"] assms(2,3) by (auto simp: slot_key_def)
  have split: "u div 10 ^ k = 10 * (u div 10 ^ Suc k) + u div 10 ^ k mod 10" for u k :: nat
    by (simp add: div_mult2_eq mult.commute [of 10 "10 ^ k"])
  have step: "s div 10 ^ k = t div 10 ^ k" if "s div 10 ^ Suc k = t div 10 ^ Suc k" "k \<in> {0, 1, 2, 3, 4}" for k
  proof -
    have "s div 10 ^ k = 10 * (s div 10 ^ Suc k) + s div 10 ^ k mod 10" by (rule split)
    also have "\<dots> = 10 * (t div 10 ^ Suc k) + t div 10 ^ k mod 10" by (simp only: that(1) d [OF that(2)])
    also have "\<dots> = t div 10 ^ k" by (rule split [symmetric])
    finally show ?thesis .
  qed
  have "s div 10 ^ Suc 4 = t div 10 ^ Suc 4" using assms(2,3) by simp
  from step [OF this] have "s div 10 ^ Suc 3 = t div 10 ^ Suc 3" by simp
  from step [OF this] have "s div 10 ^ Suc 2 = t div 10 ^ Suc 2" by simp
  from step [OF this] have "s div 10 ^ Suc 1 = t div 10 ^ Suc 1" by simp
  from step [OF this] have "s div 10 ^ Suc 0 = t div 10 ^ Suc 0" by simp
  from step [OF this] show ?thesis by simp
qed

section \<open>Records and entries\<close>

definition entry_hdr :: "nvs_entry \<Rightarrow> record_hdr" where
  "entry_hdr e = zero_hdr\<lparr>h_seq := 0, h_type := REC_MESSAGE, h_state := ne_state e, h_priority := ne_priority e,
     h_message_id := ne_id e, h_attempt_count := ne_attempt_count e, h_created_at_us := ne_created_at_us e,
     h_last_attempt_at_us := ne_last_attempt_at_us e, h_next_retry_at_us := ne_next_retry_at_us e,
     h_last_error := ne_last_error e\<rparr>"

text \<open>\<open>bs\<close> is the record of entry \<open>e\<close> with this destination and payload.\<close>

definition nvs_record :: "nat \<Rightarrow> nvs_entry \<Rightarrow> byte list \<Rightarrow> byte list \<Rightarrow> byte list \<Rightarrow> bool" where
  "nvs_record cap e dest payload bs \<longleftrightarrow> encode_common cap (entry_hdr e) dest payload = Some bs \<and>
     length dest \<le> 63 \<and> 0 \<notin> set dest \<and> unat (ne_destination_len e) = length dest \<and>
     unat (ne_payload_len e) = length payload"

definition nvs_stored :: "blob_map \<Rightarrow> nvs_entry \<Rightarrow> message" where
  "nvs_stored b e = (let bs = the (b (slot_key (ne_slot e))); dlen = unat (ne_destination_len e) in
     \<lparr>m_id = ne_id e, m_destination = take dlen (drop HDR_SIZE bs), m_priority = ne_priority e,
      m_state = state_of (ne_state e), m_attempt_count = ne_attempt_count e, m_created_at_us = ne_created_at_us e,
      m_last_attempt_at_us = ne_last_attempt_at_us e, m_next_retry_at_us = ne_next_retry_at_us e,
      m_last_error = ne_last_error e, m_payload = take (unat (ne_payload_len e)) (drop (HDR_SIZE + dlen) bs)\<rparr>)"

lemma nvs_record_stored:
  assumes "nvs_record cap e dest payload bs" "b (slot_key (ne_slot e)) = Some bs"
  shows "nvs_stored b e = \<lparr>m_id = ne_id e, m_destination = dest, m_priority = ne_priority e,
      m_state = state_of (ne_state e), m_attempt_count = ne_attempt_count e, m_created_at_us = ne_created_at_us e,
      m_last_attempt_at_us = ne_last_attempt_at_us e, m_next_retry_at_us = ne_next_retry_at_us e,
      m_last_error = ne_last_error e, m_payload = payload\<rparr>"
proof -
  have enc: "encode_common cap (entry_hdr e) dest payload = Some bs"
    and l: "unat (ne_destination_len e) = length dest" "unat (ne_payload_len e) = length payload"
    using assms(1) by (simp_all add: nvs_record_def)
  show ?thesis using encode_common_Some(4,5) [OF enc] by (simp add: nvs_stored_def Let_def assms(2) l)
qed

lemma nvs_record_sealed:
  assumes "nvs_record cap e dest payload bs"
  defines "h \<equiv> seal_hdr (entry_hdr e) (length dest) (length payload)"
  shows "decode_header bs = Some h" "verify_body h (drop HDR_SIZE bs)"
    "unat (h_destination_len h) = length dest" "unat (h_body_len h) = length payload"
    "nvs_entry_of_hdr h (ne_slot e) = e" "length bs \<le> cap" "HDR_SIZE + length dest + length payload + 4 \<le> length bs"
    "take (length dest) (drop HDR_SIZE bs) = dest" "take (length payload) (drop (HDR_SIZE + length dest) bs) = payload"
proof -
  have enc: "encode_common cap (entry_hdr e) dest payload = Some bs" and d: "length dest \<le> 63"
    and l: "unat (ne_destination_len e) = length dest" "unat (ne_payload_len e) = length payload"
    using assms(1) by (simp_all add: nvs_record_def)
  have lt: "length dest < 2 ^ 16" "length payload < 2 ^ 32"
    using d l(2) unsigned_less [of "ne_payload_len e", where 'a = nat] by simp_all
  note E = encode_common_Some [OF enc]
  show "decode_header bs = Some h" unfolding h_def by (rule decode_encode_common [OF enc])
  show "verify_body h (drop HDR_SIZE bs)" unfolding h_def by (rule verify_encode_common [OF enc lt])
  show "unat (h_destination_len h) = length dest" "unat (h_body_len h) = length payload"
    using lt by (simp_all add: h_def unat_of_nat_16 unat_of_nat_32)
  have "of_nat (length dest) = ne_destination_len e" "of_nat (length payload) = ne_payload_len e"
    using l by (metis of_nat_unat ucast_id)+
  then show "nvs_entry_of_hdr h (ne_slot e) = e"
    by (cases e) (simp add: h_def nvs_entry_of_hdr_def entry_hdr_def)
  show "length bs \<le> cap" "take (length dest) (drop HDR_SIZE bs) = dest"
    "take (length payload) (drop (HDR_SIZE + length dest) bs) = payload" by (fact E)+
  show "HDR_SIZE + length dest + length payload + 4 \<le> length bs"
    unfolding E(1) by (rule record_total_size_ge)
qed

section \<open>The invariant\<close>

definition nvs_geometry :: "'n nvs_ctx \<Rightarrow> bool" where
  "nvs_geometry c \<longleftrightarrow> n_index_capacity c = n_max_messages c \<and> n_max_messages c \<le> 100000 \<and>
     length (n_scratch c) = n_scratch_size c \<and> length (n_claim_scratch c) = n_scratch_size c \<and>
     n_scratch_size c < 2 ^ 32"

definition nvs_slots_ok :: "'n nvs_ctx \<Rightarrow> bool" where
  "nvs_slots_ok c \<longleftrightarrow> distinct (map ne_id (n_index c)) \<and> distinct (map ne_slot (n_index c)) \<and>
     length (n_slot_used c) = n_max_messages c \<and> (\<forall>s\<in>ne_slot ` set (n_index c). s < n_max_messages c) \<and>
     (\<forall>s<n_max_messages c. n_slot_used c ! s \<longleftrightarrow> s \<in> ne_slot ` set (n_index c))"

text \<open>Every entry has its record in its slot.\<close>

definition nvs_holds :: "blob_map \<Rightarrow> nat \<Rightarrow> nvs_entry \<Rightarrow> bool" where
  "nvs_holds b cap e \<longleftrightarrow> live_state (ne_state e) \<and>
     (\<exists>dest payload bs. b (slot_key (ne_slot e)) = Some bs \<and> nvs_record cap e dest payload bs)"

definition nvs_inv :: "('n \<Rightarrow> blob_map) \<Rightarrow> ('n \<Rightarrow> blob_map) \<Rightarrow> 'n nvs_ctx \<Rightarrow> bool" where
  "nvs_inv blobs durable c \<longleftrightarrow> nvs_geometry c \<and> \<not> n_fault c \<and> nvs_slots_ok c \<and>
     (\<forall>e\<in>set (n_index c). nvs_holds (blobs (n_handle c)) (n_scratch_size c) e) \<and>
     (\<forall>s<n_max_messages c. s \<notin> ne_slot ` set (n_index c) \<longrightarrow> blobs (n_handle c) (slot_key s) = None) \<and>
     (\<forall>s<n_max_messages c. durable (n_handle c) (slot_key s) = blobs (n_handle c) (slot_key s))"

definition nvs_view :: "('n \<Rightarrow> blob_map) \<Rightarrow> 'n nvs_ctx \<Rightarrow> queue_view" where
  "nvs_view blobs c = keyed_map ne_id (nvs_stored (blobs (n_handle c))) (n_index c)"

lemma nvs_invD:
  assumes "nvs_inv blobs durable c"
  shows "nvs_geometry c" "\<not> n_fault c" "nvs_slots_ok c" "distinct (map ne_id (n_index c))"
    "distinct (map ne_slot (n_index c))" "length (n_slot_used c) = n_max_messages c"
    "\<And>e. e \<in> set (n_index c) \<Longrightarrow> ne_slot e < n_max_messages c"
    "\<And>e. e \<in> set (n_index c) \<Longrightarrow> nvs_holds (blobs (n_handle c)) (n_scratch_size c) e"
    "n_max_messages c \<le> 100000" "n_index_capacity c = n_max_messages c"
    "length (n_scratch c) = n_scratch_size c" "length (n_claim_scratch c) = n_scratch_size c"
  using assms by (auto simp: nvs_inv_def nvs_slots_ok_def nvs_geometry_def)

lemma nvs_index_bound:
  assumes "nvs_inv blobs durable c"
  shows "length (n_index c) \<le> n_index_capacity c"
proof -
  have "length (n_index c) = card (ne_slot ` set (n_index c))"
    using distinct_card [OF nvs_invD(5) [OF assms]] by simp
  also have "\<dots> \<le> card {..<n_max_messages c}"
    using nvs_invD(7) [OF assms] by (intro card_mono) auto
  finally show ?thesis using nvs_invD(10) [OF assms] by simp
qed

lemma slot_keys_differ:
  assumes "nvs_inv blobs durable c" "s < n_max_messages c" "t < n_max_messages c" "s \<noteq> t"
  shows "slot_key s \<noteq> slot_key t"
  using slot_key_inject [of s t] nvs_invD(9) [OF assms(1)] assms(2-4) by auto

end
