(* ===== verification/Nvs_Slots.thy ===== *)
theory Nvs_Slots
  imports Nvs_Inv
begin

text \<open>
  What reading and writing one slot does, and how the invariant and the stored messages follow
  an update, an insertion and a removal of an entry.
\<close>

section \<open>Reading a slot\<close>

lemma read_record:
  assumes laws: "nvs_laws N blobs durable" and rec: "nvs_record (n_scratch_size c) e dest payload bs"
    and b: "blobs (n_handle c) (slot_key slot) = Some bs" and run: "read_and_verify N c slot = (err, hdr, c')"
  obtains n scr where "c' = c\<lparr>n_handle := n, n_scratch := scr\<rparr>" "blobs n = blobs (n_handle c)"
    "durable n = durable (n_handle c)" "err \<noteq> EDGESYNC_ERR_STORAGE_CORRUPT" "hdr = None \<longleftrightarrow> err \<noteq> ESP_OK"
    "err = ESP_OK \<Longrightarrow> hdr = Some (seal_hdr (entry_hdr e) (length dest) (length payload)) \<and>
       scr = bs @ drop (length bs) (n_scratch c)"
    "err \<noteq> ESP_OK \<Longrightarrow> scr = n_scratch c" "nvs_reliable N blobs \<Longrightarrow> err = ESP_OK"
proof -
  note R = nvs_record_sealed [OF rec]
  obtain r1 n1 where 1: "nv_get_size N (n_handle c) (slot_key slot) = (r1, n1)" by (metis prod.exhaust)
  note L1 = nvs_get_size [OF laws 1]
  show thesis
  proof (cases r1)
    case None
    have "\<not> nvs_reliable N blobs" using b 1 None unfolding nvs_reliable_def by (metis fst_conv option.distinct(1))
    then show thesis
      using that [where n = n1 and scr = "n_scratch c"] run L1(1,2) by (simp add: read_and_verify_def 1 None)
  next
    case (Some len)
    have len: "len = length bs" using L1(3) [OF Some] b by simp
    have cap: "\<not> n_scratch_size c < len" using R(6) by (simp add: len)
    obtain r2 n2 where 2: "nv_get_blob N n1 (slot_key slot) len = (r2, n2)" by (metis prod.exhaust)
    note L2 = nvs_get_blob [OF laws 2]
    show thesis
    proof (cases r2)
      case None
      have "\<not> nvs_reliable N blobs" using b 2 None L1(1) unfolding nvs_reliable_def len by (metis fst_conv le_refl option.distinct(1))
      then show thesis
        using that [where n = n2 and scr = "n_scratch c"] run L1(1,2) L2(1,2) cap by (simp add: read_and_verify_def 1 2 Some None)
    next
      case S2: (Some v)
      have "v = bs" using L2(3) [OF S2] L1(1) b by simp
      then have "err = ESP_OK" "hdr = Some (seal_hdr (entry_hdr e) (length dest) (length payload))"
        "c' = c\<lparr>n_handle := n2, n_scratch := bs @ drop (length bs) (n_scratch c)\<rparr>"
        using run cap R(1,2) by (simp_all add: read_and_verify_def 1 2 Some S2)
      then show thesis
        using that [where n = n2 and scr = "bs @ drop (length bs) (n_scratch c)"] L1(1,2) L2(1,2) by simp
    qed
  qed
qed

lemma read_missing:
  assumes laws: "nvs_laws N blobs durable" and b: "blobs (n_handle c) (slot_key slot) = None"
    and run: "read_and_verify N c slot = (err, hdr, c')"
  obtains n where "c' = c\<lparr>n_handle := n\<rparr>" "blobs n = blobs (n_handle c)" "durable n = durable (n_handle c)"
    "err = EDGESYNC_ERR_NOT_FOUND" "hdr = None"
proof -
  obtain r1 n1 where 1: "nv_get_size N (n_handle c) (slot_key slot) = (r1, n1)" by (metis prod.exhaust)
  note L1 = nvs_get_size [OF laws 1]
  have "r1 = None" using L1(3) b by (cases r1) auto
  then show thesis using that [of n1] L1(1,2) run by (simp add: read_and_verify_def 1)
qed

section \<open>Writing a slot\<close>

lemma encode_entry:
  assumes "length (c_string destination) \<le> 63"
  shows "encode_message_full cap (ne_id e) destination (ne_priority e) (ne_state e) (ne_attempt_count e)
      (ne_created_at_us e) (ne_last_attempt_at_us e) (ne_next_retry_at_us e) (ne_last_error e) body 0 =
    encode_common cap (entry_hdr e) (c_string destination) body"
  using assms by (simp add: encode_message_full_def entry_hdr_def Let_def)

text \<open>The entry that is written, with the body the record gets.\<close>

lemma write_record:
  fixes destination src e c
  defines "dest \<equiv> c_string destination"
  defines "body \<equiv> payload_bytes (n_scratch c) dest (unat (ne_payload_len e)) src"
  assumes laws: "nvs_laws N blobs durable"
    and dest: "length dest \<le> 63" "unat (ne_destination_len e) = length dest"
    and body: "length body = unat (ne_payload_len e)" "\<not> payload_fault (n_scratch_size c) dest (unat (ne_payload_len e)) src"
    and run: "write_entry N c e destination src = (err, c')"
  shows "err = ESP_OK \<Longrightarrow> \<exists>n bs. nvs_record (n_scratch_size c) e dest body bs \<and>
      c' = c\<lparr>n_handle := n, n_scratch := bs @ drop (length bs) (n_scratch c)\<rparr> \<and>
      blobs n = (blobs (n_handle c))(slot_key (ne_slot e) \<mapsto> bs) \<and> durable n = blobs n"
    and "nvs_reliable N blobs \<Longrightarrow>
      err = (if record_total_size (length dest) (length body) \<le> n_scratch_size c then ESP_OK else EDGESYNC_ERR_SERIALIZATION)"
    and "n_scratch_size c < record_total_size (length dest) (length body) \<Longrightarrow> err = EDGESYNC_ERR_SERIALIZATION \<and> c' = c"
proof -
  have nul: "0 \<notin> set dest" unfolding dest_def by (rule c_string_nul_free)
  note enc = encode_entry [OF dest(1) [unfolded dest_def], folded dest_def]
  consider (no) "encode_common (n_scratch_size c) (entry_hdr e) dest body = None" "err = EDGESYNC_ERR_SERIALIZATION" "c' = c"
      "n_scratch_size c < record_total_size (length dest) (length body)"
    | (bs) bs where "encode_common (n_scratch_size c) (entry_hdr e) dest body = Some bs"
  proof (cases "encode_common (n_scratch_size c) (entry_hdr e) dest body")
    case None
    then show thesis using no run encode_common_succeeds [of dest body "n_scratch_size c" "entry_hdr e"]
      by (fastforce simp: write_entry_def enc Let_def simp flip: body_def dest_def)
  qed (rule bs)
  note enc_cases = this
  have ok: "(err = ESP_OK \<longrightarrow> (\<exists>n. nvs_record (n_scratch_size c) e dest body bs \<and>
      c' = c\<lparr>n_handle := n, n_scratch := bs @ drop (length bs) (n_scratch c)\<rparr> \<and>
      blobs n = (blobs (n_handle c))(slot_key (ne_slot e) \<mapsto> bs) \<and> durable n = blobs n)) \<and>
      (nvs_reliable N blobs \<longrightarrow> err = ESP_OK) \<and> record_total_size (length dest) (length body) \<le> n_scratch_size c"
    if e: "encode_common (n_scratch_size c) (entry_hdr e) dest body = Some bs" for bs
  proof -
    obtain ok1 n1 where 1: "nv_set_blob N (n_handle c) (slot_key (ne_slot e)) bs = (ok1, n1)" by (metis prod.exhaust)
    obtain ok2 n2 where 2: "nv_commit N n1 = (ok2, n2)" by (metis prod.exhaust)
    note L1 = nvs_set_blob [OF laws 1] and L2 = nvs_commit [OF laws 2]
    have r: "nvs_record (n_scratch_size c) e dest body bs"
      using e dest nul body(1) by (simp add: nvs_record_def)
    have "nvs_reliable N blobs \<longrightarrow> ok1 \<and> ok2" unfolding nvs_reliable_def using 1 2 by (metis fst_conv)
    moreover have "record_total_size (length dest) (length body) \<le> n_scratch_size c" using encode_common_Some(1,2) [OF e] by simp
    moreover have "err = ESP_OK \<longleftrightarrow> ok1 \<and> ok2" "err = ESP_OK \<Longrightarrow>
        c' = c\<lparr>n_handle := n2, n_scratch := bs @ drop (length bs) (n_scratch c)\<rparr>"
      using run body(2) by (auto simp: write_entry_def enc e 1 2 Let_def simp flip: body_def dest_def split: if_splits)
    ultimately show ?thesis using r L1(1) L2 by auto
  qed
  show "\<exists>n bs. nvs_record (n_scratch_size c) e dest body bs \<and>
      c' = c\<lparr>n_handle := n, n_scratch := bs @ drop (length bs) (n_scratch c)\<rparr> \<and>
      blobs n = (blobs (n_handle c))(slot_key (ne_slot e) \<mapsto> bs) \<and> durable n = blobs n" if "err = ESP_OK"
    using that ok by (cases rule: enc_cases) (simp, blast)
  show "err = (if record_total_size (length dest) (length body) \<le> n_scratch_size c then ESP_OK else EDGESYNC_ERR_SERIALIZATION)"
    if "nvs_reliable N blobs"
    using that ok by (cases rule: enc_cases) auto
  show "err = EDGESYNC_ERR_SERIALIZATION \<and> c' = c" if "n_scratch_size c < record_total_size (length dest) (length body)"
    using that ok by (cases rule: enc_cases) (simp, fastforce)
qed

text \<open>A body that is read from the buffer it is encoded into comes out as zeros.\<close>

lemma payload_in_scratch:
  "payload_bytes scratch dest len (In_scratch (HDR_SIZE + length dest)) = replicate len 0"
proof -
  have "HDR_SIZE + length dest + len + 4 \<le> record_total_size (length dest) len" by (rule record_total_size_ge)
  then have "len \<le> record_total_size (length dest) len - (HDR_SIZE + length dest)" by simp
  then show ?thesis by (simp add: payload_bytes_def Let_def min_def)
qed

end
