(* ===== verification/Nvs_Steps.thy ===== *)
theory Nvs_Steps
  imports Nvs_Slots
begin

text \<open>
  How the invariant and the stored messages follow the three things the operations do to the
  index: rewriting an entry, adding one, removing one.
\<close>

definition nvs_same :: "'n nvs_ctx \<Rightarrow> 'n nvs_ctx \<Rightarrow> bool" where
  "nvs_same c c' \<longleftrightarrow> n_max_messages c' = n_max_messages c \<and> n_index_capacity c' = n_index_capacity c \<and>
     n_scratch_size c' = n_scratch_size c \<and> n_fault c' = n_fault c \<and>
     length (n_scratch c') = length (n_scratch c) \<and> length (n_claim_scratch c') = length (n_claim_scratch c)"

lemma nvs_same_geometry: "nvs_same c c' \<Longrightarrow> nvs_geometry c' = nvs_geometry c"
  by (simp add: nvs_same_def nvs_geometry_def)

lemma nvs_stored_cong:
  "b' (slot_key (ne_slot e)) = b (slot_key (ne_slot e)) \<Longrightarrow> nvs_stored b' e = nvs_stored b e"
  by (simp add: nvs_stored_def)

lemma nvs_holds_cong:
  "b' (slot_key (ne_slot e)) = b (slot_key (ne_slot e)) \<Longrightarrow> nvs_holds b' cap e = nvs_holds b cap e"
  by (simp add: nvs_holds_def)

lemma distinct_map_inj: "distinct (map f xs) \<Longrightarrow> x \<in> set xs \<Longrightarrow> y \<in> set xs \<Longrightarrow> f x = f y \<Longrightarrow> x = y"
  by (auto simp: distinct_map inj_on_def)

lemma same_blobs:
  assumes inv: "nvs_inv blobs durable c" and same: "nvs_same c c'"
    and "n_index c' = n_index c" "n_slot_used c' = n_slot_used c"
    and "blobs (n_handle c') = blobs (n_handle c)" "durable (n_handle c') = durable (n_handle c)"
  shows "nvs_inv blobs durable c'" "nvs_view blobs c' = nvs_view blobs c"
  using assms nvs_same_geometry [OF same]
  by (simp_all add: nvs_inv_def nvs_slots_ok_def nvs_same_def nvs_view_def)

subsection \<open>Rewriting an entry\<close>

lemma rewrite_entry:
  assumes inv: "nvs_inv blobs durable c" and pos: "pos < length (n_index c)"
    and e: "ne_id e = ne_id (n_index c ! pos)" "ne_slot e = ne_slot (n_index c ! pos)" "live_state (ne_state e)"
    and rec: "nvs_record (n_scratch_size c) e dest payload bs" and same: "nvs_same c c'"
    and idx: "n_index c' = (n_index c)[pos := e]" "n_slot_used c' = n_slot_used c"
    and b: "blobs (n_handle c') = (blobs (n_handle c))(slot_key (ne_slot e) \<mapsto> bs)"
      "durable (n_handle c') = blobs (n_handle c')"
  shows "nvs_inv blobs durable c'"
    "nvs_view blobs c' = (nvs_view blobs c)(ne_id e \<mapsto> nvs_stored (blobs (n_handle c')) e)"
proof -
  note I = nvs_invD [OF inv]
  have mem: "n_index c ! pos \<in> set (n_index c)" using pos by simp
  have ids: "map ne_id (n_index c') = map ne_id (n_index c)" "map ne_slot (n_index c') = map ne_slot (n_index c)"
    using e(1,2) pos by (simp_all add: idx(1) map_update) (metis list_update_id map_update nth_map)+
  then have slots: "ne_slot ` set (n_index c') = ne_slot ` set (n_index c)" by (metis set_map)
  have other: "blobs (n_handle c') (slot_key s) = blobs (n_handle c) (slot_key s)"
    if "s < n_max_messages c" "s \<noteq> ne_slot e" for s
    using slot_keys_differ [OF inv that(1) _ that(2)] I(7) [OF mem] by (simp add: b(1) e(2))
  have ent: "x = e \<or> x \<in> set (n_index c) \<and> ne_slot x \<noteq> ne_slot e" if x: "x \<in> set (n_index c')" for x
  proof -
    obtain j where j: "j < length (n_index c)" "x = (n_index c)[pos := e] ! j"
      using x by (auto simp: idx(1) in_set_conv_nth)
    show ?thesis
    proof (cases "j = pos")
      case False
      then have "ne_slot (n_index c ! j) \<noteq> ne_slot (n_index c ! pos)"
        using I(5) j(1) pos by (simp add: distinct_conv_nth)
      then show ?thesis using j False e(2) by simp
    qed (use j pos in simp)
  qed
  have holds: "nvs_holds (blobs (n_handle c')) (n_scratch_size c) x" if "x \<in> set (n_index c')" for x
    using ent [OF that]
  proof
    assume "x = e"
    then show ?thesis using rec e(3) b(1) by (auto simp: nvs_holds_def)
  next
    assume x: "x \<in> set (n_index c) \<and> ne_slot x \<noteq> ne_slot e"
    then show ?thesis using I(7,8) [of x] other nvs_holds_cong by metis
  qed
  have sl: "nvs_slots_ok c'"
    using I(3) same unfolding nvs_slots_ok_def nvs_same_def ids slots idx(2) by simp
  have un: "blobs (n_handle c') (slot_key s) = None" if "s < n_max_messages c" "s \<notin> ne_slot ` set (n_index c)" for s
    using other [OF that(1)] that e(2) mem inv by (auto simp: nvs_inv_def)
  show "nvs_inv blobs durable c'"
    unfolding nvs_inv_def using nvs_same_geometry [OF same] I(1,2) sl holds un same slots b(2)
    by (simp add: nvs_same_def)
  have st: "nvs_stored (blobs (n_handle c')) x = nvs_stored (blobs (n_handle c)) x"
    if "x \<in> set (n_index c)" "ne_id x \<noteq> ne_id e" for x
  proof -
    have "x \<noteq> n_index c ! pos" using that(2) e(1) by auto
    then have "ne_slot x \<noteq> ne_slot e" using distinct_map_inj [OF I(5) that(1) mem] e(2) by auto
    then show ?thesis using other I(7) [OF that(1)] nvs_stored_cong by metis
  qed
  show "nvs_view blobs c' = (nvs_view blobs c)(ne_id e \<mapsto> nvs_stored (blobs (n_handle c')) e)"
    unfolding nvs_view_def idx(1) by (rule keyed_map_update [OF I(4) pos e(1) st])
qed

subsection \<open>Adding an entry\<close>

lemma add_entry:
  assumes inv: "nvs_inv blobs durable c" and free: "ne_slot e < n_max_messages c" "ne_slot e \<notin> ne_slot ` set (n_index c)"
    and e: "ne_id e \<notin> ne_id ` set (n_index c)" "live_state (ne_state e)"
    and rec: "nvs_record (n_scratch_size c) e dest payload bs" and same: "nvs_same c c'"
    and idx: "n_index c' = n_index c @ [e]" "n_slot_used c' = (n_slot_used c)[ne_slot e := True]"
    and b: "blobs (n_handle c') = (blobs (n_handle c))(slot_key (ne_slot e) \<mapsto> bs)"
      "durable (n_handle c') = blobs (n_handle c')"
  shows "nvs_inv blobs durable c'"
    "nvs_view blobs c' = (nvs_view blobs c)(ne_id e \<mapsto> nvs_stored (blobs (n_handle c')) e)"
proof -
  note I = nvs_invD [OF inv]
  have other: "blobs (n_handle c') (slot_key s) = blobs (n_handle c) (slot_key s)"
    if "s < n_max_messages c" "s \<noteq> ne_slot e" for s
    using slot_keys_differ [OF inv that(1) free(1) that(2)] by (simp add: b(1))
  have ne: "ne_slot x \<noteq> ne_slot e" if "x \<in> set (n_index c)" for x using free(2) that by (metis imageI)
  have holds: "nvs_holds (blobs (n_handle c')) (n_scratch_size c) x" if "x \<in> set (n_index c')" for x
  proof (cases "x = e")
    case True
    then show ?thesis using rec e(2) b(1) by (auto simp: nvs_holds_def)
  next
    case False
    then have "x \<in> set (n_index c)" using that by (simp add: idx(1))
    then show ?thesis using I(7,8) [of x] other ne nvs_holds_cong by metis
  qed
  have sl: "nvs_slots_ok c'"
    using I(3) free e(1) same unfolding nvs_slots_ok_def nvs_same_def idx by (auto simp: nth_list_update)
  have un: "blobs (n_handle c') (slot_key s) = None" if "s < n_max_messages c" "s \<notin> ne_slot ` set (n_index c')" for s
    using other [OF that(1)] that inv by (auto simp: nvs_inv_def idx(1))
  show "nvs_inv blobs durable c'"
    unfolding nvs_inv_def using nvs_same_geometry [OF same] I(1,2) sl holds un same b(2) by (simp add: nvs_same_def)
  have "keyed_map ne_id (nvs_stored (blobs (n_handle c'))) (n_index c) = keyed_map ne_id (nvs_stored (blobs (n_handle c))) (n_index c)"
  proof (rule keyed_map_eqI [OF I(4) I(4)], rule image_cong)
    fix x assume x: "x \<in> set (n_index c)"
    have "nvs_stored (blobs (n_handle c')) x = nvs_stored (blobs (n_handle c)) x"
      by (rule nvs_stored_cong) (rule other [OF I(7) [OF x] ne [OF x]])
    then show "(ne_id x, nvs_stored (blobs (n_handle c')) x) = (ne_id x, nvs_stored (blobs (n_handle c)) x)" by simp
  qed simp
  then show "nvs_view blobs c' = (nvs_view blobs c)(ne_id e \<mapsto> nvs_stored (blobs (n_handle c')) e)"
    unfolding nvs_view_def idx(1) using keyed_map_append [OF e(1)] by metis
qed

subsection \<open>Removing an entry\<close>

lemma remove_entry:
  assumes inv: "nvs_inv blobs durable c" and pos: "pos < length (n_index c)"
    and b: "blobs n = (blobs (n_handle c))(slot_key (ne_slot (n_index c ! pos)) := None)" "durable n = blobs n"
  defines "c' \<equiv> nvs_remove_entry_at (c\<lparr>n_handle := n\<rparr>) pos"
  shows "nvs_inv blobs durable c'" "nvs_view blobs c' = (nvs_view blobs c)(ne_id (n_index c ! pos) := None)"
proof -
  note I = nvs_invD [OF inv]
  let ?e = "n_index c ! pos"
  have mem: "?e \<in> set (n_index c)" using pos by simp
  have c': "n_handle c' = n" "n_index c' = swap_remove (n_index c) pos" "n_slot_used c' = (n_slot_used c)[ne_slot ?e := False]"
    "nvs_same c c'" by (simp_all add: c'_def nvs_remove_entry_at_def nvs_same_def)
  note R = swap_remove_distinct [OF I(4) pos] and S = swap_remove_distinct [OF I(5) pos]
  have other: "blobs n (slot_key s) = blobs (n_handle c) (slot_key s)" if "s < n_max_messages c" "s \<noteq> ne_slot ?e" for s
    using slot_keys_differ [OF inv that(1) I(7) [OF mem] that(2)] by (simp add: b(1))
  have holds: "nvs_holds (blobs n) (n_scratch_size c) x" if "x \<in> set (n_index c')" for x
  proof -
    have "x \<in> set (n_index c)" "ne_slot x \<noteq> ne_slot ?e" using that S(1) by (simp_all add: c'(2))
    then show ?thesis using I(7,8) [of x] other nvs_holds_cong by metis
  qed
  have slots: "ne_slot ` set (n_index c') = ne_slot ` set (n_index c) - {ne_slot ?e}"
    unfolding c'(2) S(1) by auto
  have sl: "nvs_slots_ok c'"
    unfolding nvs_slots_ok_def slots using I(3) I(7) [OF mem] S(2) R(2) c'(2,4)
    by (auto simp: nvs_slots_ok_def nvs_same_def c'(3) nth_list_update split: if_splits)
  have un: "blobs n (slot_key s) = None" if "s < n_max_messages c" "s \<notin> ne_slot ` set (n_index c')" for s
  proof (cases "s = ne_slot ?e")
    case False
    then show ?thesis using other [OF that(1)] that slots inv by (auto simp: nvs_inv_def)
  qed (simp add: b(1))
  show "nvs_inv blobs durable c'"
    unfolding nvs_inv_def using nvs_same_geometry [OF c'(4)] I(1,2) sl holds un c'(1,4) b(2) by (simp add: nvs_same_def)
  have st: "nvs_stored (blobs n) x = nvs_stored (blobs (n_handle c)) x" if "x \<in> set (n_index c)" "ne_id x \<noteq> ne_id ?e" for x
  proof -
    have "x \<noteq> ?e" using that(2) by auto
    then have "ne_slot x \<noteq> ne_slot ?e" using distinct_map_inj [OF I(5) that(1) mem] by auto
    then show ?thesis using other I(7) [OF that(1)] nvs_stored_cong by metis
  qed
  show "nvs_view blobs c' = (nvs_view blobs c)(ne_id ?e := None)"
    unfolding nvs_view_def c'(1,2) by (rule keyed_map_remove [OF I(4) pos st])
qed

end
