(* ===== verification/Nvs_Ops.thy ===== *)
theory Nvs_Ops
  imports Nvs_Steps
begin

text \<open>
  The operations of the NVS backend against the stored messages: what a success means on any NVS
  library that obeys the laws, and when they succeed on a reliable one.
\<close>

section \<open>Entries and messages\<close>

definition zeroed :: "message \<Rightarrow> message" where
  "zeroed msg = msg\<lparr>m_payload := replicate (length (m_payload msg)) 0\<rparr>"

lemma nvs_view_nth:
  "nvs_inv blobs durable c \<Longrightarrow> pos < length (n_index c) \<Longrightarrow>
   nvs_view blobs c (ne_id (n_index c ! pos)) = Some (nvs_stored (blobs (n_handle c)) (n_index c ! pos))"
  unfolding nvs_view_def by (rule keyed_map_nth [OF nvs_invD(4)])

lemma nvs_view_dom: "dom (nvs_view blobs c) = ne_id ` set (n_index c)"
  unfolding nvs_view_def by (rule dom_keyed_map)

lemma nvs_view_entry:
  assumes "nvs_inv blobs durable c" "nvs_view blobs c mid = Some msg"
  obtains pos where "pos < length (n_index c)" "ne_id (n_index c ! pos) = mid"
    "msg = nvs_stored (blobs (n_handle c)) (n_index c ! pos)"
proof -
  have "mid \<in> ne_id ` set (n_index c)" using assms(2) nvs_view_dom by blast
  then obtain pos where p: "pos < length (n_index c)" "ne_id (n_index c ! pos) = mid" by (auto simp: in_set_conv_nth)
  then show thesis using that nvs_view_nth [OF assms(1) p(1)] assms(2) by simp
qed

lemma nvs_view_card:
  assumes "nvs_inv blobs durable c"
  shows "finite (dom (nvs_view blobs c))" "card (dom (nvs_view blobs c)) = length (n_index c)"
  using distinct_card [OF nvs_invD(4) [OF assms]] by (simp_all add: nvs_view_dom)

lemma nvs_find:
  assumes "nvs_inv blobs durable c" "nvs_find_entry c mid = Some pos"
  shows "pos < length (n_index c)" "ne_id (n_index c ! pos) = mid"
    "nvs_view blobs c mid = Some (nvs_stored (blobs (n_handle c)) (n_index c ! pos))"
proof -
  have "pos < length (n_index c) \<and> ne_id (n_index c ! pos) = mid"
    using assms(2) unfolding nvs_find_entry_def by (rule find_pos_Some)
  then show "pos < length (n_index c)" "ne_id (n_index c ! pos) = mid"
    "nvs_view blobs c mid = Some (nvs_stored (blobs (n_handle c)) (n_index c ! pos))"
    using nvs_view_nth [OF assms(1), of pos] by auto
qed

lemma nvs_find_None: "nvs_find_entry c mid = None \<longleftrightarrow> mid \<notin> dom (nvs_view blobs c)"
  unfolding nvs_find_entry_def nvs_view_dom by (rule find_pos_None)

lemma nvs_stored_fields [simp]:
  "m_id (nvs_stored b e) = ne_id e" "m_priority (nvs_stored b e) = ne_priority e"
  "m_state (nvs_stored b e) = state_of (ne_state e)" "m_next_retry_at_us (nvs_stored b e) = ne_next_retry_at_us e"
  "m_created_at_us (nvs_stored b e) = ne_created_at_us e"
  by (simp_all add: nvs_stored_def Let_def)

text \<open>The record behind an entry.\<close>

lemma entry_record:
  assumes inv: "nvs_inv blobs durable c" and pos: "pos < length (n_index c)"
  obtains dest payload bs where "live_state (ne_state (n_index c ! pos))"
    "blobs (n_handle c) (slot_key (ne_slot (n_index c ! pos))) = Some bs"
    "nvs_record (n_scratch_size c) (n_index c ! pos) dest payload bs"
    "m_destination (nvs_stored (blobs (n_handle c)) (n_index c ! pos)) = dest"
    "m_payload (nvs_stored (blobs (n_handle c)) (n_index c ! pos)) = payload"
proof -
  have "nvs_holds (blobs (n_handle c)) (n_scratch_size c) (n_index c ! pos)" using nvs_invD(8) [OF inv] pos by simp
  then obtain dest payload bs where h: "live_state (ne_state (n_index c ! pos))"
    "blobs (n_handle c) (slot_key (ne_slot (n_index c ! pos))) = Some bs"
    "nvs_record (n_scratch_size c) (n_index c ! pos) dest payload bs" by (auto simp: nvs_holds_def)
  then show thesis using that nvs_record_stored [of _ _ _ _ _ "blobs (n_handle c)", OF h(3,2)] by simp
qed

section \<open>Enqueue\<close>

lemma find_free_slot_Some:
  assumes "nvs_inv blobs durable c" "find_free_slot c = Some slot"
  shows "slot < n_max_messages c" "slot \<notin> ne_slot ` set (n_index c)"
proof -
  have "slot \<in> set [0..<n_max_messages c] \<and> \<not> n_slot_used c ! slot"
    using assms(2) unfolding find_free_slot_def find_Some_iff by (metis nth_mem)
  then show "slot < n_max_messages c" "slot \<notin> ne_slot ` set (n_index c)"
    using nvs_invD(3) [OF assms(1)] by (auto simp: nvs_slots_ok_def)
qed

lemma find_free_slot_exists:
  assumes inv: "nvs_inv blobs durable c" and room: "length (n_index c) < n_index_capacity c"
  shows "find_free_slot c \<noteq> None"
proof
  assume "find_free_slot c = None"
  then have "\<forall>i<n_max_messages c. n_slot_used c ! i" by (simp add: find_free_slot_def find_None_iff)
  then have "{..<n_max_messages c} \<subseteq> ne_slot ` set (n_index c)"
    using nvs_invD(3) [OF inv] by (auto simp: nvs_slots_ok_def)
  then have "n_max_messages c \<le> card (ne_slot ` set (n_index c))"
    by (metis card_lessThan card_mono finite_imageI finite_set)
  also have "\<dots> \<le> length (n_index c)" by (metis card_image_le card_length finite_set le_trans)
  finally show False using room nvs_invD(10) [OF inv] by simp
qed

lemma accepted_lengths:
  assumes "message_accepted scr msg" "scr < 2 ^ 32"
  shows "length (c_string (m_destination msg)) < 2 ^ 16" "length (m_payload msg) < 2 ^ 32"
    "record_total_size (length (c_string (m_destination msg))) (length (m_payload msg)) \<le> scr"
proof -
  show l: "record_total_size (length (c_string (m_destination msg))) (length (m_payload msg)) \<le> scr"
    using assms(1) by (simp add: message_accepted_def message_len_def)
  show "length (c_string (m_destination msg)) < 2 ^ 16" using assms(1) by (simp add: message_accepted_def)
  show "length (m_payload msg) < 2 ^ 32"
    using record_total_size_ge [of "length (c_string (m_destination msg))" "length (m_payload msg)"] l assms(2) by simp
qed

lemma write_rejected:
  assumes "\<not> message_accepted (n_scratch_size c) msg"
  shows "write_entry N c (nvs_new_entry msg slot) (m_destination msg) (Elsewhere (m_payload msg)) = (EDGESYNC_ERR_SERIALIZATION, c)"
  using assms by (auto simp: write_entry_def Let_def payload_bytes_def encode_message_full_def encode_common_def
      message_accepted_def message_len_def)

lemma nvs_enqueue:
  assumes laws: "nvs_laws N blobs durable" and inv: "nvs_inv blobs durable c"
    and run: "nvs_op_enqueue N c msg = (err, c')"
  shows "err = ESP_OK \<Longrightarrow> m_id msg \<notin> dom (nvs_view blobs c) \<Longrightarrow>
      nvs_inv blobs durable c' \<and> nvs_same c c' \<and> nvs_view blobs c' = (nvs_view blobs c)(m_id msg \<mapsto> fresh msg)"
    and "nvs_reliable N blobs \<Longrightarrow> err = (if n_index_capacity c \<le> length (n_index c) then EDGESYNC_ERR_QUEUE_FULL
      else if \<not> message_accepted (n_scratch_size c) msg then EDGESYNC_ERR_SERIALIZATION else ESP_OK) \<and>
      (err \<noteq> ESP_OK \<longrightarrow> c' = c)"
proof -
  have "(err = ESP_OK \<longrightarrow> m_id msg \<notin> dom (nvs_view blobs c) \<longrightarrow>
      nvs_inv blobs durable c' \<and> nvs_same c c' \<and> nvs_view blobs c' = (nvs_view blobs c)(m_id msg \<mapsto> fresh msg)) \<and>
    (nvs_reliable N blobs \<longrightarrow> err = (if n_index_capacity c \<le> length (n_index c) then EDGESYNC_ERR_QUEUE_FULL
      else if \<not> message_accepted (n_scratch_size c) msg then EDGESYNC_ERR_SERIALIZATION else ESP_OK) \<and>
      (err \<noteq> ESP_OK \<longrightarrow> c' = c))"
  proof (cases "n_index_capacity c \<le> length (n_index c)")
    case True
    then show ?thesis using run by (simp add: nvs_op_enqueue_def)
  next
    case False
    then obtain slot where slot: "find_free_slot c = Some slot" using find_free_slot_exists [OF inv] by auto
    note S = find_free_slot_Some [OF inv slot]
    let ?e = "nvs_new_entry msg slot"
    show ?thesis
    proof (cases "message_accepted (n_scratch_size c) msg")
      case no: False
      then show ?thesis using run False slot write_rejected [OF no] by (simp add: nvs_op_enqueue_def Let_def)
    next
      case acc: True
      have scr: "n_scratch_size c < 2 ^ 32" using nvs_invD(1) [OF inv] by (simp add: nvs_geometry_def)
      note A = accepted_lengths [OF acc scr]
      obtain e1 c1 where 1: "write_entry N c ?e (m_destination msg) (Elsewhere (m_payload msg)) = (e1, c1)" by (metis prod.exhaust)
      have d: "length (c_string (m_destination msg)) \<le> 63" using acc by (simp add: message_accepted_def)
      have l: "unat (ne_destination_len ?e) = length (c_string (m_destination msg))"
        "unat (ne_payload_len ?e) = length (m_payload msg)"
        using A(1,2) by (simp_all add: nvs_new_entry_def unat_of_nat_16 unat_of_nat_32)
      have pb: "payload_bytes (n_scratch c) (c_string (m_destination msg)) (unat (ne_payload_len ?e)) (Elsewhere (m_payload msg)) = m_payload msg"
        by (simp add: payload_bytes_def)
      have pf: "\<not> payload_fault (n_scratch_size c) (c_string (m_destination msg)) (unat (ne_payload_len ?e)) (Elsewhere (m_payload msg))"
        unfolding l(2) by (simp add: payload_fault_def)
      note W = write_record [OF laws d l(1) _ pf 1, unfolded pb, OF l(2) [symmetric]]
      have r: "err = e1" "c' = (if e1 = ESP_OK then c1\<lparr>n_index := n_index c1 @ [?e], n_slot_used := (n_slot_used c1)[slot := True]\<rparr> else c1)"
        using run False slot 1 by (simp_all add: nvs_op_enqueue_def split: if_splits)
      have good: "nvs_inv blobs durable c' \<and> nvs_same c c' \<and> nvs_view blobs c' = (nvs_view blobs c)(m_id msg \<mapsto> fresh msg)"
        if ok: "err = ESP_OK" and new: "m_id msg \<notin> dom (nvs_view blobs c)"
      proof -
        obtain n bs where b: "nvs_record (n_scratch_size c) ?e (c_string (m_destination msg)) (m_payload msg) bs"
          "c1 = c\<lparr>n_handle := n, n_scratch := bs @ drop (length bs) (n_scratch c)\<rparr>"
          "blobs n = (blobs (n_handle c))(slot_key (ne_slot ?e) \<mapsto> bs)" "durable n = blobs n"
          using W(1) ok r(1) by blast
        have sl: "ne_slot ?e = slot" "ne_id ?e = m_id msg" by (simp_all add: nvs_new_entry_def)
        have same: "nvs_same c c'"
          using nvs_record_sealed(6) [OF b(1)] nvs_invD(11) [OF inv] ok r by (simp add: nvs_same_def b(2))
        have f: "n_index c' = n_index c @ [?e]" "n_slot_used c' = (n_slot_used c)[ne_slot ?e := True]" "n_handle c' = n"
          using ok r by (simp_all add: b(2) sl)
        have st: "nvs_stored (blobs n) ?e = fresh msg"
          using nvs_record_stored [OF b(1), of "blobs n"] b(3)
          by (simp add: nvs_new_entry_def fresh_def state_of_def)
        have "nvs_inv blobs durable c'" "nvs_view blobs c' = (nvs_view blobs c)(ne_id ?e \<mapsto> nvs_stored (blobs (n_handle c')) ?e)"
          using add_entry [OF inv _ _ _ _ b(1) same f(1,2)] S new b(3,4)
          by (simp_all add: sl f(3) nvs_view_dom live_state_def nvs_new_entry_def)
        then show ?thesis using same st by (simp add: f(3) sl)
      qed
      have "nvs_reliable N blobs \<longrightarrow> e1 = ESP_OK" using W(2) A(3) by simp
      then show ?thesis using good r acc False by auto
    qed
  qed
  then show "err = ESP_OK \<Longrightarrow> m_id msg \<notin> dom (nvs_view blobs c) \<Longrightarrow>
      nvs_inv blobs durable c' \<and> nvs_same c c' \<and> nvs_view blobs c' = (nvs_view blobs c)(m_id msg \<mapsto> fresh msg)"
    and "nvs_reliable N blobs \<Longrightarrow> err = (if n_index_capacity c \<le> length (n_index c) then EDGESYNC_ERR_QUEUE_FULL
      else if \<not> message_accepted (n_scratch_size c) msg then EDGESYNC_ERR_SERIALIZATION else ESP_OK) \<and>
      (err \<noteq> ESP_OK \<longrightarrow> c' = c)" by blast+
qed

lemma nvs_enqueue_full:
  assumes "nvs_op_enqueue N c msg = (EDGESYNC_ERR_QUEUE_FULL, c')"
  shows "c' = c"
proof -
  have "fst (write_entry N c e d p) \<noteq> EDGESYNC_ERR_QUEUE_FULL" for e d p
    by (simp add: write_entry_def Let_def split: option.splits prod.splits)
  then show ?thesis using assms
    by (auto simp: nvs_op_enqueue_def Let_def split: option.splits prod.splits if_splits) (metis fst_conv)+
qed

end
