(* ===== verification/Nvs_Claim.thy ===== *)
theory Nvs_Claim
  imports Nvs_Ops
begin

text \<open>
  The selecting operations of the NVS backend: \<open>claim_next\<close> and \<open>find_drop_candidate\<close>, and the
  statistics.
\<close>

section \<open>Selection\<close>

lemma nvs_sint_inject: "sint x = sint y \<longleftrightarrow> x = (y :: 'a::len word)"
  by (metis uint_sint word_uint_eqI)

lemma nvs_claim_better_key:
  "nvs_claim_better e best = (claim_key (nvs_stored b e) < claim_key (nvs_stored b best))"
  by (auto simp: nvs_claim_better_def claim_key_def less_prod_def word_less_def nvs_sint_inject
      simp flip: word_uint_eq_iff)

lemma nvs_drop_better_key:
  "nvs_drop_better policy e best = (drop_key policy (nvs_stored b e) < drop_key policy (nvs_stored b best))"
  by (auto simp: nvs_drop_better_def drop_key_def less_prod_def word_less_def simp flip: word_uint_eq_iff)

lemma nvs_state_pending: "live_state s \<Longrightarrow> state_of s = MSG_PENDING \<longleftrightarrow> s = STATE_PENDING"
  by (auto simp: live_state_def state_of_def)

lemma nvs_eligible:
  "live_state (ne_state e) \<Longrightarrow> eligible now_us (nvs_stored b e) = nvs_claim_eligible now_us e"
  by (auto simp: eligible_def nvs_claim_eligible_def nvs_state_pending)

lemma nvs_claim_least:
  "first_least (nvs_claim_eligible now_us) (\<lambda>e. claim_key (nvs_stored b e)) es (length es) (nvs_claim_select now_us es)"
  unfolding nvs_claim_select_def by (rule select_loop_correct) (rule nvs_claim_better_key)

lemma nvs_live: "nvs_inv blobs durable c \<Longrightarrow> j < length (n_index c) \<Longrightarrow> live_state (ne_state (n_index c ! j))"
  using nvs_invD(8) by (fastforce simp: nvs_holds_def)

lemma nvs_claim_first:
  assumes inv: "nvs_inv blobs durable c" and sel: "nvs_claim_select now_us (n_index c) = Some pos"
  shows "pos < length (n_index c)"
    "first_to_claim (nvs_view blobs c) now_us (nvs_stored (blobs (n_handle c)) (n_index c ! pos))"
proof -
  let ?st = "nvs_stored (blobs (n_handle c))"
  have L: "first_least (nvs_claim_eligible now_us) (\<lambda>e. claim_key (?st e)) (n_index c) (length (n_index c)) (Some pos)"
    using nvs_claim_least [of now_us "blobs (n_handle c)" "n_index c"] sel by simp
  then show p: "pos < length (n_index c)" by (simp add: first_least_def)
  show "first_to_claim (nvs_view blobs c) now_us (?st (n_index c ! pos))"
    unfolding first_to_claim_def
  proof (intro conjI allI impI)
    show "nvs_view blobs c (m_id (?st (n_index c ! pos))) = Some (?st (n_index c ! pos))"
      using nvs_view_nth [OF inv p] by simp
    show "eligible now_us (?st (n_index c ! pos))"
      using L nvs_eligible [OF nvs_live [OF inv p]] by (simp add: first_least_def)
    fix mid msg assume m: "nvs_view blobs c mid = Some msg \<and> eligible now_us msg"
    obtain j where j: "j < length (n_index c)" "msg = ?st (n_index c ! j)"
      using nvs_view_entry [OF inv] m by metis
    then have "nvs_claim_eligible now_us (n_index c ! j)" using m nvs_eligible [OF nvs_live [OF inv j(1)]] by simp
    then show "claim_key (?st (n_index c ! pos)) \<le> claim_key msg" using L j by (simp add: first_least_def)
  qed
qed

lemma nvs_claim_none:
  assumes inv: "nvs_inv blobs durable c"
  shows "nvs_claim_select now_us (n_index c) = None \<longleftrightarrow> \<not> (\<exists>mid msg. nvs_view blobs c mid = Some msg \<and> eligible now_us msg)"
proof
  assume n: "nvs_claim_select now_us (n_index c) = None"
  show "\<not> (\<exists>mid msg. nvs_view blobs c mid = Some msg \<and> eligible now_us msg)"
  proof
    assume "\<exists>mid msg. nvs_view blobs c mid = Some msg \<and> eligible now_us msg"
    then obtain mid msg where m: "nvs_view blobs c mid = Some msg" "eligible now_us msg" by blast
    obtain j where j: "j < length (n_index c)" "msg = nvs_stored (blobs (n_handle c)) (n_index c ! j)"
      by (rule nvs_view_entry [OF inv m(1)])
    then show False
      using nvs_claim_least [of now_us "blobs (n_handle c)" "n_index c"] n m(2) nvs_eligible [OF nvs_live [OF inv j(1)]]
      by (simp add: first_least_def)
  qed
next
  assume n: "\<not> (\<exists>mid msg. nvs_view blobs c mid = Some msg \<and> eligible now_us msg)"
  show "nvs_claim_select now_us (n_index c) = None"
  proof (rule ccontr)
    assume "nvs_claim_select now_us (n_index c) \<noteq> None"
    then obtain pos where "nvs_claim_select now_us (n_index c) = Some pos" by blast
    from nvs_claim_first(2) [OF inv this] n show False unfolding first_to_claim_def by blast
  qed
qed

section \<open>Claiming\<close>

lemma nvs_claim_commit_ok:
  assumes laws: "nvs_laws N blobs durable" and inv: "nvs_inv blobs durable c" and pos: "pos < length (n_index c)"
    and rec: "nvs_record (n_scratch_size c) (n_index c ! pos) dest payload bs"
      "blobs (n_handle c) (slot_key (ne_slot (n_index c ! pos))) = Some bs"
    and c1: "c1 = c\<lparr>n_handle := n, n_scratch := bs @ drop (length bs) (n_scratch c)\<rparr>" "blobs n = blobs (n_handle c)"
    and h: "h = seal_hdr (entry_hdr (n_index c ! pos)) (length dest) (length payload)"
    and run: "nvs_claim_commit N c1 now_us pos h = (err, r, c')"
  defines "msg \<equiv> nvs_stored (blobs (n_handle c)) (n_index c ! pos)"
  shows "err = ESP_OK \<Longrightarrow> r = Some (claimed msg now_us) \<and> nvs_inv blobs durable c' \<and> nvs_same c c' \<and>
      nvs_view blobs c' = (nvs_view blobs c)(m_id msg \<mapsto> claimed msg now_us)"
    and "nvs_reliable N blobs \<Longrightarrow> err = ESP_OK"
    and "err \<noteq> EDGESYNC_ERR_STORAGE_CORRUPT \<and> err \<noteq> EDGESYNC_ERR_NOT_FOUND"
proof -
  let ?e = "n_index c ! pos" and ?scr = "bs @ drop (length bs) (n_scratch c)" and ?cs = "n_claim_scratch c"
  note R = nvs_record_sealed [OF rec(1)]
  note hl = R(3,4) [folded h]
  have dn: "length dest \<le> 63" "c_string dest = dest" and le: "unat (ne_destination_len ?e) = length dest" "unat (ne_payload_len ?e) = length payload"
    using rec(1) by (simp_all add: nvs_record_def)
  have msg: "msg = \<lparr>m_id = ne_id ?e, m_destination = dest, m_priority = ne_priority ?e, m_state = state_of (ne_state ?e),
      m_attempt_count = ne_attempt_count ?e, m_created_at_us = ne_created_at_us ?e,
      m_last_attempt_at_us = ne_last_attempt_at_us ?e, m_next_retry_at_us = ne_next_retry_at_us ?e,
      m_last_error = ne_last_error ?e, m_payload = payload\<rparr>"
    unfolding msg_def by (rule nvs_record_stored [OF rec(1), of "blobs (n_handle c)", OF rec(2)])
  let ?best = "?e\<lparr>ne_attempt_count := ne_attempt_count ?e + 1, ne_state := STATE_IN_FLIGHT, ne_last_attempt_at_us := now_us\<rparr>"
  let ?claim = "dest @ payload @ drop (length dest + length payload) ?cs"
  let ?c2 = "c1\<lparr>n_claim_scratch := ?claim, n_index := (n_index c1)[pos := ?best]\<rparr>"
  have room: "HDR_SIZE + (length dest + length payload) \<le> n_scratch_size c" using R(6,7) by simp
  have claim: "take (length dest + length payload) (drop HDR_SIZE (n_scratch c1)) @ drop (length dest + length payload) (n_claim_scratch c1) = ?claim"
    using R(7,8,9) by (simp add: c1(1) take_add add.commute [of "length dest" HDR_SIZE])
  have i: "n_index c1 = n_index c" "n_scratch_size c1 = n_scratch_size c" by (simp_all add: c1(1))
  have use: "nvs_use (HDR_SIZE + (length dest + length payload)) (n_scratch_size c1) c1 = c1"
    "nvs_use (length dest) EDGESYNC_MAX_DESTINATION_LEN ?c2 = ?c2"
    using room dn(1) by (simp_all add: nvs_use_def i(2))
  have bl: "unat (ne_destination_len ?best) = length dest" "unat (ne_payload_len ?best) = length payload" by (simp_all add: le)
  have parts: "take (length dest) ?claim = dest" "take (length payload) (drop (length dest) ?claim) = payload" by simp_all
  obtain e2 c2 where 2: "write_entry N ?c2 ?best dest (Elsewhere payload) = (e2, c2)" by (metis prod.exhaust)
  have res: "(err, r, c') = (if e2 \<noteq> ESP_OK then (e2, None, c2) else (ESP_OK, Some (nvs_claimed_message ?best now_us ?claim), c2))"
    unfolding run [symmetric] nvs_claim_commit_def Let_def hl use(1) claim i(1) bl parts use(2) [unfolded i(1)] 2 [unfolded i(1)] by simp
  have pb: "payload_bytes (n_scratch ?c2) dest (unat (ne_payload_len ?best)) (Elsewhere payload) = payload"
    by (simp add: payload_bytes_def)
  have pf: "\<not> payload_fault (n_scratch_size ?c2) (c_string dest) (unat (ne_payload_len ?best)) (Elsewhere payload)"
    using le(2) by (simp add: payload_fault_def)
  note W = write_record(1,2) [OF laws _ _ _ pf 2, unfolded dn(2) pb, OF dn(1) bl(1) bl(2) [symmetric]]
  have sz: "record_total_size (length dest) (length payload) \<le> n_scratch_size c"
    using rec(1) encode_common_Some(1,2) by (metis nvs_record_def)
  show "nvs_reliable N blobs \<Longrightarrow> err = ESP_OK" using W(2) sz res by (simp add: i(2))
  have "fst (write_entry N d e x p) \<noteq> EDGESYNC_ERR_STORAGE_CORRUPT \<and> fst (write_entry N d e x p) \<noteq> EDGESYNC_ERR_NOT_FOUND" for d e x p
    by (simp add: write_entry_def Let_def split: option.splits prod.splits)
  then show "err \<noteq> EDGESYNC_ERR_STORAGE_CORRUPT \<and> err \<noteq> EDGESYNC_ERR_NOT_FOUND"
    using res 2 by (metis fst_conv zero_neq_numeral)
  show "r = Some (claimed msg now_us) \<and> nvs_inv blobs durable c' \<and> nvs_same c c' \<and>
      nvs_view blobs c' = (nvs_view blobs c)(m_id msg \<mapsto> claimed msg now_us)" if "err = ESP_OK"
  proof -
    have e2: "e2 = ESP_OK" and rc: "r = Some (nvs_claimed_message ?best now_us ?claim)" "c' = c2"
      using res that by (auto split: if_splits)
    obtain n' bs' where b: "nvs_record (n_scratch_size c) ?best dest payload bs'"
      "c2 = ?c2\<lparr>n_handle := n', n_scratch := bs' @ drop (length bs') ?scr\<rparr>"
      "blobs n' = (blobs (n_handle c))(slot_key (ne_slot ?e) \<mapsto> bs')" "durable n' = blobs n'"
      using W(1) [OF e2] c1(2) by (auto simp: c1(1))
    have st: "nvs_stored (blobs n') ?best = claimed msg now_us"
      using nvs_record_stored [OF b(1), of "blobs n'"] by (simp add: b(3) msg claimed_def state_of_def)
    have same: "nvs_same c c2"
      using nvs_record_sealed(6) [OF b(1)] R(6) room nvs_invD(11,12) [OF inv] by (simp add: nvs_same_def b(2) c1(1))
    have "nvs_inv blobs durable c2" "nvs_view blobs c2 = (nvs_view blobs c)(ne_id ?best \<mapsto> nvs_stored (blobs (n_handle c2)) ?best)"
      using rewrite_entry [OF inv pos _ _ _ b(1) same] b(3,4) by (simp_all add: b(2) c1(1) live_state_def)
    moreover have "nvs_claimed_message ?best now_us ?claim = claimed msg now_us"
      by (simp add: nvs_claimed_message_def claimed_def msg le dn(2))
    ultimately show ?thesis using rc same st by (simp add: b(2) msg_def)
  qed
qed

lemma nvs_claim:
  assumes laws: "nvs_laws N blobs durable" and inv: "nvs_inv blobs durable c"
    and run: "nvs_op_claim_next N c now_us = (err, r, c')"
  shows "err \<noteq> EDGESYNC_ERR_STORAGE_CORRUPT \<and>
    (err = ESP_OK \<longrightarrow> (\<exists>msg. first_to_claim (nvs_view blobs c) now_us msg \<and> r = Some (claimed msg now_us) \<and>
      nvs_inv blobs durable c' \<and> nvs_same c c' \<and> nvs_view blobs c' = (nvs_view blobs c)(m_id msg \<mapsto> claimed msg now_us))) \<and>
    (err = EDGESYNC_ERR_NOT_FOUND \<longrightarrow> r = None \<and> nvs_inv blobs durable c' \<and> nvs_same c c' \<and> nvs_view blobs c' = nvs_view blobs c) \<and>
    (nvs_reliable N blobs \<longrightarrow> err =
      (if \<exists>mid msg. nvs_view blobs c mid = Some msg \<and> eligible now_us msg then ESP_OK else EDGESYNC_ERR_NOT_FOUND))"
proof (cases "nvs_claim_select now_us (n_index c)")
  case None
  then show ?thesis using run nvs_claim_none [OF inv, of now_us] inv by (auto simp: nvs_op_claim_next_def nvs_same_def)
next
  case (Some pos)
  note F = nvs_claim_first [OF inv Some]
  let ?e = "n_index c ! pos"
  have el: "\<exists>mid msg. nvs_view blobs c mid = Some msg \<and> eligible now_us msg"
    using F(2) unfolding first_to_claim_def by blast
  obtain dest payload bs where rec: "blobs (n_handle c) (slot_key (ne_slot ?e)) = Some bs"
    "nvs_record (n_scratch_size c) ?e dest payload bs"
    by (rule entry_record [OF inv F(1)])
  obtain e1 hdr c1 where 1: "read_and_verify N c (ne_slot ?e) = (e1, hdr, c1)" by (metis prod.exhaust)
  obtain scr n where L: "c1 = c\<lparr>n_handle := n, n_scratch := scr\<rparr>" "blobs n = blobs (n_handle c)"
    "durable n = durable (n_handle c)" "e1 \<noteq> EDGESYNC_ERR_STORAGE_CORRUPT" "hdr = None \<longleftrightarrow> e1 \<noteq> ESP_OK"
    "e1 = ESP_OK \<Longrightarrow> hdr = Some (seal_hdr (entry_hdr ?e) (length dest) (length payload)) \<and>
       scr = bs @ drop (length bs) (n_scratch c)"
    "e1 \<noteq> ESP_OK \<Longrightarrow> scr = n_scratch c" "nvs_reliable N blobs \<Longrightarrow> e1 = ESP_OK"
    by (rule read_record [OF laws rec(2,1) 1]) blast
  show ?thesis
  proof (cases "e1 = ESP_OK")
    case False
    then have h: "hdr = None" using L(5) by simp
    have same: "nvs_same c c1" using L(7) [OF False] by (simp add: L(1) nvs_same_def)
    have "err = e1" "r = None" "c' = c1" using run L(4) h by (simp_all add: nvs_op_claim_next_def Some 1)
    then show ?thesis using False L(4,8) same_blobs [OF inv same] L(2,3) same by (auto simp: L(1))
  next
    case True
    have "nvs_claim_commit N c1 now_us pos (seal_hdr (entry_hdr ?e) (length dest) (length payload)) = (err, r, c')"
      using run L(6) [OF True] True by (simp add: nvs_op_claim_next_def Some 1)
    note C = nvs_claim_commit_ok [OF laws inv F(1) rec(2,1) L(1) [unfolded L(6) [OF True, THEN conjunct2]] L(2) refl this]
    show ?thesis using C F(2) el by auto
  qed
qed

section \<open>Dropping\<close>

lemma nvs_drop:
  assumes inv: "nvs_inv blobs durable c"
  shows "nvs_op_find_drop_candidate c policy = (ESP_OK, dropped) \<Longrightarrow>
      \<exists>msg. first_to_drop (nvs_view blobs c) policy msg \<and> dropped = Some (m_id msg)"
    and "nvs_op_find_drop_candidate c policy = (err, dropped) \<Longrightarrow> err \<noteq> ESP_OK \<Longrightarrow>
      \<forall>mid msg. nvs_view blobs c mid = Some msg \<longrightarrow> m_state msg \<noteq> MSG_PENDING"
proof -
  let ?st = "nvs_stored (blobs (n_handle c))"
  let ?sel = "select_loop nvs_drop_eligible (nvs_drop_better policy) (n_index c) [0..<length (n_index c)] None"
  have L: "first_least nvs_drop_eligible (\<lambda>e. drop_key policy (?st e)) (n_index c) (length (n_index c)) ?sel"
    by (rule select_loop_correct) (rule nvs_drop_better_key)
  have live: "m_state (?st (n_index c ! j)) = MSG_PENDING \<longleftrightarrow> nvs_drop_eligible (n_index c ! j)" if "j < length (n_index c)" for j
    using nvs_state_pending [OF nvs_live [OF inv that]] by (simp add: nvs_drop_eligible_def)
  show "\<exists>msg. first_to_drop (nvs_view blobs c) policy msg \<and> dropped = Some (m_id msg)"
    if run: "nvs_op_find_drop_candidate c policy = (ESP_OK, dropped)"
  proof -
    obtain pos where sel: "?sel = Some pos" using run by (cases ?sel) (auto simp: nvs_op_find_drop_candidate_def)
    have p: "pos < length (n_index c)" "nvs_drop_eligible (n_index c ! pos)" using L by (simp_all add: sel first_least_def)
    have "first_to_drop (nvs_view blobs c) policy (?st (n_index c ! pos))"
      unfolding first_to_drop_def
    proof (intro conjI allI impI)
      show "nvs_view blobs c (m_id (?st (n_index c ! pos))) = Some (?st (n_index c ! pos))"
        using nvs_view_nth [OF inv p(1)] by simp
      show "m_state (?st (n_index c ! pos)) = MSG_PENDING" using p live by simp
      fix mid msg assume m: "nvs_view blobs c mid = Some msg \<and> m_state msg = MSG_PENDING"
      obtain j where j: "j < length (n_index c)" "msg = ?st (n_index c ! j)" using nvs_view_entry [OF inv] m by metis
      then show "drop_key policy (?st (n_index c ! pos)) \<le> drop_key policy msg"
        using L m live by (simp add: sel first_least_def)
    qed
    then show ?thesis using run sel by (intro exI [of _ "?st (n_index c ! pos)"]) (simp add: nvs_op_find_drop_candidate_def)
  qed
  show "\<forall>mid msg. nvs_view blobs c mid = Some msg \<longrightarrow> m_state msg \<noteq> MSG_PENDING"
    if run: "nvs_op_find_drop_candidate c policy = (err, dropped)" and err: "err \<noteq> ESP_OK"
  proof (intro allI impI notI)
    fix mid msg assume m: "nvs_view blobs c mid = Some msg" "m_state msg = MSG_PENDING"
    obtain j where j: "j < length (n_index c)" "msg = ?st (n_index c ! j)" by (rule nvs_view_entry [OF inv m(1)])
    have "?sel = None" using run err by (auto simp: nvs_op_find_drop_candidate_def split: option.splits)
    then show False using L j m(2) live by (simp add: first_least_def)
  qed
qed

section \<open>Confirming, removing, rescheduling\<close>

lemma nvs_delivered:
  assumes laws: "nvs_laws N blobs durable" and inv: "nvs_inv blobs durable c"
    and run: "nvs_op_mark_delivered N c mid = (err, c')"
  shows "err = ESP_OK \<Longrightarrow> nvs_inv blobs durable c' \<and> nvs_same c c' \<and> mid \<in> dom (nvs_view blobs c) \<and>
      nvs_view blobs c' = (nvs_view blobs c)(mid := None)"
    and "mid \<notin> dom (nvs_view blobs c) \<Longrightarrow> err = EDGESYNC_ERR_NOT_FOUND \<and> c' = c"
    and "nvs_reliable N blobs \<Longrightarrow> mid \<in> dom (nvs_view blobs c) \<Longrightarrow> err = ESP_OK"
proof -
  show "err = EDGESYNC_ERR_NOT_FOUND \<and> c' = c" if "mid \<notin> dom (nvs_view blobs c)"
    using that run by (simp add: nvs_op_mark_delivered_def flip: nvs_find_None)
  have "(err = ESP_OK \<longrightarrow> nvs_inv blobs durable c' \<and> nvs_same c c' \<and> mid \<in> dom (nvs_view blobs c) \<and>
      nvs_view blobs c' = (nvs_view blobs c)(mid := None)) \<and> (nvs_reliable N blobs \<longrightarrow> err = ESP_OK)"
    if "mid \<in> dom (nvs_view blobs c)"
  proof -
    have "nvs_find_entry c mid \<noteq> None" unfolding nvs_find_None [of c mid blobs] using that by simp
    then obtain pos where f: "nvs_find_entry c mid = Some pos" by blast
    note P = nvs_find [OF inv f]
    let ?e = "n_index c ! pos"
    obtain ok1 n1 where 1: "nv_erase_key N (n_handle c) (slot_key (ne_slot ?e)) = (ok1, n1)" by (metis prod.exhaust)
    obtain ok2 n2 where 2: "nv_commit N n1 = (ok2, n2)" by (metis prod.exhaust)
    note L1 = nvs_erase_key [OF laws 1] and L2 = nvs_commit [OF laws 2]
    have "blobs (n_handle c) (slot_key (ne_slot ?e)) \<noteq> None"
      using entry_record [OF inv P(1)] by (metis option.distinct(1))
    then have rel: "nvs_reliable N blobs \<longrightarrow> ok1 \<and> ok2" unfolding nvs_reliable_def using 1 2 by (metis fst_conv)
    have r: "err = ESP_OK \<longleftrightarrow> ok1 \<and> ok2" "err = ESP_OK \<longrightarrow> c' = nvs_remove_entry_at (c\<lparr>n_handle := n2\<rparr>) pos"
      using run by (auto simp: nvs_op_mark_delivered_def f 1 2 Let_def split: if_splits)
    have "nvs_inv blobs durable c' \<and> nvs_view blobs c' = (nvs_view blobs c)(mid := None) \<and> nvs_same c c'" if ok: "err = ESP_OK"
    proof -
      have "blobs n2 = (blobs (n_handle c))(slot_key (ne_slot ?e) := None)" "durable n2 = blobs n2"
        using ok r(1) L1(1) L2 by simp_all
      from remove_entry [OF inv P(1) this] show ?thesis
        using ok r(2) P(2) by (simp add: nvs_same_def nvs_remove_entry_at_def)
    qed
    then show ?thesis using that r(1) rel by blast
  qed
  then show "err = ESP_OK \<Longrightarrow> nvs_inv blobs durable c' \<and> nvs_same c c' \<and> mid \<in> dom (nvs_view blobs c) \<and>
      nvs_view blobs c' = (nvs_view blobs c)(mid := None)"
    and "nvs_reliable N blobs \<Longrightarrow> mid \<in> dom (nvs_view blobs c) \<Longrightarrow> err = ESP_OK"
    using \<open>mid \<notin> dom (nvs_view blobs c) \<Longrightarrow> err = EDGESYNC_ERR_NOT_FOUND \<and> c' = c\<close> by fastforce+
qed

text \<open>
  Rewriting the record of an entry after reading it back: the common part of \<open>schedule_retry\<close>
  and of the requeuing in \<open>recover\<close>.  The payload that is written is zeros.
\<close>

lemma rewrite_in_place:
  assumes laws: "nvs_laws N blobs durable" and inv: "nvs_inv blobs durable c" and pos: "pos < length (n_index c)"
    and rd: "read_and_verify N c (ne_slot (n_index c ! pos)) = (e1, hdr, c1)"
  defines "e \<equiv> n_index c ! pos"
  assumes f: "ne_id (g e) = ne_id e" "ne_slot (g e) = ne_slot e" "ne_destination_len (g e) = ne_destination_len e"
      "ne_payload_len (g e) = ne_payload_len e" "live_state (ne_state (g e))"
  shows "hdr = None \<longleftrightarrow> e1 \<noteq> ESP_OK" "nvs_reliable N blobs \<Longrightarrow> e1 = ESP_OK"
    and "hdr = Some h \<Longrightarrow> body_in_scratch c1 h = (d, p, c2) \<Longrightarrow>
      write_entry N (c2\<lparr>n_index := (n_index c2)[pos := g e]\<rparr>) (g e) d p = (err, c') \<Longrightarrow>
      (err = ESP_OK \<longrightarrow> nvs_inv blobs durable c' \<and> nvs_same c c' \<and> n_index c' = (n_index c)[pos := g e] \<and>
        nvs_view blobs c' = (nvs_view blobs c)(ne_id e \<mapsto>
          (nvs_stored (blobs (n_handle c')) (g e))\<lparr>m_destination := m_destination (nvs_stored (blobs (n_handle c)) e),
            m_payload := replicate (length (m_payload (nvs_stored (blobs (n_handle c)) e))) 0\<rparr>)) \<and>
      (nvs_reliable N blobs \<longrightarrow> err = ESP_OK)"
proof -
  obtain dest payload bs where rec: "live_state (ne_state e)" "blobs (n_handle c) (slot_key (ne_slot e)) = Some bs"
    "nvs_record (n_scratch_size c) e dest payload bs"
    "m_destination (nvs_stored (blobs (n_handle c)) e) = dest" "m_payload (nvs_stored (blobs (n_handle c)) e) = payload"
    unfolding e_def by (rule entry_record [OF inv pos])
  note R = nvs_record_sealed [OF rec(3)]
  obtain n scr where L: "c1 = c\<lparr>n_handle := n, n_scratch := scr\<rparr>" "blobs n = blobs (n_handle c)"
    "durable n = durable (n_handle c)" "hdr = None \<longleftrightarrow> e1 \<noteq> ESP_OK"
    "e1 = ESP_OK \<Longrightarrow> hdr = Some (seal_hdr (entry_hdr e) (length dest) (length payload)) \<and>
       scr = bs @ drop (length bs) (n_scratch c)" "nvs_reliable N blobs \<Longrightarrow> e1 = ESP_OK"
    by (rule read_record [OF laws rec(3,2) rd [folded e_def]]) blast
  show "hdr = None \<longleftrightarrow> e1 \<noteq> ESP_OK" "nvs_reliable N blobs \<Longrightarrow> e1 = ESP_OK" by (fact L(4,6))+
  assume h: "hdr = Some h" and bis: "body_in_scratch c1 h = (d, p, c2)"
    and wr: "write_entry N (c2\<lparr>n_index := (n_index c2)[pos := g e]\<rparr>) (g e) d p = (err, c')"
  have ok: "e1 = ESP_OK" using L(4) h by auto
  have scr: "scr = bs @ drop (length bs) (n_scratch c)" and hh: "h = seal_hdr (entry_hdr e) (length dest) (length payload)"
    using L(5) [OF ok] h by simp_all
  have dn: "length dest \<le> 63" "c_string dest = dest" and le: "unat (ne_destination_len e) = length dest" "unat (ne_payload_len e) = length payload"
    using rec(3) by (simp_all add: nvs_record_def)
  have "take (length dest) (drop HDR_SIZE scr) = dest" using R(7,8) by (simp add: scr)
  then have b: "d = dest" "p = In_scratch (HDR_SIZE + length dest)" "c2 = c1"
    using bis dn(1) R(3) by (auto simp: body_in_scratch_def hh nvs_use_def L(1))
  let ?c2 = "c1\<lparr>n_index := (n_index c)[pos := g e]\<rparr>" and ?zeros = "replicate (length payload) (0 :: byte)"
  have wr': "write_entry N ?c2 (g e) dest (In_scratch (HDR_SIZE + length dest)) = (err, c')"
    using wr by (simp add: b L(1))
  have pb: "payload_bytes (n_scratch ?c2) dest (unat (ne_payload_len (g e))) (In_scratch (HDR_SIZE + length dest)) = ?zeros"
    unfolding f(4) le(2) by (rule payload_in_scratch)
  have pf: "\<not> payload_fault (n_scratch_size ?c2) (c_string dest) (unat (ne_payload_len (g e))) (In_scratch (HDR_SIZE + length dest))"
    using R(6,7) by (simp add: payload_fault_def dn(2) f(4) le(2) L(1))
  have zl: "length ?zeros = unat (ne_payload_len (g e))" by (simp add: f(4) le(2))
  have dl: "unat (ne_destination_len (g e)) = length dest" by (simp add: f(3) le(1))
  note W = write_record(1,2) [OF laws _ _ _ pf wr', unfolded dn(2) pb, OF dn(1) dl zl]
  have sz: "record_total_size (length dest) (length payload) \<le> n_scratch_size c"
    using rec(3) encode_common_Some(1,2) by (metis nvs_record_def)
  have "nvs_inv blobs durable c' \<and> nvs_same c c' \<and> n_index c' = (n_index c)[pos := g e] \<and>
      nvs_view blobs c' = (nvs_view blobs c)(ne_id e \<mapsto> (nvs_stored (blobs (n_handle c')) (g e))
        \<lparr>m_destination := dest, m_payload := ?zeros\<rparr>)" if e: "err = ESP_OK"
  proof -
    obtain n' bs' where w: "nvs_record (n_scratch_size c) (g e) dest ?zeros bs'"
      "c' = ?c2\<lparr>n_handle := n', n_scratch := bs' @ drop (length bs') scr\<rparr>"
      "blobs n' = (blobs (n_handle c))(slot_key (ne_slot (g e)) \<mapsto> bs')" "durable n' = blobs n'"
      using W(1) [OF e] L(2) by (auto simp: L(1))
    have same: "nvs_same c c'"
      using nvs_record_sealed(6) [OF w(1)] R(6) nvs_invD(11) [OF inv] by (simp add: nvs_same_def w(2) L(1) scr)
    have E: "nvs_inv blobs durable c'" "nvs_view blobs c' = (nvs_view blobs c)(ne_id (g e) \<mapsto> nvs_stored (blobs (n_handle c')) (g e))"
      using rewrite_entry [OF inv pos _ _ f(5) w(1) same] f(1,2) w(3,4) by (simp_all add: w(2) L(1) e_def)
    have "blobs n' (slot_key (ne_slot (g e))) = Some bs'" by (simp add: w(3))
    note nvs_record_stored [OF w(1), of "blobs n'", OF this]
    then
    have "(nvs_stored (blobs n') (g e))\<lparr>m_destination := dest, m_payload := ?zeros\<rparr> = nvs_stored (blobs n') (g e)" by simp
    then show ?thesis using E same f(1) by (simp add: w(2) L(1))
  qed
  then show "(err = ESP_OK \<longrightarrow> nvs_inv blobs durable c' \<and> nvs_same c c' \<and> n_index c' = (n_index c)[pos := g e] \<and>
        nvs_view blobs c' = (nvs_view blobs c)(ne_id e \<mapsto>
          (nvs_stored (blobs (n_handle c')) (g e))\<lparr>m_destination := m_destination (nvs_stored (blobs (n_handle c)) e),
            m_payload := replicate (length (m_payload (nvs_stored (blobs (n_handle c)) e))) 0\<rparr>)) \<and>
      (nvs_reliable N blobs \<longrightarrow> err = ESP_OK)"
    using W(2) sz by (simp add: rec(4,5) L(1))
qed

end
