(* ===== verification/Nvs_Recovery.thy ===== *)
theory Nvs_Recovery
  imports Nvs_Claim
begin

text \<open>
  Rescheduling and recovery of the NVS backend.  Both rewrite records in place, and both write
  zeros for the payload.
\<close>

section \<open>Rescheduling\<close>

lemma nvs_retry:
  assumes laws: "nvs_laws N blobs durable" and inv: "nvs_inv blobs durable c"
    and run: "nvs_op_schedule_retry N c mid next_us dead er = (err, c')"
  shows "err = ESP_OK \<Longrightarrow> nvs_inv blobs durable c' \<and> nvs_same c c' \<and> mid \<in> dom (nvs_view blobs c) \<and>
      nvs_view blobs c' = (nvs_view blobs c)(mid \<mapsto> retried (zeroed (the (nvs_view blobs c mid))) next_us dead er)"
    and "mid \<notin> dom (nvs_view blobs c) \<Longrightarrow> err = EDGESYNC_ERR_NOT_FOUND \<and> c' = c"
    and "nvs_reliable N blobs \<Longrightarrow> mid \<in> dom (nvs_view blobs c) \<Longrightarrow> err = ESP_OK"
proof -
  show no: "err = EDGESYNC_ERR_NOT_FOUND \<and> c' = c" if "mid \<notin> dom (nvs_view blobs c)"
    using that run by (simp add: nvs_op_schedule_retry_def flip: nvs_find_None)
  have "(err = ESP_OK \<longrightarrow> nvs_inv blobs durable c' \<and> nvs_same c c' \<and> nvs_view blobs c' =
      (nvs_view blobs c)(mid \<mapsto> retried (zeroed (the (nvs_view blobs c mid))) next_us dead er)) \<and>
      (nvs_reliable N blobs \<longrightarrow> err = ESP_OK)" if "mid \<in> dom (nvs_view blobs c)"
  proof -
    have "nvs_find_entry c mid \<noteq> None" unfolding nvs_find_None [of c mid blobs] using that by simp
    then obtain pos where f: "nvs_find_entry c mid = Some pos" by blast
    note P = nvs_find [OF inv f]
    let ?e = "n_index c ! pos"
    let ?g = "\<lambda>e. e\<lparr>ne_state := (if dead then STATE_DEAD_LETTER else STATE_PENDING),
        ne_next_retry_at_us := (if dead then 0 else next_us), ne_last_error := er\<rparr>"
    obtain e1 hdr c1 where 1: "read_and_verify N c (ne_slot ?e) = (e1, hdr, c1)" by (metis prod.exhaust)
    have g: "ne_id (?g ?e) = ne_id ?e" "ne_slot (?g ?e) = ne_slot ?e" "ne_destination_len (?g ?e) = ne_destination_len ?e"
      "ne_payload_len (?g ?e) = ne_payload_len ?e" "live_state (ne_state (?g ?e))"
      by (simp_all add: live_state_def)
    note W = rewrite_in_place [where g = ?g, OF laws inv P(1) 1 g]
    show ?thesis
    proof (cases hdr)
      case None
      then show ?thesis using run W(1,2) by (auto simp: nvs_op_schedule_retry_def f 1)
    next
      case (Some h)
      obtain d p c2 where 2: "body_in_scratch c1 h = (d, p, c2)" by (metis prod.exhaust)
      have idx: "n_index c1 = n_index c" "n_index c2 = n_index c"
        using 1 2 by (auto simp: read_and_verify_def body_in_scratch_def nvs_use_def Let_def split: prod.splits option.splits if_splits)
      have wr: "write_entry N (c2\<lparr>n_index := (n_index c2)[pos := ?g ?e]\<rparr>) (?g ?e) d p = (err, c')"
        using run by (simp add: nvs_op_schedule_retry_def f 1 Some 2 Let_def idx)
      have m: "the (nvs_view blobs c mid) = nvs_stored (blobs (n_handle c)) ?e" using P(3) by simp
      have "(nvs_stored b (?g ?e))\<lparr>m_destination := m_destination (nvs_stored b' ?e),
            m_payload := replicate (length (m_payload (nvs_stored b' ?e))) 0\<rparr> =
          retried (zeroed (nvs_stored b' ?e)) next_us dead er" for b b'
        by (simp add: nvs_stored_def Let_def retried_def zeroed_def state_of_def)
      then show ?thesis using W(3) [OF Some 2 wr] P(2) m by simp
    qed
  qed
  then show "err = ESP_OK \<Longrightarrow> nvs_inv blobs durable c' \<and> nvs_same c c' \<and> mid \<in> dom (nvs_view blobs c) \<and>
      nvs_view blobs c' = (nvs_view blobs c)(mid \<mapsto> retried (zeroed (the (nvs_view blobs c mid))) next_us dead er)"
    and "nvs_reliable N blobs \<Longrightarrow> mid \<in> dom (nvs_view blobs c) \<Longrightarrow> err = ESP_OK"
    using no by fastforce+
qed

section \<open>Requeuing\<close>

lemma nvs_requeue_loop_ok:
  assumes laws: "nvs_laws N blobs durable" and rel: "nvs_reliable N blobs"
  shows "nvs_inv blobs durable c \<Longrightarrow> distinct js \<Longrightarrow> \<forall>j\<in>set js. j < length (n_index c) \<Longrightarrow>
    \<exists>c'. nvs_requeue_loop N js c = (ESP_OK, c') \<and> nvs_inv blobs durable c' \<and> nvs_same c c' \<and>
      nvs_view blobs c' = (\<lambda>mid. if mid \<in> (\<lambda>j. ne_id (n_index c ! j)) ` set js
        then map_option (requeued_with zeroed) (nvs_view blobs c mid) else nvs_view blobs c mid)"
proof (induction js arbitrary: c)
  case Nil
  then show ?case by (simp add: nvs_same_def)
next
  case (Cons i js)
  let ?e = "n_index c ! i"
  have i: "i < length (n_index c)" using Cons.prems by simp
  note inv = Cons.prems(1)
  let ?msg = "nvs_stored (blobs (n_handle c)) ?e"
  have vi: "nvs_view blobs c (ne_id ?e) = Some ?msg" by (rule nvs_view_nth [OF inv i])
  have fl: "m_state ?msg = MSG_IN_FLIGHT \<longleftrightarrow> ne_state ?e = STATE_IN_FLIGHT"
    using nvs_live [OF inv i] by (auto simp: live_state_def state_of_def)
  show ?case
  proof (cases "ne_state ?e = STATE_IN_FLIGHT")
    case False
    have "map_option (requeued_with zeroed) (nvs_view blobs c (ne_id ?e)) = nvs_view blobs c (ne_id ?e)"
      using fl False by (simp add: vi requeued_with_def)
    then show ?thesis using Cons.IH [OF inv] Cons.prems False by (auto simp: fun_eq_iff)
  next
    case True
    let ?g = "\<lambda>e. e\<lparr>ne_state := STATE_PENDING, ne_next_retry_at_us := 0\<rparr>"
    obtain e1 hdr c1 where 1: "read_and_verify N c (ne_slot ?e) = (e1, hdr, c1)" by (metis prod.exhaust)
    have g: "ne_id (?g ?e) = ne_id ?e" "ne_slot (?g ?e) = ne_slot ?e" "ne_destination_len (?g ?e) = ne_destination_len ?e"
      "ne_payload_len (?g ?e) = ne_payload_len ?e" "live_state (ne_state (?g ?e))"
      by (simp_all add: live_state_def)
    note W = rewrite_in_place [where g = ?g, OF laws inv i 1 g]
    obtain h where h: "hdr = Some h" using W(1,2) rel by auto
    obtain d p c2 where 2: "body_in_scratch c1 h = (d, p, c2)" by (metis prod.exhaust)
    have idx: "n_index c1 = n_index c" "n_index c2 = n_index c"
      using 1 2 by (auto simp: read_and_verify_def body_in_scratch_def nvs_use_def Let_def split: prod.splits option.splits if_splits)
    obtain e3 c3 where wr: "write_entry N (c2\<lparr>n_index := (n_index c2)[i := ?g ?e]\<rparr>) (?g ?e) d p = (e3, c3)" by (metis prod.exhaust)
    have e3: "e3 = ESP_OK" using W(3) [OF h 2 wr] rel by blast
    have S: "nvs_inv blobs durable c3" "nvs_same c c3" "n_index c3 = (n_index c)[i := ?g ?e]"
      using W(3) [OF h 2 wr] e3 by blast+
    have v3: "nvs_view blobs c3 = (nvs_view blobs c)(ne_id ?e \<mapsto> requeued_with zeroed ?msg)"
      using W(3) [OF h 2 wr] e3 fl True
      by (simp add: nvs_stored_def Let_def requeued_with_def requeued_def zeroed_def state_of_def)
    have ids: "ne_id (n_index c3 ! j) = ne_id (n_index c ! j)" if "j < length (n_index c)" for j
      using that i by (cases "j = i") (simp_all add: S(3))
    have ne: "ne_id ?e \<noteq> ne_id (n_index c ! j)" if "j \<in> set js" for j
    proof -
      have "j < length (n_index c)" "j \<noteq> i" using that Cons.prems(2,3) by auto
      then show ?thesis using nvs_invD(4) [OF inv] i by (metis distinct_conv_nth length_map nth_map)
    qed
    have step: "nvs_requeue_loop N (i # js) c = nvs_requeue_loop N js c3"
      using wr e3 by (simp add: True 1 h 2 idx Let_def)
    obtain c' where c': "nvs_requeue_loop N js c3 = (ESP_OK, c')" "nvs_inv blobs durable c'" "nvs_same c3 c'"
      "nvs_view blobs c' = (\<lambda>mid. if mid \<in> (\<lambda>j. ne_id (n_index c3 ! j)) ` set js
        then map_option (requeued_with zeroed) (nvs_view blobs c3 mid) else nvs_view blobs c3 mid)"
      using Cons.IH [OF S(1)] Cons.prems(2,3) by (auto simp: S(3))
    have im: "(\<lambda>j. ne_id (n_index c3 ! j)) ` set js = (\<lambda>j. ne_id (n_index c ! j)) ` set js"
      using ids Cons.prems(3) by (intro image_cong) auto
    have "nvs_same c c'" using S(2) c'(3) by (simp add: nvs_same_def)
    moreover have "nvs_view blobs c' = (\<lambda>mid. if mid \<in> (\<lambda>j. ne_id (n_index c ! j)) ` set (i # js)
        then map_option (requeued_with zeroed) (nvs_view blobs c mid) else nvs_view blobs c mid)"
      unfolding c'(4) im v3 using ne vi by (auto simp: fun_eq_iff)
    ultimately show ?thesis using step c'(1,2) by simp
  qed
qed

section \<open>Scanning\<close>

text \<open>A context that is being rebuilt from the slots of \<open>c\<close>: what the slots hold and the sizes.\<close>

definition nvs_rebuilds :: "('n \<Rightarrow> blob_map) \<Rightarrow> ('n \<Rightarrow> blob_map) \<Rightarrow> 'n nvs_ctx \<Rightarrow> 'n nvs_ctx \<Rightarrow> bool" where
  "nvs_rebuilds blobs durable c d \<longleftrightarrow> n_max_messages d = n_max_messages c \<and> n_index_capacity d = n_index_capacity c \<and>
     n_scratch_size d = n_scratch_size c \<and> length (n_scratch d) = n_scratch_size c \<and>
     length (n_claim_scratch d) = n_scratch_size c \<and> \<not> n_fault d \<and> length (n_slot_used d) = n_max_messages c \<and>
     (\<forall>s<n_max_messages c. blobs (n_handle d) (slot_key s) = blobs (n_handle c) (slot_key s) \<and>
        durable (n_handle d) (slot_key s) = blobs (n_handle c) (slot_key s)) \<and>
     distinct (n_index d) \<and> set (n_index d) \<subseteq> set (n_index c) \<and>
     (\<forall>s<n_max_messages c. n_slot_used d ! s \<longleftrightarrow> s \<in> ne_slot ` set (n_index d))"

lemma nvs_scan_loop_ok:
  assumes laws: "nvs_laws N blobs durable" and rel: "nvs_reliable N blobs" and inv: "nvs_inv blobs durable c"
  shows "nvs_rebuilds blobs durable c d \<Longrightarrow> distinct slots \<Longrightarrow> \<forall>s\<in>set slots. s < n_max_messages c \<Longrightarrow>
    \<forall>e\<in>set (n_index d). ne_slot e \<notin> set slots \<Longrightarrow>
    \<exists>d'. nvs_scan_loop N slots d = (ESP_OK, d') \<and> nvs_rebuilds blobs durable c d' \<and>
      set (n_index d') = set (n_index d) \<union> {e \<in> set (n_index c). ne_slot e \<in> set slots}"
proof (induction slots arbitrary: d)
  case Nil
  then show ?case by simp
next
  case (Cons s slots)
  note rb = Cons.prems(1) [unfolded nvs_rebuilds_def]
  have s: "s < n_max_messages c" "s \<notin> set slots" using Cons.prems by simp_all
  obtain e1 hdr d1 where 1: "read_and_verify N d s = (e1, hdr, d1)" by (metis prod.exhaust)
  show ?case
  proof (cases "s \<in> ne_slot ` set (n_index c)")
    case False
    have "blobs (n_handle c) (slot_key s) = None" using inv False s(1) by (auto simp: nvs_inv_def)
    then have "blobs (n_handle d) (slot_key s) = None" using rb s(1) by simp
    then obtain n where L: "d1 = d\<lparr>n_handle := n\<rparr>" "blobs n = blobs (n_handle d)" "durable n = durable (n_handle d)"
      "e1 = EDGESYNC_ERR_NOT_FOUND"
      by (rule read_missing [OF laws _ 1])
    have "nvs_rebuilds blobs durable c d1" using rb L by (simp add: nvs_rebuilds_def)
    moreover have "{e \<in> set (n_index c). ne_slot e \<in> set (s # slots)} = {e \<in> set (n_index c). ne_slot e \<in> set slots}"
      using False by auto
    ultimately show ?thesis using Cons.IH [of d1] Cons.prems(2-4) L by (auto simp: 1)
  next
    case True
    then obtain e where e: "e \<in> set (n_index c)" "ne_slot e = s" by blast
    have "nvs_holds (blobs (n_handle c)) (n_scratch_size c) e" by (rule nvs_invD(8) [OF inv e(1)])
    then obtain dest payload bs where rec: "blobs (n_handle d) (slot_key s) = Some bs"
      "nvs_record (n_scratch_size d) e dest payload bs"
      using rb s(1) e(2) by (auto simp: nvs_holds_def)
    obtain scr n where L: "d1 = d\<lparr>n_handle := n, n_scratch := scr\<rparr>" "blobs n = blobs (n_handle d)"
      "durable n = durable (n_handle d)" "hdr = Some (seal_hdr (entry_hdr e) (length dest) (length payload))"
      "scr = bs @ drop (length bs) (n_scratch d)" "e1 = ESP_OK"
      by (rule read_record [OF laws rec(2,1) 1]) (use rel in blast)
    have eh: "nvs_entry_of_hdr (seal_hdr (entry_hdr e) (length dest) (length payload)) s = e"
      using nvs_record_sealed(5) [OF rec(2)] e(2) by simp
    have new: "e \<notin> set (n_index d)" using Cons.prems(4) e(2) by auto
    have "card (set (n_index d)) < card (set (n_index c))"
      using rb new e(1) by (intro psubset_card_mono) auto
    then have room: "\<not> n_index_capacity d1 \<le> length (n_index d1)"
      using rb distinct_card [of "n_index d"] card_length [of "n_index c"] nvs_index_bound [OF inv] by (simp add: L(1))
    let ?d2 = "d1\<lparr>n_index := n_index d1 @ [e], n_slot_used := (n_slot_used d1)[s := True]\<rparr>"
    have "length scr = n_scratch_size c" using nvs_record_sealed(6) [OF rec(2)] rb by (simp add: L(5))
    then have r2: "nvs_rebuilds blobs durable c ?d2"
      using rb new e s(1) L(2,3) by (auto simp: nvs_rebuilds_def L(1) nth_list_update)
    have "\<forall>x\<in>set (n_index ?d2). ne_slot x \<notin> set slots" using Cons.prems(4) e(2) s(2) by (auto simp: L(1))
    from Cons.IH [OF r2 _ _ this] obtain d' where d': "nvs_scan_loop N slots ?d2 = (ESP_OK, d')" "nvs_rebuilds blobs durable c d'"
      "set (n_index d') = set (n_index ?d2) \<union> {x \<in> set (n_index c). ne_slot x \<in> set slots}"
      using Cons.prems(2,3) by auto
    have only: "x = e" if "x \<in> set (n_index c)" "ne_slot x = s" for x
      using distinct_map_inj [OF nvs_invD(5) [OF inv] that(1) e(1)] that(2) e(2) by simp
    have "{x \<in> set (n_index c). ne_slot x \<in> set (s # slots)} =
        {x \<in> set (n_index c). ne_slot x = s} \<union> {x \<in> set (n_index c). ne_slot x \<in> set slots}" by auto
    also have "{x \<in> set (n_index c). ne_slot x = s} = {e}" using only e by blast
    finally have "set (n_index d') = set (n_index d) \<union> {x \<in> set (n_index c). ne_slot x \<in> set (s # slots)}"
      unfolding d'(3) by (simp add: L(1))
    moreover have "nvs_scan_loop N (s # slots) d = (ESP_OK, d')"
      using room d'(1) by (simp add: 1 L(4,6) eh)
    ultimately show ?thesis using d'(2) by blast
  qed
qed

lemma nvs_rebuilt_inv:
  assumes inv: "nvs_inv blobs durable c" and rb: "nvs_rebuilds blobs durable c d" and all: "set (n_index d) = set (n_index c)"
  shows "nvs_inv blobs durable d" "nvs_view blobs d = nvs_view blobs c" "length (n_index d) = length (n_index c)"
proof -
  note I = nvs_invD [OF inv] and r = rb [unfolded nvs_rebuilds_def]
  have d: "distinct (map ne_id (n_index d))" "distinct (map ne_slot (n_index d))"
    using r I(4,5) by (simp_all add: distinct_map all)
  have b: "blobs (n_handle d) (slot_key (ne_slot e)) = blobs (n_handle c) (slot_key (ne_slot e))" if "e \<in> set (n_index c)" for e
    using r I(7) [OF that] by blast
  have "nvs_slots_ok d" using r d I(3) by (auto simp: nvs_slots_ok_def all)
  moreover have "nvs_geometry d" using r I(1) by (simp add: nvs_geometry_def)
  moreover have "\<forall>e\<in>set (n_index d). nvs_holds (blobs (n_handle d)) (n_scratch_size d) e"
    using I(8) b r nvs_holds_cong by (metis all)
  ultimately show "nvs_inv blobs durable d" using r inv unfolding nvs_inv_def by (simp add: all)
  show "nvs_view blobs d = nvs_view blobs c"
    unfolding nvs_view_def
  proof (rule keyed_map_eqI [OF d(1) I(4)], unfold all, rule image_cong)
    fix e assume e: "e \<in> set (n_index c)"
    have "nvs_stored (blobs (n_handle d)) e = nvs_stored (blobs (n_handle c)) e"
      by (rule nvs_stored_cong) (rule b [OF e])
    then show "(ne_id e, nvs_stored (blobs (n_handle d)) e) = (ne_id e, nvs_stored (blobs (n_handle c)) e)" by simp
  qed simp
  show "length (n_index d) = length (n_index c)"
    using distinct_card [of "n_index d"] distinct_card [of "n_index c"] r I(4) by (simp add: all distinct_map)
qed

section \<open>Restart\<close>

text \<open>A context that was created again on the NVS content that survived.\<close>

definition nvs_reboot :: "('n \<Rightarrow> blob_map) \<Rightarrow> ('n \<Rightarrow> blob_map) \<Rightarrow> 'n nvs_ctx \<Rightarrow> 'n nvs_ctx \<Rightarrow> bool" where
  "nvs_reboot blobs durable c c0 \<longleftrightarrow> n_max_messages c0 = n_max_messages c \<and> n_index_capacity c0 = n_index_capacity c \<and>
     n_scratch_size c0 = n_scratch_size c \<and> length (n_scratch c0) = n_scratch_size c \<and>
     length (n_claim_scratch c0) = n_scratch_size c \<and> \<not> n_fault c0 \<and>
     blobs (n_handle c0) = durable (n_handle c) \<and> durable (n_handle c0) = durable (n_handle c)"

lemma nvs_restart:
  assumes laws: "nvs_laws N blobs durable" and rel: "nvs_reliable N blobs" and inv: "nvs_inv blobs durable c"
    and rb: "nvs_reboot blobs durable c c0"
  obtains c' where "nvs_op_recover N c0 = (ESP_OK, c')" "nvs_inv blobs durable c'" "nvs_same c0 c'"
    "nvs_view blobs c' = (\<lambda>mid. map_option (requeued_with zeroed) (nvs_view blobs c mid))"
proof -
  let ?d0 = "c0\<lparr>n_index := [], n_slot_used := replicate (n_max_messages c0) False\<rparr>"
  have du: "\<forall>s<n_max_messages c. durable (n_handle c) (slot_key s) = blobs (n_handle c) (slot_key s)"
    using inv by (simp add: nvs_inv_def)
  have r0: "nvs_rebuilds blobs durable c ?d0" using rb du by (simp add: nvs_reboot_def nvs_rebuilds_def)
  have mx: "n_max_messages c0 = n_max_messages c" using rb by (simp add: nvs_reboot_def)
  obtain d where d: "nvs_scan_loop N [0..<n_max_messages c] ?d0 = (ESP_OK, d)" "nvs_rebuilds blobs durable c d"
    "set (n_index d) = {e \<in> set (n_index c). ne_slot e < n_max_messages c}"
    using nvs_scan_loop_ok [OF laws rel inv r0, of "[0..<n_max_messages c]"] by auto
  have all: "set (n_index d) = set (n_index c)" using d(3) nvs_invD(7) [OF inv] by blast
  note D = nvs_rebuilt_inv [OF inv d(2) all]
  obtain c' where c': "nvs_requeue_loop N [0..<length (n_index d)] d = (ESP_OK, c')" "nvs_inv blobs durable c'" "nvs_same d c'"
    "nvs_view blobs c' = (\<lambda>mid. if mid \<in> (\<lambda>j. ne_id (n_index d ! j)) ` set [0..<length (n_index d)]
        then map_option (requeued_with zeroed) (nvs_view blobs d mid) else nvs_view blobs d mid)"
    using nvs_requeue_loop_ok [OF laws rel D(1), of "[0..<length (n_index d)]"] by auto
  have run: "nvs_op_recover N c0 = (ESP_OK, c')" using d(1) c'(1) mx by (simp add: nvs_op_recover_def)
  have "map (\<lambda>j. ne_id (n_index d ! j)) [0..<length (n_index d)] = map ne_id (n_index d)"
    by (rule nth_equalityI) simp_all
  then have "(\<lambda>j. ne_id (n_index d ! j)) ` set [0..<length (n_index d)] = dom (nvs_view blobs d)"
    unfolding nvs_view_dom by (metis set_map)
  then have "nvs_view blobs c' = (\<lambda>mid. map_option (requeued_with zeroed) (nvs_view blobs c mid))"
    using c'(4) by (auto simp: D(2) fun_eq_iff)
  moreover have "nvs_same c0 c'"
    using c'(3) d(2) rb by (simp add: nvs_same_def nvs_rebuilds_def nvs_reboot_def)
  ultimately show thesis using that run c'(2) by blast
qed

end
