(* ===== verification/Nvs_Backend.thy ===== *)
theory Nvs_Backend
  imports Nvs_Recovery ES_Machine
begin

text \<open>
  The NVS backend as a storage backend: it meets the contract of the storage interface, with
  one exception that the contract names: rewriting a message loses its payload.
\<close>

lemma nvs_ops_simps [simp]:
  "so_init (nvs_ops N mc) = nvs_op_init mc" "so_recover (nvs_ops N mc) = nvs_op_recover N"
  "so_enqueue (nvs_ops N mc) = nvs_op_enqueue N" "so_claim_next (nvs_ops N mc) = nvs_op_claim_next N"
  "so_mark_delivered (nvs_ops N mc) = nvs_op_mark_delivered N"
  "so_schedule_retry (nvs_ops N mc) = nvs_op_schedule_retry N" "so_remove (nvs_ops N mc) = nvs_op_remove N"
  "so_find_drop_candidate (nvs_ops N mc) = nvs_op_find_drop_candidate"
  "so_get_stats (nvs_ops N mc) = nvs_op_get_stats N" "so_close (nvs_ops N mc) = nvs_op_close N"
  by (simp_all add: nvs_ops_def)

text \<open>The number of operations plays no role here: no counter can wrap around.\<close>

definition nvs_good :: "'n nvs_lib \<Rightarrow> ('n \<Rightarrow> blob_map) \<Rightarrow> ('n \<Rightarrow> blob_map) \<Rightarrow> nat \<Rightarrow> 'n nvs_ctx \<Rightarrow> bool" where
  "nvs_good N blobs durable k c \<longleftrightarrow> nvs_laws N blobs durable \<and> nvs_inv blobs durable c"

definition nvs_sound ::
  "'n nvs_lib \<Rightarrow> ('n \<Rightarrow> blob_map) \<Rightarrow> ('n \<Rightarrow> blob_map) \<Rightarrow> nat \<Rightarrow> nat \<Rightarrow> nat \<Rightarrow> 'n nvs_ctx \<Rightarrow> bool" where
  "nvs_sound N blobs durable cap scr k c \<longleftrightarrow> nvs_good N blobs durable k c \<and> nvs_reliable N blobs \<and>
     n_index_capacity c = cap \<and> n_scratch_size c = scr"

lemma zeroed_body: "zeroed msg = msg\<lparr>m_payload := m_payload (zeroed msg)\<rparr>"
  by (simp add: zeroed_def)

lemma nvs_view_id: "nvs_inv blobs durable c \<Longrightarrow> nvs_view blobs c mid = Some msg \<Longrightarrow> m_id msg = mid"
  by (erule (1) nvs_view_entry) simp

interpretation nvs: storage_backend "nvs_ops N mc" "nvs_good N blobs durable" "nvs_view blobs" zeroed
  for N :: "'n nvs_lib" and mc :: bool and blobs durable :: "'n \<Rightarrow> blob_map"
proof (unfold_locales, unfold nvs_ops_simps)
  fix k c c' mid next_us dead er policy dropped r now_us err and msg :: message
  let ?good = "nvs_good N blobs durable" and ?view = "nvs_view blobs"
  show "zeroed msg = msg\<lparr>m_payload := m_payload (zeroed msg)\<rparr>" by (rule zeroed_body)
  show "?good (Suc k) c \<Longrightarrow> ?good k c" by (simp add: nvs_good_def)
  show "?good k c \<Longrightarrow> ?view c mid = Some msg \<Longrightarrow> m_id msg = mid" by (auto simp: nvs_good_def dest: nvs_view_id)
  show "?good (Suc k) c \<Longrightarrow> m_id msg \<notin> dom (?view c) \<Longrightarrow> nvs_op_enqueue N c msg = (ESP_OK, c') \<Longrightarrow>
      ?good k c' \<and> ?view c' = (?view c)(m_id msg \<mapsto> fresh msg)"
    unfolding nvs_good_def by (metis nvs_enqueue(1))
  show "?good k c \<Longrightarrow> nvs_op_enqueue N c msg = (EDGESYNC_ERR_QUEUE_FULL, c') \<Longrightarrow> c' = c" by (rule nvs_enqueue_full)
  show "?good (Suc k) c \<Longrightarrow> nvs_op_claim_next N c now_us = (ESP_OK, r, c') \<Longrightarrow>
      \<exists>msg. first_to_claim (?view c) now_us msg \<and> r = Some (claimed msg now_us) \<and> ?good k c' \<and>
        ?view c' = (?view c)(m_id msg \<mapsto> claimed msg now_us)"
    unfolding nvs_good_def using nvs_claim [of N blobs durable c now_us ESP_OK r c'] by blast
  show "?good (Suc k) c \<Longrightarrow> nvs_op_claim_next N c now_us = (EDGESYNC_ERR_NOT_FOUND, r, c') \<Longrightarrow>
      r = None \<and> ?good k c' \<and> ?view c' = ?view c"
    unfolding nvs_good_def using nvs_claim [of N blobs durable c now_us EDGESYNC_ERR_NOT_FOUND r c'] by blast
  show "?good (Suc k) c \<Longrightarrow> nvs_op_claim_next N c now_us = (EDGESYNC_ERR_STORAGE_CORRUPT, r, c') \<Longrightarrow>
      \<exists>msg. first_to_claim (?view c) now_us msg \<and> r = Some (blank_message (m_id msg)) \<and> ?good k c' \<and>
        ?view c' = (?view c)(m_id msg \<mapsto> corrupted msg)"
    unfolding nvs_good_def using nvs_claim [of N blobs durable c now_us EDGESYNC_ERR_STORAGE_CORRUPT r c'] by blast
  show "?good (Suc k) c \<Longrightarrow> nvs_op_mark_delivered N c mid = (ESP_OK, c') \<Longrightarrow>
      ?good k c' \<and> mid \<in> dom (?view c) \<and> ?view c' = (?view c)(mid := None)"
    unfolding nvs_good_def by (metis nvs_delivered(1))
  show "?good (Suc k) c \<Longrightarrow> nvs_op_remove N c mid = (ESP_OK, c') \<Longrightarrow>
      ?good k c' \<and> mid \<in> dom (?view c) \<and> ?view c' = (?view c)(mid := None)"
    unfolding nvs_good_def nvs_op_remove_def by (metis nvs_delivered(1))
  show "?good (Suc k) c \<Longrightarrow> nvs_op_schedule_retry N c mid next_us dead er = (ESP_OK, c') \<Longrightarrow>
      ?good k c' \<and> mid \<in> dom (?view c) \<and>
      ?view c' = (?view c)(mid \<mapsto> retried (zeroed (the (?view c mid))) next_us dead er)"
    unfolding nvs_good_def by (metis nvs_retry(1))
  show "?good k c \<Longrightarrow> nvs_op_find_drop_candidate c policy = (ESP_OK, dropped) \<Longrightarrow>
      \<exists>msg. first_to_drop (?view c) policy msg \<and> dropped = Some (m_id msg)"
    unfolding nvs_good_def by (metis nvs_drop(1))
  show "?good k c \<Longrightarrow> nvs_op_find_drop_candidate c policy = (err, dropped) \<Longrightarrow> err \<noteq> ESP_OK \<Longrightarrow>
      \<forall>mid msg. ?view c mid = Some msg \<longrightarrow> m_state msg \<noteq> MSG_PENDING"
    unfolding nvs_good_def by (metis nvs_drop(2))
qed

lemma nvs_soundD:
  assumes "nvs_sound N blobs durable cap scr k c"
  shows "nvs_laws N blobs durable" "nvs_inv blobs durable c" "nvs_reliable N blobs" "n_index_capacity c = cap"
    "n_scratch_size c = scr" "nvs_good N blobs durable k c"
  using assms by (simp_all add: nvs_sound_def nvs_good_def)

lemma nvs_sound_step:
  "nvs_sound N blobs durable cap scr k c \<Longrightarrow> nvs_inv blobs durable c' \<Longrightarrow> nvs_same c c' \<Longrightarrow>
   nvs_sound N blobs durable cap scr k' c'"
  by (simp add: nvs_sound_def nvs_good_def nvs_same_def)

lemma nvs_claim_sound:
  assumes s: "nvs_sound N blobs durable cap scr k c" and run: "nvs_op_claim_next N c now_us = (err, r, c')"
  shows "err \<noteq> EDGESYNC_ERR_STORAGE_CORRUPT"
    and "err = ESP_OK \<Longrightarrow> \<exists>msg. first_to_claim (nvs_view blobs c) now_us msg \<and> r = Some (claimed msg now_us) \<and>
      nvs_sound N blobs durable cap scr k' c' \<and> nvs_view blobs c' = (nvs_view blobs c)(m_id msg \<mapsto> claimed msg now_us)"
    and "err = EDGESYNC_ERR_NOT_FOUND \<Longrightarrow> r = None \<and> nvs_sound N blobs durable cap scr k' c' \<and>
      nvs_view blobs c' = nvs_view blobs c"
    and "err = (if \<exists>mid msg. nvs_view blobs c mid = Some msg \<and> eligible now_us msg then ESP_OK else EDGESYNC_ERR_NOT_FOUND)"
proof -
  note C = nvs_claim [OF nvs_soundD(1,2) [OF s] run] and S = nvs_sound_step [OF s]
  show "err \<noteq> EDGESYNC_ERR_STORAGE_CORRUPT" using C by (rule conjunct1)
  show "err = (if \<exists>mid msg. nvs_view blobs c mid = Some msg \<and> eligible now_us msg then ESP_OK else EDGESYNC_ERR_NOT_FOUND)"
    using C nvs_soundD(3) [OF s] by blast
  show "\<exists>msg. first_to_claim (nvs_view blobs c) now_us msg \<and> r = Some (claimed msg now_us) \<and>
      nvs_sound N blobs durable cap scr k' c' \<and> nvs_view blobs c' = (nvs_view blobs c)(m_id msg \<mapsto> claimed msg now_us)"
    if "err = ESP_OK" using C that S by blast
  show "r = None \<and> nvs_sound N blobs durable cap scr k' c' \<and> nvs_view blobs c' = nvs_view blobs c"
    if "err = EDGESYNC_ERR_NOT_FOUND" using C that S by blast
qed

lemma nvs_enqueue_sound:
  assumes s: "nvs_sound N blobs durable cap scr k c" and new: "m_id msg \<notin> dom (nvs_view blobs c)"
    and run: "nvs_op_enqueue N c msg = (ESP_OK, c')"
  shows "nvs_sound N blobs durable cap scr k' c' \<and> nvs_view blobs c' = (nvs_view blobs c)(m_id msg \<mapsto> fresh msg)"
  using nvs_enqueue(1) [OF nvs_soundD(1,2) [OF s] run refl new] nvs_sound_step [OF s] by blast

lemma nvs_enqueue_total:
  assumes s: "nvs_sound N blobs durable cap scr k c" and run: "nvs_op_enqueue N c msg = (err, c')"
  shows "err = (if cap \<le> card (dom (nvs_view blobs c)) then EDGESYNC_ERR_QUEUE_FULL
      else if \<not> message_accepted scr msg then EDGESYNC_ERR_SERIALIZATION else ESP_OK) \<and> (err \<noteq> ESP_OK \<longrightarrow> c' = c)"
  using nvs_enqueue(2) [OF nvs_soundD(1,2) [OF s] run nvs_soundD(3) [OF s]] nvs_soundD(4,5) [OF s]
    nvs_view_card(2) [OF nvs_soundD(2) [OF s]] by simp

lemma nvs_sound_bounded:
  assumes s: "nvs_sound N blobs durable cap scr k c"
  shows "card (dom (nvs_view blobs c)) \<le> cap"
  using nvs_view_card(2) [OF nvs_soundD(2) [OF s]] nvs_index_bound [OF nvs_soundD(2) [OF s]] nvs_soundD(4) [OF s] by simp

lemma nvs_delivered_sound:
  assumes s: "nvs_sound N blobs durable cap scr k c" and run: "nvs_op_mark_delivered N c mid = (ESP_OK, c')"
  shows "nvs_sound N blobs durable cap scr k' c' \<and> mid \<in> dom (nvs_view blobs c) \<and>
    nvs_view blobs c' = (nvs_view blobs c)(mid := None)"
  using nvs_delivered(1) [OF nvs_soundD(1,2) [OF s] run refl] nvs_sound_step [OF s] by blast

lemma nvs_retry_sound:
  assumes s: "nvs_sound N blobs durable cap scr k c"
    and run: "nvs_op_schedule_retry N c mid next_us dead er = (ESP_OK, c')"
  shows "nvs_sound N blobs durable cap scr k' c' \<and> mid \<in> dom (nvs_view blobs c) \<and>
    nvs_view blobs c' = (nvs_view blobs c)(mid \<mapsto> retried (zeroed (the (nvs_view blobs c mid))) next_us dead er)"
  using nvs_retry(1) [OF nvs_soundD(1,2) [OF s] run refl] nvs_sound_step [OF s] by blast

lemma nvs_delivered_total:
  assumes "nvs_sound N blobs durable cap scr k c" "nvs_op_mark_delivered N c mid = (err, c')"
  shows "err = (if mid \<in> dom (nvs_view blobs c) then ESP_OK else EDGESYNC_ERR_NOT_FOUND) \<and> (err \<noteq> ESP_OK \<longrightarrow> c' = c)"
  using nvs_delivered(2,3) [OF nvs_soundD(1,2) [OF assms(1)] assms(2)] nvs_soundD(3) [OF assms(1)] by auto

lemma nvs_retry_total:
  assumes "nvs_sound N blobs durable cap scr k c" "nvs_op_schedule_retry N c mid next_us dead er = (err, c')"
  shows "err = (if mid \<in> dom (nvs_view blobs c) then ESP_OK else EDGESYNC_ERR_NOT_FOUND) \<and> (err \<noteq> ESP_OK \<longrightarrow> c' = c)"
  using nvs_retry(2,3) [OF nvs_soundD(1,2) [OF assms(1)] assms(2)] nvs_soundD(3) [OF assms(1)] by auto

lemma nvs_restart_total:
  assumes s: "nvs_sound N blobs durable cap scr k c" and rb: "nvs_reboot blobs durable c c0"
    and run: "nvs_op_recover N c0 = (err, c')"
  shows "err = ESP_OK \<and> nvs_sound N blobs durable cap scr k' c' \<and>
    nvs_view blobs c' = (\<lambda>mid. map_option (requeued_with zeroed) (nvs_view blobs c mid))"
proof -
  obtain c1 where c1: "nvs_op_recover N c0 = (ESP_OK, c1)" "nvs_inv blobs durable c1" "nvs_same c0 c1"
    "nvs_view blobs c1 = (\<lambda>mid. map_option (requeued_with zeroed) (nvs_view blobs c mid))"
    by (rule nvs_restart [OF nvs_soundD(1,3,2) [OF s] rb])
  then show ?thesis using s rb run
    by (simp add: nvs_sound_def nvs_good_def nvs_same_def nvs_reboot_def)
qed

interpretation nvs_reliable: durable_backend "nvs_ops N mc" "nvs_sound N blobs durable cap scr" "nvs_view blobs"
  zeroed cap "message_accepted scr" "nvs_reboot blobs durable"
  for N :: "'n nvs_lib" and mc :: bool and blobs durable :: "'n \<Rightarrow> blob_map" and cap scr :: nat
proof (unfold_locales, unfold nvs_ops_simps)
  fix k c c' c0 mid next_us dead er policy dropped r now_us err and msg :: message
  let ?good = "nvs_sound N blobs durable cap scr" and ?view = "nvs_view blobs"
  show "zeroed msg = msg\<lparr>m_payload := m_payload (zeroed msg)\<rparr>" by (rule zeroed_body)
  show "?good (Suc k) c \<Longrightarrow> ?good k c" by (simp add: nvs_sound_def nvs_good_def)
  show "?good k c \<Longrightarrow> ?view c mid = Some msg \<Longrightarrow> m_id msg = mid" by (auto dest: nvs_soundD(2) nvs_view_id)
  show "?good (Suc k) c \<Longrightarrow> m_id msg \<notin> dom (?view c) \<Longrightarrow> nvs_op_enqueue N c msg = (ESP_OK, c') \<Longrightarrow>
      ?good k c' \<and> ?view c' = (?view c)(m_id msg \<mapsto> fresh msg)"
    by (rule nvs_enqueue_sound)
  show "?good k c \<Longrightarrow> nvs_op_enqueue N c msg = (EDGESYNC_ERR_QUEUE_FULL, c') \<Longrightarrow> c' = c" by (rule nvs_enqueue_full)
  show "?good (Suc k) c \<Longrightarrow> nvs_op_claim_next N c now_us = (ESP_OK, r, c') \<Longrightarrow>
      \<exists>msg. first_to_claim (?view c) now_us msg \<and> r = Some (claimed msg now_us) \<and> ?good k c' \<and>
        ?view c' = (?view c)(m_id msg \<mapsto> claimed msg now_us)"
    by (rule nvs_claim_sound(2) [OF _ _ refl])
  show "?good (Suc k) c \<Longrightarrow> nvs_op_claim_next N c now_us = (EDGESYNC_ERR_NOT_FOUND, r, c') \<Longrightarrow>
      r = None \<and> ?good k c' \<and> ?view c' = ?view c"
    by (rule nvs_claim_sound(3) [OF _ _ refl])
  show "?good (Suc k) c \<Longrightarrow> nvs_op_claim_next N c now_us = (EDGESYNC_ERR_STORAGE_CORRUPT, r, c') \<Longrightarrow>
      \<exists>msg. first_to_claim (?view c) now_us msg \<and> r = Some (blank_message (m_id msg)) \<and> ?good k c' \<and>
        ?view c' = (?view c)(m_id msg \<mapsto> corrupted msg)"
    by (drule (1) nvs_claim_sound(1)) simp
  show "?good (Suc k) c \<Longrightarrow> nvs_op_mark_delivered N c mid = (ESP_OK, c') \<Longrightarrow>
      ?good k c' \<and> mid \<in> dom (?view c) \<and> ?view c' = (?view c)(mid := None)"
    by (rule nvs_delivered_sound)
  show "?good (Suc k) c \<Longrightarrow> nvs_op_remove N c mid = (ESP_OK, c') \<Longrightarrow>
      ?good k c' \<and> mid \<in> dom (?view c) \<and> ?view c' = (?view c)(mid := None)"
    unfolding nvs_op_remove_def by (rule nvs_delivered_sound)
  show "?good (Suc k) c \<Longrightarrow> nvs_op_schedule_retry N c mid next_us dead er = (ESP_OK, c') \<Longrightarrow>
      ?good k c' \<and> mid \<in> dom (?view c) \<and>
      ?view c' = (?view c)(mid \<mapsto> retried (zeroed (the (?view c mid))) next_us dead er)"
    by (rule nvs_retry_sound)
  show "?good k c \<Longrightarrow> nvs_op_find_drop_candidate c policy = (ESP_OK, dropped) \<Longrightarrow>
      \<exists>msg. first_to_drop (?view c) policy msg \<and> dropped = Some (m_id msg)"
    by (rule nvs_drop(1) [OF nvs_soundD(2)])
  show "?good k c \<Longrightarrow> nvs_op_find_drop_candidate c policy = (err, dropped) \<Longrightarrow> err \<noteq> ESP_OK \<Longrightarrow>
      \<forall>mid msg. ?view c mid = Some msg \<longrightarrow> m_state msg \<noteq> MSG_PENDING"
    by (rule nvs_drop(2) [OF nvs_soundD(2)])
  show "?good k c \<Longrightarrow> finite (dom (?view c))" by (rule nvs_view_card(1) [OF nvs_soundD(2)])
  show "?good k c \<Longrightarrow> card (dom (?view c)) \<le> cap" by (rule nvs_sound_bounded)
  show "?good (Suc k) c \<Longrightarrow> nvs_op_enqueue N c msg = (err, c') \<Longrightarrow>
      err = (if cap \<le> card (dom (?view c)) then EDGESYNC_ERR_QUEUE_FULL
             else if \<not> message_accepted scr msg then EDGESYNC_ERR_SERIALIZATION else ESP_OK) \<and> (err \<noteq> ESP_OK \<longrightarrow> c' = c)"
    by (rule nvs_enqueue_total)
  show "?good (Suc k) c \<Longrightarrow> nvs_op_claim_next N c now_us = (err, r, c') \<Longrightarrow>
      err = (if \<exists>mid msg. ?view c mid = Some msg \<and> eligible now_us msg then ESP_OK else EDGESYNC_ERR_NOT_FOUND)"
    by (rule nvs_claim_sound(4))
  show "?good (Suc k) c \<Longrightarrow> nvs_op_mark_delivered N c mid = (err, c') \<Longrightarrow>
      err = (if mid \<in> dom (?view c) then ESP_OK else EDGESYNC_ERR_NOT_FOUND) \<and> (err \<noteq> ESP_OK \<longrightarrow> c' = c)"
    by (rule nvs_delivered_total)
  show "?good (Suc k) c \<Longrightarrow> nvs_op_remove N c mid = (err, c') \<Longrightarrow>
      err = (if mid \<in> dom (?view c) then ESP_OK else EDGESYNC_ERR_NOT_FOUND) \<and> (err \<noteq> ESP_OK \<longrightarrow> c' = c)"
    unfolding nvs_op_remove_def by (rule nvs_delivered_total)
  show "?good (Suc k) c \<Longrightarrow> nvs_op_schedule_retry N c mid next_us dead er = (err, c') \<Longrightarrow>
      err = (if mid \<in> dom (?view c) then ESP_OK else EDGESYNC_ERR_NOT_FOUND) \<and> (err \<noteq> ESP_OK \<longrightarrow> c' = c)"
    by (rule nvs_retry_total)
  show "nvs_reboot blobs durable c c0 \<Longrightarrow> nvs_reboot blobs durable c (snd (nvs_op_init mc c0))"
    by (simp add: nvs_reboot_def nvs_op_init_def)
  show "?good (k + card (dom (?view c)) + 1) c \<Longrightarrow> nvs_reboot blobs durable c c0 \<Longrightarrow> nvs_op_recover N c0 = (err, c') \<Longrightarrow>
      err = ESP_OK \<and> ?good k c' \<and> ?view c' = (\<lambda>mid. map_option (requeued_with zeroed) (?view c mid))"
    by (rule nvs_restart_total)
qed

end
