(* ===== verification/ES_Dispatch.thy ===== *)
theory ES_Dispatch
  imports Flashq_Backend Nvs_Backend
begin

text \<open>
  \<open>edgesync_storage.c\<close>: the choice of the storage backend.  The \<open>void *\<close> context of the C code is
  a datatype with one constructor per backend; the operations of a backend are wrapped so that
  they take and return it.  A wrapped backend keeps its contract, which is proved once.
\<close>

section \<open>Contexts behind a pointer\<close>

datatype ('p, 'n, 'u) any_ctx =
  Flashq_Ctx (flashq_of: "'p flashq_ctx") | Nvs_Ctx (nvs_of: "'n nvs_ctx") | Custom_Ctx (custom_of: 'u)

definition wrap_result :: "('a \<Rightarrow> 's) \<Rightarrow> esp_err \<times> 'a \<Rightarrow> esp_err \<times> 's" where
  "wrap_result wr r = (fst r, wr (snd r))"

definition wrap_ops :: "('a \<Rightarrow> 's) \<Rightarrow> ('s \<Rightarrow> 'a) \<Rightarrow> 'a storage_ops \<Rightarrow> 's storage_ops" where
  "wrap_ops wr prj ops =
     \<lparr>so_init = (\<lambda>c. wrap_result wr (so_init ops (prj c))),
      so_recover = (\<lambda>c. wrap_result wr (so_recover ops (prj c))),
      so_enqueue = (\<lambda>c msg. wrap_result wr (so_enqueue ops (prj c) msg)),
      so_claim_next = (\<lambda>c now_us. case so_claim_next ops (prj c) now_us of (err, r, a) \<Rightarrow> (err, r, wr a)),
      so_mark_delivered = (\<lambda>c mid. wrap_result wr (so_mark_delivered ops (prj c) mid)),
      so_schedule_retry = (\<lambda>c mid next_us dead er. wrap_result wr (so_schedule_retry ops (prj c) mid next_us dead er)),
      so_remove = (\<lambda>c mid. wrap_result wr (so_remove ops (prj c) mid)),
      so_find_drop_candidate = (\<lambda>c policy. so_find_drop_candidate ops (prj c) policy),
      so_get_stats = (\<lambda>c st. so_get_stats ops (prj c) st),
      so_close = (\<lambda>c. wrap_result wr (so_close ops (prj c)))\<rparr>"

section \<open>Creation and destruction\<close>

datatype storage_type =
  EDGESYNC_STORAGE_FLASHQ | EDGESYNC_STORAGE_NVS | EDGESYNC_STORAGE_CUSTOM | Storage_Unknown int

text \<open>The part of the configuration that concerns the storage.\<close>

record ('p, 'n, 'u) storage_config =
  sc_storage :: storage_type
  sc_partition_label :: "string option"
  sc_nvs_namespace :: "string option"
  sc_storage_ops :: "'u storage_ops option"
  sc_storage_ctx :: 'u

text \<open>
  The platform: the flash driver, the NVS library, the partition table, the name spaces, what
  fresh memory holds, and whether allocations and the creation of mutexes succeed.
\<close>

record ('p, 'n) platform =
  pf_flash :: "'p flash_ops"
  pf_nvs :: "'n nvs_lib"
  pf_partition_find :: "string \<Rightarrow> ('p \<times> nat) option"
  pf_nvs_open :: "string \<Rightarrow> 'n option"
  pf_garbage :: "nat \<Rightarrow> byte"
  pf_allocates :: bool
  pf_mutexes :: bool

definition storage_create ::
  "('p, 'n) platform \<Rightarrow> ('p, 'n, 'u) storage_config \<Rightarrow> u32 \<Rightarrow> u32 \<Rightarrow>
   esp_err \<times> (('p, 'n, 'u) any_ctx storage_ops \<times> ('p, 'n, 'u) any_ctx) option" where
  "storage_create pf config effective_max_messages effective_max_message_size =
     (case sc_storage config of
        EDGESYNC_STORAGE_FLASHQ \<Rightarrow>
          (case flashq_create (Some \<lparr>fc_partition_label = sc_partition_label config,
                  fc_max_messages = effective_max_messages, fc_max_message_size = effective_max_message_size\<rparr>)
                True (pf_partition_find pf) (pf_allocates pf) (pf_allocates pf) of
             (err, ctx) \<Rightarrow> (err, map_option (\<lambda>c.
                (wrap_ops Flashq_Ctx flashq_of (flashq_ops (pf_flash pf) (pf_mutexes pf)), Flashq_Ctx c)) ctx))
      | EDGESYNC_STORAGE_NVS \<Rightarrow>
          (case nvs_storage_create (Some \<lparr>nc_namespace = sc_nvs_namespace config,
                  nc_max_messages = effective_max_messages, nc_max_message_size = effective_max_message_size\<rparr>)
                True (pf_nvs_open pf) (pf_allocates pf) (pf_allocates pf) (pf_garbage pf) of
             (err, ctx) \<Rightarrow> (err, map_option (\<lambda>c.
                (wrap_ops Nvs_Ctx nvs_of (nvs_ops (pf_nvs pf) (pf_mutexes pf)), Nvs_Ctx c)) ctx))
      | EDGESYNC_STORAGE_CUSTOM \<Rightarrow>
          (case sc_storage_ops config of
             None \<Rightarrow> (ESP_ERR_INVALID_ARG, None)
           | Some ops \<Rightarrow> (ESP_OK, Some (wrap_ops Custom_Ctx custom_of ops, Custom_Ctx (sc_storage_ctx config))))
      | Storage_Unknown n \<Rightarrow> (ESP_ERR_INVALID_ARG, None))"

text \<open>Closing; what is freed afterwards is not modelled.\<close>

definition storage_destroy :: "'c storage_ops \<Rightarrow> 'c \<Rightarrow> 'c" where
  "storage_destroy ops ctx = snd (so_close ops ctx)"

section \<open>Wrapped backends keep their contract\<close>

lemma wrap_ops_simps [simp]:
  "so_init (wrap_ops wr prj ops) c = wrap_result wr (so_init ops (prj c))"
  "so_recover (wrap_ops wr prj ops) c = wrap_result wr (so_recover ops (prj c))"
  "so_enqueue (wrap_ops wr prj ops) c msg = wrap_result wr (so_enqueue ops (prj c) msg)"
  "so_claim_next (wrap_ops wr prj ops) c now_us = (case so_claim_next ops (prj c) now_us of (err, r, a) \<Rightarrow> (err, r, wr a))"
  "so_mark_delivered (wrap_ops wr prj ops) c mid = wrap_result wr (so_mark_delivered ops (prj c) mid)"
  "so_schedule_retry (wrap_ops wr prj ops) c mid next_us dead er =
     wrap_result wr (so_schedule_retry ops (prj c) mid next_us dead er)"
  "so_remove (wrap_ops wr prj ops) c mid = wrap_result wr (so_remove ops (prj c) mid)"
  "so_find_drop_candidate (wrap_ops wr prj ops) c policy = so_find_drop_candidate ops (prj c) policy"
  "so_get_stats (wrap_ops wr prj ops) c st = so_get_stats ops (prj c) st"
  "so_close (wrap_ops wr prj ops) c = wrap_result wr (so_close ops (prj c))"
  by (simp_all add: wrap_ops_def)

lemma wrap_result_eq: "wrap_result wr r = (err, c') \<longleftrightarrow> (\<exists>a'. r = (err, a') \<and> c' = wr a')"
  by (cases r) (auto simp: wrap_result_def)

lemma wrap_claim_eq:
  "(case r of (err, m, a) \<Rightarrow> (err, m, wr a)) = (err', m', c') \<longleftrightarrow> (\<exists>a'. r = (err', m', a') \<and> c' = wr a')"
  by (cases r) auto

definition wrap_good :: "('a \<Rightarrow> 's) \<Rightarrow> (nat \<Rightarrow> 'a \<Rightarrow> bool) \<Rightarrow> nat \<Rightarrow> 's \<Rightarrow> bool" where
  "wrap_good wr good k c \<longleftrightarrow> (\<exists>a. c = wr a \<and> good k a)"

definition wrap_reboot :: "('a \<Rightarrow> 's) \<Rightarrow> ('a \<Rightarrow> 'a \<Rightarrow> bool) \<Rightarrow> 's \<Rightarrow> 's \<Rightarrow> bool" where
  "wrap_reboot wr reboot c c0 \<longleftrightarrow> (\<exists>a a0. c = wr a \<and> c0 = wr a0 \<and> reboot a a0)"

context storage_backend
begin

lemma wrapped_storage:
  assumes inv: "\<And>a. prj (wr a) = a"
  shows "storage_backend (wrap_ops wr prj ops) (wrap_good wr good) (\<lambda>c. view (prj c)) rewrite"
proof
  fix k c c' mid next_us dead er policy dropped r now_us err and msg :: message
  let ?ops = "wrap_ops wr prj ops" and ?good = "wrap_good wr good" and ?view = "\<lambda>c. view (prj c)"
  show "rewrite msg = msg\<lparr>m_payload := m_payload (rewrite msg)\<rparr>" by (rule rewrite_body)
  show "?good (Suc k) c \<Longrightarrow> ?good k c" by (auto simp: wrap_good_def intro: good_mono)
  show "?good k c \<Longrightarrow> ?view c mid = Some msg \<Longrightarrow> m_id msg = mid"
    by (auto simp: wrap_good_def inv intro: view_id)
  show "?good (Suc k) c \<Longrightarrow> m_id msg \<notin> dom (?view c) \<Longrightarrow> so_enqueue ?ops c msg = (ESP_OK, c') \<Longrightarrow>
      ?good k c' \<and> ?view c' = (?view c)(m_id msg \<mapsto> fresh msg)"
    by (clarsimp simp: wrap_good_def inv wrap_result_eq) (use enqueue_ok in blast)
  show "?good k c \<Longrightarrow> so_enqueue ?ops c msg = (EDGESYNC_ERR_QUEUE_FULL, c') \<Longrightarrow> c' = c"
    by (clarsimp simp: wrap_good_def inv wrap_result_eq) (use enqueue_full in blast)
  show "?good (Suc k) c \<Longrightarrow> so_claim_next ?ops c now_us = (ESP_OK, r, c') \<Longrightarrow>
      \<exists>msg. first_to_claim (?view c) now_us msg \<and> r = Some (claimed msg now_us) \<and> ?good k c' \<and>
        ?view c' = (?view c)(m_id msg \<mapsto> claimed msg now_us)"
    by (clarsimp simp: wrap_good_def inv wrap_claim_eq) (use claim_ok in blast)
  show "?good (Suc k) c \<Longrightarrow> so_claim_next ?ops c now_us = (EDGESYNC_ERR_NOT_FOUND, r, c') \<Longrightarrow>
      r = None \<and> ?good k c' \<and> ?view c' = ?view c"
    by (clarsimp simp: wrap_good_def inv wrap_claim_eq) (use claim_none in blast)
  show "?good (Suc k) c \<Longrightarrow> so_claim_next ?ops c now_us = (EDGESYNC_ERR_STORAGE_CORRUPT, r, c') \<Longrightarrow>
      \<exists>msg. first_to_claim (?view c) now_us msg \<and> r = Some (blank_message (m_id msg)) \<and> ?good k c' \<and>
        ?view c' = (?view c)(m_id msg \<mapsto> corrupted msg)"
    by (clarsimp simp: wrap_good_def inv wrap_claim_eq) (use claim_corrupt in blast)
  show "?good (Suc k) c \<Longrightarrow> so_mark_delivered ?ops c mid = (ESP_OK, c') \<Longrightarrow>
      ?good k c' \<and> mid \<in> dom (?view c) \<and> ?view c' = (?view c)(mid := None)"
    by (clarsimp simp: wrap_good_def inv wrap_result_eq simp del: domIff) (use delivered_ok in blast)
  show "?good (Suc k) c \<Longrightarrow> so_remove ?ops c mid = (ESP_OK, c') \<Longrightarrow>
      ?good k c' \<and> mid \<in> dom (?view c) \<and> ?view c' = (?view c)(mid := None)"
    by (clarsimp simp: wrap_good_def inv wrap_result_eq simp del: domIff) (use removed_ok in blast)
  show "?good (Suc k) c \<Longrightarrow> so_schedule_retry ?ops c mid next_us dead er = (ESP_OK, c') \<Longrightarrow>
      ?good k c' \<and> mid \<in> dom (?view c) \<and> ?view c' = (?view c)(mid \<mapsto> retried (rewrite (the (?view c mid))) next_us dead er)"
    by (clarsimp simp: wrap_good_def inv wrap_result_eq simp del: domIff) (use retry_ok in blast)
  show "?good k c \<Longrightarrow> so_find_drop_candidate ?ops c policy = (ESP_OK, dropped) \<Longrightarrow>
      \<exists>msg. first_to_drop (?view c) policy msg \<and> dropped = Some (m_id msg)"
    by (clarsimp simp: wrap_good_def inv) (use drop_ok in blast)
  show "?good k c \<Longrightarrow> so_find_drop_candidate ?ops c policy = (err, dropped) \<Longrightarrow> err \<noteq> ESP_OK \<Longrightarrow>
      \<forall>mid msg. ?view c mid = Some msg \<longrightarrow> m_state msg \<noteq> MSG_PENDING"
    by (clarsimp simp: wrap_good_def inv) (use drop_none in blast)
qed

end

context reliable_backend
begin

lemma wrapped_reliable:
  assumes inv: "\<And>a. prj (wr a) = a"
  shows "reliable_backend (wrap_ops wr prj ops) (wrap_good wr good) (\<lambda>c. view (prj c)) rewrite capacity accepts"
proof (intro reliable_backend.intro wrapped_storage reliable_backend_axioms.intro)
  fix k c c' mid next_us dead er r now_us err and msg :: message
  let ?ops = "wrap_ops wr prj ops" and ?good = "wrap_good wr good" and ?view = "\<lambda>c. view (prj c)"
  show "prj (wr a) = a" for a by (rule inv)
  show "?good k c \<Longrightarrow> finite (dom (?view c))" by (auto simp: wrap_good_def inv intro: view_finite)
  show "?good k c \<Longrightarrow> card (dom (?view c)) \<le> capacity" by (auto simp: wrap_good_def inv intro: view_bounded)
  show "?good (Suc k) c \<Longrightarrow> so_enqueue ?ops c msg = (err, c') \<Longrightarrow>
      err = (if capacity \<le> card (dom (?view c)) then EDGESYNC_ERR_QUEUE_FULL
             else if \<not> accepts msg then EDGESYNC_ERR_SERIALIZATION else ESP_OK) \<and> (err \<noteq> ESP_OK \<longrightarrow> c' = c)"
    by (clarsimp simp only: wrap_good_def inv wrap_result_eq wrap_ops_simps) (drule (1) enqueue_total, simp)
  show "?good (Suc k) c \<Longrightarrow> so_claim_next ?ops c now_us = (err, r, c') \<Longrightarrow>
      err = (if \<exists>mid msg. ?view c mid = Some msg \<and> eligible now_us msg then ESP_OK else EDGESYNC_ERR_NOT_FOUND)"
    by (clarsimp simp only: wrap_good_def inv wrap_claim_eq wrap_ops_simps) (drule (1) claim_total, simp)
  show "?good (Suc k) c \<Longrightarrow> so_mark_delivered ?ops c mid = (err, c') \<Longrightarrow>
      err = (if mid \<in> dom (?view c) then ESP_OK else EDGESYNC_ERR_NOT_FOUND) \<and> (err \<noteq> ESP_OK \<longrightarrow> c' = c)"
    by (clarsimp simp only: wrap_good_def inv wrap_result_eq wrap_ops_simps) (drule (1) delivered_total, simp)
  show "?good (Suc k) c \<Longrightarrow> so_remove ?ops c mid = (err, c') \<Longrightarrow>
      err = (if mid \<in> dom (?view c) then ESP_OK else EDGESYNC_ERR_NOT_FOUND) \<and> (err \<noteq> ESP_OK \<longrightarrow> c' = c)"
    by (clarsimp simp only: wrap_good_def inv wrap_result_eq wrap_ops_simps) (drule (1) removed_total, simp)
  show "?good (Suc k) c \<Longrightarrow> so_schedule_retry ?ops c mid next_us dead er = (err, c') \<Longrightarrow>
      err = (if mid \<in> dom (?view c) then ESP_OK else EDGESYNC_ERR_NOT_FOUND) \<and> (err \<noteq> ESP_OK \<longrightarrow> c' = c)"
    by (clarsimp simp only: wrap_good_def inv wrap_result_eq wrap_ops_simps) (drule (1) retry_total, simp)
qed

end

context durable_backend
begin

lemma wrapped_durable:
  assumes inv: "\<And>a. prj (wr a) = a"
  shows "durable_backend (wrap_ops wr prj ops) (wrap_good wr good) (\<lambda>c. view (prj c)) rewrite capacity accepts
    (wrap_reboot wr reboot)"
proof (intro durable_backend.intro wrapped_reliable durable_backend_axioms.intro)
  fix k c c' c0 err
  let ?ops = "wrap_ops wr prj ops" and ?good = "wrap_good wr good" and ?view = "\<lambda>c. view (prj c)"
  show "prj (wr a) = a" for a by (rule inv)
  show "wrap_reboot wr reboot c c0 \<Longrightarrow> wrap_reboot wr reboot c (snd (so_init ?ops c0))"
    unfolding wrap_reboot_def wrap_result_def wrap_ops_simps snd_conv by (metis inv reboot_init)
  show "?good (k + card (dom (?view c)) + 1) c \<Longrightarrow> wrap_reboot wr reboot c c0 \<Longrightarrow> so_recover ?ops c0 = (err, c') \<Longrightarrow>
      err = ESP_OK \<and> ?good k c' \<and> ?view c' = (\<lambda>mid. map_option (requeued_with rewrite) (?view c mid))"
  proof -
    assume g: "?good (k + card (dom (?view c)) + 1) c" and rb: "wrap_reboot wr reboot c c0"
      and rec: "so_recover ?ops c0 = (err, c')"
    obtain a a0 where a: "c = wr a" "c0 = wr a0" "reboot a a0" using rb unfolding wrap_reboot_def by blast
    obtain b where b: "c = wr b" "good (k + card (dom (?view c)) + 1) b" using g unfolding wrap_good_def by blast
    have "b = a" using inv a(1) b(1) by metis
    then have g1: "good (k + card (dom (view a)) + 1) a" using b(2) by (simp add: a(1) inv)
    obtain a' where a': "so_recover ops a0 = (err, a')" "c' = wr a'"
      using rec unfolding wrap_ops_simps wrap_result_eq a(2) inv by blast
    show ?thesis using restart_ok [OF g1 a(3) a'(1)] by (auto simp: wrap_good_def a(1) a'(2) inv)
  qed
qed

end

section \<open>The two backends behind the pointer\<close>

interpretation any_flashq: durable_backend "wrap_ops Flashq_Ctx flashq_of (flashq_ops F mc)"
  "wrap_good Flashq_Ctx (flashq_sound cells F sz cap scr)" "\<lambda>c. contents cells (flashq_of c)" "\<lambda>m. m" cap
  "message_accepted scr" "wrap_reboot Flashq_Ctx (flashq_reboot cells)"
  for F :: "'p flash_ops" and mc :: bool and cells :: "'p \<Rightarrow> mem" and sz cap scr :: nat
  by (rule flashq_reliable.wrapped_durable) simp

interpretation any_nvs: durable_backend "wrap_ops Nvs_Ctx nvs_of (nvs_ops N mc)"
  "wrap_good Nvs_Ctx (nvs_sound N blobs durable cap scr)" "\<lambda>c. nvs_view blobs (nvs_of c)" zeroed cap
  "message_accepted scr" "wrap_reboot Nvs_Ctx (nvs_reboot blobs durable)"
  for N :: "'n nvs_lib" and mc :: bool and blobs durable :: "'n \<Rightarrow> blob_map" and cap scr :: nat
  by (rule nvs_reliable.wrapped_durable) simp

end
