(* ===== verification/ES_Http.thy ===== *)
theory ES_Http
  imports ES_Id ES_Worker
begin

text \<open>
  \<open>edgesync_http.c\<close>: the built-in HTTP(S) transport.  The HTTP client of ESP-IDF
  (\<open>esp_http_client.h\<close>) is not part of the repository: an operations record over an abstract state
  \<open>'h\<close>, which stands for the client handle and the network behind it.
\<close>

section \<open>The client library\<close>

datatype http_method = HTTP_METHOD_GET | HTTP_METHOD_POST

record http_client_config =
  cc_url :: "byte list"
  cc_method :: http_method
  cc_timeout_ms :: u32
  cc_skip_cert_common_name_check :: bool
  cc_cert_pem :: "byte list option"
  cc_crt_bundle_attach :: bool

record 'h http_lib =
  hl_init :: "'h \<Rightarrow> http_client_config \<Rightarrow> bool \<times> 'h"  \<comment> \<open>false: the handle is \<open>NULL\<close>\<close>
  hl_set_header :: "'h \<Rightarrow> byte list \<Rightarrow> byte list \<Rightarrow> 'h"
  hl_set_post_field :: "'h \<Rightarrow> byte list \<Rightarrow> 'h"
  hl_perform :: "'h \<Rightarrow> esp_err \<times> 'h"
  hl_get_status_code :: "'h \<Rightarrow> int"
  hl_cleanup :: "'h \<Rightarrow> 'h"

text \<open>What the calls before \<open>perform\<close> build up, as the documentation of the client says.\<close>

record http_request =
  rq_config :: http_client_config
  rq_headers :: "(byte list \<times> byte list) list"  \<comment> \<open>in the order in which they were set\<close>
  rq_body :: "byte list"

definition http_laws :: "'h http_lib \<Rightarrow> ('h \<Rightarrow> http_request option) \<Rightarrow> bool" where
  "http_laws L req \<longleftrightarrow>
     (\<forall>h cfg h'. hl_init L h cfg = (True, h') \<longrightarrow> req h' = Some \<lparr>rq_config = cfg, rq_headers = [], rq_body = []\<rparr>) \<and>
     (\<forall>h n v r. req h = Some r \<longrightarrow> req (hl_set_header L h n v) = Some (r\<lparr>rq_headers := rq_headers r @ [(n, v)]\<rparr>)) \<and>
     (\<forall>h bs r. req h = Some r \<longrightarrow> req (hl_set_post_field L h bs) = Some (r\<lparr>rq_body := bs\<rparr>))"

section \<open>State\<close>

record http_config =
  hc_url :: "byte list option"
  hc_no_append_destination :: bool
  hc_timeout_ms :: u32
  hc_content_type :: "byte list option"
  hc_idempotency_header :: "byte list option"
  hc_auth_header_name :: "byte list option"
  hc_auth_header_value :: "byte list option"
  hc_extra_header_names :: "byte list list"
  hc_extra_header_values :: "byte list list"
  hc_extra_header_count :: nat
  hc_use_cert_bundle :: bool
  hc_cert_pem :: "byte list option"
  hc_skip_cert_common_name_check :: bool
  hc_classify_status :: "(int \<Rightarrow> int) option"

record http_ctx =
  ht_config :: http_config
  ht_base_url :: "byte list"

abbreviation (input) CONFIG_EDGESYNC_HTTP_DEFAULT_TIMEOUT_MS :: u32 where
  "CONFIG_EDGESYNC_HTTP_DEFAULT_TIMEOUT_MS \<equiv> 30000"

abbreviation (input) EDGESYNC_HTTP_MAX_URL_LEN :: nat where "EDGESYNC_HTTP_MAX_URL_LEN \<equiv> 256"

section \<open>Delivery\<close>

definition default_classify :: "int \<Rightarrow> delivery_result" where
  "default_classify status =
     (if status \<le> 0 then DELIVERY_RETRYABLE_FAILURE
      else if status \<ge> 200 \<and> status < 300 then DELIVERY_SUCCESS
      else if status \<in> {400, 401, 403, 404, 422} then DELIVERY_PERMANENT_FAILURE
      else if status \<in> {408, 429, 500, 502, 503, 504} then DELIVERY_RETRYABLE_FAILURE
      else if status \<ge> 500 then DELIVERY_RETRYABLE_FAILURE else DELIVERY_PERMANENT_FAILURE)"

text \<open>
  A result as the C code passes it around, an integer.  The worker's \<open>switch\<close> treats a value
  that is no enumerator like a retryable failure.
\<close>

definition result_of_int :: "int \<Rightarrow> delivery_result" where
  "result_of_int r = (if r = 0 then DELIVERY_SUCCESS else if r = 2 then DELIVERY_PERMANENT_FAILURE
     else DELIVERY_RETRYABLE_FAILURE)"

text \<open>\<open>strlcpy\<close> into a buffer of \<open>n\<close> bytes, and \<open>snprintf("%s/%s")\<close> into one, which fails when cut short.\<close>

definition strlcpy_text :: "nat \<Rightarrow> byte list \<Rightarrow> byte list" where
  "strlcpy_text n src = take (n - 1) (c_string src)"

definition join_path :: "nat \<Rightarrow> byte list \<Rightarrow> byte list \<Rightarrow> byte list option" where
  "join_path n base dest =
     (let text = c_string base @ [0x2F] @ c_string dest in if length text \<ge> n then None else Some text)"

definition c_bytes :: "string \<Rightarrow> byte list" where
  "c_bytes s = map of_char s"

definition http_client_cfg :: "http_ctx \<Rightarrow> byte list \<Rightarrow> http_client_config" where
  "http_client_cfg ctx url =
     (let cfg = ht_config ctx
      in \<lparr>cc_url = url, cc_method = HTTP_METHOD_POST,
          cc_timeout_ms = (if hc_timeout_ms cfg \<noteq> 0 then hc_timeout_ms cfg else CONFIG_EDGESYNC_HTTP_DEFAULT_TIMEOUT_MS),
          cc_skip_cert_common_name_check = hc_skip_cert_common_name_check cfg,
          cc_cert_pem = hc_cert_pem cfg,
          cc_crt_bundle_attach = (hc_cert_pem cfg = None \<and> hc_use_cert_bundle cfg)\<rparr>)"

fun http_extra_headers :: "'h http_lib \<Rightarrow> http_config \<Rightarrow> nat list \<Rightarrow> 'h \<Rightarrow> 'h" where
  "http_extra_headers L cfg [] h = h"
| "http_extra_headers L cfg (i # js) h =
     http_extra_headers L cfg js (hl_set_header L h (hc_extra_header_names cfg ! i) (hc_extra_header_values cfg ! i))"

definition http_set_headers :: "'h http_lib \<Rightarrow> http_config \<Rightarrow> message \<Rightarrow> 'h \<Rightarrow> 'h" where
  "http_set_headers L cfg msg h =
     (let content_type = (case hc_content_type cfg of Some t \<Rightarrow> t | None \<Rightarrow> c_bytes ''application/octet-stream'');
          h = hl_set_header L h (c_bytes ''Content-Type'') content_type;
          h = hl_set_header L h (c_bytes ''X-EdgeSync-Destination'') (m_destination msg);
          idem_header = (case hc_idempotency_header cfg of Some t \<Rightarrow> t | None \<Rightarrow> c_bytes ''Idempotency-Key'');
          h = (if c_string idem_header \<noteq> [] then hl_set_header L h idem_header (c_bytes (id_to_hex (m_id msg))) else h);
          h = (case (hc_auth_header_name cfg, hc_auth_header_value cfg) of
                 (Some n, Some v) \<Rightarrow> hl_set_header L h n v | _ \<Rightarrow> h)
      in http_extra_headers L cfg [0..<hc_extra_header_count cfg] h)"

text \<open>The classification of a response: the application's function when it answers, else the default.\<close>

definition http_outcome :: "http_config \<Rightarrow> int \<Rightarrow> delivery_result" where
  "http_outcome cfg status =
     (let result = (case hc_classify_status cfg of Some f \<Rightarrow> f status | None \<Rightarrow> - 1)
      in if result < 0 then default_classify status else result_of_int result)"

definition http_op_init :: "'h \<Rightarrow> esp_err \<times> 'h" where
  "http_op_init h = (ESP_OK, h)"

definition http_op_deliver :: "'h http_lib \<Rightarrow> http_ctx \<Rightarrow> 'h \<Rightarrow> message \<Rightarrow> delivery_result \<times> int \<times> 'h" where
  "http_op_deliver L ctx h msg =
     (let cfg = ht_config ctx;
          url = (if hc_no_append_destination cfg then Some (strlcpy_text EDGESYNC_HTTP_MAX_URL_LEN (ht_base_url ctx))
                 else join_path EDGESYNC_HTTP_MAX_URL_LEN (ht_base_url ctx) (m_destination msg))
      in case url of
           None \<Rightarrow> (DELIVERY_PERMANENT_FAILURE, 0, h)
         | Some url \<Rightarrow>
             let (created, h) = hl_init L h (http_client_cfg ctx url)
             in if \<not> created then (DELIVERY_RETRYABLE_FAILURE, 0, h)
                else
                  let h = http_set_headers L cfg msg h;
                      h = hl_set_post_field L h (m_payload msg);
                      (err, h) = hl_perform L h;
                      status = (if err \<noteq> ESP_OK then 0 else hl_get_status_code L h);
                      result = (if err \<noteq> ESP_OK then DELIVERY_RETRYABLE_FAILURE else http_outcome cfg status)
                  in (result, status, hl_cleanup L h))"

definition http_op_close :: "'h \<Rightarrow> esp_err \<times> 'h" where
  "http_op_close h = (ESP_OK, h)"

definition http_ops :: "'h http_lib \<Rightarrow> http_ctx \<Rightarrow> 'h transport_ops" where
  "http_ops L ctx = \<lparr>tr_init = Some http_op_init, tr_deliver = http_op_deliver L ctx, tr_close = Some http_op_close\<rparr>"

text \<open>\<open>edgesync_http_transport_create\<close>; the flags: the out pointers are given, \<open>calloc\<close> succeeded.\<close>

definition http_transport_create :: "http_config option \<Rightarrow> bool \<Rightarrow> bool \<Rightarrow> esp_err \<times> http_ctx option" where
  "http_transport_create config out_valid allocated =
     (case config of
        None \<Rightarrow> (EDGESYNC_ERR_TRANSPORT, None)
      | Some cfg \<Rightarrow>
          (case hc_url cfg of
             None \<Rightarrow> (EDGESYNC_ERR_TRANSPORT, None)
           | Some url \<Rightarrow>
               if \<not> out_valid then (EDGESYNC_ERR_TRANSPORT, None)
               else if \<not> allocated then (ESP_ERR_NO_MEM, None)
               else
                 let base = strlcpy_text EDGESYNC_HTTP_MAX_URL_LEN url;
                     cfg = (if \<not> hc_use_cert_bundle cfg \<and> hc_cert_pem cfg = None \<and> take 8 base = c_bytes ''https://''
                            then cfg\<lparr>hc_use_cert_bundle := True\<rparr> else cfg)
                 in (ESP_OK, Some \<lparr>ht_config = cfg, ht_base_url = base\<rparr>)))"

section \<open>Lemmas\<close>

text \<open>The headers of a request as data: what the sequence of calls amounts to.\<close>

definition idempotency_header :: "http_config \<Rightarrow> byte list" where
  "idempotency_header cfg = (case hc_idempotency_header cfg of Some t \<Rightarrow> t | None \<Rightarrow> c_bytes ''Idempotency-Key'')"

definition http_headers :: "http_config \<Rightarrow> message \<Rightarrow> (byte list \<times> byte list) list" where
  "http_headers cfg msg =
     [(c_bytes ''Content-Type'', case hc_content_type cfg of Some t \<Rightarrow> t | None \<Rightarrow> c_bytes ''application/octet-stream''),
      (c_bytes ''X-EdgeSync-Destination'', m_destination msg)] @
     (if c_string (idempotency_header cfg) = [] then [] else [(idempotency_header cfg, c_bytes (id_to_hex (m_id msg)))]) @
     (case (hc_auth_header_name cfg, hc_auth_header_value cfg) of (Some n, Some v) \<Rightarrow> [(n, v)] | _ \<Rightarrow> []) @
     map (\<lambda>i. (hc_extra_header_names cfg ! i, hc_extra_header_values cfg ! i)) [0..<hc_extra_header_count cfg]"

definition http_request_of :: "http_ctx \<Rightarrow> byte list \<Rightarrow> message \<Rightarrow> http_request" where
  "http_request_of ctx url msg =
     \<lparr>rq_config = http_client_cfg ctx url, rq_headers = http_headers (ht_config ctx) msg, rq_body = m_payload msg\<rparr>"

text \<open>The URL a message goes to.\<close>

definition http_url :: "http_ctx \<Rightarrow> message \<Rightarrow> byte list option" where
  "http_url ctx msg =
     (if hc_no_append_destination (ht_config ctx) then Some (strlcpy_text EDGESYNC_HTTP_MAX_URL_LEN (ht_base_url ctx))
      else join_path EDGESYNC_HTTP_MAX_URL_LEN (ht_base_url ctx) (m_destination msg))"

definition add_headers :: "(byte list \<times> byte list) list \<Rightarrow> http_request \<Rightarrow> http_request" where
  "add_headers hs r = r\<lparr>rq_headers := rq_headers r @ hs\<rparr>"

lemma add_headers_add [simp]: "add_headers hs' (add_headers hs r) = add_headers (hs @ hs') r"
  by (simp add: add_headers_def)

lemma set_header_req:
  "http_laws L req \<Longrightarrow> req h = Some (add_headers hs r) \<Longrightarrow>
   req (hl_set_header L h n v) = Some (add_headers (hs @ [(n, v)]) r)"
  by (simp add: http_laws_def add_headers_def)

lemma extra_headers_req:
  assumes "http_laws L req"
  shows "req h = Some (add_headers hs r) \<Longrightarrow> req (http_extra_headers L cfg js h) = Some (add_headers (hs @
    map (\<lambda>i. (hc_extra_header_names cfg ! i, hc_extra_header_values cfg ! i)) js) r)"
proof (induction js arbitrary: h hs)
  case (Cons i js)
  show ?case using Cons.IH [OF set_header_req [OF assms Cons.prems]] by simp
qed simp

lemma set_headers_req:
  assumes laws: "http_laws L req" and r: "req h = Some r"
  shows "req (http_set_headers L cfg msg h) = Some (add_headers (http_headers cfg msg) r)"
proof -
  note S = set_header_req [OF laws]
  let ?idem = "idempotency_header cfg" and ?dest = "(c_bytes ''X-EdgeSync-Destination'', m_destination msg)"
  define h1 where "h1 = hl_set_header L h (c_bytes ''Content-Type'')
    (case hc_content_type cfg of Some t \<Rightarrow> t | None \<Rightarrow> c_bytes ''application/octet-stream'')"
  define h2 where "h2 = hl_set_header L h1 (c_bytes ''X-EdgeSync-Destination'') (m_destination msg)"
  define h3 where "h3 = (if c_string ?idem \<noteq> [] then hl_set_header L h2 ?idem (c_bytes (id_to_hex (m_id msg))) else h2)"
  define h4 where "h4 = (case (hc_auth_header_name cfg, hc_auth_header_value cfg) of
     (Some n, Some v) \<Rightarrow> hl_set_header L h3 n v | _ \<Rightarrow> h3)"
  have r0: "req h = Some (add_headers [] r)" by (simp add: r add_headers_def)
  have r2: "req h2 = Some (add_headers (([] @ [(c_bytes ''Content-Type'',
      case hc_content_type cfg of Some t \<Rightarrow> t | None \<Rightarrow> c_bytes ''application/octet-stream'')]) @ [?dest]) r)"
    unfolding h2_def h1_def by (rule S [OF S [OF r0]])
  define hs3 where hs3: "hs3 = [(c_bytes ''Content-Type'', case hc_content_type cfg of Some t \<Rightarrow> t | None \<Rightarrow> c_bytes ''application/octet-stream''),
       ?dest] @ (if c_string ?idem = [] then [] else [(?idem, c_bytes (id_to_hex (m_id msg)))])"
  have r3: "req h3 = Some (add_headers hs3 r)"
    using r2 S [OF r2, of ?idem "c_bytes (id_to_hex (m_id msg))"] by (simp add: h3_def hs3)
  have r4: "req h4 = Some (add_headers (hs3 @ (case (hc_auth_header_name cfg, hc_auth_header_value cfg) of
      (Some n, Some v) \<Rightarrow> [(n, v)] | _ \<Rightarrow> [])) r)"
    using r3 S [OF r3] by (auto simp: h4_def split: option.split)
  have "http_set_headers L cfg msg h = http_extra_headers L cfg [0..<hc_extra_header_count cfg] h4"
    unfolding http_set_headers_def Let_def h4_def h3_def h2_def h1_def idempotency_header_def by (rule refl)
  then show ?thesis using extra_headers_req [OF laws r4] by (simp add: http_headers_def hs3)
qed

lemma http_deliver_request:
  assumes laws: "http_laws L req" and url: "http_url ctx msg = Some url"
    and init: "hl_init L h (http_client_cfg ctx url) = (True, h0)"
  obtains h1 where "req h1 = Some (http_request_of ctx url msg)"
    "http_op_deliver L ctx h msg = (let (err, h2) = hl_perform L h1 in
       if err = ESP_OK then (http_outcome (ht_config ctx) (hl_get_status_code L h2), hl_get_status_code L h2, hl_cleanup L h2)
       else (DELIVERY_RETRYABLE_FAILURE, 0, hl_cleanup L h2))"
proof -
  let ?h = "hl_set_post_field L (http_set_headers L (ht_config ctx) msg h0) (m_payload msg)"
  have "req h0 = Some \<lparr>rq_config = http_client_cfg ctx url, rq_headers = [], rq_body = []\<rparr>"
    using laws init by (simp add: http_laws_def)
  from set_headers_req [OF laws this] have "req ?h = Some (http_request_of ctx url msg)"
    using laws by (simp add: http_laws_def http_request_of_def add_headers_def)
  moreover have "http_op_deliver L ctx h msg = (let (err, h2) = hl_perform L ?h in
       if err = ESP_OK then (http_outcome (ht_config ctx) (hl_get_status_code L h2), hl_get_status_code L h2, hl_cleanup L h2)
       else (DELIVERY_RETRYABLE_FAILURE, 0, hl_cleanup L h2))"
    using url init by (auto simp: http_op_deliver_def http_url_def Let_def split: prod.splits)
  ultimately show thesis by (rule that)
qed

lemma http_create_fields:
  assumes "http_transport_create config out_valid allocated = (ESP_OK, Some ctx)"
  obtains cfg url where "config = Some cfg" "hc_url cfg = Some url"
    "ht_base_url ctx = take 255 (c_string url)"
    "ht_config ctx = cfg \<or> ht_config ctx = cfg\<lparr>hc_use_cert_bundle := True\<rparr>"
    "take 8 (ht_base_url ctx) = c_bytes ''https://'' \<Longrightarrow>
      hc_cert_pem (ht_config ctx) \<noteq> None \<or> hc_use_cert_bundle (ht_config ctx)"
proof -
  obtain cfg url where c: "config = Some cfg" "hc_url cfg = Some url" "out_valid" "allocated"
    using assms by (auto simp: http_transport_create_def split: option.splits if_splits)
  let ?base = "strlcpy_text 256 url"
  let ?tls = "\<not> hc_use_cert_bundle cfg \<and> hc_cert_pem cfg = None \<and> take 8 ?base = c_bytes ''https://''"
  have ctx: "ctx = \<lparr>ht_config = (if ?tls then cfg\<lparr>hc_use_cert_bundle := True\<rparr> else cfg), ht_base_url = ?base\<rparr>"
    using assms by (simp add: http_transport_create_def c Let_def del: not_None_eq)
  show thesis
    by (rule that [OF c(1,2)]) (auto simp: ctx strlcpy_text_def)
qed

lemma c_string_take [simp]: "c_string (take n (c_string bs)) = take n (c_string bs)"
  by (rule c_string_no_nul) (use c_string_nul_free in_set_takeD in fast)

section \<open>Properties\<close>

text \<open>The built-in classification of HTTP status codes is the documented one: 2xx is a success;
  no response, 408, 429 and every code from 500 on is retryable; all other codes, redirects and
  unlisted client errors included, are permanent.\<close>

theorem http_classify_documented:
  "default_classify status =
    (if 200 \<le> status \<and> status \<le> 299 then DELIVERY_SUCCESS
     else if status \<le> 0 \<or> status = 408 \<or> status = 429 \<or> 500 \<le> status then DELIVERY_RETRYABLE_FAILURE
     else DELIVERY_PERMANENT_FAILURE)"
  by (auto simp: default_classify_def)

text \<open>A delivery over HTTP performs exactly one request, a POST to the configured URL, with the
  destination appended unless that is switched off, carrying the payload and, in this order,
  the content type, the destination, the idempotency key, the authorisation and the extra
  headers; a transport error is retryable and a response is classified by its status.  A URL
  that does not fit its buffer is a permanent failure, and then nothing is sent.\<close>

theorem http_delivery_request:
  assumes "http_laws L req"
  shows "case http_url ctx msg of
      None \<Rightarrow> http_op_deliver L ctx h msg = (DELIVERY_PERMANENT_FAILURE, 0, h)
    | Some url \<Rightarrow>
        if fst (hl_init L h (http_client_cfg ctx url)) then
          \<exists>h1. req h1 = Some (http_request_of ctx url msg) \<and>
            http_op_deliver L ctx h msg = (let (err, h2) = hl_perform L h1 in
              if err = ESP_OK then (http_outcome (ht_config ctx) (hl_get_status_code L h2), hl_get_status_code L h2, hl_cleanup L h2)
              else (DELIVERY_RETRYABLE_FAILURE, 0, hl_cleanup L h2))
        else fst (http_op_deliver L ctx h msg) = DELIVERY_RETRYABLE_FAILURE"
proof (cases "http_url ctx msg")
  case None
  then show ?thesis by (auto simp: http_op_deliver_def http_url_def Let_def split: if_splits)
next
  case (Some url)
  obtain created h0 where init: "hl_init L h (http_client_cfg ctx url) = (created, h0)" by (metis prod.exhaust)
  show ?thesis
  proof (cases created)
    case True
    then have init1: "hl_init L h (http_client_cfg ctx url) = (True, h0)" using init by simp
    obtain h1 where "req h1 = Some (http_request_of ctx url msg)"
      "http_op_deliver L ctx h msg = (let (err, h2) = hl_perform L h1 in
         if err = ESP_OK then (http_outcome (ht_config ctx) (hl_get_status_code L h2), hl_get_status_code L h2, hl_cleanup L h2)
         else (DELIVERY_RETRYABLE_FAILURE, 0, hl_cleanup L h2))"
      by (rule http_deliver_request [OF assms Some init1])
    then show ?thesis by (simp add: Some init True) blast
  next
    case False
    then have "http_op_deliver L ctx h msg = (DELIVERY_RETRYABLE_FAILURE, 0, h0)"
      using Some init by (auto simp: http_op_deliver_def http_url_def Let_def split: if_splits)
    then show ?thesis by (simp add: Some init False)
  qed
qed

text \<open>A client over a server that answers every request with 503.\<close>

definition busy_http :: "http_request option http_lib" where
  "busy_http = \<lparr>hl_init = (\<lambda>h cfg. (True, Some \<lparr>rq_config = cfg, rq_headers = [], rq_body = []\<rparr>)),
     hl_set_header = (\<lambda>h n v. map_option (\<lambda>r. r\<lparr>rq_headers := rq_headers r @ [(n, v)]\<rparr>) h),
     hl_set_post_field = (\<lambda>h bs. map_option (\<lambda>r. r\<lparr>rq_body := bs\<rparr>) h),
     hl_perform = (\<lambda>h. (ESP_OK, h)), hl_get_status_code = (\<lambda>h. 503), hl_cleanup = (\<lambda>h. h)\<rparr>"

lemma busy_http_laws: "http_laws busy_http (\<lambda>h. h)"
  by (simp add: http_laws_def busy_http_def)

definition demo_http_config :: http_config where
  "demo_http_config = \<lparr>hc_url = Some (c_bytes ''https://h/in''), hc_no_append_destination = False, hc_timeout_ms = 0,
     hc_content_type = None, hc_idempotency_header = None, hc_auth_header_name = None, hc_auth_header_value = None,
     hc_extra_header_names = [], hc_extra_header_values = [], hc_extra_header_count = 0, hc_use_cert_bundle = False,
     hc_cert_pem = None, hc_skip_cert_common_name_check = False, hc_classify_status = None\<rparr>"

definition demo_http_ctx :: http_ctx where
  "demo_http_ctx = the (snd (http_transport_create (Some demo_http_config) True True))"

definition demo_http_message :: message where
  "demo_http_message = (blank_message 7)\<lparr>m_destination := [0x74, 0x2F, 0x61], m_payload := [1, 2, 3]\<rparr>"

lemma demo_http_create: "http_transport_create (Some demo_http_config) True True = (ESP_OK, Some demo_http_ctx)"
  by (simp add: demo_http_ctx_def http_transport_create_def demo_http_config_def Let_def)

lemma demo_http_url: "http_url demo_http_ctx demo_http_message = Some (c_bytes ''https://h/in/t/a'')"
  by (simp add: http_url_def demo_http_ctx_def http_transport_create_def demo_http_config_def Let_def join_path_def
      demo_http_message_def c_bytes_def strlcpy_text_def c_string_def)

theorem http_delivery_request_witness:
  "\<exists>h1. h1 = Some (http_request_of demo_http_ctx (c_bytes ''https://h/in/t/a'') demo_http_message) \<and>
     http_op_deliver busy_http demo_http_ctx None demo_http_message = (DELIVERY_RETRYABLE_FAILURE, 503, h1)"
proof -
  have "http_outcome (ht_config demo_http_ctx) 503 = DELIVERY_RETRYABLE_FAILURE"
    by (simp add: http_outcome_def default_classify_def demo_http_ctx_def http_transport_create_def demo_http_config_def Let_def)
  then show ?thesis
    using http_delivery_request [where ctx = demo_http_ctx and msg = demo_http_message and h = None, OF busy_http_laws]
    by (simp add: demo_http_url busy_http_def)
qed

text \<open>TLS verification is never switched off by omission: a transport created for an https URL
  verifies the server with the given certificate or the bundled ones in every request.\<close>

theorem http_tls_verified:
  assumes "http_transport_create config out_valid allocated = (ESP_OK, Some ctx)"
    and "take 8 (ht_base_url ctx) = c_bytes ''https://''"
  shows "cc_cert_pem (http_client_cfg ctx url) \<noteq> None \<or> cc_crt_bundle_attach (http_client_cfg ctx url)"
proof -
  have "hc_cert_pem (ht_config ctx) \<noteq> None \<or> hc_use_cert_bundle (ht_config ctx)"
    by (rule http_create_fields [OF assms(1)]) (use assms(2) in blast)
  then show ?thesis by (auto simp: http_client_cfg_def Let_def)
qed

theorem http_tls_verified_witness:
  "cc_crt_bundle_attach (http_client_cfg demo_http_ctx [])"
proof -
  have b: "ht_base_url demo_http_ctx = c_bytes ''https://h/in''"
    by (simp add: demo_http_ctx_def http_transport_create_def demo_http_config_def Let_def c_bytes_def strlcpy_text_def c_string_def)
  have p: "cc_cert_pem (http_client_cfg demo_http_ctx []) = None"
    by (simp add: demo_http_ctx_def http_transport_create_def demo_http_config_def http_client_cfg_def Let_def)
  show ?thesis
    using http_tls_verified [OF demo_http_create, of "[]"] unfolding b by (simp add: p c_bytes_def)
qed



end
