(* ===== verification/ES_Core.thy ===== *)
theory ES_Core
  imports ES_Dispatch ES_Http
begin

text \<open>
  \<open>edgesync.c\<close> and \<open>edgesync_transport.c\<close>: the public operations, which wire storage, transport,
  queue and worker together.  A handle is the record \<open>core\<close>; the storage context lives in its
  queue, which points to the same object in C.
\<close>

section \<open>The choice of the transport\<close>

datatype ('h, 'u) any_transport = Http_Transport http_ctx 'h | Custom_Transport (custom_transport: 'u)

definition wrapped_http_ops :: "'h http_lib \<Rightarrow> ('h, 'u) any_transport transport_ops" where
  "wrapped_http_ops L =
     \<lparr>tr_init = Some (\<lambda>t. case t of Http_Transport ctx h \<Rightarrow> (case http_op_init h of (err, h) \<Rightarrow> (err, Http_Transport ctx h))
        | _ \<Rightarrow> (ESP_OK, t)),
      tr_deliver = (\<lambda>t m. case t of
          Http_Transport ctx h \<Rightarrow> (case http_op_deliver L ctx h m of (r, st, h) \<Rightarrow> (r, st, Http_Transport ctx h))
        | _ \<Rightarrow> (DELIVERY_RETRYABLE_FAILURE, 0, t)),
      tr_close = Some (\<lambda>t. case t of Http_Transport ctx h \<Rightarrow> (case http_op_close h of (err, h) \<Rightarrow> (err, Http_Transport ctx h))
        | _ \<Rightarrow> (ESP_OK, t))\<rparr>"

definition wrap_transport :: "'u transport_ops \<Rightarrow> ('h, 'u) any_transport transport_ops" where
  "wrap_transport T =
     \<lparr>tr_init = map_option (\<lambda>f t. case f (custom_transport t) of (err, u) \<Rightarrow> (err, Custom_Transport u)) (tr_init T),
      tr_deliver = (\<lambda>t m. case tr_deliver T (custom_transport t) m of (r, st, u) \<Rightarrow> (r, st, Custom_Transport u)),
      tr_close = map_option (\<lambda>f t. case f (custom_transport t) of (err, u) \<Rightarrow> (err, Custom_Transport u)) (tr_close T)\<rparr>"

section \<open>State\<close>

record ('p, 'n, 'u, 't) config =
  cf_storage :: "('p, 'n, 'u) storage_config"
  cf_max_queue_size :: u32
  cf_max_storage_bytes :: u32
  cf_max_message_size :: u32
  cf_overflow_policy :: overflow_policy
  cf_retry_initial_ms :: u32
  cf_retry_max_ms :: u32
  cf_retry_multiplier :: u32
  cf_retry_jitter :: bool
  cf_retry_max_attempts :: u32
  cf_transport_ops :: "'t transport_ops option"
  cf_transport_ctx :: 't
  cf_http :: http_config
  cf_task_stack_size :: u32
  cf_task_priority :: u32
  cf_task_core_id :: int
  cf_event_cb :: bool

record ('p, 'n, 'u, 'h, 't) core =
  co_config :: "('p, 'n, 'u, 't) config"
  co_transport_ops :: "('h, 't) any_transport transport_ops"
  co_transport_ctx :: "('h, 't) any_transport"
  co_queue :: "('p, 'n, 'u) any_ctx queue"
  co_worker :: "worker option"
  co_retry_cfg :: retry_config
  co_max_message_size :: u32
  co_started :: bool

text \<open>\<open>EDGESYNC_DEFAULT_CONFIG\<close>; the two contexts are null pointers there.\<close>

definition zero_http_config :: http_config where
  "zero_http_config = \<lparr>hc_url = None, hc_no_append_destination = False, hc_timeout_ms = 0, hc_content_type = None,
     hc_idempotency_header = None, hc_auth_header_name = None, hc_auth_header_value = None, hc_extra_header_names = [],
     hc_extra_header_values = [], hc_extra_header_count = 0, hc_use_cert_bundle = False, hc_cert_pem = None,
     hc_skip_cert_common_name_check = False, hc_classify_status = None\<rparr>"

definition edgesync_default_config :: "'u \<Rightarrow> 't \<Rightarrow> int \<Rightarrow> ('p, 'n, 'u, 't) config" where
  "edgesync_default_config null_storage null_transport tskNO_AFFINITY =
     \<lparr>cf_storage = \<lparr>sc_storage = EDGESYNC_STORAGE_FLASHQ, sc_partition_label = None, sc_nvs_namespace = None,
        sc_storage_ops = None, sc_storage_ctx = null_storage\<rparr>,
      cf_max_queue_size = 0, cf_max_storage_bytes = 0, cf_max_message_size = 0,
      cf_overflow_policy = OVERFLOW_REJECT_NEW, cf_retry_initial_ms = 0, cf_retry_max_ms = 0, cf_retry_multiplier = 0,
      cf_retry_jitter = True, cf_retry_max_attempts = 0, cf_transport_ops = None, cf_transport_ctx = null_transport,
      cf_http = zero_http_config, cf_task_stack_size = 0, cf_task_priority = 0, cf_task_core_id = tskNO_AFFINITY,
      cf_event_cb = False\<rparr>"

abbreviation (input) CONFIG_EDGESYNC_MAX_QUEUE_SIZE :: u32 where "CONFIG_EDGESYNC_MAX_QUEUE_SIZE \<equiv> 256"
abbreviation (input) CONFIG_EDGESYNC_MAX_MESSAGE_SIZE :: u32 where "CONFIG_EDGESYNC_MAX_MESSAGE_SIZE \<equiv> 2048"
abbreviation (input) CONFIG_EDGESYNC_DEFAULT_RETRY_INITIAL_MS :: u32 where "CONFIG_EDGESYNC_DEFAULT_RETRY_INITIAL_MS \<equiv> 1000"
abbreviation (input) CONFIG_EDGESYNC_DEFAULT_RETRY_MAX_MS :: u32 where "CONFIG_EDGESYNC_DEFAULT_RETRY_MAX_MS \<equiv> 300000"
abbreviation (input) CONFIG_EDGESYNC_TASK_STACK_SIZE :: u32 where "CONFIG_EDGESYNC_TASK_STACK_SIZE \<equiv> 4096"
abbreviation (input) CONFIG_EDGESYNC_TASK_PRIORITY :: u32 where "CONFIG_EDGESYNC_TASK_PRIORITY \<equiv> 5"

section \<open>Transport creation\<close>

definition transport_create ::
  "'h http_lib \<Rightarrow> 'h \<Rightarrow> bool \<Rightarrow> ('p, 'n, 'u, 't) config \<Rightarrow>
   esp_err \<times> (('h, 't) any_transport transport_ops \<times> ('h, 't) any_transport) option" where
  "transport_create L net allocated config =
     (case cf_transport_ops config of
        Some T \<Rightarrow> (ESP_OK, Some (wrap_transport T, Custom_Transport (cf_transport_ctx config)))
      | None \<Rightarrow>
          (case http_transport_create (Some (cf_http config)) True allocated of
             (err, ctx) \<Rightarrow> (err, map_option (\<lambda>c. (wrapped_http_ops L, Http_Transport c net)) ctx)))"

definition transport_destroy :: "'t transport_ops \<Rightarrow> 't \<Rightarrow> 't" where
  "transport_destroy T t = (case tr_close T of Some f \<Rightarrow> snd (f t) | None \<Rightarrow> t)"

section \<open>Initialisation\<close>

definition core_retry_cfg :: "('p, 'n, 'u, 't) config \<Rightarrow> retry_config" where
  "core_retry_cfg config =
     retry_apply_defaults \<lparr>initial_delay_ms = cf_retry_initial_ms config, max_delay_ms = cf_retry_max_ms config,
         multiplier = cf_retry_multiplier config, jitter = cf_retry_jitter config,
         max_attempts = cf_retry_max_attempts config\<rparr>
       CONFIG_EDGESYNC_DEFAULT_RETRY_INITIAL_MS CONFIG_EDGESYNC_DEFAULT_RETRY_MAX_MS 2"

definition effective :: "u32 \<Rightarrow> u32 \<Rightarrow> u32" where
  "effective configured default_value = (if configured \<noteq> 0 then configured else default_value)"

text \<open>
  The result of \<open>edgesync_init\<close>: a handle, or an error and what is left of the storage and of the
  transport after the clean-up of that error path.
\<close>

datatype ('s, 't, 'c) init_result = Init_Ok 'c | Init_Failed esp_err "'s option" "'t option"

text \<open>
  \<open>edgesync_init\<close>.  \<open>net\<close> is the initial state of the HTTP client library; the platform says
  whether allocations succeed, all of them or none.
\<close>

definition edgesync_init ::
  "('p, 'n) platform \<Rightarrow> 'h http_lib \<Rightarrow> 'h \<Rightarrow> ('p, 'n, 'u, 't) config option \<Rightarrow> bool \<Rightarrow>
   (('p, 'n, 'u) any_ctx, ('h, 't) any_transport, ('p, 'n, 'u, 'h, 't) core) init_result" where
  "edgesync_init pf L net config out_valid =
     (case config of
        None \<Rightarrow> Init_Failed ESP_ERR_INVALID_ARG None None
      | Some cfg \<Rightarrow>
          if \<not> out_valid then Init_Failed ESP_ERR_INVALID_ARG None None
          else if \<not> pf_allocates pf then Init_Failed ESP_ERR_NO_MEM None None
          else
            let max_queue_size = effective (cf_max_queue_size cfg) CONFIG_EDGESYNC_MAX_QUEUE_SIZE;
                max_message_size = effective (cf_max_message_size cfg) CONFIG_EDGESYNC_MAX_MESSAGE_SIZE
            in case storage_create pf (cf_storage cfg) max_queue_size max_message_size of
                 (err, None) \<Rightarrow> Init_Failed err None None
               | (err, Some (ops, sctx)) \<Rightarrow>
                   (case transport_create L net (pf_allocates pf) cfg of
                      (err, None) \<Rightarrow> Init_Failed err (Some (storage_destroy ops sctx)) None
                    | (err, Some (T, t)) \<Rightarrow>
                        let (err, t) = (case tr_init T of Some f \<Rightarrow> f t | None \<Rightarrow> (ESP_OK, t))
                        in if err \<noteq> ESP_OK
                           then Init_Failed err (Some (storage_destroy ops sctx)) (Some (transport_destroy T t))
                           else
                             (case queue_create (Some \<lparr>qc_storage_ops = Some ops, qc_storage_ctx = sctx,
                                     qc_overflow_policy = cf_overflow_policy cfg, qc_event_cb = cf_event_cb cfg\<rparr>)
                                   True (pf_allocates pf) (pf_mutexes pf) of
                                (err, None) \<Rightarrow> Init_Failed err (Some (storage_destroy ops sctx)) (Some (transport_destroy T t))
                              | (err, Some q) \<Rightarrow>
                                  let (err, q) = queue_recover q
                                  in if err \<noteq> ESP_OK
                                     then Init_Failed err (Some (storage_destroy ops (q_storage_ctx q))) (Some (transport_destroy T t))
                                     else Init_Ok \<lparr>co_config = cfg, co_transport_ops = T, co_transport_ctx = t,
                                            co_queue = q, co_worker = None, co_retry_cfg = core_retry_cfg cfg,
                                            co_max_message_size = max_message_size, co_started = False\<rparr>)))"

section \<open>Start, stop, publish\<close>

text \<open>A handle that may be \<open>NULL\<close> is an option.  The flags of \<open>start\<close> are those of \<open>worker_start\<close>.\<close>

definition edgesync_start ::
  "('p, 'n, 'u, 'h, 't) core option \<Rightarrow> bool \<Rightarrow> bool \<Rightarrow> bool \<Rightarrow> esp_err \<times> ('p, 'n, 'u, 'h, 't) core option" where
  "edgesync_start handle allocated sem_created task_created =
     (case handle of
        None \<Rightarrow> (EDGESYNC_ERR_NOT_INITIALIZED, None)
      | Some h \<Rightarrow>
          if co_started h then (EDGESYNC_ERR_ALREADY_STARTED, Some h)
          else
            let cfg = co_config h;
                wcfg = \<lparr>wc_retry_cfg = co_retry_cfg h, wc_event_cb = cf_event_cb cfg,
                  wc_task_stack_size = effective (cf_task_stack_size cfg) CONFIG_EDGESYNC_TASK_STACK_SIZE,
                  wc_task_priority = effective (cf_task_priority cfg) CONFIG_EDGESYNC_TASK_PRIORITY,
                  wc_task_core_id = cf_task_core_id cfg\<rparr>
            in case worker_start (Some wcfg) True True allocated sem_created task_created (co_queue h) of
                 (err, w, q) \<Rightarrow>
                   if err \<noteq> ESP_OK then (err, Some h)
                   else (ESP_OK, Some (h\<lparr>co_queue := q, co_worker := w, co_started := True\<rparr>)))"

record publish_options =
  po_message_id :: message_id
  po_priority :: u8

definition publish_message ::
  "message_id \<Rightarrow> byte list \<Rightarrow> publish_options option \<Rightarrow> i64 \<Rightarrow> byte list \<Rightarrow> message" where
  "publish_message mid destination options now_us payload =
     \<lparr>m_id = mid, m_destination = c_string destination,
      m_priority = (case options of Some o' \<Rightarrow> po_priority o' | None \<Rightarrow> EDGESYNC_PRIORITY_NORMAL),
      m_state = MSG_PENDING, m_attempt_count = 0, m_created_at_us = now_us, m_last_attempt_at_us = 0,
      m_next_retry_at_us = 0, m_last_error = ESP_OK, m_payload = payload\<rparr>"

text \<open>The identifier: the caller's, or a new one, if the generator ever delivers one.\<close>

definition choose_id :: "publish_options option \<Rightarrow> (nat \<Rightarrow> u64) \<Rightarrow> nat \<Rightarrow> (message_id \<times> nat) option" where
  "choose_id options rng k =
     (case options of
        Some o' \<Rightarrow> if po_message_id o' \<noteq> EDGESYNC_MESSAGE_ID_INVALID then Some (po_message_id o', k) else id_generate rng k
      | None \<Rightarrow> id_generate rng k)"

text \<open>
  \<open>edgesync_publish\<close>: \<open>None\<close> when the identifier generator never returns, otherwise the result, the
  handle, the events, whether the worker is woken and the position in the random stream.
  \<open>data\<close> is the memory the pointer refers to.
\<close>

definition edgesync_publish ::
  "('p, 'n, 'u, 'h, 't) core option \<Rightarrow> byte list option \<Rightarrow> byte list option \<Rightarrow> nat \<Rightarrow> publish_options option \<Rightarrow>
   i64 \<Rightarrow> (nat \<Rightarrow> u64) \<Rightarrow> nat \<Rightarrow> event list \<Rightarrow>
   (esp_err \<times> ('p, 'n, 'u, 'h, 't) core option \<times> event list \<times> bool \<times> nat) option" where
  "edgesync_publish handle destination data data_len options now_us rng k tr =
     (case handle of
        None \<Rightarrow> Some (EDGESYNC_ERR_NOT_INITIALIZED, None, tr, False, k)
      | Some h \<Rightarrow>
          if \<not> co_started h then Some (EDGESYNC_ERR_NOT_INITIALIZED, Some h, tr, False, k)
          else
            (case destination of
               None \<Rightarrow> Some (ESP_ERR_INVALID_ARG, Some h, tr, False, k)
             | Some dest \<Rightarrow>
                 if data_len > 0 \<and> data = None then Some (ESP_ERR_INVALID_ARG, Some h, tr, False, k)
                 else
                   let dest_len = length (c_string dest)
                   in if dest_len = 0 \<or> dest_len > EDGESYNC_MAX_DESTINATION_LEN \<or> data_len > unat (co_max_message_size h)
                      then Some (EDGESYNC_ERR_MESSAGE_TOO_LARGE, Some h, tr, False, k)
                      else
                        (case choose_id options rng k of
                           None \<Rightarrow> None
                         | Some (mid, k) \<Rightarrow>
                             let payload = take data_len (case data of Some bs \<Rightarrow> bs | None \<Rightarrow> []);
                                 (err, q, tr, woken) = queue_publish (co_queue h)
                                   (publish_message mid dest options now_us payload) tr
                             in Some (err, Some (h\<lparr>co_queue := q\<rparr>), tr, woken, k))))"

definition edgesync_stop :: "('p, 'n, 'u, 'h, 't) core option \<Rightarrow> esp_err \<times> ('p, 'n, 'u, 'h, 't) core option" where
  "edgesync_stop handle =
     (case handle of
        None \<Rightarrow> (EDGESYNC_ERR_NOT_INITIALIZED, None)
      | Some h \<Rightarrow>
          if \<not> co_started h then (EDGESYNC_ERR_INVALID_STATE, Some h)
          else
            let q = (case co_worker h of Some w \<Rightarrow> snd (worker_stop w (co_queue h)) | None \<Rightarrow> co_queue h)
            in (ESP_OK, Some (h\<lparr>co_queue := q, co_worker := None, co_started := False\<rparr>)))"

text \<open>\<open>edgesync_deinit\<close>: what is left of the storage and the transport, closed.\<close>

definition edgesync_deinit ::
  "('p, 'n, 'u, 'h, 't) core option \<Rightarrow>
   esp_err \<times> ('p, 'n, 'u, 'h, 't) core option \<times> (('p, 'n, 'u) any_ctx \<times> ('h, 't) any_transport) option" where
  "edgesync_deinit handle =
     (case handle of
        None \<Rightarrow> (EDGESYNC_ERR_NOT_INITIALIZED, None, None)
      | Some h \<Rightarrow>
          if co_started h then (EDGESYNC_ERR_INVALID_STATE, Some h, None)
          else (ESP_OK, None, Some (storage_destroy (q_storage_ops (co_queue h)) (q_storage_ctx (co_queue h)),
                  transport_destroy (co_transport_ops h) (co_transport_ctx h))))"

definition edgesync_get_stats :: "('p, 'n, 'u, 'h, 't) core option \<Rightarrow> bool \<Rightarrow> esp_err \<times> stats option" where
  "edgesync_get_stats handle stats_valid =
     (case handle of
        None \<Rightarrow> (EDGESYNC_ERR_NOT_INITIALIZED, None)
      | Some h \<Rightarrow>
          if \<not> stats_valid then (ESP_ERR_INVALID_ARG, None)
          else (case queue_get_stats (co_queue h) of (err, st) \<Rightarrow> (err, Some st)))"

end
