(* ===== verification/Flashq_Atomic.thy ===== *)
theory Flashq_Atomic
  imports Flashq_Crash
begin

text \<open>
  Interrupted state changes: a delivery confirmation, a removal, a retry and a claim either
  happened or did not, whatever the device did during the operation and after it.
\<close>

section \<open>Appending an update record\<close>

text \<open>
  The bytes behind the cursor decode as a record that was not written: \<open>collides\<close> for the
  record an update of \<open>e\<close> appends at the cursor of \<open>c\<close>.
\<close>

definition stray_update :: "('p \<Rightarrow> mem) \<Rightarrow> 'p flashq_ctx \<Rightarrow> message_id \<Rightarrow> u8 \<Rightarrow> u32 \<Rightarrow> i64 \<Rightarrow> i64 \<Rightarrow> esp_err \<Rightarrow> bool" where
  "stray_update cells c mid st att last_us next_us er \<longleftrightarrow>
     collides (cells (partition c)) (active_base c) (region_size c) (cursor c)
       (update_rec mid st att last_us next_us er (next_seq c)) []"

lemma reserve_append_crash:
  assumes laws: "flash_laws F cells" and inv: "inv_core cells sz c" and gen: "generation_ok c"
    and old: "flashq_inv cells sz (c\<lparr>index := idx\<rparr>)" and diff: "differ_at pos idx (index c)"
    and clean: "flashq_clean cells c" and pos: "pos < length (index c)"
    and st: "live_state st \<or> st = STATE_DELIVERED \<or> st = STATE_REMOVED"
    and 1: "ensure_space_locked F c (record_total_size 0 0) = (e1, c1)"
    and 2: "append_locked F c1 (encoded (encode_update (scratch_size c1) (e_id (index c ! pos)) st att
              last_us next_us er (next_seq c1))) = (e2, c2)"
    and end_: "p = partition (if e1 = ESP_OK then c2 else c1)"
    and no: "e1 = ESP_OK \<Longrightarrow> e2 \<noteq> ESP_OK \<Longrightarrow> \<not> stray_update cells c2 (e_id (index c ! pos)) st att last_us next_us er"
  shows "survives cells sz c p (contents cells (c\<lparr>index := idx\<rparr>)) \<or> survives cells sz c p (contents cells c) \<or>
    survives cells sz c p (with_update (contents cells c) (e_id (index c ! pos)) st att last_us next_us er)"
proof -
  have li: "length idx = length (index c)" using diff by (simp add: differ_at_def)
  show ?thesis
  proof (cases "e1 = ESP_OK")
    case False
    then show ?thesis using ensure_space_crash(1) [OF laws inv gen old li clean 1 False] end_ by auto
  next
    case True
    note R = ensure_space_spec [OF laws inv gen 1 [unfolded True]]
    obtain idx1 where A: "flashq_inv cells sz (c1\<lparr>index := idx1\<rparr>)" "differ_at pos idx1 (index c1)" "tail_blank cells c1"
      "contents cells (c1\<lparr>index := idx1\<rparr>) = contents cells (c\<lparr>index := idx\<rparr>) \<or>
       contents cells (c1\<lparr>index := idx1\<rparr>) = contents cells c"
      "same_config c1 c" "unat (active_generation c1) \<le> unat (active_generation c) + 1"
      "log_is cells c1 idx1 (awaiting_gc_count c1)"
      by (rule after_room [OF laws inv gen old diff clean 1 [unfolded True]])
    obtain off where off: "index c1 ! pos = (index c ! pos)\<lparr>e_message_offset := off\<rparr>"
      by (rule moved_nth [OF R(2) pos])
    have f: "e_id (index c1 ! pos) = e_id (index c ! pos)" by (simp add: off)
    have li1: "length (index c1) = length (index c)" by (rule moved_length [OF R(2)])
    have pos1: "pos < length (index c1)" using pos li1 by simp
    have room: "cursor c1 + 68 \<le> region_size c1" using R(3) by simp
    note U = update_append_crash [OF laws R(1) A(1,7,2,3) pos1 room st A(5,6) li1 2 [folded f]]
    have "\<not> collides (cells (partition c2)) (active_base c1) (region_size c1) (cursor c1)
        (update_rec (e_id (index c1 ! pos)) st att last_us next_us er (next_seq c1)) []" if "e2 \<noteq> ESP_OK"
    proof -
      obtain bs where bs: "length bs = 68" "append_locked F c1 bs = (e2, c2)"
        using 2 update_encoded [OF inv_coreD(12) [OF R(1)]] by metis
      have "frame c1 c2" using bs(2) that partition_write_verify_spec(1) [OF laws]
        by (auto simp: append_locked_def split: prod.splits if_splits)
      then show ?thesis using no [OF True that]
        by (simp add: stray_update_def f frame_fields frame_region_offset)
    qed
    then show ?thesis using U A(4) end_ True R(6) f by auto
  qed
qed

lemma append_state_update_crash:
  assumes laws: "flash_laws F cells" and inv: "inv_core cells sz c" and gen: "generation_ok c"
    and old: "flashq_inv cells sz (c\<lparr>index := idx\<rparr>)" and diff: "differ_at pos idx (index c)"
    and clean: "flashq_clean cells c" and pos: "pos < length (index c)"
    and st: "live_state st \<or> st = STATE_DELIVERED \<or> st = STATE_REMOVED"
    and run: "append_state_update_locked F c pos st = (err, c')"
  defines "e \<equiv> index c ! pos"
  assumes no: "err \<noteq> ESP_OK \<Longrightarrow> \<not> stray_update cells c' (e_id e) st (e_attempt_count e) (e_last_attempt_at_us e)
      (e_next_retry_at_us e) (e_last_error e)"
  shows "survives cells sz c (partition c') (contents cells (c\<lparr>index := idx\<rparr>)) \<or>
    survives cells sz c (partition c') (contents cells c) \<or>
    survives cells sz c (partition c') (with_update (contents cells c) (e_id e) st (e_attempt_count e)
      (e_last_attempt_at_us e) (e_next_retry_at_us e) (e_last_error e))"
proof -
  obtain e1 c1 where 1: "ensure_space_locked F c (record_total_size 0 0) = (e1, c1)" by (metis prod.exhaust)
  obtain e2 c2 where 2: "append_locked F c1 (encoded (encode_update (scratch_size c1) (e_id e) st (e_attempt_count e)
      (e_last_attempt_at_us e) (e_next_retry_at_us e) (e_last_error e) (next_seq c1))) = (e2, c2)"
    by (metis prod.exhaust)
  have f: "index c1 ! pos = e\<lparr>e_message_offset := e_message_offset (index c1 ! pos)\<rparr>" if "e1 = ESP_OK"
    using moved_nth [OF ensure_space_spec(2) [OF laws inv gen 1 [unfolded that]] pos] unfolding e_def
    by (metis index_entry.select_convs(7) index_entry.surjective index_entry.update_convs(7))
  have ff: "e_id (index c1 ! pos) = e_id e \<and> e_attempt_count (index c1 ! pos) = e_attempt_count e \<and>
      e_last_attempt_at_us (index c1 ! pos) = e_last_attempt_at_us e \<and>
      e_next_retry_at_us (index c1 ! pos) = e_next_retry_at_us e \<and> e_last_error (index c1 ! pos) = e_last_error e"
    if "e1 = ESP_OK" by (subst (1 2 3 4 5) f [OF that]) simp
  have res: "partition c' = partition (if e1 = ESP_OK then c2 else c1) \<and>
      (e1 = ESP_OK \<longrightarrow> e2 \<noteq> ESP_OK \<longrightarrow> err = e2 \<and> c' = c2)"
    using run ff by (auto simp: append_state_update_locked_def Let_def 1 2 simp del: record_total_size_0 split: if_splits)
  show ?thesis unfolding e_def
    by (rule reserve_append_crash [OF laws inv gen old diff clean pos st 1 2 [unfolded e_def]])
      (use res no in \<open>auto simp: e_def\<close>)
qed

section \<open>The operations\<close>

text \<open>In terms of the stored message, which carries the fields of the index entry.\<close>

abbreviation stray_state :: "('p \<Rightarrow> mem) \<Rightarrow> 'p flashq_ctx \<Rightarrow> message \<Rightarrow> u8 \<Rightarrow> bool" where
  "stray_state cells c msg st \<equiv> stray_update cells c (m_id msg) st (m_attempt_count msg)
     (m_last_attempt_at_us msg) (m_next_retry_at_us msg) (m_last_error msg)"

lemma unchanged_survives:
  assumes "flashq_inv cells sz c" "flashq_clean cells c"
  shows "survives cells sz c (partition c) (contents cells c)"
proof -
  have "tail_blank cells c" using assms(2) by (simp add: flashq_clean_def)
  from survivesI [OF assms(1)] tail_stops [OF this] show ?thesis by (simp add: same_config_def)
qed

lemma retire_crash:
  assumes laws: "flash_laws F cells" and inv: "flashq_inv cells sz c" and clean: "flashq_clean cells c"
    and gen: "generation_ok c" and st: "st = STATE_DELIVERED \<or> st = STATE_REMOVED"
    and run: "retire_entry F c mid st = (err, c')"
    and no: "err \<noteq> ESP_OK \<Longrightarrow> contents cells c mid = Some msg \<Longrightarrow> \<not> stray_state cells c' msg st"
    and msg: "mid \<in> dom (contents cells c) \<Longrightarrow> contents cells c mid = Some msg"
  shows "survives cells sz c (partition c') (contents cells c) \<or>
    survives cells sz c (partition c') ((contents cells c)(mid := None))"
proof (cases "find_entry (index c) mid")
  case None
  then have "c' = c" using run by (simp add: retire_entry_def)
  then show ?thesis using unchanged_survives [OF inv clean] by simp
next
  case (Some pos)
  have core: "inv_core cells sz c" using inv by (simp add: flashq_inv_def)
  note C = find_contents [OF core Some]
  let ?e = "index c ! pos"
  have m: "msg = stored (cells (partition c)) (active_base c) ?e" using msg C(3) by auto
  obtain e1 c1 where 1: "append_state_update_locked F c pos st = (e1, c1)" by (metis prod.exhaust)
  have p: "partition c' = partition c1" and bad: "e1 \<noteq> ESP_OK \<longrightarrow> err = e1 \<and> c' = c1"
    using run Some 1 by (auto simp: retire_entry_def split: if_splits)
  have "\<not> stray_update cells c1 (e_id ?e) st (e_attempt_count ?e) (e_last_attempt_at_us ?e)
      (e_next_retry_at_us ?e) (e_last_error ?e)" if "e1 \<noteq> ESP_OK"
    using no bad that C(3) m by (simp add: stored_def)
  from append_state_update_crash [OF laws core gen _ differ_at_refl clean C(1) _ 1 this] st inv
  show ?thesis using C(2) p by (auto simp: with_update_def)
qed

text \<open>
  A retry changes the time and the error of the entry in memory first; a compaction that was
  completed before the update record was written has then stored these two alone.
\<close>

lemma retry_crash:
  assumes laws: "flash_laws F cells" and inv: "flashq_inv cells sz c" and clean: "flashq_clean cells c"
    and gen: "generation_ok c" and msg: "contents cells c mid = Some msg"
    and run: "op_schedule_retry F c mid next_us dead er = (err, c')"
    and no: "err \<noteq> ESP_OK \<Longrightarrow> \<not> stray_state cells c' (retried msg next_us dead er)
      (if dead then STATE_DEAD_LETTER else STATE_PENDING)"
  shows "survives cells sz c (partition c') (contents cells c) \<or>
    survives cells sz c (partition c') ((contents cells c)
      (mid \<mapsto> (retried msg next_us dead er)\<lparr>m_state := m_state msg\<rparr>)) \<or>
    survives cells sz c (partition c') ((contents cells c)(mid \<mapsto> retried msg next_us dead er))"
proof -
  have core: "inv_core cells sz c" and log: "log_is cells c (index c) (awaiting_gc_count c)"
    using inv by (simp_all add: flashq_inv_def)
  obtain pos where f: "find_entry (index c) mid = Some pos"
    using msg find_None_contents [of c mid cells] by (cases "find_entry (index c) mid") auto
  note C = find_contents [OF core f]
  let ?e = "index c ! pos"
  let ?next = "if dead then 0 else next_us" and ?st = "if dead then STATE_DEAD_LETTER else STATE_PENDING"
  let ?e1 = "?e\<lparr>e_next_retry_at_us := ?next, e_last_error := er\<rparr>"
  let ?c0 = "c\<lparr>index := (index c)[pos := ?e1]\<rparr>"
  have m: "msg = stored (cells (partition c)) (active_base c) ?e" using msg C(3) by simp
  have e1: "?e1 = updated ?e (e_state ?e) (e_attempt_count ?e) (e_last_attempt_at_us ?e) ?next er"
    by (simp add: updated_def)
  have run0: "append_state_update_locked F ?c0 pos ?st = (err, c')"
    using run f by (simp add: op_schedule_retry_def Let_def)
  have live: "live_state (e_state ?e)" using inv_coreD(6) [OF core] C(1) by simp
  have core0: "inv_core cells sz ?c0"
    using live by (intro inv_core_update [OF core C(1)]) (simp_all add: same_message_def)
  have diff: "differ_at pos (index c) (index ?c0)" using C(1) by (simp add: differ_at_def same_message_def)
  have con0: "contents cells ?c0 = (contents cells c)(mid \<mapsto> msg\<lparr>m_next_retry_at_us := ?next, m_last_error := er\<rparr>)"
    unfolding e1 contents_updated [OF core C(1)] C(2) C(3) m by (simp add: stored_def)
  have same: "survives cells sz ?c0 p q = survives cells sz c p q" for p q
    by (simp add: survives_def same_config_def)
  have clean0: "flashq_clean cells ?c0" "generation_ok ?c0"
    using clean gen by (simp_all add: flashq_clean_def tail_blank_def region_offset_def generation_ok_def)
  have idx0: "?c0\<lparr>index := index c\<rparr> = c" by simp
  have pos0: "pos < length (index ?c0)" using C(1) by simp
  have idpos: "index ?c0 ! pos = ?e1" using C(1) by simp
  have st: "live_state ?st" by (simp add: live_state_def)
  have n: "\<not> stray_update cells c' (e_id (index ?c0 ! pos)) ?st (e_attempt_count (index ?c0 ! pos))
      (e_last_attempt_at_us (index ?c0 ! pos)) (e_next_retry_at_us (index ?c0 ! pos)) (e_last_error (index ?c0 ! pos))"
    if "err \<noteq> ESP_OK"
    unfolding idpos using no [OF that] C(2) by (simp add: m retried_def stored_def)
  have "flashq_inv cells sz (?c0\<lparr>index := index c\<rparr>)" using inv by simp
  from append_state_update_crash [OF laws core0 clean0(2) this diff clean0(1) pos0 _ run0 n] st
  have "survives cells sz c (partition c') (contents cells c) \<or>
      survives cells sz c (partition c') (contents cells ?c0) \<or>
      survives cells sz c (partition c') (with_update (contents cells ?c0) mid ?st (e_attempt_count ?e)
        (e_last_attempt_at_us ?e) ?next er)"
    unfolding idpos idx0 same using C(2) by simp
  moreover have "with_update (contents cells ?c0) mid ?st (e_attempt_count ?e) (e_last_attempt_at_us ?e) ?next er =
      (contents cells c)(mid \<mapsto> retried msg next_us dead er)"
    unfolding con0 by (simp add: with_update_def retried_def m stored_def state_of_def)
  moreover have "contents cells ?c0 = (contents cells c)(mid \<mapsto> (retried msg next_us dead er)\<lparr>m_state := m_state msg\<rparr>)"
    unfolding con0 by (simp add: retried_def)
  ultimately show ?thesis by simp
qed

text \<open>A claim on a device that reads reaches the write of its update record.\<close>

lemma claim_commits:
  assumes laws: "flash_laws F cells" and ro: "reads_ok F sz" and inv: "flashq_inv cells sz c"
    and sel: "claim_select now_us (index c) = Some pos" and run: "op_claim_next F c now_us = (err, r, c')"
  obtains c1 raw where "frame c c1" "cells (partition c1) = cells (partition c)"
    "claim_commit F (c1\<lparr>claim_scratch := raw\<rparr>) now_us pos = (err, r, c')"
proof -
  have core: "inv_core cells sz c" using inv by (simp add: flashq_inv_def)
  have pos: "pos < length (index c)"
    using select_loop_bound sel unfolding claim_select_def by blast
  let ?e = "index c ! pos"
  let ?n = "HDR_SIZE + (entry_dlen ?e + entry_plen ?e) + 4"
  have "entry_fits (cells (partition c)) (active_base c) (region_size c) (scratch_size c) ?e"
    using inv_coreD(7) [OF core] pos by (simp add: compact_ready_def)
  then have cap: "?n \<le> scratch_size c" using entry_size_ge [of ?e] by (simp add: entry_fits_def)
  obtain rr c1 where rd: "flash_read F c (active_base c + e_message_offset ?e) ?n = (rr, c1)" by (metis prod.exhaust)
  obtain raw h where h: "rr = Some raw" "decode_header raw = Some h" "verify_body h (drop HDR_SIZE raw)"
    by (rule claim_intact [OF laws ro inv pos rd refl])
  note run' = run [unfolded op_claim_next_def sel option.case Let_def, folded entry_dlen_def entry_plen_def,
      unfolded buffer_use_fits [OF cap] rd prod.case]
  show thesis
    using that [OF flash_read_spec(1,2) [OF laws rd]] run' by (simp add: h)
qed

lemma claim_crash:
  assumes laws: "flash_laws F cells" and inv: "flashq_inv cells sz c" and clean: "flashq_clean cells c"
    and gen: "generation_ok c" and pos: "pos < length (index c)"
    and run: "claim_commit F c now_us pos = (err, r, c')"
  defines "msg \<equiv> stored (cells (partition c)) (active_base c) (index c ! pos)"
  assumes no: "err \<noteq> ESP_OK \<Longrightarrow> \<not> stray_state cells c' (claimed msg now_us) STATE_IN_FLIGHT"
  shows "survives cells sz c (partition c') (contents cells c) \<or>
    survives cells sz c (partition c') ((contents cells c)(m_id msg \<mapsto> claimed msg now_us))"
proof -
  have core: "inv_core cells sz c" using inv by (simp add: flashq_inv_def)
  let ?e = "index c ! pos"
  have msg: "contents cells c (e_id ?e) = Some msg" unfolding msg_def by (rule contents_nth [OF core pos])
  obtain e1 c1 where 1: "ensure_space_locked F c (record_total_size 0 0) = (e1, c1)" by (metis prod.exhaust)
  obtain e2 c2 where 2: "append_locked F c1 (encoded (encode_update (scratch_size c1) (e_id ?e) STATE_IN_FLIGHT
      (e_attempt_count ?e + 1) now_us (e_next_retry_at_us ?e) (e_last_error ?e) (next_seq c1))) = (e2, c2)"
    by (metis prod.exhaust)
  have f: "index c1 ! pos = ?e\<lparr>e_message_offset := e_message_offset (index c1 ! pos)\<rparr>" if "e1 = ESP_OK"
    using moved_nth [OF ensure_space_spec(2) [OF laws core gen 1 [unfolded that]] pos]
    by (metis index_entry.select_convs(7) index_entry.surjective index_entry.update_convs(7))
  have ff: "e_id (index c1 ! pos) = e_id ?e \<and> e_next_retry_at_us (index c1 ! pos) = e_next_retry_at_us ?e \<and>
      e_last_error (index c1 ! pos) = e_last_error ?e" if "e1 = ESP_OK"
    by (subst (1 2 3) f [OF that]) simp
  have res: "partition c' = partition (if e1 = ESP_OK then c2 else c1) \<and>
      (e1 = ESP_OK \<longrightarrow> e2 \<noteq> ESP_OK \<longrightarrow> err = e2 \<and> c' = c2)"
    using run ff
    by (auto simp: claim_commit_def Let_def 1 2 buffer_use_def simp del: record_total_size_0 split: if_splits)
  have "with_update (contents cells c) (e_id ?e) STATE_IN_FLIGHT (e_attempt_count ?e + 1) now_us
      (e_next_retry_at_us ?e) (e_last_error ?e) = (contents cells c)(e_id ?e \<mapsto> claimed msg now_us)"
    using msg claimed_alt [of msg] by (simp add: with_update_def msg_def stored_def state_of_def claimed_def)
  moreover have "survives cells sz c (partition c') (contents cells (c\<lparr>index := index c\<rparr>)) \<or>
      survives cells sz c (partition c') (contents cells c) \<or>
      survives cells sz c (partition c') (with_update (contents cells c) (e_id ?e) STATE_IN_FLIGHT
        (e_attempt_count ?e + 1) now_us (e_next_retry_at_us ?e) (e_last_error ?e))"
    by (rule reserve_append_crash [OF laws core gen _ differ_at_refl clean pos _ 1 2])
      (use inv res no in \<open>auto simp: live_state_def msg_def stored_def claimed_def\<close>)
  ultimately show ?thesis by (simp add: msg_def stored_def)
qed

section \<open>Collisions\<close>

abbreviation stray_message :: "('p \<Rightarrow> mem) \<Rightarrow> 'p flashq_ctx \<Rightarrow> message \<Rightarrow> bool" where
  "stray_message cells c msg \<equiv> collides (cells (partition c)) (active_base c) (region_size c) (cursor c)
     (message_rec msg (next_seq c)) (c_string (m_destination msg) @ m_payload msg)"

text \<open>Blank flash behind the cursor is never taken for a record.\<close>

lemma blank_no_collision:
  assumes "tail_blank cells c"
  shows "\<not> collides (cells (partition c)) (active_base c) (region_size c) (cursor c) h body"
proof
  assume "collides (cells (partition c)) (active_base c) (region_size c) (cursor c) h body"
  then obtain h' where h: "cursor c + HDR_SIZE \<le> region_size c"
    "decode_header (mem_read (cells (partition c)) (active_base c + cursor c) HDR_SIZE) = Some h'"
    by (auto simp: collides_def)
  have "mem_read (cells (partition c)) (active_base c + cursor c) HDR_SIZE = replicate HDR_SIZE 0xFF"
    using assms h(1) by (intro nth_equalityI) (simp_all add: tail_blank_def blank_area_def)
  then show False using h(2) blank_not_header by simp
qed

end
