(* ===== verification/Flashq_Example.thy ===== *)
theory Flashq_Example
  imports Flashq_Backend Flashq_Atomic
begin

text \<open>
  A concrete flash queue for the witnesses: an erased partition of six sectors, four messages of
  at most 32 payload bytes, opened, recovered and filled through the operations of the model.
\<close>

abbreviation (input) "flat \<equiv> \<lambda>m :: mem. m"
abbreviation (input) "nor \<equiv> nor_ops 24576"

definition demo_partitions :: "string \<Rightarrow> (mem \<times> nat) option" where
  "demo_partitions label = (if label = ''edgesync'' then Some (\<lambda>_. 0xFF, 24576) else None)"

definition demo_config :: flashq_config where
  "demo_config = \<lparr>fc_partition_label = None, fc_max_messages = 4, fc_max_message_size = 32\<rparr>"

definition demo_created :: "mem flashq_ctx" where
  "demo_created = the (snd (flashq_create (Some demo_config) True demo_partitions True True))"

definition demo_empty :: "mem flashq_ctx" where
  "demo_empty = snd (op_recover nor demo_created)"

definition demo_message :: message where
  "demo_message = \<lparr>m_id = 7, m_destination = [0x74, 0x2F, 0x61], m_priority = 1, m_state = MSG_PENDING,
     m_attempt_count = 0, m_created_at_us = 1000, m_last_attempt_at_us = 0, m_next_retry_at_us = 0,
     m_last_error = ESP_OK, m_payload = [1, 2, 3]\<rparr>"

definition demo_queued :: "mem flashq_ctx" where
  "demo_queued = snd (op_enqueue nor demo_empty demo_message)"

definition demo_claimed :: "mem flashq_ctx" where
  "demo_claimed = snd (snd (op_claim_next nor demo_queued 5000))"

lemma demo_create_run:
  "flashq_create (Some demo_config) True demo_partitions True True = (ESP_OK, Some demo_created)"
  by (simp add: demo_created_def flashq_create_def demo_config_def demo_partitions_def)

lemma demo_created_fields:
  "geometry 24576 demo_created" "index_capacity demo_created = 4" "scratch_size demo_created = 164"
  "region_size demo_created = 12288" "partition demo_created = (\<lambda>_. 0xFF)" "\<not> fault demo_created"
  by (simp_all add: demo_created_def flashq_create_def demo_config_def demo_partitions_def geometry_def
      max_record_size_def record_total_size_def round4_def)

lemma demo_blank: "no_active_region (partition demo_created) demo_created"
proof -
  have "header_at (\<lambda>_. 0xFF) b = replicate 12 0xFF" for b
    by (rule nth_equalityI) simp_all
  then show ?thesis
    using blank_not_rival by (simp add: no_active_region_def demo_created_fields)
qed

lemma demo_recover_run: "op_recover nor demo_created = (ESP_OK, demo_empty)"
  using recover_fresh_live [OF nor_laws nor_reliable demo_created_fields(1) demo_blank]
  by (simp add: demo_empty_def prod_eq_iff)

lemma demo_empty_sound:
  assumes "k < 2 ^ 31"
  shows "flashq_sound flat nor 24576 4 164 k demo_empty" "contents flat demo_empty = Map.empty"
    "\<not> fault demo_empty"
proof -
  note R = recover_fresh_ok [OF nor_laws demo_created_fields(1) demo_blank demo_recover_run]
  show "contents flat demo_empty = Map.empty" "\<not> fault demo_empty"
    using R(3,7) demo_created_fields(6) by simp_all
  have "unat (1 :: u32) = 1" by simp
  then show "flashq_sound flat nor 24576 4 164 k demo_empty"
    using assms R demo_created_fields
    by (simp add: flashq_sound_def flashq_good_def generation_room_def nor_laws nor_reliable sized_def same_config_def)
qed

lemma demo_enqueue_run: "op_enqueue nor demo_empty demo_message = (ESP_OK, demo_queued)"
proof -
  have "message_accepted 164 demo_message"
    by (simp add: message_accepted_def demo_message_def message_len_def record_total_size_def round4_def c_string_def)
  then have "fst (op_enqueue nor demo_empty demo_message) = ESP_OK"
    using enqueue_total_flashq [OF demo_empty_sound(1) [of "Suc 0"], of demo_message] demo_empty_sound(2) [of 0]
    by (simp add: prod_eq_iff)
  then show ?thesis by (simp add: demo_queued_def prod_eq_iff)
qed

lemma demo_message_id: "m_id demo_message = 7" by (simp add: demo_message_def)

lemma demo_queued_sound:
  assumes "k < 1000"
  shows "flashq_sound flat nor 24576 4 164 k demo_queued" "contents flat demo_queued = [7 \<mapsto> fresh demo_message]"
  using flashq_reliable.enqueue_ok [where msg = demo_message and c' = demo_queued, OF demo_empty_sound(1) [of "Suc k"]]
    demo_enqueue_run demo_empty_sound(2) [of 0] assms by (simp_all add: demo_message_id)

lemma keeps_config:
  assumes "keeps cells F sz c c'" "inv_core cells sz c" "inv_core cells sz c'"
  shows "same_config c' c"
  using assms inv_coreD(10,11) [OF assms(2)] inv_coreD(10,11) [OF assms(3)] by (simp add: keeps_def same_config_def)

lemma demo_queued_config: "same_config demo_queued demo_empty"
proof -
  note G = flashq_soundD [OF demo_empty_sound(1) [of "Suc 0"]] and Q = flashq_soundD [OF demo_queued_sound(1) [of "Suc 0"]]
  have "keeps flat nor 24576 demo_empty demo_queued"
    using enqueue_ok(3) [OF G(1,3,4) _ demo_enqueue_run] by (simp add: demo_empty_sound(2) [of 0])
  then show ?thesis using G(6) Q(6) by (rule keeps_config) simp_all
qed

lemma demo_eligible: "eligible 5000 (fresh demo_message)"
  by (simp add: eligible_def fresh_def)

lemma demo_claim_run:
  "op_claim_next nor demo_queued 5000 = (ESP_OK, Some (claimed (fresh demo_message) 5000), demo_claimed)"
  and demo_claimed_sound:
  "k < 100 \<Longrightarrow> flashq_sound flat nor 24576 4 164 k demo_claimed"
  "contents flat demo_claimed = [7 \<mapsto> claimed (fresh demo_message) 5000]"
proof -
  obtain err r c where run: "op_claim_next nor demo_queued 5000 = (err, r, c)" by (metis prod.exhaust)
  have c: "c = demo_claimed" using run by (simp add: demo_claimed_def)
  have err: "err = ESP_OK"
    using claim_total_flashq [OF demo_queued_sound(1) [of "Suc 0"] run] demo_queued_sound(2) [of 0] demo_eligible
    by (auto split: if_splits)
  have eff: "r = Some (claimed (fresh demo_message) 5000) \<and> flashq_sound flat nor 24576 4 164 k demo_claimed \<and>
      contents flat demo_claimed = [7 \<mapsto> claimed (fresh demo_message) 5000]" if "k < 100" for k
    using flashq_reliable.claim_ok [where now_us = 5000 and r = r and c' = demo_claimed, OF demo_queued_sound(1) [of "Suc k"]] run that
      demo_queued_sound(2) [of 0]
    by (auto simp: err c first_to_claim_def demo_message_id split: if_splits)
  show "op_claim_next nor demo_queued 5000 = (ESP_OK, Some (claimed (fresh demo_message) 5000), demo_claimed)"
    using run eff [of 0] by (simp add: err c)
  show "k < 100 \<Longrightarrow> flashq_sound flat nor 24576 4 164 k demo_claimed"
    "contents flat demo_claimed = [7 \<mapsto> claimed (fresh demo_message) 5000]"
    using eff [of k] eff [of 0] by simp_all
qed

text \<open>The pieces of the invariant the witnesses name.\<close>

lemma demo_inv:
  "flashq_inv flat 24576 demo_empty" "flashq_inv flat 24576 demo_queued" "flashq_inv flat 24576 demo_claimed"
  "generation_room demo_empty 99" "generation_room demo_queued 99" "generation_room demo_claimed 99"
  "flashq_clean flat demo_empty" "flashq_clean flat demo_queued" "flashq_clean flat demo_claimed"
  using demo_empty_sound(1) [of 99] demo_queued_sound(1) [of 99] demo_claimed_sound(1) [of 99]
  by (simp_all add: flashq_sound_def flashq_good_def)

end
