(* ===== verification/ES_Stats.thy ===== *)
theory ES_Stats
  imports ES_Storage ES_Keyed
begin

text \<open>
  What the statistics of a backend report: the stored messages counted by state and their
  payload bytes added up, at the width of the counters.
\<close>

definition view_sum :: "queue_view \<Rightarrow> (message \<Rightarrow> nat) \<Rightarrow> nat" where
  "view_sum v f = (\<Sum>mid\<in>dom v. f (the (v mid)))"

definition view_count :: "queue_view \<Rightarrow> (message \<Rightarrow> bool) \<Rightarrow> nat" where
  "view_count v P = card {mid. \<exists>msg. v mid = Some msg \<and> P msg}"

definition counted :: "queue_view \<Rightarrow> stats \<Rightarrow> stats" where
  "counted v st = st
     \<lparr>st_pending_messages := st_pending_messages st +
        of_nat (view_count v (\<lambda>m. m_state m = MSG_PENDING \<and> m_attempt_count m = 0)),
      st_retrying_messages := st_retrying_messages st +
        of_nat (view_count v (\<lambda>m. m_state m = MSG_PENDING \<and> m_attempt_count m \<noteq> 0)),
      st_in_flight_messages := st_in_flight_messages st + of_nat (view_count v (\<lambda>m. m_state m = MSG_IN_FLIGHT)),
      st_dead_letter_messages := st_dead_letter_messages st + of_nat (view_count v (\<lambda>m. m_state m = MSG_DEAD_LETTER)),
      st_bytes_queued := st_bytes_queued st + of_nat (view_sum v (\<lambda>m. length (m_payload m)))\<rparr>"

lemma view_sum_keyed:
  assumes "distinct (map key xs)"
  shows "view_sum (keyed_map key g xs) f = sum_list (map (\<lambda>x. f (g x)) xs)"
proof -
  have "view_sum (keyed_map key g xs) f = (\<Sum>mid\<in>set (map key xs). f (the (keyed_map key g xs mid)))"
    by (simp add: view_sum_def dom_keyed_map)
  also have "\<dots> = sum_list (map (\<lambda>mid. f (the (keyed_map key g xs mid))) (map key xs))"
    by (rule sum_list_distinct_conv_sum_set [OF assms, symmetric])
  also have "map (\<lambda>mid. f (the (keyed_map key g xs mid))) (map key xs) = map (\<lambda>x. f (g x)) xs"
  proof -
    have "keyed_map key g xs (key x) = Some (g x)" if "x \<in> set xs" for x
      unfolding keyed_map_Some [OF assms] using that by blast
    then show ?thesis by simp
  qed
  finally show ?thesis .
qed

lemma view_count_sum:
  assumes "finite (dom v)"
  shows "view_count v P = view_sum v (\<lambda>m. if P m then 1 else 0)"
proof -
  have "{mid. \<exists>msg. v mid = Some msg \<and> P msg} = {mid \<in> dom v. P (the (v mid))}" by auto
  then show ?thesis using assms by (simp add: view_count_def view_sum_def sum.If_cases Int_def)
qed

text \<open>One message counted, and the loop over an array of them.\<close>

definition count_message :: "stats \<Rightarrow> message \<Rightarrow> stats" where
  "count_message st m = (let st = st\<lparr>st_bytes_queued := st_bytes_queued st + of_nat (length (m_payload m))\<rparr> in
     case m_state m of
       MSG_PENDING \<Rightarrow> (if m_attempt_count m = 0 then st\<lparr>st_pending_messages := st_pending_messages st + 1\<rparr>
                       else st\<lparr>st_retrying_messages := st_retrying_messages st + 1\<rparr>)
     | MSG_IN_FLIGHT \<Rightarrow> st\<lparr>st_in_flight_messages := st_in_flight_messages st + 1\<rparr>
     | MSG_DEAD_LETTER \<Rightarrow> st\<lparr>st_dead_letter_messages := st_dead_letter_messages st + 1\<rparr>
     | MSG_DELIVERED \<Rightarrow> st)"

lemma count_messages:
  "foldl count_message st (map g xs) = st
     \<lparr>st_pending_messages := st_pending_messages st +
        of_nat (sum_list (map (\<lambda>x. if m_state (g x) = MSG_PENDING \<and> m_attempt_count (g x) = 0 then 1 else 0) xs)),
      st_retrying_messages := st_retrying_messages st +
        of_nat (sum_list (map (\<lambda>x. if m_state (g x) = MSG_PENDING \<and> m_attempt_count (g x) \<noteq> 0 then 1 else 0) xs)),
      st_in_flight_messages := st_in_flight_messages st +
        of_nat (sum_list (map (\<lambda>x. if m_state (g x) = MSG_IN_FLIGHT then 1 else 0) xs)),
      st_dead_letter_messages := st_dead_letter_messages st +
        of_nat (sum_list (map (\<lambda>x. if m_state (g x) = MSG_DEAD_LETTER then 1 else 0) xs)),
      st_bytes_queued := st_bytes_queued st + of_nat (sum_list (map (\<lambda>x. length (m_payload (g x))) xs))\<rparr>"
proof (induction xs arbitrary: st)
  case (Cons x xs)
  show ?case unfolding list.map foldl_Cons Cons.IH
    by (cases "m_state (g x)") (simp_all add: count_message_def Let_def)
qed simp

lemma counted_keyed:
  assumes "distinct (map key xs)"
  shows "foldl count_message st (map g xs) = counted (keyed_map key g xs) st"
proof -
  have f: "finite (dom (keyed_map key g xs))" by (simp add: dom_keyed_map)
  show ?thesis unfolding count_messages counted_def view_count_sum [OF f] view_sum_keyed [OF assms] by simp
qed

end
