(* ===== verification/Flashq_Properties.thy ===== *)
theory Flashq_Properties
  imports Flashq_Example ES_Queue ES_Stats
begin

text \<open>
  What the flash queue guarantees, stated over the operations of \<open>edgesync_storage_flashq.c\<close>, with
  a concrete instance of each theorem.
\<close>

section \<open>Opening\<close>

text \<open>A flash queue that is opened lies inside its partition: the two regions are disjoint,
  sector-aligned and together no larger than the partition, a record buffer holds every message
  the configuration allows, and nothing is stored in memory yet.\<close>

theorem create_geometry:
  assumes "flashq_create config out_valid partition_find a b = (ESP_OK, Some c)"
  shows "\<exists>cfg p psize. config = Some cfg \<and>
    partition_find (case fc_partition_label cfg of Some l \<Rightarrow> l | None \<Rightarrow> ''edgesync'') = Some (p, psize) \<and>
    partition c = p \<and> 4096 dvd region_size c \<and> 2 * region_size c \<le> psize \<and> psize < 2 * region_size c + 8192 \<and>
    8192 \<le> region_size c \<and> data_start c + data_capacity c = region_size c \<and>
    record_total_size EDGESYNC_MAX_DESTINATION_LEN (unat (fc_max_message_size cfg)) \<le> scratch_size c \<and>
    index_capacity c = unat (fc_max_messages cfg) \<and> 0 < index_capacity c \<and> index c = [] \<and> \<not> fault c"
proof -
  obtain cfg p psize where cfg: "config = Some cfg" "fc_max_messages cfg \<noteq> 0"
    "partition_find (case fc_partition_label cfg of Some l \<Rightarrow> l | None \<Rightarrow> ''edgesync'') = Some (p, psize)"
    "psize mod 4096 = 0" "4 \<le> psize div 4096" "partition c = p"
    "index_capacity c = unat (fc_max_messages cfg)" "scratch_size c = max_record_size (fc_max_message_size cfg)"
    "index c = []" "\<not> fault c" "region_size c = psize div 4096 div 2 * 4096"
    by (rule create_ok [OF assms])
  have dc: "data_start c = 4096" "data_capacity c = region_size c - 4096"
    using assms cfg(3) unfolding cfg(1) by (auto simp: flashq_create_def Let_def split: if_splits)
  obtain n where n: "psize = 4096 * n" using cfg(4) by auto
  have "2 * region_size c \<le> psize" "psize < 2 * region_size c + 8192" "8192 \<le> region_size c"
    using cfg(5) unfolding cfg(11) n by simp_all
  moreover have "0 < index_capacity c" using cfg(2,7) by (simp add: unat_gt_0)
  ultimately show ?thesis
    using cfg dc by (intro exI [of _ cfg] exI [of _ p] exI [of _ psize]) (simp add: max_record_size_def)
qed

theorem create_geometry_witness:
  "\<exists>c. flashq_create (Some demo_config) True demo_partitions True True = (ESP_OK, Some c) \<and>
     2 * region_size c \<le> 24576 \<and> 24576 < 2 * region_size c + 8192"
  using create_geometry [OF demo_create_run]
  by (intro exI [of _ demo_created]) (auto simp: demo_create_run demo_partitions_def split: if_splits)

text \<open>C36: Recovery of a partition on which no region is ACTIVE, a new one or one whose first
  formatting was cut short, formats it: the stored queue is empty and the invariant of the
  on-flash log holds.\<close>

theorem recover_formats_partition:
  assumes "flash_laws F cells" "geometry sz c" "no_active_region (cells (partition c)) c"
    and "op_recover F c = (ESP_OK, c')"
  shows "flashq_inv cells sz c' \<and> contents cells c' = Map.empty \<and> active_generation c' = 1 \<and> fault c' = fault c"
  using recover_fresh_ok [OF assms] by simp

theorem recover_formats_partition_witness:
  "op_recover nor demo_created = (ESP_OK, demo_empty) \<and> flashq_inv flat 24576 demo_empty \<and>
   contents flat demo_empty = Map.empty"
  using recover_formats_partition [OF nor_laws demo_created_fields(1) demo_blank demo_recover_run] demo_recover_run
  by simp

section \<open>The operations refine the abstract queue\<close>

text \<open>C11: Enqueueing adds exactly the new message, in its initial state and with its destination
  and payload, and keeps the invariant of the on-flash log, on any device that obeys the flash
  laws and whether or not the operation compacted the log to make room.\<close>

theorem enqueue_refines:
  assumes "flashq_good cells F sz (Suc k) c" "m_id msg \<notin> dom (contents cells c)"
    and "op_enqueue F c msg = (ESP_OK, c')"
  shows "flashq_good cells F sz k c' \<and> contents cells c' = (contents cells c)(m_id msg \<mapsto> fresh msg)"
  using flashq.enqueue_ok [OF assms(1,2)] assms(3) by simp

theorem enqueue_refines_witness:
  "op_enqueue nor demo_empty demo_message = (ESP_OK, demo_queued) \<and>
   contents flat demo_queued = [7 \<mapsto> fresh demo_message]"
proof -
  have "flashq_good flat nor 24576 (Suc 0) demo_empty"
    using demo_empty_sound(1) [of "Suc 0"] by (simp add: flashq_sound_def)
  from enqueue_refines [OF this, of demo_message demo_queued] show ?thesis
    using demo_enqueue_run demo_empty_sound(2) [of 0] by (simp add: demo_message_id)
qed

text \<open>C10: A claim hands out the message that comes first among the pending ones whose retry time
  has come: highest priority, then earliest retry time, then earliest creation.  The message is
  stored as in flight with one more attempt, and what is handed out is what is stored, byte for
  byte.\<close>

theorem claim_refines:
  assumes "flashq_good cells F sz (Suc k) c" "op_claim_next F c now_us = (ESP_OK, r, c')"
  shows "\<exists>msg. first_to_claim (contents cells c) now_us msg \<and> r = Some (claimed msg now_us) \<and>
    flashq_good cells F sz k c' \<and> contents cells c' = (contents cells c)(m_id msg \<mapsto> claimed msg now_us)"
  using flashq.claim_ok [OF assms(1)] assms(2) by simp

theorem claim_refines_witness:
  "\<exists>msg. first_to_claim [7 \<mapsto> fresh demo_message] 5000 msg \<and>
     op_claim_next nor demo_queued 5000 = (ESP_OK, Some (claimed msg 5000), demo_claimed)"
proof -
  have "flashq_good flat nor 24576 (Suc 0) demo_queued"
    using demo_queued_sound(1) [of "Suc 0"] by (simp add: flashq_sound_def)
  from claim_refines [OF this demo_claim_run] show ?thesis
    using demo_claim_run demo_queued_sound(2) [of 0] by auto
qed

text \<open>C12: Confirming a delivery and removing a message each take exactly that message out of the
  queue; scheduling a retry stores the new state, retry time and error and leaves the rest of
  the message alone.\<close>

theorem state_changes_refine:
  assumes "flashq_good cells F sz (Suc k) c"
  shows "(op_mark_delivered F c mid = (ESP_OK, c') \<or> op_remove F c mid = (ESP_OK, c') \<longrightarrow>
      flashq_good cells F sz k c' \<and> mid \<in> dom (contents cells c) \<and> contents cells c' = (contents cells c)(mid := None)) \<and>
    (op_schedule_retry F c mid next_us dead er = (ESP_OK, c') \<longrightarrow>
      flashq_good cells F sz k c' \<and> mid \<in> dom (contents cells c) \<and>
      contents cells c' = (contents cells c)(mid \<mapsto> retried (the (contents cells c mid)) next_us dead er))"
  using flashq.delivered_ok [OF assms] flashq.removed_ok [OF assms] flashq.retry_ok [OF assms] by auto

lemma demo_claimed_good: "flashq_good flat nor 24576 (Suc 0) demo_claimed"
  using demo_claimed_sound(1) [of "Suc 0"] by (simp add: flashq_sound_def)

theorem state_changes_refine_witness:
  "(\<exists>c'. op_mark_delivered nor demo_claimed 7 = (ESP_OK, c') \<and> contents flat c' = Map.empty) \<and>
   (\<exists>c'. op_remove nor demo_claimed 7 = (ESP_OK, c') \<and> contents flat c' = Map.empty) \<and>
   (\<exists>c'. op_schedule_retry nor demo_claimed 7 9000 False 5 = (ESP_OK, c') \<and>
      contents flat c' = [7 \<mapsto> retried (claimed (fresh demo_message) 5000) 9000 False 5])"
proof -
  note S = demo_claimed_sound(1) [of "Suc 0"]
  have d: "7 \<in> dom (contents flat demo_claimed)" by (simp add: demo_claimed_sound(2))
  have "fst (op_mark_delivered nor demo_claimed 7) = ESP_OK" "fst (op_remove nor demo_claimed 7) = ESP_OK"
    "fst (op_schedule_retry nor demo_claimed 7 9000 False 5) = ESP_OK"
    using retire_entry_total [OF S, of 7] schedule_retry_total [OF S, of 7 9000 False 5] d
    by (simp_all add: op_mark_delivered_def op_remove_def prod_eq_iff)
  then obtain c1 c2 c3 where r: "op_mark_delivered nor demo_claimed 7 = (ESP_OK, c1)"
    "op_remove nor demo_claimed 7 = (ESP_OK, c2)" "op_schedule_retry nor demo_claimed 7 9000 False 5 = (ESP_OK, c3)"
    by (metis prod.collapse)
  show ?thesis
    using r state_changes_refine [OF demo_claimed_good, of 7 c1] state_changes_refine [OF demo_claimed_good, of 7 c2]
      state_changes_refine [OF demo_claimed_good, of 7 c3 9000 False 5] by (simp add: demo_claimed_sound(2))
qed

section \<open>Restart and power loss\<close>

text \<open>C6: Recovery finds exactly the stored messages, with those that were in flight pending again
  and due at once, and the messages' bodies and attempt counts untouched.\<close>

theorem recover_requeues:
  assumes "flash_laws F cells" "reads_ok F sz" "flashq_inv cells sz c" "flashq_clean cells c"
    and "generation_room c (length (index c) + 1)" "same_config c0 c" "cells (partition c0) = cells (partition c)"
    and "op_recover F c0 = (ESP_OK, c')"
  shows "flashq_inv cells sz c' \<and> contents cells c' = (\<lambda>mid. map_option requeued (contents cells c mid)) \<and>
    fault c' = fault c0"
proof -
  have "tail_blank cells c" using assms(4) by (simp add: flashq_clean_def)
  from recover_ok [OF assms(1-3) tail_stops [OF this] assms(5-8)] show ?thesis by simp
qed

lemma demo_index:
  "length (index demo_empty) = 0" "length (index demo_queued) = 1" "length (index demo_claimed) = 1"
  using contents_card(2) [of flat 24576 demo_empty] contents_card(2) [of flat 24576 demo_queued]
    contents_card(2) [of flat 24576 demo_claimed] demo_inv(1-3) demo_empty_sound(2) [of 0]
    demo_queued_sound(2) [of 0] demo_claimed_sound(2)
  by (simp_all add: flashq_inv_def)

lemma demo_restarts:
  assumes "flashq_sound flat nor 24576 4 164 98 c" "card (dom (contents flat c)) < 90"
  obtains c' where "op_recover nor c = (ESP_OK, c')"
proof -
  have "flashq_sound flat nor 24576 4 164 (0 + card (dom (contents flat c)) + 1) c"
    using assms by (simp add: flashq_sound_def flashq_good_def generation_room_def)
  moreover have "flashq_reboot flat c c" by (simp add: flashq_reboot_def same_config_def)
  ultimately have "fst (op_recover nor c) = ESP_OK" by (metis restart_flashq prod.collapse)
  then show thesis using that by (metis prod.collapse)
qed

theorem recover_requeues_witness:
  "\<exists>c'. op_recover nor demo_claimed = (ESP_OK, c') \<and>
     contents flat c' = [7 \<mapsto> requeued (claimed (fresh demo_message) 5000)]"
proof -
  obtain c' where run: "op_recover nor demo_claimed = (ESP_OK, c')"
    by (rule demo_restarts [OF demo_claimed_sound(1)]) (simp_all add: demo_claimed_sound(2))
  have "contents flat c' = (\<lambda>mid. map_option requeued (contents flat demo_claimed mid))"
    using recover_requeues [OF nor_laws reliable_reads [OF nor_reliable] demo_inv(3,9) _ _ refl run] demo_inv(6)
    by (simp add: generation_room_def demo_index same_config_def)
  then show ?thesis using run by (auto simp: demo_claimed_sound(2) fun_eq_iff)
qed

text \<open>C5: Enqueueing is atomic with respect to power loss and device errors: whatever the device
  did during the operation, a recovery afterwards finds either the queue as it was or the queue
  with the new message, unless the bytes a torn write left behind happen to carry valid CRCs.\<close>

theorem enqueue_atomic:
  assumes "flash_laws F cells" "reads_ok F sz" "flashq_inv cells sz c" "flashq_clean cells c"
    and "generation_room c (length (index c) + 3)" "m_id msg \<notin> dom (contents cells c)"
    and "op_enqueue F c msg = (err, c')" "\<not> stray_message cells c' msg"
    and "same_config c0 c" "cells (partition c0) = cells (partition c')" "op_recover F c0 = (ESP_OK, c2)"
  shows "flashq_inv cells sz c2 \<and> fault c2 = fault c0 \<and>
    (contents cells c2 = (\<lambda>mid. map_option requeued (contents cells c mid)) \<or>
     contents cells c2 = (\<lambda>mid. map_option requeued (((contents cells c)(m_id msg \<mapsto> fresh msg)) mid)))"
proof -
  have "generation_ok c" by (rule generation_room_ok [OF assms(5)]) simp
  from enqueue_crash [OF assms(1,3,4) this assms(6,7)] assms(8)
  have "survives cells sz c (partition c') (contents cells c) \<or>
      survives cells sz c (partition c') ((contents cells c)(m_id msg \<mapsto> fresh msg))" by blast
  then show ?thesis
    using survives_recover [OF assms(1,2) _ assms(5,9,10,11)] by blast
qed

theorem enqueue_atomic_witness:
  "\<exists>c2. op_recover nor demo_queued = (ESP_OK, c2) \<and>
     (contents flat c2 = Map.empty \<or> contents flat c2 = [7 \<mapsto> requeued (fresh demo_message)])"
proof -
  obtain c2 where run: "op_recover nor demo_queued = (ESP_OK, c2)"
    by (rule demo_restarts [OF demo_queued_sound(1)]) (simp_all add: demo_queued_sound(2) [of 0])
  have e: "contents flat demo_empty = Map.empty" by (rule demo_empty_sound(2) [of 0]) simp
  have "\<not> stray_message flat demo_queued demo_message"
    using blank_no_collision [of flat demo_queued] demo_inv(8) by (simp add: flashq_clean_def)
  from enqueue_atomic [OF nor_laws reliable_reads [OF nor_reliable] demo_inv(1,7) _ _ demo_enqueue_run this demo_queued_config refl run]
  have "contents flat c2 = (\<lambda>mid. map_option requeued (contents flat demo_empty mid)) \<or>
     contents flat c2 = (\<lambda>mid. map_option requeued (((contents flat demo_empty)(7 \<mapsto> fresh demo_message)) mid))"
    using demo_inv(4) by (simp add: generation_room_def demo_index e demo_message_id)
  then show ?thesis using run by (auto simp: e fun_eq_iff)
qed

end
