(* ===== verification/Flashq_Guarantees.thy ===== *)
theory Flashq_Guarantees
  imports Flashq_Properties
begin

text \<open>
  Further guarantees of the flash queue: interrupted state changes, compaction, errors, the
  selection of a message to drop, statistics, success on a device that works, and the overflow
  policy of a publish on top of it.
\<close>

section \<open>Atomic state changes and compaction\<close>

text \<open>C13: A delivery confirmation that is interrupted is never half done: after the restart the
  message is still stored and will be delivered again, or it is gone, and every other message
  is as it was.\<close>

theorem delivered_atomic:
  assumes "flash_laws F cells" "reads_ok F sz" "flashq_inv cells sz c" "flashq_clean cells c"
    and "generation_room c (length (index c) + 3)" "contents cells c mid = Some msg"
    and "op_mark_delivered F c mid = (err, c')" "\<not> stray_state cells c' msg STATE_DELIVERED"
    and "same_config c0 c" "cells (partition c0) = cells (partition c')" "op_recover F c0 = (ESP_OK, c2)"
  shows "flashq_inv cells sz c2 \<and>
    (contents cells c2 = (\<lambda>i. map_option requeued (contents cells c i)) \<or>
     contents cells c2 = (\<lambda>i. map_option requeued (((contents cells c)(mid := None)) i)))"
proof -
  have "generation_ok c" by (rule generation_room_ok [OF assms(5)]) simp
  from retire_crash [OF assms(1,3,4) this _ assms(7) [unfolded op_mark_delivered_def], of msg] assms(6,8)
  have "survives cells sz c (partition c') (contents cells c) \<or>
      survives cells sz c (partition c') ((contents cells c)(mid := None))" by blast
  then show ?thesis using survives_recover [OF assms(1,2) _ assms(5,9,10,11)] by blast
qed

lemma demo_delivered:
  obtains c' where "op_mark_delivered nor demo_claimed 7 = (ESP_OK, c')" "flashq_sound flat nor 24576 4 164 98 c'"
    "contents flat c' = Map.empty"
proof -
  have S: "flashq_sound flat nor 24576 4 164 (Suc 98) demo_claimed" by (rule demo_claimed_sound(1)) simp
  obtain c' where run: "op_mark_delivered nor demo_claimed 7 = (ESP_OK, c')"
    using retire_entry_total [OF S, of 7] demo_claimed_sound(2)
    by (metis domIff fun_upd_same op_mark_delivered_def option.distinct(1) prod.collapse)
  show thesis
    using that [OF run] flashq_reliable.delivered_ok [where mid = 7 and c' = c', OF S] run demo_claimed_sound(2) by simp
qed

theorem delivered_atomic_witness:
  "\<exists>c' c2. op_mark_delivered nor demo_claimed 7 = (ESP_OK, c') \<and> op_recover nor c' = (ESP_OK, c2) \<and>
     (contents flat c2 = [7 \<mapsto> requeued (claimed (fresh demo_message) 5000)] \<or> contents flat c2 = Map.empty)"
proof -
  obtain c' where c': "op_mark_delivered nor demo_claimed 7 = (ESP_OK, c')" "flashq_sound flat nor 24576 4 164 98 c'"
    "contents flat c' = Map.empty" by (rule demo_delivered)
  note G = flashq_soundD [OF demo_claimed_sound(1) [of "Suc 0"]]
  obtain c2 where run: "op_recover nor c' = (ESP_OK, c2)"
    by (rule demo_restarts [OF c'(2)]) (simp_all add: c'(3))
  have conf: "same_config c' demo_claimed"
    using keeps_config [OF retire_entry_ok(4) [OF G(1,3,4) _ c'(1) [unfolded op_mark_delivered_def]] G(6)] c'(2)
    by (simp add: flashq_sound_def flashq_good_def flashq_inv_def)
  have "\<not> stray_state flat c' (claimed (fresh demo_message) 5000) STATE_DELIVERED"
    using blank_no_collision [of flat c'] c'(2) by (simp add: stray_update_def flashq_sound_def flashq_clean_def)
  from delivered_atomic [OF nor_laws reliable_reads [OF nor_reliable] demo_inv(3,9) _ _ c'(1) this conf refl run]
  have "contents flat c2 = (\<lambda>i. map_option requeued (contents flat demo_claimed i)) \<or>
     contents flat c2 = (\<lambda>i. map_option requeued (((contents flat demo_claimed)(7 := None)) i))"
    using demo_inv(6) by (simp add: generation_room_def demo_index demo_claimed_sound(2))
  then show ?thesis using c'(1) run by (auto simp: demo_claimed_sound(2) fun_eq_iff)
qed

text \<open>C14: A claim is atomic.  Whatever the device does to the flash during a claim and after it, a
  restart finds either the messages as they were or those with the first eligible message
  claimed, its attempt counted, put back to pending and due at once.  Excluded, as above, is a
  partly programmed record whose CRCs happen to match.\<close>

theorem claim_atomic:
  assumes "flash_laws F cells" "reads_ok F sz" "flashq_inv cells sz c" "flashq_clean cells c"
    and "generation_room c (length (index c) + 3)" "op_claim_next F c now_us = (err, r, c')"
    and "\<forall>msg. first_to_claim (contents cells c) now_us msg \<longrightarrow>
      \<not> stray_state cells c' (claimed msg now_us) STATE_IN_FLIGHT"
    and "same_config c0 c" "cells (partition c0) = cells (partition c')" "op_recover F c0 = (ESP_OK, c2)"
  shows "flashq_inv cells sz c2 \<and>
    (contents cells c2 = (\<lambda>i. map_option requeued (contents cells c i)) \<or>
     (\<exists>msg. first_to_claim (contents cells c) now_us msg \<and>
        contents cells c2 = (\<lambda>i. map_option requeued (((contents cells c)(m_id msg \<mapsto> claimed msg now_us)) i))))"
proof -
  have gen: "generation_ok c" by (rule generation_room_ok [OF assms(5)]) simp
  have core: "inv_core cells sz c" using assms(3) by (simp add: flashq_inv_def)
  have "survives cells sz c (partition c') (contents cells c) \<or>
      (\<exists>msg. first_to_claim (contents cells c) now_us msg \<and>
        survives cells sz c (partition c') ((contents cells c)(m_id msg \<mapsto> claimed msg now_us)))"
  proof (cases "claim_select now_us (index c)")
    case None
    then have "c' = c" using assms(6) by (simp add: op_claim_next_def)
    then show ?thesis using unchanged_survives [OF assms(3,4)] by simp
  next
    case (Some pos)
    have pos: "pos < length (index c)" using select_loop_bound Some unfolding claim_select_def by blast
    obtain c1 raw where 1: "frame c c1" "cells (partition c1) = cells (partition c)"
      "claim_commit F (c1\<lparr>claim_scratch := raw\<rparr>) now_us pos = (err, r, c')"
      by (rule claim_commits [OF assms(1-3) Some assms(6)])
    let ?c = "c1\<lparr>claim_scratch := raw\<rparr>"
    note K = reading_keeps [OF 1(1,2)] and f = frame_fields [OF 1(1)]
    have C: "flashq_inv cells sz ?c" "flashq_clean cells ?c" "generation_ok ?c" "index ?c = index c"
      "contents cells ?c = contents cells c"
      using assms(3,4) gen K f by (simp_all add: flashq_inv_def)
    have same: "survives cells sz ?c p q = survives cells sz c p q" for p q
      using f by (simp add: survives_def same_config_def)
    let ?msg = "stored (cells (partition ?c)) (active_base ?c) (index ?c ! pos)"
    have m: "?msg = stored (cells (partition c)) (active_base c) (index c ! pos)"
      using f 1(2) by (simp add: frame_region_offset [OF 1(1)] region_offset_def)
    have first: "first_to_claim (contents cells c) now_us ?msg"
      unfolding m by (rule claim_select_first [OF core Some])
    have "survives cells sz ?c (partition c') (contents cells ?c) \<or>
        survives cells sz ?c (partition c') ((contents cells ?c)(m_id ?msg \<mapsto> claimed ?msg now_us))"
      by (rule claim_crash [OF assms(1) C(1-3) _ 1(3)]) (use pos C(4) assms(7) first in simp_all)
    then show ?thesis using first unfolding same C(5) by blast
  qed
  then show ?thesis using survives_recover [OF assms(1,2) _ assms(5,8,9,10)] by blast
qed

theorem claim_atomic_witness:
  "\<exists>c2. op_claim_next nor demo_queued 5000 = (ESP_OK, Some (claimed (fresh demo_message) 5000), demo_claimed) \<and>
     op_recover nor demo_claimed = (ESP_OK, c2) \<and>
     (contents flat c2 = [7 \<mapsto> fresh demo_message] \<or> contents flat c2 = [7 \<mapsto> requeued (claimed (fresh demo_message) 5000)])"
proof -
  note G = flashq_soundD [OF demo_queued_sound(1) [of "Suc 0"]] and C = flashq_soundD [OF demo_claimed_sound(1) [of "Suc 0"]]
  obtain c2 where run: "op_recover nor demo_claimed = (ESP_OK, c2)"
    by (rule demo_restarts [OF demo_claimed_sound(1)]) (simp_all add: demo_claimed_sound(2))
  have "keeps flat nor 24576 demo_queued demo_claimed"
    by (rule claim_next_ok [OF G(1,3,4) demo_claim_run]) simp_all
  then have conf: "same_config demo_claimed demo_queued" using G(6) C(6) by (rule keeps_config) simp_all
  have "\<forall>msg. first_to_claim (contents flat demo_queued) 5000 msg \<longrightarrow>
      \<not> stray_state flat demo_claimed (claimed msg 5000) STATE_IN_FLIGHT"
    using blank_no_collision [of flat demo_claimed] C(5) by (simp add: stray_update_def flashq_clean_def)
  from claim_atomic [OF nor_laws reliable_reads [OF nor_reliable] demo_inv(2,8) _ demo_claim_run this conf refl run]
  have "contents flat c2 = (\<lambda>i. map_option requeued (contents flat demo_queued i)) \<or>
     (\<exists>msg. first_to_claim (contents flat demo_queued) 5000 msg \<and>
        contents flat c2 = (\<lambda>i. map_option requeued (((contents flat demo_queued)(m_id msg \<mapsto> claimed msg 5000)) i)))"
    using demo_inv(5) by (simp add: generation_room_def demo_index)
  moreover have "msg = fresh demo_message" if "first_to_claim (contents flat demo_queued) 5000 msg" for msg
    using that by (auto simp: first_to_claim_def demo_queued_sound(2) [of 0] split: if_splits)
  moreover have q: "requeued (fresh demo_message) = fresh demo_message" "m_id (fresh demo_message) = 7"
    by (simp_all add: requeued_def fresh_def demo_message_id)
  ultimately consider "contents flat c2 = (\<lambda>i. map_option requeued (contents flat demo_queued i))"
    | "contents flat c2 = (\<lambda>i. map_option requeued (((contents flat demo_queued)(7 \<mapsto> claimed (fresh demo_message) 5000)) i))"
    by metis
  then have "contents flat c2 = [7 \<mapsto> fresh demo_message] \<or>
      contents flat c2 = [7 \<mapsto> requeued (claimed (fresh demo_message) 5000)]"
    by cases (simp_all add: demo_queued_sound(2) [of 0] q fun_eq_iff)
  then show ?thesis using demo_claim_run run by blast
qed

text \<open>C15: Compaction copies the stored messages to the other region without changing any of them;
  if it fails at any point, a restart still finds all of them.\<close>

theorem compaction_preserves:
  assumes "flash_laws F cells" "reads_ok F sz" "flashq_inv cells sz c" "flashq_clean cells c"
    and "generation_room c (length (index c) + 3)" "compact_locked F c = (err, c')"
  shows "(err = ESP_OK \<longrightarrow> flashq_inv cells sz c' \<and> contents cells c' = contents cells c \<and>
      active_region c' = 1 - active_region c \<and> cursor c' = 4096 + live_size (index c) + 68) \<and>
    (\<forall>c0 c2. err \<noteq> ESP_OK \<and> same_config c0 c \<and> cells (partition c0) = cells (partition c') \<and>
      op_recover F c0 = (ESP_OK, c2) \<longrightarrow>
      flashq_inv cells sz c2 \<and> contents cells c2 = (\<lambda>mid. map_option requeued (contents cells c mid)))"
proof -
  have core: "inv_core cells sz c" using assms(3) by (simp add: flashq_inv_def)
  have gen: "generation_ok c" by (rule generation_room_ok [OF assms(5)]) simp
  have 1: "flashq_inv cells sz c' \<and> contents cells c' = contents cells c \<and>
      active_region c' = 1 - active_region c \<and> cursor c' = 4096 + live_size (index c) + 68" if ok: "err = ESP_OK"
  proof -
    note Q = compact_keeps_inv(1) [OF assms(1) core gen assms(6) [unfolded ok]]
    note K = compact_done_inv [OF core Q]
    note f = switched_frame_fields [OF Q [unfolded compact_done_def Let_def, THEN conjunct1]]
    show ?thesis using K(1,2,3,5,7) f by (simp add: flashq_inv_def compact_end_def)
  qed
  have 2: "flashq_inv cells sz c2 \<and> contents cells c2 = (\<lambda>mid. map_option requeued (contents cells c mid))"
    if "err \<noteq> ESP_OK" "same_config c0 c" "cells (partition c0) = cells (partition c')" "op_recover F c0 = (ESP_OK, c2)"
    for c0 c2
  proof -
    have "survives cells sz c (partition c') (contents cells c)"
      using compact_crash(1) [OF assms(1) core gen _ refl assms(4,6) that(1)] assms(3) by (simp add: index_id)
    then show ?thesis using survives_recover [OF assms(1,2) _ assms(5) that(2-4)] by blast
  qed
  show ?thesis using 1 2 by blast
qed

theorem compaction_preserves_witness:
  "\<exists>c'. compact_locked nor demo_claimed = (ESP_OK, c') \<and> flashq_inv flat 24576 c' \<and>
     contents flat c' = [7 \<mapsto> claimed (fresh demo_message) 5000]"
proof -
  note G = flashq_soundD [OF demo_claimed_sound(1) [of "Suc 0"]]
  obtain c' where run: "compact_locked nor demo_claimed = (ESP_OK, c')"
    using compact_locked_live [OF G(1,2,6,4)] G(5) by (simp add: flashq_clean_def prod_eq_iff)
  show ?thesis
    using compaction_preserves [OF nor_laws reliable_reads [OF nor_reliable] demo_inv(3,9) _ run] demo_inv(6) run
    by (simp add: generation_room_def demo_index demo_claimed_sound(2))
qed

section \<open>Errors\<close>

text \<open>What was stored is found intact: as long as flash reads work, a claim never reports a
  corrupt record.  When it does, the message is dead-lettered and not handed out, and the other
  messages are as they were.\<close>

theorem corrupt_only_on_read_error:
  assumes "flashq_good cells F sz (Suc k) c"
  shows "(reads_ok F sz \<longrightarrow> fst (op_claim_next F c now_us) \<noteq> EDGESYNC_ERR_STORAGE_CORRUPT) \<and>
    (op_claim_next F c now_us = (EDGESYNC_ERR_STORAGE_CORRUPT, r, c') \<longrightarrow>
      (\<exists>msg. first_to_claim (contents cells c) now_us msg \<and> r = Some (blank_message (m_id msg)) \<and>
         flashq_good cells F sz k c' \<and> contents cells c' = (contents cells c)(m_id msg \<mapsto> corrupted msg)))"
proof (intro conjI impI notI)
  assume ok: "reads_ok F sz" and "fst (op_claim_next F c now_us) = EDGESYNC_ERR_STORAGE_CORRUPT"
  then obtain r c' where "op_claim_next F c now_us = (EDGESYNC_ERR_STORAGE_CORRUPT, r, c')" by (metis prod.collapse)
  from flashq_claim [OF assms this] ok show False by blast
next
  assume "op_claim_next F c now_us = (EDGESYNC_ERR_STORAGE_CORRUPT, r, c')"
  then show "\<exists>msg. first_to_claim (contents cells c) now_us msg \<and> r = Some (blank_message (m_id msg)) \<and>
      flashq_good cells F sz k c' \<and> contents cells c' = (contents cells c)(m_id msg \<mapsto> corrupted msg)"
    using flashq.claim_corrupt [OF assms] by simp
qed

theorem corrupt_only_on_read_error_witness:
  "fst (op_claim_next nor demo_claimed 5000) \<noteq> EDGESYNC_ERR_STORAGE_CORRUPT"
  using corrupt_only_on_read_error [OF demo_claimed_good] reliable_reads [OF nor_reliable] by blast

text \<open>The errors that name a condition of the queue change nothing: a full queue, an identifier
  that is not stored, no message that is due.\<close>

theorem named_errors_change_nothing:
  "(op_enqueue F c msg = (EDGESYNC_ERR_QUEUE_FULL, c') \<longrightarrow> c' = c) \<and>
   (mid \<notin> dom (contents cells c) \<longrightarrow> op_mark_delivered F c mid = (EDGESYNC_ERR_NOT_FOUND, c) \<and>
      op_remove F c mid = (EDGESYNC_ERR_NOT_FOUND, c) \<and>
      op_schedule_retry F c mid next_us dead er = (EDGESYNC_ERR_NOT_FOUND, c)) \<and>
   (op_claim_next F c now_us = (EDGESYNC_ERR_NOT_FOUND, r, c') \<longrightarrow> r = None \<and> c' = c)"
proof -
  have "find_entry (index c) mid = None" if "mid \<notin> dom (contents cells c)"
    using that find_None_contents [of c mid cells] by auto
  then show ?thesis
    using enqueue_full_unchanged [of F c msg c'] claim_none_unchanged(2,3) [of F c now_us r c']
    by (auto simp: op_mark_delivered_def op_remove_def retire_entry_def op_schedule_retry_def)
qed

theorem named_errors_change_nothing_witness:
  "op_mark_delivered nor demo_queued 8 = (EDGESYNC_ERR_NOT_FOUND, demo_queued) \<and>
   op_claim_next nor demo_empty 5000 = (EDGESYNC_ERR_NOT_FOUND, None, demo_empty)"
proof -
  obtain err r c where run: "op_claim_next nor demo_empty 5000 = (err, r, c)" by (metis prod.exhaust)
  have "err = EDGESYNC_ERR_NOT_FOUND"
    using claim_total_flashq [OF demo_empty_sound(1) [of "Suc 0"] run] demo_empty_sound(2) [of 0] by simp
  then have "op_claim_next nor demo_empty 5000 = (EDGESYNC_ERR_NOT_FOUND, None, demo_empty)"
    using named_errors_change_nothing [where F = nor and c = demo_empty and now_us = 5000 and r = r and c' = c
        and cells = flat] run by simp
  moreover have "op_mark_delivered nor demo_queued 8 = (EDGESYNC_ERR_NOT_FOUND, demo_queued)"
    using named_errors_change_nothing [where mid = 8 and c = demo_queued and cells = flat and F = nor]
      demo_queued_sound(2) [of 0] by simp
  ultimately show ?thesis by simp
qed

section \<open>Selection and statistics\<close>

text \<open>The message an overflow gives up is a pending one: the oldest, or under the
  lowest-priority policy the oldest of the least urgent; there is none exactly when nothing is
  pending, so a message that is being delivered or was dead-lettered is never dropped.\<close>

theorem drop_candidate_correct:
  assumes "flashq_inv cells sz c"
  shows "case op_find_drop_candidate c policy of
      (err, Some mid) \<Rightarrow> err = ESP_OK \<and> (\<exists>msg. m_id msg = mid \<and> first_to_drop (contents cells c) policy msg)
    | (err, None) \<Rightarrow> err = EDGESYNC_ERR_NOT_FOUND \<and> \<not> has_pending (contents cells c)"
proof -
  obtain err r where run: "op_find_drop_candidate c policy = (err, r)" by (metis prod.exhaust)
  have shape: "r \<noteq> None \<longrightarrow> err = ESP_OK" "r = None \<longrightarrow> err = EDGESYNC_ERR_NOT_FOUND"
    using run by (auto simp: op_find_drop_candidate_def split: option.splits)
  have core: "inv_core cells sz c" using assms by (simp add: flashq_inv_def)
  show ?thesis
  proof (cases r)
    case None
    then have "err \<noteq> ESP_OK" using shape by simp
    from drop_candidate_first(2) [OF core run this] show ?thesis
      using None shape run by (auto simp: has_pending_def)
  next
    case (Some mid)
    then have err: "err = ESP_OK" using shape by simp
    from drop_candidate_first(1) [OF core run [unfolded err]] show ?thesis
      using Some err run by auto
  qed
qed

theorem drop_candidate_correct_witness:
  "op_find_drop_candidate demo_queued OVERFLOW_DROP_OLDEST = (ESP_OK, Some 7) \<and>
   op_find_drop_candidate demo_claimed OVERFLOW_DROP_OLDEST = (EDGESYNC_ERR_NOT_FOUND, None)"
proof -
  have c: "contents flat demo_queued = [7 \<mapsto> fresh demo_message]" by (rule demo_queued_sound(2) [of 0]) simp
  have p: "has_pending (contents flat demo_queued)" "\<not> has_pending (contents flat demo_claimed)"
    by (auto simp: c demo_claimed_sound(2) has_pending_def)
  show ?thesis
    using drop_candidate_correct [OF demo_inv(2), of OVERFLOW_DROP_OLDEST]
      drop_candidate_correct [OF demo_inv(3), of OVERFLOW_DROP_OLDEST] p
    by (auto simp: first_to_drop_def c demo_claimed_sound(2) has_pending_def split: prod.splits option.splits if_splits)
qed

lemma count_entry_message:
  "live_state (e_state e) \<Longrightarrow> count_entry st e = count_message st (stored m base e)"
  by (auto simp: live_state_def count_entry_def count_message_def stored_def state_of_def Let_def entry_payload_def
      entry_body_def entry_plen_def)

text \<open>C35: The statistics count the stored messages: pending ones that were never tried, pending ones
  that were, messages in flight, dead letters, and the bytes of all payloads, each at the width
  of its counter.\<close>

theorem stats_count_messages:
  assumes "flashq_inv cells sz c"
  shows "op_get_stats c st = (ESP_OK, (counted (contents cells c) st)
    \<lparr>st_delivered_awaiting_gc := awaiting_gc_count c, st_queue_capacity := of_nat (index_capacity c),
     st_storage_bytes_used := of_nat (cursor c - 4096), st_storage_bytes_capacity := of_nat (region_size c - 4096),
     st_compactions_total := compactions_total c\<rparr>)"
proof -
  have core: "inv_core cells sz c" using assms by (simp add: flashq_inv_def)
  note I = inv_coreD [OF core]
  let ?st = "stored (cells (partition c)) (active_base c)"
  have "foldl count_entry st (index c) = foldl count_message st (map ?st (index c))"
    unfolding foldl_map by (rule foldl_cong) (use I(6) in \<open>simp_all add: count_entry_message\<close>)
  also have "\<dots> = counted (contents cells c) st"
    unfolding counted_keyed [OF I(5)] by (simp add: contents_def contents_of_def keyed_map_def)
  finally show ?thesis by (simp add: op_get_stats_def I(10,11))
qed

theorem stats_count_messages_witness:
  "\<exists>st. op_get_stats demo_claimed zero_stats = (ESP_OK, st) \<and> st_in_flight_messages st = 1 \<and>
     st_pending_messages st = 0 \<and> st_bytes_queued st = 3"
proof -
  have "{mid. mid = (7 :: message_id) \<and> P} = (if P then {7} else {})" for P by auto
  then show ?thesis
    unfolding stats_count_messages [OF demo_inv(3)]
    by (simp add: counted_def view_count_def view_sum_def demo_claimed_sound(2) zero_stats_def demo_message_def
        claimed_def fresh_def if_distrib)
qed

section \<open>Success\<close>

text \<open>C19: On a device that works and a partition with room for the configured number of messages,
  no operation fails for want of space, however often the log has to be compacted: a message
  that fits is accepted whenever fewer than the configured number are stored, a claim succeeds
  whenever some message is due, and every stored message can be confirmed and rescheduled.\<close>

theorem operations_succeed:
  assumes "flashq_sound cells F sz cap scr (Suc k) c"
  shows "fst (op_enqueue F c msg) = (if cap \<le> card (dom (contents cells c)) then EDGESYNC_ERR_QUEUE_FULL
      else if \<not> message_accepted scr msg then EDGESYNC_ERR_SERIALIZATION else ESP_OK) \<and>
    fst (op_claim_next F c now_us) = (if \<exists>mid msg. contents cells c mid = Some msg \<and> eligible now_us msg
      then ESP_OK else EDGESYNC_ERR_NOT_FOUND) \<and>
    fst (op_mark_delivered F c mid) = (if mid \<in> dom (contents cells c) then ESP_OK else EDGESYNC_ERR_NOT_FOUND) \<and>
    fst (op_schedule_retry F c mid next_us dead er) =
      (if mid \<in> dom (contents cells c) then ESP_OK else EDGESYNC_ERR_NOT_FOUND)"
proof -
  obtain err r c' where run: "op_claim_next F c now_us = (err, r, c')" by (metis prod.exhaust)
  show ?thesis
    unfolding op_mark_delivered_def
    using enqueue_total_flashq [OF assms prod.collapse [symmetric], of msg] claim_total_flashq [OF assms run] run
      retire_entry_total [OF assms prod.collapse [symmetric], of mid]
      schedule_retry_total [OF assms prod.collapse [symmetric], of mid next_us dead er]
    by (simp only: fst_conv)
qed

theorem operations_succeed_witness:
  "fst (op_enqueue nor demo_empty demo_message) = ESP_OK \<and> fst (op_claim_next nor demo_queued 5000) = ESP_OK \<and>
   fst (op_mark_delivered nor demo_claimed 7) = ESP_OK"
proof -
  have acc: "message_accepted 164 demo_message"
    by (simp add: message_accepted_def demo_message_def message_len_def record_total_size_def round4_def c_string_def)
  have c: "contents flat demo_empty = Map.empty" "contents flat demo_queued = [7 \<mapsto> fresh demo_message]"
    by (rule demo_empty_sound(2) [of 0] demo_queued_sound(2) [of 0], simp)+
  have "\<exists>mid msg. contents flat demo_queued mid = Some msg \<and> eligible 5000 msg"
    using demo_eligible by (auto simp: c)
  then show ?thesis
    using operations_succeed [OF demo_empty_sound(1) [of "Suc 0"], of demo_message]
      operations_succeed [OF demo_queued_sound(1) [of "Suc 0"], of _ 5000]
      operations_succeed [OF demo_claimed_sound(1) [of "Suc 0"], of _ _ 7] acc
    by (simp add: c demo_claimed_sound(2))
qed

section \<open>Publishing\<close>

text \<open>C16: Publishing follows the overflow policy: with room the message is stored; in a full queue
  it is rejected, or the policy's candidate is dropped and the message stored in its place, and
  the candidate is lost even when the message then proves too large.  The application sees one
  event for a dropped and one for the new message, in this order, and the worker is woken
  exactly when the message was stored.\<close>

theorem publish_follows_policy:
  assumes "q_storage_ops q = flashq_ops F mc" "flashq_sound cells F sz cap scr (k + 3) (q_storage_ctx q)"
    and "m_id msg \<notin> dom (contents cells (q_storage_ctx q))" "queue_publish q msg tr = (err, q', tr', woken)"
  shows "\<exists>d. publish_effect (q_overflow_policy q) cap (message_accepted scr) (contents cells (q_storage_ctx q)) msg
        err d (contents cells (q_storage_ctx q')) \<and>
      q' = q\<lparr>q_storage_ctx := q_storage_ctx q'\<rparr> \<and> flashq_sound cells F sz cap scr k (q_storage_ctx q') \<and>
      tr' = tr @ (if q_event_cb q then publish_events msg err d else []) \<and> woken = (err = ESP_OK \<and> q_wake_cb q)"
  by (rule flashq_reliable.queue_publish_effect [OF assms])

definition demo_queue :: "mem flashq_ctx queue" where
  "demo_queue = \<lparr>q_storage_ops = flashq_ops nor True, q_storage_ctx = demo_empty,
     q_overflow_policy = OVERFLOW_DROP_OLDEST, q_event_cb = True, q_wake_cb = True,
     q_successful_deliveries = 0, q_failed_deliveries = 0\<rparr>"

theorem publish_follows_policy_witness:
  "\<exists>q'. queue_publish demo_queue demo_message [] = (ESP_OK, q', [(EVENT_QUEUED, demo_message)], True) \<and>
     contents flat (q_storage_ctx q') = [7 \<mapsto> fresh demo_message]"
proof -
  obtain err q' tr' woken where run: "queue_publish demo_queue demo_message [] = (err, q', tr', woken)" by (metis prod.exhaust)
  have f: "q_storage_ctx demo_queue = demo_empty" "q_storage_ops demo_queue = flashq_ops nor True"
    "q_event_cb demo_queue" "q_wake_cb demo_queue" by (simp_all add: demo_queue_def)
  have e: "contents flat demo_empty = Map.empty" by (rule demo_empty_sound(2) [of 0]) simp
  have acc: "message_accepted 164 demo_message"
    by (simp add: message_accepted_def demo_message_def message_len_def record_total_size_def round4_def c_string_def)
  have "flashq_sound flat nor 24576 4 164 (0 + 3) (q_storage_ctx demo_queue)"
    unfolding f by (rule demo_empty_sound(1)) simp
  from publish_follows_policy [OF f(2) this _ run] show ?thesis
    using run acc by (auto simp: f e publish_effect_def publish_events_def demo_message_id)
qed

end
