(* ===== verification/Nvs_Properties.thy ===== *)
theory Nvs_Properties
  imports Nvs_Backend ES_Stats Flashq_Example
begin

text \<open>
  What the NVS backend guarantees, stated over the operations of \<open>edgesync_storage_nvs.c\<close>, with a
  concrete queue of four messages on an ideal NVS library for the witnesses.
\<close>

section \<open>A new namespace\<close>

lemma nvs_created_inv:
  assumes run: "nvs_storage_create config out_valid nvs_open a b garbage = (ESP_OK, Some c)"
    and small: "n_max_messages c \<le> 100000" "n_scratch_size c < 2 ^ 32"
    and empty: "blobs (n_handle c) = Map.empty" "durable (n_handle c) = Map.empty"
  shows "nvs_inv blobs durable c" "nvs_view blobs c = Map.empty" "nvs_reboot blobs durable c c" "n_index c = []"
proof -
  have f: "n_index c = []" "n_slot_used c = replicate (n_max_messages c) False" "n_index_capacity c = n_max_messages c"
    "length (n_scratch c) = n_scratch_size c" "length (n_claim_scratch c) = n_scratch_size c" "\<not> n_fault c"
    using run by (auto simp: nvs_storage_create_def Let_def split: option.splits if_splits)
  then show "nvs_inv blobs durable c" "nvs_view blobs c = Map.empty" "nvs_reboot blobs durable c c" "n_index c = []"
    using small empty
    by (simp_all add: nvs_inv_def nvs_geometry_def nvs_slots_ok_def nvs_view_def nvs_reboot_def keyed_map_def)
qed

lemma nvs_recover_empty:
  assumes "nvs_laws N blobs durable" "nvs_reliable N blobs"
    and run: "nvs_storage_create config out_valid nvs_open a b garbage = (ESP_OK, Some c)"
    and small: "n_max_messages c \<le> 100000" "n_scratch_size c < 2 ^ 32"
    and empty: "blobs (n_handle c) = Map.empty" "durable (n_handle c) = Map.empty"
  shows "\<exists>c'. nvs_op_recover N c = (ESP_OK, c') \<and> nvs_view blobs c' = Map.empty \<and>
    nvs_sound N blobs durable (n_max_messages c) (n_scratch_size c) k c'"
proof -
  note C = nvs_created_inv [OF run small, of blobs durable, OF empty]
  have cap: "n_index_capacity c = n_max_messages c" using C(1) by (rule nvs_invD(10))
  have "nvs_sound N blobs durable (n_max_messages c) (n_scratch_size c) (0 :: nat) c"
    using assms(1,2) C(1) cap by (simp add: nvs_sound_def nvs_good_def)
  then have s0: "nvs_sound N blobs durable (n_max_messages c) (n_scratch_size c) (0 :: nat) c" .
  obtain err c' where run2: "nvs_op_recover N c = (err, c')" by (metis prod.exhaust)
  have "err = ESP_OK \<and> nvs_sound N blobs durable (n_max_messages c) (n_scratch_size c) k c' \<and>
      nvs_view blobs c' = (\<lambda>mid. map_option (requeued_with zeroed) (nvs_view blobs c mid))"
    by (rule nvs_restart_total [OF s0 C(3) run2])
  then show ?thesis using run2 by (simp add: C(2))
qed

section \<open>A concrete queue\<close>

definition demo_nvs_open :: "string \<Rightarrow> blob_map option" where
  "demo_nvs_open ns = (if ns = ''edgesync'' then Some Map.empty else None)"

definition demo_nvs_config :: nvs_storage_config where
  "demo_nvs_config = \<lparr>nc_namespace = None, nc_max_messages = 4, nc_max_message_size = 32\<rparr>"

definition demo_nvs_created :: "blob_map nvs_ctx" where
  "demo_nvs_created = the (snd (nvs_storage_create (Some demo_nvs_config) True demo_nvs_open True True (\<lambda>_. 0)))"

definition demo_nvs_empty :: "blob_map nvs_ctx" where
  "demo_nvs_empty = snd (nvs_op_recover ideal_nvs demo_nvs_created)"

definition demo_nvs_queued :: "blob_map nvs_ctx" where
  "demo_nvs_queued = snd (nvs_op_enqueue ideal_nvs demo_nvs_empty demo_message)"

definition demo_nvs_claimed :: "blob_map nvs_ctx" where
  "demo_nvs_claimed = snd (snd (nvs_op_claim_next ideal_nvs demo_nvs_queued 5000))"

abbreviation (input) "same_map \<equiv> \<lambda>n :: blob_map. n"
abbreviation (input) "demo_nvs_sound \<equiv> nvs_sound ideal_nvs same_map same_map 4 164"

lemma demo_nvs_create_run:
  "nvs_storage_create (Some demo_nvs_config) True demo_nvs_open True True (\<lambda>_. 0) = (ESP_OK, Some demo_nvs_created)"
  by (simp add: demo_nvs_created_def nvs_storage_create_def demo_nvs_config_def demo_nvs_open_def Let_def)

lemma demo_nvs_created_fields:
  "n_max_messages demo_nvs_created = 4" "n_scratch_size demo_nvs_created = 164" "n_handle demo_nvs_created = Map.empty"
  by (simp_all add: demo_nvs_created_def nvs_storage_create_def demo_nvs_config_def demo_nvs_open_def Let_def
      record_total_size_def round4_def)

lemma demo_nvs_empty_sound:
  "nvs_op_recover ideal_nvs demo_nvs_created = (ESP_OK, demo_nvs_empty)"
  "demo_nvs_sound k demo_nvs_empty" "nvs_view same_map demo_nvs_empty = Map.empty"
  using nvs_recover_empty [OF ideal_nvs_laws ideal_nvs_reliable demo_nvs_create_run, of k]
  by (auto simp: demo_nvs_created_fields demo_nvs_empty_def)

lemma demo_nvs_queued_sound:
  "nvs_op_enqueue ideal_nvs demo_nvs_empty demo_message = (ESP_OK, demo_nvs_queued)"
  "demo_nvs_sound k demo_nvs_queued" "nvs_view same_map demo_nvs_queued = [7 \<mapsto> fresh demo_message]"
proof -
  note E = demo_nvs_empty_sound(2) [of 0] and V = demo_nvs_empty_sound(3)
  obtain err c where run: "nvs_op_enqueue ideal_nvs demo_nvs_empty demo_message = (err, c)" by (metis prod.exhaust)
  have "message_accepted 164 demo_message"
    by (simp add: message_accepted_def demo_message_def message_len_def record_total_size_def round4_def c_string_def)
  then have e: "err = ESP_OK" using nvs_enqueue_total [OF E run] by (simp add: V)
  have c: "c = demo_nvs_queued" using run by (simp add: demo_nvs_queued_def)
  show r: "nvs_op_enqueue ideal_nvs demo_nvs_empty demo_message = (ESP_OK, demo_nvs_queued)" using run e c by simp
  show "demo_nvs_sound k demo_nvs_queued" "nvs_view same_map demo_nvs_queued = [7 \<mapsto> fresh demo_message]"
    using nvs_enqueue_sound [OF E _ r, of k] by (simp_all add: V demo_message_id)
qed

lemma demo_nvs_claimed_sound:
  "nvs_op_claim_next ideal_nvs demo_nvs_queued 5000 = (ESP_OK, Some (claimed (fresh demo_message) 5000), demo_nvs_claimed)"
  "demo_nvs_sound k demo_nvs_claimed" "nvs_view same_map demo_nvs_claimed = [7 \<mapsto> claimed (fresh demo_message) 5000]"
proof -
  note Q = demo_nvs_queued_sound(2) [of 0] and V = demo_nvs_queued_sound(3)
  obtain err r c where run: "nvs_op_claim_next ideal_nvs demo_nvs_queued 5000 = (err, r, c)" by (metis prod.exhaust)
  have err: "err = ESP_OK" using nvs_claim_sound(4) [OF Q run] V demo_eligible by (auto split: if_splits)
  have c: "c = demo_nvs_claimed" using run by (simp add: demo_nvs_claimed_def)
  have eff: "r = Some (claimed (fresh demo_message) 5000) \<and> demo_nvs_sound k demo_nvs_claimed \<and>
      nvs_view same_map demo_nvs_claimed = [7 \<mapsto> claimed (fresh demo_message) 5000]"
    using nvs_claim_sound(2) [OF Q run, of k] by (auto simp: err c V first_to_claim_def demo_message_id split: if_splits)
  then show "nvs_op_claim_next ideal_nvs demo_nvs_queued 5000 =
      (ESP_OK, Some (claimed (fresh demo_message) 5000), demo_nvs_claimed)"
    "demo_nvs_sound k demo_nvs_claimed" "nvs_view same_map demo_nvs_claimed = [7 \<mapsto> claimed (fresh demo_message) 5000]"
    using run by (simp_all add: err c)
qed

section \<open>Properties\<close>



text \<open>C24: Rescheduling a message on the NVS backend destroys its payload: the call succeeds on a
  working device, and what is stored from then on has the payload length it had, all bytes zero.
  The record is encoded into the very buffer the payload pointer points into.\<close>

theorem nvs_retry_zeroes_payload:
  assumes "nvs_sound N blobs durable cap scr k c" "nvs_view blobs c mid = Some msg"
  shows "\<exists>c'. nvs_op_schedule_retry N c mid next_us dead er = (ESP_OK, c') \<and>
    nvs_view blobs c' mid = Some (retried (msg\<lparr>m_payload := replicate (length (m_payload msg)) 0\<rparr>) next_us dead er)"
proof -
  obtain err c' where run: "nvs_op_schedule_retry N c mid next_us dead er = (err, c')" by (metis prod.exhaust)
  then have ok: "err = ESP_OK" using nvs_retry_total [OF assms(1) run] assms(2) by auto
  show ?thesis using nvs_retry_sound [OF assms(1) run [unfolded ok]] run assms(2) by (simp add: ok zeroed_def)
qed

theorem nvs_retry_zeroes_payload_witness:
  "\<exists>c' msg. nvs_op_schedule_retry ideal_nvs demo_nvs_claimed 7 9000 False EDGESYNC_ERR_TRANSPORT = (ESP_OK, c') \<and>
     m_payload (the (nvs_view same_map demo_nvs_claimed 7)) = [1, 2, 3] \<and>
     nvs_view same_map c' 7 = Some msg \<and> m_payload msg = [0, 0, 0]"
proof -
  have v: "nvs_view same_map demo_nvs_claimed 7 = Some (claimed (fresh demo_message) 5000)"
    by (simp add: demo_nvs_claimed_sound(3))
  show ?thesis
    using nvs_retry_zeroes_payload [OF demo_nvs_claimed_sound(2) [of 0] v, of 9000 False EDGESYNC_ERR_TRANSPORT]
    by (auto simp: v fresh_def demo_message_def)
qed

text \<open>C25: A restart of the NVS backend finds every stored message again, on a device that works,
  and makes those that were in flight pending; it destroys the payload of exactly these, because
  it rewrites their records.  The others survive byte for byte.\<close>

theorem nvs_restart_recovers:
  assumes "nvs_sound N blobs durable cap scr k c" "nvs_reboot blobs durable c c0"
  shows "\<exists>c'. nvs_op_recover N c0 = (ESP_OK, c') \<and> dom (nvs_view blobs c') = dom (nvs_view blobs c) \<and>
    (\<forall>mid msg. nvs_view blobs c mid = Some msg \<longrightarrow> nvs_view blobs c' mid = Some
      (if m_state msg = MSG_IN_FLIGHT then msg\<lparr>m_state := MSG_PENDING, m_next_retry_at_us := 0,
         m_payload := replicate (length (m_payload msg)) 0\<rparr> else msg))"
proof -
  obtain err c' where run: "nvs_op_recover N c0 = (err, c')" by (metis prod.exhaust)
  note R = nvs_restart_total [OF assms run, of 0]
  have "dom (nvs_view blobs c') = dom (nvs_view blobs c)" using R by (auto simp: dom_def)
  then show ?thesis using R run by (auto simp: requeued_with_def requeued_def zeroed_def)
qed

theorem nvs_restart_recovers_witness:
  "\<exists>c' msg. nvs_op_recover ideal_nvs demo_nvs_claimed = (ESP_OK, c') \<and> nvs_view same_map c' 7 = Some msg \<and>
     m_state msg = MSG_PENDING \<and> m_payload msg = [0, 0, 0]"
proof -
  note S = nvs_soundD [OF demo_nvs_claimed_sound(2) [of 0]]
  have "nvs_reboot same_map same_map demo_nvs_claimed demo_nvs_claimed"
    using nvs_invD(2,11,12) [OF S(2)] by (simp add: nvs_reboot_def)
  then show ?thesis
    using nvs_restart_recovers [OF demo_nvs_claimed_sound(2) [of 0]]
    by (fastforce simp: demo_nvs_claimed_sound(3) fresh_def demo_message_def)
qed

text \<open>Two slots of the NVS backend have the same key exactly when their numbers agree modulo
  100000; a queue configured for at most that many messages never overwrites one message with another.\<close>

lemma nvs_slot_keys: "slot_key s = slot_key t \<longleftrightarrow> s mod 100000 = t mod 100000"
proof -
  have m: "slot_key u = slot_key (u mod 100000)" for u by (simp add: slot_key_def)
  show ?thesis using slot_key_inject [of "s mod 100000" "t mod 100000"] m [of s] m [of t] by auto
qed

lemma nvs_count_entry_message:
  assumes "nvs_holds b cap e"
  shows "nvs_count_entry st e = count_message st (nvs_stored b e)"
proof -
  obtain dest payload bs where r: "b (slot_key (ne_slot e)) = Some bs" "nvs_record cap e dest payload bs"
    and l: "live_state (ne_state e)" using assms by (auto simp: nvs_holds_def)
  have "of_nat (length payload) = (ucast (ne_payload_len e) :: 64 word)"
    using r(2) by (simp add: nvs_record_def) (metis of_nat_unat)
  then show ?thesis using l
    by (auto simp: nvs_record_stored [where b = b, OF r(2,1)] nvs_count_entry_def count_message_def live_state_def state_of_def Let_def)
qed

text \<open>The statistics of the NVS backend count the stored messages by state and add up their
  payload bytes, and report what the NVS library says of its space.\<close>

lemma nvs_stats_count_messages:
  assumes "nvs_inv blobs durable c"
  shows "nvs_op_get_stats N c st = (ESP_OK,
    (let st' = (counted (nvs_view blobs c) st)\<lparr>st_queue_capacity := of_nat (n_max_messages c)\<rparr>
     in case nv_get_stats N (n_handle c) of None \<Rightarrow> st'
      | Some (entries, used) \<Rightarrow> st'\<lparr>st_storage_bytes_capacity := 32 * of_nat entries, st_storage_bytes_used := 32 * of_nat used\<rparr>))"
proof -
  note I = nvs_invD [OF assms]
  let ?st = "nvs_stored (blobs (n_handle c))"
  have "foldl nvs_count_entry st (n_index c) = foldl count_message st (map ?st (n_index c))"
    unfolding foldl_map by (rule foldl_cong) (simp_all add: nvs_count_entry_message [OF I(8)])
  also have "\<dots> = counted (nvs_view blobs c) st"
    unfolding counted_keyed [OF I(4)] by (simp add: nvs_view_def)
  finally show ?thesis
    by (simp add: nvs_op_get_stats_def I(10) Let_def mult.commute split: option.split)
qed

lemma nvs_stats_example:
  "\<exists>st. nvs_op_get_stats ideal_nvs demo_nvs_claimed zero_stats = (ESP_OK, st) \<and> st_in_flight_messages st = 1 \<and>
     st_pending_messages st = 0 \<and> st_bytes_queued st = 3"
proof -
  have "{mid. mid = (7 :: message_id) \<and> P} = (if P then {7} else {})" for P by auto
  then show ?thesis
    unfolding nvs_stats_count_messages [OF nvs_soundD(2) [OF demo_nvs_claimed_sound(2) [of 0]]]
    by (simp add: counted_def view_count_def view_sum_def demo_nvs_claimed_sound(3) zero_stats_def demo_message_def
        claimed_def fresh_def if_distrib ideal_nvs_def)
qed

end
