(* ===== verification/System_Properties.thy ===== *)
theory System_Properties
  imports Flashq_Guarantees Nvs_Properties
begin

text \<open>
  The guarantees of the whole system: publishing tasks, worker, transport and storage, composed as
  in \<open>ES_System\<close>, on each of the two backends of the repository.
\<close>

definition demo_transport :: "nat transport_ops" where
  "demo_transport = \<lparr>tr_init = None, tr_deliver = (\<lambda>n m. (DELIVERY_SUCCESS, 200, Suc n)), tr_close = None\<rparr>"

definition demo_worker :: worker where
  "demo_worker = \<lparr>w_retry_cfg = \<lparr>initial_delay_ms = 1000, max_delay_ms = 300000, multiplier = 2, jitter = True,
     max_attempts = 3\<rparr>, w_event_cb = True, w_stop_requested = False\<rparr>"

definition demo_nvs_queue :: "blob_map nvs_ctx queue" where
  "demo_nvs_queue = \<lparr>q_storage_ops = nvs_ops ideal_nvs True, q_storage_ctx = demo_nvs_empty,
     q_overflow_policy = OVERFLOW_DROP_OLDEST, q_event_cb = True, q_wake_cb = True,
     q_successful_deliveries = 0, q_failed_deliveries = 0\<rparr>"

lemma demo_always_delivers: "always_delivers demo_transport"
  by (simp add: always_delivers_def demo_transport_def)

lemma demo_accepted: "message_accepted 164 demo_message"
  by (simp add: message_accepted_def demo_message_def message_len_def record_total_size_def round4_def c_string_def)

lemma demo_queue_fields:
  "q_storage_ops demo_queue = flashq_ops nor True" "q_storage_ctx demo_queue = demo_empty"
  "q_storage_ops demo_nvs_queue = nvs_ops ideal_nvs True" "q_storage_ctx demo_nvs_queue = demo_nvs_empty"
  by (simp_all add: demo_queue_def demo_nvs_queue_def)

section \<open>No message is lost\<close>





section \<open>The worker\<close>

text \<open>C17: The worker acts on the result of an attempt as documented: a delivered message is removed,
  a rejected one or one whose attempts are used up becomes a dead letter, any other is due again
  after the computed delay; no other message changes, and the application sees the events of the
  outcome in order.\<close>

theorem worker_acts_on_result:
  assumes "q_storage_ops q = flashq_ops F mc" "flashq_sound cells F sz cap scr (Suc k) (q_storage_ctx q)"
    and "contents cells (q_storage_ctx q) (m_id m) = Some m"
    and "handle_delivery_result w q m result now_us rnd tr = (q', tr')"
  shows "flashq_sound cells F sz cap scr k (q_storage_ctx q') \<and>
    contents cells (q_storage_ctx q') =
      (contents cells (q_storage_ctx q))(m_id m := fst (settled (\<lambda>m. m) (w_retry_cfg w) m result now_us rnd)) \<and>
    tr' = tr @ (if w_event_cb w then map (\<lambda>ev. (ev, m)) (snd (settled (\<lambda>m. m) (w_retry_cfg w) m result now_us rnd)) else [])"
  using flashq_reliable.settle_effect [OF assms] by blast

theorem worker_acts_on_result_witness:
  "\<exists>q' m. handle_delivery_result demo_worker (demo_queue\<lparr>q_storage_ctx := demo_claimed\<rparr>)
       (claimed (fresh demo_message) 5000) DELIVERY_PERMANENT_FAILURE 9000 0 [] =
       (q', [(EVENT_FAILED, claimed (fresh demo_message) 5000), (EVENT_DEAD_LETTER, claimed (fresh demo_message) 5000)]) \<and>
     contents flat (q_storage_ctx q') 7 = Some m \<and> m_state m = MSG_DEAD_LETTER \<and> m_payload m = [1, 2, 3]"
proof -
  let ?q = "demo_queue\<lparr>q_storage_ctx := demo_claimed\<rparr>" and ?m = "claimed (fresh demo_message) 5000"
  have f: "q_storage_ops ?q = flashq_ops nor True" "q_storage_ctx ?q = demo_claimed" by (simp_all add: demo_queue_def)
  have s: "flashq_sound flat nor 24576 4 164 (Suc 0) (q_storage_ctx ?q)" unfolding f by (rule demo_claimed_sound(1)) simp
  have v: "contents flat (q_storage_ctx ?q) (m_id ?m) = Some ?m"
    unfolding f by (simp add: demo_claimed_sound(2) demo_message_id)
  obtain q' tr' where run: "handle_delivery_result demo_worker ?q ?m DELIVERY_PERMANENT_FAILURE 9000 0 [] = (q', tr')"
    by (metis prod.exhaust)
  show ?thesis
    using worker_acts_on_result [OF f(1) s v run] run
    by (auto simp: settled_def dead_lettered_def demo_worker_def demo_message_id)
      (simp_all add: retried_def fresh_def claimed_def demo_message_def)
qed

text \<open>Over a working connection the worker drains the queue: after as many iterations as there
  are waiting messages, all of them due, none is waiting, and the messages that were not waiting
  are as they were.\<close>

theorem worker_drains_queue:
  assumes "always_delivers T" "q_storage_ops q = flashq_ops F mc"
    and "flashq_sound cells F sz cap scr (k + 2 * length env) (q_storage_ctx q)"
    and "\<forall>(stop, claim_us, done_us, rnd)\<in>set env. \<not> stop \<and> all_due (contents cells (q_storage_ctx q)) claim_us"
    and "worker_task T w env q t tr = (stopped, q', t', tr')"
  shows "card (pending_ids (contents cells (q_storage_ctx q'))) = card (pending_ids (contents cells (q_storage_ctx q))) - length env \<and>
    (\<forall>mid. mid \<notin> pending_ids (contents cells (q_storage_ctx q)) \<longrightarrow>
       contents cells (q_storage_ctx q') mid = contents cells (q_storage_ctx q) mid)"
  using flashq_reliable.worker_drains [OF assms] by blast

theorem worker_drains_queue_witness:
  "\<exists>q' t' tr'. worker_task demo_transport demo_worker [(False, 5000, 5100, 0)] (demo_queue\<lparr>q_storage_ctx := demo_queued\<rparr>) 0 [] =
       (False, q', t', tr') \<and>
     card (pending_ids (contents flat demo_queued)) = 1 \<and> card (pending_ids (contents flat (q_storage_ctx q'))) = 0"
proof -
  let ?q = "demo_queue\<lparr>q_storage_ctx := demo_queued\<rparr>" and ?env = "[(False, 5000, 5100, 0)] :: (bool \<times> i64 \<times> i64 \<times> u32) list"
  have f: "q_storage_ops ?q = flashq_ops nor True" "q_storage_ctx ?q = demo_queued" by (simp_all add: demo_queue_def)
  have s: "flashq_sound flat nor 24576 4 164 (0 + 2 * length ?env) (q_storage_ctx ?q)"
    unfolding f by (rule demo_queued_sound(1)) simp
  have due: "\<forall>(stop, claim_us, done_us, rnd)\<in>set ?env. \<not> stop \<and> all_due (contents flat (q_storage_ctx ?q)) claim_us"
    unfolding f using demo_eligible by (simp add: demo_queued_sound(2) [of 0] all_due_def eligible_def)
  have p: "pending_ids [7 \<mapsto> fresh demo_message] = {7}" by (auto simp: pending_ids_def split: if_splits)
  obtain stopped q' t' tr' where run: "worker_task demo_transport demo_worker ?env ?q 0 [] = (stopped, q', t', tr')"
    by (metis prod.exhaust)
  have st: "\<not> stopped" using run by (auto split: prod.splits)
  show ?thesis
    using worker_drains_queue [OF demo_always_delivers f(1) s due run] run st unfolding f
    by (simp add: demo_queued_sound(2) [of 0] p)
qed

end
