(* ===== verification/Core_Properties.thy ===== *)
theory Core_Properties
  imports ES_Core System_Properties
begin

text \<open>
  The public operations end to end: what a caller of \<open>edgesync_publish\<close> may rely on, the life cycle
  of a handle, and that a new process finds what an old one stored.
\<close>

section \<open>Handles on the flash queue\<close>

text \<open>
  A handle whose queue is a flash queue in order: it has \<open>c\<close> behind its pointer, and its record
  buffer was made for the message limit of the handle.
\<close>

definition flash_handle ::
  "'p flash_ops \<Rightarrow> bool \<Rightarrow> ('p \<Rightarrow> mem) \<Rightarrow> nat \<Rightarrow> nat \<Rightarrow> nat \<Rightarrow> ('p, 'n, 'u, 'h, 't) core \<Rightarrow> 'p flashq_ctx \<Rightarrow> bool" where
  "flash_handle F mc cells sz cap k h c \<longleftrightarrow>
     q_storage_ops (co_queue h) = wrap_ops Flashq_Ctx flashq_of (flashq_ops F mc) \<and>
     q_storage_ctx (co_queue h) = Flashq_Ctx c \<and>
     flashq_sound cells F sz cap (max_record_size (co_max_message_size h)) k c"

lemma published_accepted:
  assumes "length (c_string destination) \<le> 63" "length payload \<le> unat limit"
  shows "message_accepted (max_record_size limit) (publish_message mid destination options now_us payload)"
proof -
  let ?d = "length (c_string (c_string destination))"
  have d: "?d = length (c_string destination)" by simp
  have "record_total_size ?d (length payload) \<le> record_total_size 63 (unat limit)"
    unfolding d by (rule record_total_size_mono [OF assms])
  moreover have "record_total_size 63 (unat limit) \<le> max_record_size limit" by (simp add: max_record_size_def)
  ultimately show ?thesis
    using assms(1) by (simp add: message_accepted_def message_len_def publish_message_def)
qed

section \<open>Publishing\<close>

text \<open>What the arguments of \<open>edgesync_publish\<close> must satisfy.\<close>

definition fits :: "byte list \<Rightarrow> nat \<Rightarrow> u32 \<Rightarrow> bool" where
  "fits destination data_len limit \<longleftrightarrow>
     1 \<le> length (c_string destination) \<and> length (c_string destination) \<le> 63 \<and> data_len \<le> unat limit"

lemma publish_run:
  assumes "co_started h" "data_len \<le> length bs" "fits dest data_len (co_max_message_size h)"
    and "choose_id options rng i = Some (mid, j)"
    and "queue_publish (co_queue h) (publish_message mid dest options now_us (take data_len bs)) tr = (err, q, tr', woken)"
  shows "edgesync_publish (Some h) (Some dest) (Some bs) data_len options now_us rng i tr =
    Some (err, Some (h\<lparr>co_queue := q\<rparr>), tr', woken, j)"
  using assms by (auto simp: edgesync_publish_def fits_def Let_def)

lemma publish_message_id [simp]: "m_id (publish_message mid destination options now_us payload) = mid"
  by (simp add: publish_message_def)

text \<open>What a publish stores.\<close>

lemma publish_stores:
  assumes "co_started h" "flash_handle F mc cells sz cap (k + 3) h c" "data_len \<le> length bs"
    and "fits dest data_len (co_max_message_size h)" "choose_id options rng i = Some (mid, j)" "mid \<notin> dom (contents cells c)"
    and "edgesync_publish (Some h) (Some dest) (Some bs) data_len options now_us rng i tr = Some (err, Some h', tr', woken, i')"
  shows "\<exists>c'. flash_handle F mc cells sz cap k h' c' \<and>
    (let accepted = (\<lambda>v. err = ESP_OK \<and> contents cells c' = v(mid \<mapsto> \<lparr>m_id = mid, m_destination = c_string dest,
        m_priority = (case options of Some opts \<Rightarrow> po_priority opts | None \<Rightarrow> EDGESYNC_PRIORITY_NORMAL),
        m_state = MSG_PENDING, m_attempt_count = 0, m_created_at_us = now_us, m_last_attempt_at_us = 0,
        m_next_retry_at_us = 0, m_last_error = ESP_OK, m_payload = take data_len bs\<rparr>))
     in if card (dom (contents cells c)) < cap then accepted (contents cells c)
        else if q_overflow_policy (co_queue h) = OVERFLOW_REJECT_NEW \<or> \<not> has_pending (contents cells c)
        then err = EDGESYNC_ERR_QUEUE_FULL \<and> contents cells c' = contents cells c
        else \<exists>old. first_to_drop (contents cells c) (q_overflow_policy (co_queue h)) old \<and>
               accepted ((contents cells c)(m_id old := None)))"
proof -
  let ?q = "co_queue h" and ?m = "publish_message mid dest options now_us (take data_len bs)"
  have H: "q_storage_ops ?q = wrap_ops Flashq_Ctx flashq_of (flashq_ops F mc)" "q_storage_ctx ?q = Flashq_Ctx c"
    "flashq_sound cells F sz cap (max_record_size (co_max_message_size h)) (k + 3) c"
    using assms(2) by (simp_all add: flash_handle_def)
  obtain e q tr1 wk where run: "queue_publish ?q ?m tr = (e, q, tr1, wk)" by (metis prod.exhaust)
  have r: "err = e" "h' = h\<lparr>co_queue := q\<rparr>"
    using publish_run [OF assms(1,3,4,5) run] assms(7) by simp_all
  have good: "wrap_good Flashq_Ctx (flashq_sound cells F sz cap (max_record_size (co_max_message_size h))) (k + 3) (q_storage_ctx ?q)"
    using H(3) by (auto simp: wrap_good_def H(2))
  have new: "m_id ?m \<notin> dom (contents cells (flashq_of (q_storage_ctx ?q)))" using assms(6) by (simp add: H(2))
  obtain d where d: "publish_effect (q_overflow_policy ?q) cap (message_accepted (max_record_size (co_max_message_size h)))
      (contents cells c) ?m e d (contents cells (flashq_of (q_storage_ctx q)))"
    "q = ?q\<lparr>q_storage_ctx := q_storage_ctx q\<rparr>"
    "wrap_good Flashq_Ctx (flashq_sound cells F sz cap (max_record_size (co_max_message_size h))) k (q_storage_ctx q)"
    using any_flashq.queue_publish_effect [where mc = mc, OF H(1) good new run] by (auto simp: H(2))
  obtain c' where c': "q_storage_ctx q = Flashq_Ctx c'"
    "flashq_sound cells F sz cap (max_record_size (co_max_message_size h)) k c'"
    using d(3) unfolding wrap_good_def by blast
  have "q_storage_ops q = q_storage_ops ?q" by (subst d(2)) simp
  then have fh: "flash_handle F mc cells sz cap k h' c'" using c' H(1) by (simp add: flash_handle_def r(2))
  have acc: "message_accepted (max_record_size (co_max_message_size h)) ?m"
    by (rule published_accepted) (use assms(3,4) in \<open>simp_all add: fits_def\<close>)
  have fr: "fresh ?m = ?m" by (simp add: fresh_def publish_message_def)
  have eff: "publish_effect (q_overflow_policy ?q) cap (message_accepted (max_record_size (co_max_message_size h)))
      (contents cells c) ?m e d (contents cells c')" using d(1) by (simp add: c'(1))
  have mid: "m_id ?m = mid" by (simp add: publish_message_def)
  show ?thesis
    using eff fh acc unfolding publish_effect_def Let_def r(1) publish_message_def [symmetric]
    by (intro exI [of _ c']) (auto simp: fr mid split: if_splits)
qed


text \<open>C32: Arguments beyond the limits are refused before anything is touched: an empty destination,
  one of more than 63 bytes or a payload above the configured limit give MESSAGE_TOO_LARGE, missing
  pointers INVALID_ARG, a missing handle or one that is not started NOT_INITIALIZED, and the
  handle, its storage, the events and the generator are as before.\<close>

theorem publish_refuses:
  assumes "case handle of None \<Rightarrow> True | Some h \<Rightarrow> \<not> co_started h \<or> destination = None \<or> (0 < data_len \<and> data = None) \<or>
    \<not> fits (the destination) data_len (co_max_message_size h)"
  shows "edgesync_publish handle destination data data_len options now_us rng i tr =
    Some (case handle of None \<Rightarrow> EDGESYNC_ERR_NOT_INITIALIZED | Some h \<Rightarrow>
       if \<not> co_started h then EDGESYNC_ERR_NOT_INITIALIZED
       else if destination = None \<or> (0 < data_len \<and> data = None) then ESP_ERR_INVALID_ARG
       else EDGESYNC_ERR_MESSAGE_TOO_LARGE, handle, tr, False, i)"
  using assms by (auto simp: edgesync_publish_def fits_def Let_def not_le Suc_le_eq split: option.splits)

section \<open>Life cycle\<close>

text \<open>C33: Starting and stopping a handle are inverse: a start that succeeds is undone by a stop, which
  leaves the handle, its configuration and its stored messages as they were, without a worker and
  without a wake-up callback; starting twice and stopping twice are refused.\<close>

theorem start_stop:
  assumes "edgesync_start (Some h) a b d = (ESP_OK, Some h1)"
  shows "\<not> co_started h \<and> co_started h1 \<and> (\<exists>w. co_worker h1 = Some w \<and> w_retry_cfg w = co_retry_cfg h \<and> \<not> w_stop_requested w) \<and>
    q_wake_cb (co_queue h1) \<and>
    edgesync_stop (Some h1) =
      (ESP_OK, Some (h\<lparr>co_queue := (co_queue h)\<lparr>q_wake_cb := False\<rparr>, co_worker := None, co_started := False\<rparr>)) \<and>
    edgesync_start (Some h1) a' b' d' = (EDGESYNC_ERR_ALREADY_STARTED, Some h1) \<and>
    edgesync_deinit (Some h1) = (EDGESYNC_ERR_INVALID_STATE, Some h1, None) \<and>
    fst (edgesync_stop (snd (edgesync_stop (Some h1)))) = EDGESYNC_ERR_INVALID_STATE"
  using assms
  by (auto simp: edgesync_start_def edgesync_stop_def edgesync_deinit_def worker_start_def worker_stop_def
      queue_set_wake_cb_def Let_def split: if_splits)

section \<open>A new process\<close>

lemma init_flash_run:
  assumes st: "sc_storage (cf_storage cfg) = EDGESYNC_STORAGE_FLASHQ" and pf: "pf_allocates pf" "pf_mutexes pf"
    and cr: "flashq_create (Some \<lparr>fc_partition_label = sc_partition_label (cf_storage cfg),
        fc_max_messages = effective (cf_max_queue_size cfg) CONFIG_EDGESYNC_MAX_QUEUE_SIZE,
        fc_max_message_size = effective (cf_max_message_size cfg) CONFIG_EDGESYNC_MAX_MESSAGE_SIZE\<rparr>)
      True (pf_partition_find pf) True True = (ESP_OK, Some c0)"
    and tr: "transport_create L net True cfg = (ESP_OK, Some (T, t))" "case tr_init T of Some f \<Rightarrow> fst (f t) = ESP_OK | None \<Rightarrow> True"
    and rec: "op_recover (pf_flash pf) (snd (op_init True c0)) = (ESP_OK, c')"
  shows "\<exists>h. edgesync_init pf L net (Some cfg) True = Init_Ok h \<and> \<not> co_started h \<and>
    co_max_message_size h = effective (cf_max_message_size cfg) CONFIG_EDGESYNC_MAX_MESSAGE_SIZE \<and>
    co_retry_cfg h = core_retry_cfg cfg \<and> q_overflow_policy (co_queue h) = cf_overflow_policy cfg \<and>
    q_storage_ops (co_queue h) = wrap_ops Flashq_Ctx flashq_of (flashq_ops (pf_flash pf) True) \<and>
    q_storage_ctx (co_queue h) = Flashq_Ctx c'"
proof -
  have i: "op_init True c0 = (ESP_OK, c0\<lparr>lock_created := True\<rparr>)" by (simp add: op_init_def)
  obtain t1 where t1: "(case tr_init T of Some f \<Rightarrow> f t | None \<Rightarrow> (ESP_OK, t)) = (ESP_OK, t1)"
    using tr(2) by (auto split: option.splits simp: prod_eq_iff)
  show ?thesis
    using rec unfolding i
    by (simp add: edgesync_init_def storage_create_def st pf cr tr(1) t1 queue_create_def queue_recover_def
        wrap_result_def i Let_def)
qed

text \<open>C7: What one process stored, the next one finds.  When \<open>edgesync_init\<close> runs with the same
  configuration on the flash that a queue in order left behind, however the old process ended
  between two operations, it succeeds, and the new handle has exactly the stored messages, those
  that were in flight pending again.  The retry parameters of the handle are usable whatever was
  configured.\<close>

theorem init_recovers:
  assumes "sc_storage (cf_storage cfg) = EDGESYNC_STORAGE_FLASHQ" "pf_allocates pf" "pf_mutexes pf"
    and "flashq_create (Some \<lparr>fc_partition_label = sc_partition_label (cf_storage cfg),
        fc_max_messages = effective (cf_max_queue_size cfg) CONFIG_EDGESYNC_MAX_QUEUE_SIZE,
        fc_max_message_size = effective (cf_max_message_size cfg) CONFIG_EDGESYNC_MAX_MESSAGE_SIZE\<rparr>)
      True (pf_partition_find pf) True True = (ESP_OK, Some c0)"
    and "flashq_reboot cells c c0"
    and "flashq_sound cells (pf_flash pf) sz cap
      (max_record_size (effective (cf_max_message_size cfg) CONFIG_EDGESYNC_MAX_MESSAGE_SIZE)) (k + card (dom (contents cells c)) + 1) c"
    and "transport_create L net True cfg = (ESP_OK, Some (T, t))"
    and "case tr_init T of Some f \<Rightarrow> fst (f t) = ESP_OK | None \<Rightarrow> True"
  shows "\<exists>h c'. edgesync_init pf L net (Some cfg) True = Init_Ok h \<and> \<not> co_started h \<and>
    flash_handle (pf_flash pf) True cells sz cap k h c' \<and>
    contents cells c' = (\<lambda>mid. map_option requeued (contents cells c mid)) \<and>
    0 < initial_delay_ms (co_retry_cfg h) \<and> 0 < max_delay_ms (co_retry_cfg h) \<and> 2 \<le> multiplier (co_retry_cfg h)"
proof -
  have rb: "flashq_reboot cells c (snd (op_init True c0))"
    using flashq_reliable.reboot_init [OF assms(5), where F = "pf_flash pf" and mc = True] by simp
  obtain err c' where run: "op_recover (pf_flash pf) (snd (op_init True c0)) = (err, c')" by (metis prod.exhaust)
  note R = restart_flashq [OF assms(6) rb run]
  have run': "op_recover (pf_flash pf) (snd (op_init True c0)) = (ESP_OK, c')" using run R by simp
  obtain h where "edgesync_init pf L net (Some cfg) True = Init_Ok h" "\<not> co_started h"
    "co_max_message_size h = effective (cf_max_message_size cfg) CONFIG_EDGESYNC_MAX_MESSAGE_SIZE"
    "co_retry_cfg h = core_retry_cfg cfg"
    "q_storage_ops (co_queue h) = wrap_ops Flashq_Ctx flashq_of (flashq_ops (pf_flash pf) True)"
    "q_storage_ctx (co_queue h) = Flashq_Ctx c'"
    using init_flash_run [OF assms(1-4,7,8) run'] by blast
  moreover have "0 < initial_delay_ms (core_retry_cfg cfg)" "0 < max_delay_ms (core_retry_cfg cfg)"
    "2 \<le> multiplier (core_retry_cfg cfg)"
    unfolding core_retry_cfg_def by (rule defaults_fill; simp)+
  ultimately show ?thesis using R by (intro exI [of _ h] exI [of _ c']) (simp add: flash_handle_def)
qed

lemma create_errors:
  "flashq_create config v f a b = (err, None) \<Longrightarrow> err \<noteq> ESP_OK"
  "nvs_storage_create cfg2 v g a b garbage = (err, None) \<Longrightarrow> err \<noteq> ESP_OK"
  "http_transport_create cfg3 v a = (err, None) \<Longrightarrow> err \<noteq> ESP_OK"
  "queue_create cfg4 v a b = (err, None) \<Longrightarrow> err \<noteq> ESP_OK"
  by (auto simp: flashq_create_def nvs_storage_create_def http_transport_create_def queue_create_def Let_def
      split: option.splits if_splits prod.splits)

lemma storage_create_error: "storage_create pf config n m = (err, None) \<Longrightarrow> err \<noteq> ESP_OK"
  by (auto simp: storage_create_def split: storage_type.splits option.splits prod.splits dest: create_errors)

lemma transport_create_error: "transport_create L net a cfg = (err, None) \<Longrightarrow> err \<noteq> ESP_OK"
  by (auto simp: transport_create_def split: option.splits prod.splits dest: create_errors)

text \<open>Which operations a created storage has, and that closing it releases its lock.\<close>

definition closed :: "('p, 'n, 'u) any_ctx \<Rightarrow> bool" where
  "closed s = (case s of Flashq_Ctx c \<Rightarrow> \<not> lock_created c | Nvs_Ctx c \<Rightarrow> \<not> n_lock_created c | Custom_Ctx u \<Rightarrow> True)"

lemma storage_create_closes:
  assumes "storage_create pf config n m = (err, Some (ops, sctx))"
  shows "closed (storage_destroy ops s)"
  using assms by (auto simp: storage_create_def storage_destroy_def closed_def wrap_result_def flashq_ops_def op_close_def
      nvs_op_close_def split: storage_type.splits option.splits prod.splits)


section \<open>Instances\<close>

text \<open>A process that starts on the flash of the example queue with one message in it.\<close>

definition demo_platform :: "(mem, blob_map) platform" where
  "demo_platform = \<lparr>pf_flash = nor, pf_nvs = ideal_nvs,
     pf_partition_find = (\<lambda>label. if label = ''edgesync'' then Some (partition demo_queued, 24576) else None),
     pf_nvs_open = (\<lambda>ns. None), pf_garbage = (\<lambda>i. 0), pf_allocates = True, pf_mutexes = True\<rparr>"

definition demo_core_config :: "(mem, blob_map, unit, nat) config" where
  "demo_core_config = (edgesync_default_config () 0 0)
     \<lparr>cf_max_queue_size := 4, cf_max_message_size := 32, cf_transport_ops := Some demo_transport\<rparr>"

definition demo_handle :: "(mem, blob_map, unit, http_request option, nat) core" where
  "demo_handle = (case edgesync_init demo_platform busy_http None (Some demo_core_config) True of Init_Ok h \<Rightarrow> h)"

lemma demo_reopen:
  "flashq_create (Some \<lparr>fc_partition_label = None, fc_max_messages = 4, fc_max_message_size = 32\<rparr>) True
     (pf_partition_find demo_platform) True True = (ESP_OK, Some (demo_created\<lparr>partition := partition demo_queued\<rparr>))"
  by (simp add: demo_platform_def demo_created_def flashq_create_def demo_config_def demo_partitions_def)

lemma demo_reopen_reboot: "flashq_reboot flat demo_queued (demo_created\<lparr>partition := partition demo_queued\<rparr>)"
proof -
  have "same_config demo_empty demo_created"
    using recover_fresh_ok(4) [OF nor_laws demo_created_fields(1) demo_blank demo_recover_run] .
  then show ?thesis using demo_queued_config by (simp add: flashq_reboot_def same_config_def)
qed

lemma demo_record_size: "max_record_size 32 = 164"
  by (simp add: max_record_size_def record_total_size_def round4_def)

lemma demo_init_facts:
  "effective (cf_max_queue_size demo_core_config) 256 = 4" "effective (cf_max_message_size demo_core_config) 2048 = 32"
  "sc_partition_label (cf_storage demo_core_config) = None" "sc_storage (cf_storage demo_core_config) = EDGESYNC_STORAGE_FLASHQ"
  "pf_allocates demo_platform" "pf_mutexes demo_platform" "pf_flash demo_platform = nor"
  "cf_overflow_policy demo_core_config = OVERFLOW_REJECT_NEW"
  by (simp_all add: effective_def demo_core_config_def demo_platform_def edgesync_default_config_def)

lemma demo_init_create:
  "flashq_create (Some \<lparr>fc_partition_label = sc_partition_label (cf_storage demo_core_config),
      fc_max_messages = effective (cf_max_queue_size demo_core_config) 256,
      fc_max_message_size = effective (cf_max_message_size demo_core_config) 2048\<rparr>)
    True (pf_partition_find demo_platform) True True = (ESP_OK, Some (demo_created\<lparr>partition := partition demo_queued\<rparr>))"
  unfolding demo_init_facts by (rule demo_reopen)

lemma demo_queued_contents: "contents flat demo_queued = [7 \<mapsto> fresh demo_message]"
  by (rule demo_queued_sound(2) [of 0]) simp

lemma demo_init_sound:
  "flashq_sound flat (pf_flash demo_platform) 24576 4
    (max_record_size (effective (cf_max_message_size demo_core_config) 2048)) (90 + card (dom (contents flat demo_queued)) + 1) demo_queued"
  unfolding demo_init_facts demo_record_size by (rule demo_queued_sound(1)) (simp add: demo_queued_contents)

lemma demo_init_transport:
  "transport_create busy_http None True demo_core_config = (ESP_OK, Some (wrap_transport demo_transport, Custom_Transport 0))"
  "case tr_init (wrap_transport demo_transport :: (http_request option, nat) any_transport transport_ops) of
     Some f \<Rightarrow> fst (f (Custom_Transport 0)) = ESP_OK | None \<Rightarrow> True"
  by (simp_all add: transport_create_def demo_core_config_def edgesync_default_config_def wrap_transport_def demo_transport_def)

lemma demo_handle:
  obtains c' where "edgesync_init demo_platform busy_http None (Some demo_core_config) True = Init_Ok demo_handle"
    "\<not> co_started demo_handle" "flash_handle nor True flat 24576 4 90 demo_handle c'"
    "contents flat c' = [7 \<mapsto> requeued (fresh demo_message)]" "co_max_message_size demo_handle = 32"
    "q_overflow_policy (co_queue demo_handle) = OVERFLOW_REJECT_NEW"
proof -
  let ?c0 = "demo_created\<lparr>partition := partition demo_queued\<rparr>"
  obtain err c2 where run: "op_recover nor (snd (op_init True ?c0)) = (err, c2)" by (metis prod.exhaust)
  have rb: "flashq_reboot flat demo_queued (snd (op_init True ?c0))"
    using demo_reopen_reboot by (simp add: op_init_def flashq_reboot_def same_config_def)
  note R = restart_flashq [OF demo_init_sound [unfolded demo_init_facts(7)] rb run]
  have run': "op_recover (pf_flash demo_platform) (snd (op_init True ?c0)) = (ESP_OK, c2)"
    using run R by (simp add: demo_init_facts(7))
  obtain h where h: "edgesync_init demo_platform busy_http None (Some demo_core_config) True = Init_Ok h" "\<not> co_started h"
    "co_max_message_size h = 32" "q_overflow_policy (co_queue h) = OVERFLOW_REJECT_NEW"
    "q_storage_ops (co_queue h) = wrap_ops Flashq_Ctx flashq_of (flashq_ops nor True)" "q_storage_ctx (co_queue h) = Flashq_Ctx c2"
    using init_flash_run [OF demo_init_facts(4,5,6) demo_init_create demo_init_transport run'] unfolding demo_init_facts by blast
  have d: "demo_handle = h" by (simp add: demo_handle_def h(1))
  have "contents flat c2 = [7 \<mapsto> requeued (fresh demo_message)]" using R by (simp add: demo_queued_contents fun_eq_iff)
  moreover have "flash_handle nor True flat 24576 4 90 h c2" using R h by (simp add: flash_handle_def demo_init_facts)
  ultimately show thesis using that h unfolding d by blast
qed

theorem init_recovers_witness:
  "\<exists>c'. edgesync_init demo_platform busy_http None (Some demo_core_config) True = Init_Ok demo_handle \<and>
     flash_handle nor True flat 24576 4 90 demo_handle c' \<and> contents flat c' = [7 \<mapsto> requeued (fresh demo_message)]"
proof -
  obtain h c' where "edgesync_init demo_platform busy_http None (Some demo_core_config) True = Init_Ok h"
    "flash_handle nor True flat 24576 4 90 h c'" "contents flat c' = (\<lambda>mid. map_option requeued (contents flat demo_queued mid))"
    using init_recovers [OF demo_init_facts(4,5,6) demo_init_create demo_reopen_reboot demo_init_sound demo_init_transport]
    unfolding demo_init_facts by blast
  then show ?thesis by (auto simp: demo_handle_def demo_queued_contents fun_eq_iff)
qed

text \<open>The handle started, and a second message published to it.\<close>

definition demo_started :: "(mem, blob_map, unit, http_request option, nat) core" where
  "demo_started = the (snd (edgesync_start (Some demo_handle) True True True))"

lemma demo_start: "edgesync_start (Some demo_handle) True True True = (ESP_OK, Some demo_started)"
proof -
  have "\<not> co_started demo_handle" by (rule demo_handle)
  then show ?thesis by (simp add: demo_started_def edgesync_start_def worker_start_def Let_def)
qed

lemma demo_started_fields:
  "co_started demo_started" "co_max_message_size demo_started = co_max_message_size demo_handle"
  "co_queue demo_started = queue_set_wake_cb (co_queue demo_handle) True"
proof -
  have "\<not> co_started demo_handle" by (rule demo_handle)
  then show "co_started demo_started" "co_max_message_size demo_started = co_max_message_size demo_handle"
    "co_queue demo_started = queue_set_wake_cb (co_queue demo_handle) True"
    by (simp_all add: demo_started_def edgesync_start_def worker_start_def Let_def)
qed

theorem start_stop_witness:
  "fst (edgesync_stop (Some demo_started)) = ESP_OK \<and>
   fst (edgesync_start (Some demo_started) True True True) = EDGESYNC_ERR_ALREADY_STARTED"
  using start_stop [OF demo_start, of True True True] by simp


theorem publish_refuses_witness:
  "edgesync_publish (Some demo_started) (Some (replicate 64 0x61)) (Some []) 0 None 6000 (\<lambda>_. 0) 0 [] =
     Some (EDGESYNC_ERR_MESSAGE_TOO_LARGE, Some demo_started, [], False, 0)"
proof -
  have "\<not> fits (replicate 64 0x61) 0 (co_max_message_size demo_started)" by (simp add: fits_def)
  then show ?thesis
    using publish_refuses [where handle = "Some demo_started" and destination = "Some (replicate 64 0x61)" and data = "Some []"
        and data_len = 0 and options = None and now_us = 6000 and rng = "\<lambda>_. 0" and i = 0 and tr = "[]"]
    by (simp add: demo_started_fields)
qed


end
