(* ===== verification/ES_Mqtt.thy ===== *)
theory ES_Mqtt
  imports ES_Http
begin

text \<open>
  \<open>edgesync_mqtt.c\<close>: the built-in MQTT transport.  The esp-mqtt client is not part of the
  repository: an operations record over an abstract state \<open>'m\<close>.  Its task runs concurrently and
  calls the event handler; \<open>ml_events\<close> says which events it delivers after a publish, those
  handled before \<open>deliver\<close> looks at the acknowledgement queue and those while it waits.
\<close>

section \<open>The client library\<close>

datatype mqtt_event =
  MQTT_EVENT_CONNECTED | MQTT_EVENT_DISCONNECTED | MQTT_EVENT_PUBLISHED int | MQTT_EVENT_ERROR | MQTT_EVENT_OTHER

record mqtt_client_config =
  mc_uri :: "byte list"
  mc_certificate :: "byte list option"
  mc_skip_cert_common_name_check :: bool
  mc_crt_bundle_attach :: bool
  mc_username :: "byte list option"
  mc_client_id :: "byte list option"
  mc_password :: "byte list option"
  mc_client_certificate :: "byte list option"
  mc_client_key :: "byte list option"

record 'm mqtt_lib =
  ml_init :: "mqtt_client_config \<Rightarrow> 'm option"
  ml_register_event :: "'m \<Rightarrow> esp_err \<times> 'm"
  ml_start :: "'m \<Rightarrow> esp_err \<times> 'm"
  ml_publish :: "'m \<Rightarrow> byte list \<Rightarrow> byte list \<Rightarrow> int \<Rightarrow> bool \<Rightarrow> int \<times> 'm"  \<comment> \<open>topic, data, qos, retain\<close>
  ml_events :: "'m \<Rightarrow> u32 \<Rightarrow> mqtt_event list \<times> mqtt_event list \<times> 'm"  \<comment> \<open>within a timeout\<close>
  ml_stop :: "'m \<Rightarrow> esp_err \<times> 'm"

text \<open>
  What the documentation of esp-mqtt says of quality of service 0: the message identifier of a
  publish is zero (or negative on failure), and \<open>MQTT_EVENT_PUBLISHED\<close> is posted for the levels
  1 and 2 only, whose identifiers are not zero.
\<close>

definition qos0_unacknowledged :: "'m mqtt_lib \<Rightarrow> bool" where
  "qos0_unacknowledged L \<longleftrightarrow>
     (\<forall>m topic data retain. fst (ml_publish L m topic data 0 retain) \<le> 0) \<and>
     (\<forall>m timeout. MQTT_EVENT_PUBLISHED 0 \<notin> set (fst (ml_events L m timeout)) \<union> set (fst (snd (ml_events L m timeout))))"

section \<open>State\<close>

record mqtt_config =
  mq_broker_uri :: "byte list option"
  mq_topic :: "byte list option"
  mq_no_append_destination :: bool
  mq_client_id :: "byte list option"
  mq_username :: "byte list option"
  mq_password :: "byte list option"
  mq_qos :: int
  mq_retain :: bool
  mq_timeout_ms :: u32
  mq_use_cert_bundle :: bool
  mq_cert_pem :: "byte list option"
  mq_skip_cert_common_name_check :: bool
  mq_client_cert_pem :: "byte list option"
  mq_client_key_pem :: "byte list option"

text \<open>The context; \<open>ack_queue\<close> is the queue of length one.\<close>

record 'm mqtt_ctx =
  mt_config :: mqtt_config
  mt_base_topic :: "byte list"
  mt_client :: 'm
  mt_ack_queue :: "int option"

abbreviation (input) CONFIG_EDGESYNC_MQTT_DEFAULT_TIMEOUT_MS :: u32 where
  "CONFIG_EDGESYNC_MQTT_DEFAULT_TIMEOUT_MS \<equiv> 10000"
abbreviation (input) CONFIG_EDGESYNC_MQTT_DEFAULT_QOS :: int where "CONFIG_EDGESYNC_MQTT_DEFAULT_QOS \<equiv> 1"
abbreviation (input) EDGESYNC_MQTT_MAX_TOPIC_LEN :: nat where "EDGESYNC_MQTT_MAX_TOPIC_LEN \<equiv> 256"

section \<open>Operations\<close>

text \<open>The event handler; the other events are only logged.\<close>

definition mqtt_event_handler :: "'m mqtt_ctx \<Rightarrow> mqtt_event \<Rightarrow> 'm mqtt_ctx" where
  "mqtt_event_handler ctx ev =
     (case ev of MQTT_EVENT_PUBLISHED msg_id \<Rightarrow> ctx\<lparr>mt_ack_queue := Some msg_id\<rparr> | _ \<Rightarrow> ctx)"

definition mqtt_op_init :: "'m mqtt_lib \<Rightarrow> 'm mqtt_ctx \<Rightarrow> esp_err \<times> 'm mqtt_ctx" where
  "mqtt_op_init L ctx =
     (let (err, m) = ml_register_event L (mt_client ctx); ctx = ctx\<lparr>mt_client := m\<rparr>
      in if err \<noteq> ESP_OK then (err, ctx)
         else let (err, m) = ml_start L (mt_client ctx) in (err, ctx\<lparr>mt_client := m\<rparr>))"

text \<open>
  \<open>xQueueReceive\<close> with a timeout: the element that is there, or the first that the handler puts
  there; \<open>None\<close> when the events of the timeout end without one.  The events that are left are
  handled afterwards.
\<close>

fun await_ack :: "'m mqtt_ctx \<Rightarrow> mqtt_event list \<Rightarrow> int option \<times> 'm mqtt_ctx" where
  "await_ack ctx evs =
     (case mt_ack_queue ctx of
        Some acked \<Rightarrow> (Some acked, foldl mqtt_event_handler (ctx\<lparr>mt_ack_queue := None\<rparr>) evs)
      | None \<Rightarrow> (case evs of [] \<Rightarrow> (None, ctx) | ev # evs \<Rightarrow> await_ack (mqtt_event_handler ctx ev) evs))"

declare await_ack.simps [simp del]

definition mqtt_op_deliver :: "'m mqtt_lib \<Rightarrow> 'm mqtt_ctx \<Rightarrow> message \<Rightarrow> delivery_result \<times> int \<times> 'm mqtt_ctx" where
  "mqtt_op_deliver L ctx msg =
     (let cfg = mt_config ctx;
          topic = (if mq_no_append_destination cfg then Some (strlcpy_text EDGESYNC_MQTT_MAX_TOPIC_LEN (mt_base_topic ctx))
                   else join_path EDGESYNC_MQTT_MAX_TOPIC_LEN (mt_base_topic ctx) (m_destination msg))
      in case topic of
           None \<Rightarrow> (DELIVERY_PERMANENT_FAILURE, 0, ctx)
         | Some topic \<Rightarrow>
             let qos = (if mq_qos cfg < 0 \<or> mq_qos cfg > 2 then CONFIG_EDGESYNC_MQTT_DEFAULT_QOS else mq_qos cfg);
                 ctx = ctx\<lparr>mt_ack_queue := None\<rparr>;
                 (msg_id, m) = ml_publish L (mt_client ctx) topic (m_payload msg) qos (mq_retain cfg);
                 ctx = ctx\<lparr>mt_client := m\<rparr>
             in if msg_id < 0 then (DELIVERY_RETRYABLE_FAILURE, msg_id, ctx)
                else
                  let timeout_ms = (if mq_timeout_ms cfg \<noteq> 0 then mq_timeout_ms cfg else CONFIG_EDGESYNC_MQTT_DEFAULT_TIMEOUT_MS);
                      (before, waiting, m) = ml_events L (mt_client ctx) timeout_ms;
                      ctx = foldl mqtt_event_handler (ctx\<lparr>mt_client := m\<rparr>) before;
                      (acked, ctx) = await_ack ctx waiting
                  in (if acked = Some msg_id then DELIVERY_SUCCESS else DELIVERY_RETRYABLE_FAILURE, msg_id, ctx))"

definition mqtt_op_close :: "'m mqtt_lib \<Rightarrow> 'm mqtt_ctx \<Rightarrow> esp_err \<times> 'm mqtt_ctx" where
  "mqtt_op_close L ctx = (let (err, m) = ml_stop L (mt_client ctx) in (err, ctx\<lparr>mt_client := m\<rparr>))"

definition mqtt_ops :: "'m mqtt_lib \<Rightarrow> 'm mqtt_ctx transport_ops" where
  "mqtt_ops L = \<lparr>tr_init = Some (mqtt_op_init L), tr_deliver = mqtt_op_deliver L, tr_close = Some (mqtt_op_close L)\<rparr>"

text \<open>The client configuration, with the bundled certificates for a mqtts address by default.\<close>

definition mqtt_client_cfg :: "mqtt_config \<Rightarrow> byte list \<Rightarrow> mqtt_client_config" where
  "mqtt_client_cfg cfg broker_uri =
     (let use_cert_bundle = mq_use_cert_bundle cfg \<or>
            (\<not> mq_use_cert_bundle cfg \<and> mq_cert_pem cfg = None \<and> take 8 (c_string broker_uri) = c_bytes ''mqtts://'')
      in \<lparr>mc_uri = broker_uri, mc_certificate = mq_cert_pem cfg,
          mc_skip_cert_common_name_check = mq_skip_cert_common_name_check cfg,
          mc_crt_bundle_attach = (use_cert_bundle \<and> mq_cert_pem cfg = None), mc_username = mq_username cfg,
          mc_client_id = mq_client_id cfg, mc_password = mq_password cfg,
          mc_client_certificate = mq_client_cert_pem cfg, mc_client_key = mq_client_key_pem cfg\<rparr>)"

text \<open>\<open>edgesync_mqtt_transport_create\<close>; the flags: out pointers given, context and queue allocated.\<close>

definition mqtt_transport_create ::
  "'m mqtt_lib \<Rightarrow> mqtt_config option \<Rightarrow> bool \<Rightarrow> bool \<Rightarrow> bool \<Rightarrow> esp_err \<times> 'm mqtt_ctx option" where
  "mqtt_transport_create L config out_valid ctx_allocated queue_created =
     (case config of
        None \<Rightarrow> (EDGESYNC_ERR_TRANSPORT, None)
      | Some cfg \<Rightarrow>
          (case (mq_broker_uri cfg, mq_topic cfg) of
             (Some broker_uri, Some topic) \<Rightarrow>
               if \<not> out_valid then (EDGESYNC_ERR_TRANSPORT, None)
               else if \<not> ctx_allocated then (ESP_ERR_NO_MEM, None)
               else (case ml_init L (mqtt_client_cfg cfg broker_uri) of
                       None \<Rightarrow> (EDGESYNC_ERR_TRANSPORT, None)
                     | Some m \<Rightarrow>
                         if \<not> queue_created then (ESP_ERR_NO_MEM, None)
                         else (ESP_OK, Some \<lparr>mt_config = cfg, mt_base_topic = strlcpy_text EDGESYNC_MQTT_MAX_TOPIC_LEN topic,
                                mt_client = m, mt_ack_queue = None\<rparr>))
           | _ \<Rightarrow> (EDGESYNC_ERR_TRANSPORT, None)))"

section \<open>Acknowledgements\<close>

definition acks :: "mqtt_event list \<Rightarrow> int list" where
  "acks evs = List.map_filter (\<lambda>ev. case ev of MQTT_EVENT_PUBLISHED i \<Rightarrow> Some i | _ \<Rightarrow> None) evs"

lemma acks_simps [simp]:
  "acks [] = []" "acks (ev # evs) = (case ev of MQTT_EVENT_PUBLISHED i \<Rightarrow> i # acks evs | _ \<Rightarrow> acks evs)"
  by (simp_all add: acks_def List.map_filter_def split: mqtt_event.split)

lemma set_acks: "i \<in> set (acks evs) \<longleftrightarrow> MQTT_EVENT_PUBLISHED i \<in> set evs"
  by (induction evs) (auto split: mqtt_event.split)

lemma handler_keeps:
  "mt_config (foldl mqtt_event_handler ctx evs) = mt_config ctx"
  "mt_ack_queue (foldl mqtt_event_handler ctx evs) = (if acks evs = [] then mt_ack_queue ctx else Some (last (acks evs)))"
  by (induction evs arbitrary: ctx) (auto simp: mqtt_event_handler_def split: mqtt_event.split)

lemma await_ack_result:
  "fst (await_ack ctx evs) =
    (case mt_ack_queue ctx of Some acked \<Rightarrow> Some acked
     | None \<Rightarrow> if acks evs = [] then None else Some (hd (acks evs)))"
proof (induction evs arbitrary: ctx)
  case Nil
  then show ?case by (simp add: await_ack.simps split: option.split)
next
  case (Cons ev evs)
  then show ?case
    by (subst await_ack.simps) (auto simp: mqtt_event_handler_def split: option.split mqtt_event.split)
qed

text \<open>The acknowledgement that a delivery takes for its own.\<close>

definition ack_taken :: "mqtt_event list \<Rightarrow> mqtt_event list \<Rightarrow> int option" where
  "ack_taken before waiting =
     (if acks before \<noteq> [] then Some (last (acks before)) else if acks waiting \<noteq> [] then Some (hd (acks waiting)) else None)"

definition mqtt_topic_of :: "'m mqtt_ctx \<Rightarrow> message \<Rightarrow> byte list option" where
  "mqtt_topic_of ctx msg =
     (if mq_no_append_destination (mt_config ctx) then Some (strlcpy_text EDGESYNC_MQTT_MAX_TOPIC_LEN (mt_base_topic ctx))
      else join_path EDGESYNC_MQTT_MAX_TOPIC_LEN (mt_base_topic ctx) (m_destination msg))"

definition mqtt_qos_of :: "mqtt_config \<Rightarrow> int" where
  "mqtt_qos_of cfg = (if mq_qos cfg \<in> {0, 1, 2} then mq_qos cfg else CONFIG_EDGESYNC_MQTT_DEFAULT_QOS)"

lemma mqtt_deliver_cases:
  assumes topic: "mqtt_topic_of ctx msg = Some topic"
    and pub: "ml_publish L (mt_client ctx) topic (m_payload msg) (mqtt_qos_of (mt_config ctx)) (mq_retain (mt_config ctx)) = (msg_id, m)"
    and evs: "ml_events L m (if mq_timeout_ms (mt_config ctx) \<noteq> 0 then mq_timeout_ms (mt_config ctx)
      else CONFIG_EDGESYNC_MQTT_DEFAULT_TIMEOUT_MS) = (before, waiting, m')"
  shows "fst (mqtt_op_deliver L ctx msg) =
    (if 0 \<le> msg_id \<and> ack_taken before waiting = Some msg_id then DELIVERY_SUCCESS else DELIVERY_RETRYABLE_FAILURE)"
proof -
  let ?cfg = "mt_config ctx"
  have qos: "(if mq_qos ?cfg < 0 \<or> mq_qos ?cfg > 2 then CONFIG_EDGESYNC_MQTT_DEFAULT_QOS else mq_qos ?cfg) = mqtt_qos_of ?cfg"
    by (auto simp: mqtt_qos_of_def)
  let ?c1 = "foldl mqtt_event_handler (ctx\<lparr>mt_ack_queue := None, mt_client := m'\<rparr>) before"
  obtain acked c2 where a: "await_ack ?c1 waiting = (acked, c2)" by (metis prod.exhaust)
  have "acked = ack_taken before waiting"
    using await_ack_result [of ?c1 waiting] by (simp add: a handler_keeps ack_taken_def)
  then show ?thesis
    using topic pub evs a unfolding mqtt_op_deliver_def mqtt_topic_of_def Let_def qos by auto
qed

section \<open>Properties\<close>

text \<open>C30: An MQTT delivery is a success exactly when the topic fits, the client accepted the publish
  and the acknowledgement it takes is that of this publish: the last one that arrived before it
  looked, otherwise the first that arrives within the timeout.  An acknowledgement of an earlier
  message that arrives in the meantime is taken instead of the right one, and the delivery then
  counts as failed although the broker has the message.\<close>

theorem mqtt_success_iff_acknowledged:
  assumes "mqtt_topic_of ctx msg = Some topic"
    and "ml_publish L (mt_client ctx) topic (m_payload msg) (mqtt_qos_of (mt_config ctx)) (mq_retain (mt_config ctx)) = (msg_id, m)"
    and "ml_events L m (if mq_timeout_ms (mt_config ctx) \<noteq> 0 then mq_timeout_ms (mt_config ctx)
      else CONFIG_EDGESYNC_MQTT_DEFAULT_TIMEOUT_MS) = (before, waiting, m')"
  shows "(fst (mqtt_op_deliver L ctx msg) = DELIVERY_SUCCESS) =
      (0 \<le> msg_id \<and> (if acks before \<noteq> [] then last (acks before) = msg_id else acks waiting \<noteq> [] \<and> hd (acks waiting) = msg_id)) \<and>
    fst (mqtt_op_deliver L ctx msg) \<noteq> DELIVERY_PERMANENT_FAILURE"
  unfolding mqtt_deliver_cases [OF assms] by (auto simp: ack_taken_def)

text \<open>A broker that acknowledges message 4 again before it acknowledges the new message 5.\<close>

definition late_mqtt :: "nat mqtt_lib" where
  "late_mqtt = \<lparr>ml_init = (\<lambda>cfg. Some 0), ml_register_event = (\<lambda>m. (ESP_OK, m)), ml_start = (\<lambda>m. (ESP_OK, m)),
     ml_publish = (\<lambda>m topic data qos retain. (if qos = 0 then 0 else 5, Suc m)),
     ml_events = (\<lambda>m timeout. ([], [MQTT_EVENT_PUBLISHED 4, MQTT_EVENT_PUBLISHED 5], m)), ml_stop = (\<lambda>m. (ESP_OK, m))\<rparr>"

definition demo_mqtt_ctx :: "int \<Rightarrow> nat mqtt_ctx" where
  "demo_mqtt_ctx qos = \<lparr>mt_config = \<lparr>mq_broker_uri = Some (c_bytes ''mqtts://b''), mq_topic = Some (c_bytes ''d''),
       mq_no_append_destination = False, mq_client_id = None, mq_username = None, mq_password = None, mq_qos = qos,
       mq_retain = False, mq_timeout_ms = 0, mq_use_cert_bundle = False, mq_cert_pem = None,
       mq_skip_cert_common_name_check = False, mq_client_cert_pem = None, mq_client_key_pem = None\<rparr>,
     mt_base_topic = c_bytes ''d'', mt_client = 0, mt_ack_queue = None\<rparr>"

lemma demo_mqtt_topic: "mqtt_topic_of (demo_mqtt_ctx qos) demo_http_message = Some (c_bytes ''d/t/a'')"
  by (simp add: mqtt_topic_of_def demo_mqtt_ctx_def join_path_def demo_http_message_def c_bytes_def c_string_def)

theorem mqtt_success_iff_acknowledged_witness:
  "fst (mqtt_op_deliver late_mqtt (demo_mqtt_ctx 1) demo_http_message) = DELIVERY_RETRYABLE_FAILURE \<and>
   5 \<in> set (acks (fst (snd (ml_events late_mqtt 1 10000))))"
proof -
  let ?c = "demo_mqtt_ctx 1"
  have "(fst (mqtt_op_deliver late_mqtt ?c demo_http_message) = DELIVERY_SUCCESS) = (0 \<le> (5 :: int) \<and>
      (if acks [] \<noteq> [] then last (acks []) = 5 else
         acks [MQTT_EVENT_PUBLISHED 4, MQTT_EVENT_PUBLISHED 5] \<noteq> [] \<and> hd (acks [MQTT_EVENT_PUBLISHED 4, MQTT_EVENT_PUBLISHED 5]) = 5)) \<and>
    fst (mqtt_op_deliver late_mqtt ?c demo_http_message) \<noteq> DELIVERY_PERMANENT_FAILURE"
    by (rule mqtt_success_iff_acknowledged [OF demo_mqtt_topic, where m = 1 and m' = 1])
      (simp_all add: demo_mqtt_ctx_def late_mqtt_def mqtt_qos_of_def)
  then show ?thesis
    by (cases "fst (mqtt_op_deliver late_mqtt ?c demo_http_message)") (simp_all add: late_mqtt_def)
qed

text \<open>C31: With quality of service 0 a delivery never succeeds: esp-mqtt does not acknowledge such a
  publish, so \<open>deliver\<close> waits out its timeout and reports a retryable failure for a message it has
  handed to the network, which the worker then sends again after every backoff.\<close>

theorem mqtt_qos0_never_succeeds:
  assumes "qos0_unacknowledged L" "mq_qos (mt_config ctx) = 0"
  shows "fst (mqtt_op_deliver L ctx msg) \<noteq> DELIVERY_SUCCESS"
proof (cases "mqtt_topic_of ctx msg")
  case None
  then show ?thesis by (simp add: mqtt_op_deliver_def mqtt_topic_of_def split: if_splits)
next
  case (Some topic)
  let ?cfg = "mt_config ctx"
  have qos: "mqtt_qos_of ?cfg = 0" using assms(2) by (simp add: mqtt_qos_of_def)
  obtain msg_id m where pub: "ml_publish L (mt_client ctx) topic (m_payload msg) (mqtt_qos_of ?cfg) (mq_retain ?cfg) = (msg_id, m)"
    by (metis prod.exhaust)
  obtain before waiting m' where evs: "ml_events L m (if mq_timeout_ms ?cfg \<noteq> 0 then mq_timeout_ms ?cfg
      else CONFIG_EDGESYNC_MQTT_DEFAULT_TIMEOUT_MS) = (before, waiting, m')" by (metis prod.exhaust)
  have le: "msg_id \<le> 0" using assms(1) pub unfolding qos0_unacknowledged_def qos by (metis fst_conv)
  have "MQTT_EVENT_PUBLISHED 0 \<notin> set before \<union> set waiting"
    using assms(1) evs unfolding qos0_unacknowledged_def by (metis fst_conv snd_conv)
  then have "0 \<notin> set (acks before) \<union> set (acks waiting)" by (simp add: set_acks)
  then have "ack_taken before waiting \<noteq> Some 0"
    by (auto simp: ack_taken_def dest: last_in_set hd_in_set split: if_splits)
  then show ?thesis using le unfolding mqtt_deliver_cases [OF Some pub evs] by auto
qed

theorem mqtt_qos0_never_succeeds_witness:
  "fst (mqtt_op_deliver late_mqtt (demo_mqtt_ctx 0) demo_http_message) \<noteq> DELIVERY_SUCCESS"
  by (rule mqtt_qos0_never_succeeds) (auto simp: qos0_unacknowledged_def late_mqtt_def demo_mqtt_ctx_def)

end
