(* ===== verification/Flashq_Torn.thy ===== *)
theory Flashq_Torn
  imports Flashq_Example
begin

text \<open>
  What an interrupted write leaves behind.  Recovery stops at a torn record and puts the cursor
  in front of it, so the next record is programmed over the torn bytes; NOR flash only clears
  bits, the read-back does not match, and the operation fails.  Nothing moves the cursor past
  the torn bytes and nothing starts a compaction, so every later state change fails too.
\<close>

section \<open>A torn record at the cursor\<close>

text \<open>
  The byte at the cursor where the type of the next record goes has lost a bit of
  \<open>REC_UPDATE\<close>, as after a torn MESSAGE record, and no compaction is due.
\<close>

definition torn_tail :: "('p \<Rightarrow> mem) \<Rightarrow> 'p flashq_ctx \<Rightarrow> bool" where
  "torn_tail cells c \<longleftrightarrow> 68 \<le> scratch_size c \<and>
     cells (partition c) (active_base c + cursor c + 8) AND REC_UPDATE \<noteq> REC_UPDATE \<and>
     record_total_size 0 0 + RESERVE_BYTES \<le> data_capacity c - (cursor c - data_start c) \<and>
     \<not> updates_since_compaction c > of_nat (index_capacity c * 4 + 16)"

lemma torn_tail_fields [simp]:
  "torn_tail cells (c\<lparr>index := xs\<rparr>) = torn_tail cells c"
  "torn_tail cells (c\<lparr>claim_scratch := bs\<rparr>) = torn_tail cells c"
  "torn_tail cells (c\<lparr>fault := b\<rparr>) = torn_tail cells c"
  "torn_tail cells (buffer_use n cap c) = torn_tail cells c"
  by (simp_all add: torn_tail_def region_offset_def buffer_use_def)

lemma torn_tail_frame:
  assumes "torn_tail cells c" "frame c c'"
    and "cells (partition c') (active_base c + cursor c + 8) AND cells (partition c) (active_base c + cursor c + 8) =
      cells (partition c') (active_base c + cursor c + 8)"
  shows "torn_tail cells c'"
proof -
  let ?o = "cells (partition c) (active_base c + cursor c + 8)" and ?n = "cells (partition c') (active_base c + cursor c + 8)"
  have "?n AND REC_UPDATE \<noteq> REC_UPDATE"
  proof
    assume n: "?n AND REC_UPDATE = REC_UPDATE"
    have "?o AND REC_UPDATE = ?o AND (?n AND REC_UPDATE)" by (simp add: n)
    also have "\<dots> = (?n AND ?o) AND REC_UPDATE" by (simp only: ac_simps)
    also have "\<dots> = REC_UPDATE" by (simp only: assms(3) n)
    finally show False using assms(1) by (simp add: torn_tail_def)
  qed
  then show ?thesis using assms(1) by (simp add: torn_tail_def frame_fields [OF assms(2)] frame_region_offset [OF assms(2)])
qed

lemma torn_space: "torn_tail cells c \<Longrightarrow> ensure_space_locked F c (record_total_size 0 0) = (ESP_OK, c)"
  by (simp add: torn_tail_def ensure_space_locked_def Let_def del: record_total_size_0)

lemma update_type_byte:
  assumes "encode_common cap (update_hdr mid st att last_us next_us er s) [] [] = Some bs"
  shows "bs ! 8 = REC_UPDATE"
proof -
  let ?h = "seal_hdr (update_hdr mid st att last_us next_us er s) 0 0"
  have "bs ! 8 = hdr_bytes ?h ! 8" using assms by (auto simp: encode_common_def Let_def nth_append split: if_splits)
  also have "\<dots> = REC_UPDATE" by (simp add: hdr_bytes_def nth_append seal_hdr_def update_hdr_def le_bytes_1)
  finally show ?thesis .
qed

lemma torn_append:
  assumes laws: "flash_laws F cells" and torn: "torn_tail cells c"
    and run: "append_locked F c (encoded (encode_update (scratch_size c) mid st att last_us next_us er s)) = (err, c')"
  shows "err = EDGESYNC_ERR_STORAGE" "frame c c'" "torn_tail cells c'"
proof -
  let ?off = "active_base c + cursor c"
  have cap: "68 \<le> scratch_size c" using torn by (simp add: torn_tail_def)
  obtain bs where bs: "encoded (encode_update (scratch_size c) mid st att last_us next_us er s) = bs" "length bs = 68"
    "encode_common (scratch_size c) (update_hdr mid st att last_us next_us er s) [] [] = Some bs"
    by (rule update_encoded [OF cap])
  obtain e1 c1 where w: "partition_write_verify F c ?off bs = (e1, c1)" by (metis prod.exhaust)
  note s = partition_write_verify_spec [OF laws w]
  have b8: "cells (partition c1) (?off + 8) AND cells (partition c) (?off + 8) = cells (partition c1) (?off + 8)"
    using s(6) [of 8] bs(2) by simp
  have t1: "torn_tail cells c1" by (rule torn_tail_frame [OF torn s(1) b8])
  have e1: "e1 = EDGESYNC_ERR_STORAGE"
  proof (rule ccontr)
    assume "e1 \<noteq> EDGESYNC_ERR_STORAGE"
    then have m: "mem_read (cells (partition c1)) ?off (length bs) = bs" using s(3,5) by auto
    have "cells (partition c1) (?off + 8) = bs ! 8"
      by (subst m [symmetric]) (simp add: bs(2))
    then show False using t1 update_type_byte [OF bs(3)]
      by (simp add: torn_tail_def frame_fields [OF s(1)] frame_region_offset [OF s(1)])
  qed
  have "err = e1" "c' = c1" using run e1 by (simp_all add: append_locked_def bs(1) w)
  then show "err = EDGESYNC_ERR_STORAGE" "frame c c'" "torn_tail cells c'" using e1 s(1) t1 by simp_all
qed

lemma torn_update:
  assumes laws: "flash_laws F cells" and torn: "torn_tail cells c"
    and run: "append_state_update_locked F c pos st = (err, c')"
  shows "err = EDGESYNC_ERR_STORAGE" "frame c c'" "torn_tail cells c'"
proof -
  let ?e = "index c ! pos"
  obtain e1 c1 where a: "append_locked F c (encoded (encode_update (scratch_size c) (e_id ?e) st (e_attempt_count ?e)
      (e_last_attempt_at_us ?e) (e_next_retry_at_us ?e) (e_last_error ?e) (next_seq c))) = (e1, c1)"
    by (metis prod.exhaust)
  note T = torn_append [OF laws torn a]
  have "err = e1" "c' = c1"
    using run T(1) by (simp_all add: append_state_update_locked_def torn_space [OF torn] Let_def a del: record_total_size_0)
  then show "err = EDGESYNC_ERR_STORAGE" "frame c c'" "torn_tail cells c'" using T by simp_all
qed

lemma torn_claim_commit:
  assumes laws: "flash_laws F cells" and torn: "torn_tail cells c"
    and run: "claim_commit F c now_us pos = (err, r, c')"
  shows "err = EDGESYNC_ERR_STORAGE" "frame c c'" "torn_tail cells c'"
proof -
  let ?e = "index c ! pos"
  obtain e1 c1 where a: "append_locked F c (encoded (encode_update (scratch_size c) (e_id ?e) STATE_IN_FLIGHT
      (e_attempt_count ?e + 1) now_us (e_next_retry_at_us ?e) (e_last_error ?e) (next_seq c))) = (e1, c1)"
    by (metis prod.exhaust)
  note T = torn_append [OF laws torn a]
  have "err = e1" "c' = c1"
    using run T(1) by (simp_all add: claim_commit_def torn_space [OF torn] Let_def a del: record_total_size_0)
  then show "err = EDGESYNC_ERR_STORAGE" "frame c c'" "torn_tail cells c'" using T by simp_all
qed

section \<open>The operations\<close>

lemma ids_update_same: "e_id e = e_id (es ! i) \<Longrightarrow> map e_id (es[i := e]) = map e_id es"
  by (cases "i < length es") (simp_all add: map_update list_update_same_conv not_less list_update_beyond)

lemma torn_retire:
  assumes laws: "flash_laws F cells" and torn: "torn_tail cells c" and run: "retire_entry F c mid st = (err, c')"
  shows "err = (if find_entry (index c) mid = None then EDGESYNC_ERR_NOT_FOUND else EDGESYNC_ERR_STORAGE) \<and>
    torn_tail cells c' \<and> map e_id (index c') = map e_id (index c)"
proof (cases "find_entry (index c) mid")
  case None
  then show ?thesis using run torn by (simp add: retire_entry_def)
next
  case (Some pos)
  obtain e1 c1 where 1: "append_state_update_locked F c pos st = (e1, c1)" by (metis prod.exhaust)
  note T = torn_update [OF laws torn 1]
  show ?thesis using run Some T(1,3) frame_fields(9) [OF T(2)] by (auto simp: retire_entry_def 1)
qed

lemma torn_retry:
  assumes laws: "flash_laws F cells" and torn: "torn_tail cells c"
    and run: "op_schedule_retry F c mid next_us dead er = (err, c')"
  shows "err = (if find_entry (index c) mid = None then EDGESYNC_ERR_NOT_FOUND else EDGESYNC_ERR_STORAGE) \<and>
    torn_tail cells c' \<and> map e_id (index c') = map e_id (index c)"
proof (cases "find_entry (index c) mid")
  case None
  then show ?thesis using run torn by (simp add: op_schedule_retry_def)
next
  case (Some pos)
  let ?e = "(index c ! pos)\<lparr>e_next_retry_at_us := (if dead then 0 else next_us), e_last_error := er\<rparr>"
  have run1: "append_state_update_locked F (c\<lparr>index := (index c)[pos := ?e]\<rparr>) pos
      (if dead then STATE_DEAD_LETTER else STATE_PENDING) = (err, c')"
    using run Some by (simp add: op_schedule_retry_def Let_def)
  note T = torn_update [OF laws _ run1]
  have "map e_id ((index c)[pos := ?e]) = map e_id (index c)"
    by (rule ids_update_same) simp
  then show ?thesis using T torn Some by (simp add: frame_fields)
qed

text \<open>A claim of a selected entry: reading its record changes no cell, and then it is handed out or dead-lettered.\<close>

lemma claim_split:
  assumes laws: "flash_laws F cells" and sel: "claim_select now_us (index c) = Some pos"
    and run: "op_claim_next F c now_us = (err, r, c')"
  obtains c1 scratch e3 c3 where "frame c c1" "cells (partition c1) = cells (partition c)"
    "append_state_update_locked F (c1\<lparr>claim_scratch := scratch,
        index := (index c)[pos := (index c ! pos)\<lparr>e_last_error := EDGESYNC_ERR_STORAGE_CORRUPT\<rparr>]\<rparr>) pos STATE_DEAD_LETTER = (e3, c3)"
    "(err = (if e3 = ESP_OK then EDGESYNC_ERR_STORAGE_CORRUPT else e3) \<and> c' = c3) \<or>
     claim_commit F (c1\<lparr>claim_scratch := scratch\<rparr>) now_us pos = (err, r, c')"
proof -
  let ?e = "index c ! pos"
  define n where "n = HDR_SIZE + (unat (e_destination_len ?e) + unat (e_payload_len ?e)) + 4"
  let ?c0 = "buffer_use n (scratch_size c) c"
  obtain r1 c1 where rd: "flash_read F ?c0 (region_offset c (active_region c) + e_message_offset ?e) n = (r1, c1)"
    by (metis prod.exhaust)
  note s = flash_read_spec [OF laws rd]
  have fr: "frame c c1" using frame_trans [OF _ s(1), of c] by simp
  define scratch where "scratch = (case r1 of None \<Rightarrow> claim_scratch c1 | Some raw \<Rightarrow> raw)"
  let ?c2 = "c1\<lparr>claim_scratch := scratch\<rparr>"
  have c2: "(case r1 of None \<Rightarrow> c1 | Some raw \<Rightarrow> c1\<lparr>claim_scratch := raw\<rparr>) = ?c2"
    by (simp add: scratch_def split: option.split)
  let ?c3 = "?c2\<lparr>index := (index c)[pos := ?e\<lparr>e_last_error := EDGESYNC_ERR_STORAGE_CORRUPT\<rparr>]\<rparr>"
  obtain e3 c3 where 3: "append_state_update_locked F ?c3 pos STATE_DEAD_LETTER = (e3, c3)" by (metis prod.exhaust)
  have idx: "index ?c2 = index c" using frame_fields(9) [OF fr] by simp
  have "(err = (if e3 = ESP_OK then EDGESYNC_ERR_STORAGE_CORRUPT else e3) \<and> c' = c3) \<or>
      claim_commit F ?c2 now_us pos = (err, r, c')"
    using run unfolding op_claim_next_def sel option.case Let_def n_def [symmetric] rd [simplified] buffer_use_fields
    unfolding prod.case rd c2 idx 3 by (auto split: if_splits)
  then show thesis using that [OF fr _ 3] s(2) by simp
qed

lemma torn_claim:
  assumes laws: "flash_laws F cells" and torn: "torn_tail cells c"
    and run: "op_claim_next F c now_us = (err, r, c')"
  shows "err = (if claim_select now_us (index c) = None then EDGESYNC_ERR_NOT_FOUND else EDGESYNC_ERR_STORAGE) \<and>
    torn_tail cells c' \<and> map e_id (index c') = map e_id (index c)"
proof (cases "claim_select now_us (index c)")
  case None
  then show ?thesis using run torn by (simp add: op_claim_next_def)
next
  case (Some pos)
  let ?idx = "(index c)[pos := (index c ! pos)\<lparr>e_last_error := EDGESYNC_ERR_STORAGE_CORRUPT\<rparr>]"
  obtain c1 scratch e3 c3 where C: "frame c c1" "cells (partition c1) = cells (partition c)"
    "append_state_update_locked F (c1\<lparr>claim_scratch := scratch, index := ?idx\<rparr>) pos STATE_DEAD_LETTER = (e3, c3)"
    "(err = (if e3 = ESP_OK then EDGESYNC_ERR_STORAGE_CORRUPT else e3) \<and> c' = c3) \<or>
     claim_commit F (c1\<lparr>claim_scratch := scratch\<rparr>) now_us pos = (err, r, c')"
    by (rule claim_split [OF laws Some run])
  have t1: "torn_tail cells c1" by (rule torn_tail_frame [OF torn C(1)]) (simp add: C(2))
  then have t: "torn_tail cells (c1\<lparr>claim_scratch := scratch, index := ?idx\<rparr>)" "torn_tail cells (c1\<lparr>claim_scratch := scratch\<rparr>)"
    by simp_all
  note U = torn_update [OF laws t(1) C(3)] and V = torn_claim_commit [OF laws t(2)]
  have ids: "map e_id ?idx = map e_id (index c)" by (rule ids_update_same) simp
  show ?thesis
    using C(4)
  proof
    assume "err = (if e3 = ESP_OK then EDGESYNC_ERR_STORAGE_CORRUPT else e3) \<and> c' = c3"
    then show ?thesis using U(1,3) ids Some frame_fields(9) [OF U(2)] by simp
  next
    assume v: "claim_commit F (c1\<lparr>claim_scratch := scratch\<rparr>) now_us pos = (err, r, c')"
    show ?thesis using V(1,3) [OF v] Some frame_fields(9) [OF V(2) [OF v]] frame_fields(9) [OF C(1)] by simp
  qed
qed

section \<open>Restarting\<close>

lemma requeue_torn:
  assumes laws: "flash_laws F cells" and torn: "torn_tail cells c"
    and fly: "\<exists>i\<in>set js. e_state (index c ! i) = STATE_IN_FLIGHT"
  shows "fst (requeue_loop F js c) = EDGESYNC_ERR_STORAGE"
  using fly
proof (induction js)
  case (Cons i js)
  show ?case
  proof (cases "e_state (index c ! i) = STATE_IN_FLIGHT")
    case True
    let ?c0 = "c\<lparr>index := (index c)[i := (index c ! i)\<lparr>e_next_retry_at_us := 0\<rparr>]\<rparr>"
    obtain e1 c1 where 1: "append_state_update_locked F ?c0 i STATE_PENDING = (e1, c1)" by (metis prod.exhaust)
    have "torn_tail cells ?c0" using torn by simp
    from torn_update(1) [OF laws this 1] show ?thesis using True by (simp add: Let_def 1)
  qed (use Cons in auto)
qed simp

text \<open>The flash after \<open>bs\<close> was programmed at \<open>off\<close>, where it was erased.\<close>

definition programmed :: "mem \<Rightarrow> nat \<Rightarrow> byte list \<Rightarrow> mem" where
  "programmed m off bs = (\<lambda>i. if off \<le> i \<and> i < off + length bs then bs ! (i - off) else m i)"

lemma message_type_byte:
  assumes "encode_message cap msg s = Some bs"
  shows "bs ! 8 = REC_MESSAGE" "66 \<le> length bs"
proof -
  note e = encode_message_Some [OF assms]
  let ?h = "seal_hdr (message_hdr msg s) (length (c_string (m_destination msg))) (length (m_payload msg))"
  have "bs ! 8 = hdr_bytes ?h ! 8" using e(1) by (auto simp: encode_common_def Let_def nth_append split: if_splits)
  also have "\<dots> = REC_MESSAGE" by (simp add: hdr_bytes_def nth_append seal_hdr_def message_hdr_def le_bytes_1)
  finally show "bs ! 8 = REC_MESSAGE" .
  show "66 \<le> length bs" unfolding e(3) record_total_size_def using round4_ge by (rule le_trans [rotated]) simp
qed

lemma torn_image:
  assumes clean: "tail_blank cells c" and enc: "encode_message cap msg s = Some bs"
    and n: "8 < n" "n < HDR_SIZE" and room: "cursor c + 68 \<le> region_size c"
    and m: "m = programmed (cells (partition c)) (active_base c + cursor c) (take n bs)"
  shows "mem_read m (active_base c + cursor c) HDR_SIZE = take n bs @ replicate (HDR_SIZE - n) 0xFF"
    "m (active_base c + cursor c + 8) = REC_MESSAGE"
proof -
  note b = message_type_byte [OF enc]
  have l: "length (take n bs) = n" using b(2) n by simp
  show "mem_read m (active_base c + cursor c) HDR_SIZE = take n bs @ replicate (HDR_SIZE - n) 0xFF"
    using clean room n b(2)
    by (intro nth_equalityI) (auto simp: m programmed_def l nth_append tail_blank_def blank_area_def)
  show "m (active_base c + cursor c + 8) = REC_MESSAGE" using n b by (simp add: m programmed_def l)
qed

text \<open>
  Recovery of an image whose log ends in front of such a byte, with a message in flight: it gets
  as far as requeueing that message.
\<close>

lemma torn_recover_fails:
  assumes laws: "flash_laws F cells" "reads_ok F sz" and inv: "flashq_inv cells sz c"
    and stop: "log_stops (cells (partition c)) (active_base c) (region_size c) (scratch_size c) (cursor c)"
    and byte: "cells (partition c) (active_base c + cursor c + 8) AND REC_UPDATE \<noteq> REC_UPDATE"
    and room: "cursor c + 68 + RESERVE_BYTES \<le> region_size c"
    and fly: "pos < length (index c)" "e_state (index c ! pos) = STATE_IN_FLIGHT"
    and conf: "same_config c0 c" "cells (partition c0) = cells (partition c)" and fresh0: "updates_since_compaction c0 = 0"
  shows "fst (op_recover F c0) = EDGESYNC_ERR_STORAGE"
proof -
  have core: "inv_core cells sz c" using inv by (simp add: flashq_inv_def)
  note I = inv_coreD [OF core]
  obtain e3 c3 where 3: "op_recover F c0 =
      (if e3 \<noteq> ESP_OK then (e3, c3) else scan_region F c3 (active_region c) (active_generation c))"
    "e3 = ESP_OK \<or> e3 = EDGESYNC_ERR_STORAGE" "frame c0 c3" "fault c3 = fault c0" "same_config c3 c"
    "\<forall>i. active_base c \<le> i \<longrightarrow> i < active_base c + region_size c \<longrightarrow> cells (partition c3) i = cells (partition c) i"
    "\<not> rivals (active_generation c) (header_at (cells (partition c3)) (spare_base c))"
    "e3 = ESP_OK \<longrightarrow> flashq_clean cells c \<longrightarrow> spare_clean (cells (partition c3)) (spare_base c) (region_size c)"
    by (rule recover_scans [OF laws inv conf])
  note S = spare_change [OF inv 3(6) [rule_format] 3(7)]
  let ?g = "c\<lparr>partition := partition c3\<rparr>"
  have conf3: "same_config c3 ?g" using 3(5) by (simp add: same_config_def)
  obtain c4 where 4: "scan_region F c3 (active_region ?g) (active_generation ?g) = requeue_loop F [0..<length (index c4)] c4"
    "same_state cells c4 ?g" "fault c4 = fault c3" "updates_since_compaction c4 = updates_since_compaction c3"
    by (rule scan_region_loop [OF laws S(1) _ conf3]) (use S(3) stop in \<open>simp_all add: region_offset_def\<close>)
  have f4: "index c4 = index c" "cursor c4 = cursor c" "active_base c4 = active_base c" "scratch_size c4 = scratch_size c"
    "data_start c4 = data_start c" "data_capacity c4 = data_capacity c" "cells (partition c4) = cells (partition c3)"
    using 4(2) by (simp_all add: same_state_def same_config_def region_offset_def)
  have "cells (partition c3) (active_base c + cursor c + 8) = cells (partition c) (active_base c + cursor c + 8)"
    using 3(6) [rule_format, of "active_base c + cursor c + 8"] room by simp
  then have "torn_tail cells c4"
    using I(8,10,11,12) room fresh0 byte by (simp add: torn_tail_def f4 4(4) frame_fields [OF 3(3)])
  moreover have "\<exists>i\<in>set [0..<length (index c4)]. e_state (index c4 ! i) = STATE_IN_FLIGHT"
    using fly by (auto simp: f4(1))
  ultimately have "fst (requeue_loop F [0..<length (index c4)] c4) = EDGESYNC_ERR_STORAGE"
    by (rule requeue_torn [OF laws(1)])
  then show ?thesis using 3(1,2) 4(1) by auto
qed

section \<open>Properties\<close>

text \<open>C22: A torn MESSAGE record at the end of the log stops the queue for good.  While one lies at
  the cursor and no compaction is due, no claim, confirmation, removal or retry succeeds on any
  flash that only clears bits: each fails with STORAGE (or NOT_FOUND), none loses a message from
  the index, and each leaves the queue in the same condition.\<close>

theorem torn_tail_blocks_queue:
  assumes "flash_laws F cells" "torn_tail cells c"
  shows "(case op_claim_next F c now_us of (err, r, c') \<Rightarrow>
      err = (if claim_select now_us (index c) = None then EDGESYNC_ERR_NOT_FOUND else EDGESYNC_ERR_STORAGE) \<and>
      torn_tail cells c' \<and> map e_id (index c') = map e_id (index c)) \<and>
    (\<forall>(err, c') \<in> {op_mark_delivered F c mid, op_remove F c mid, op_schedule_retry F c mid next_us dead er}.
      err = (if find_entry (index c) mid = None then EDGESYNC_ERR_NOT_FOUND else EDGESYNC_ERR_STORAGE) \<and>
      torn_tail cells c' \<and> map e_id (index c') = map e_id (index c))"
proof -
  have c: "op_claim_next F c now_us = (fst (op_claim_next F c now_us), fst (snd (op_claim_next F c now_us)),
      snd (snd (op_claim_next F c now_us)))" by simp
  note R = torn_retire [OF assms prod.collapse [symmetric]]
  show ?thesis
    using torn_claim [OF assms c] R [of mid STATE_DELIVERED] R [of mid STATE_REMOVED]
      torn_retry [OF assms prod.collapse [symmetric], of mid next_us dead er]
    by (simp add: op_mark_delivered_def op_remove_def case_prod_beta)
qed

text \<open>C21: A power loss in a publish can make the queue unusable: when a message is in flight, the
  header of the record being appended was programmed past its type byte but not completed, and no
  compaction is due, the next recovery, the last step of \<open>edgesync_init\<close>, stops at the torn
  record, tries to requeue the message on top of it and fails with STORAGE.\<close>

theorem torn_publish_blocks_restart:
  assumes "flash_laws F cells" "reads_ok F sz" "flashq_inv cells sz c" "flashq_clean cells c"
    and "contents cells c mid = Some m" "m_state m = MSG_IN_FLIGHT"
    and "encode_message (scratch_size c) msg (next_seq c) = Some bs" "8 < n" "n < HDR_SIZE"
    and "decode_header (take n bs @ replicate (HDR_SIZE - n) 0xFF) = None"
    and "cursor c + 68 + RESERVE_BYTES \<le> region_size c"
    and "same_config c0 c" "updates_since_compaction c0 = 0"
    and "cells (partition c0) = programmed (cells (partition c)) (active_base c + cursor c) (take n bs)"
  shows "fst (op_recover F c0) = EDGESYNC_ERR_STORAGE"
proof -
  have core: "inv_core cells sz c" using assms(3) by (simp add: flashq_inv_def)
  note I = inv_coreD [OF core]
  let ?g = "c\<lparr>partition := partition c0\<rparr>" and ?off = "active_base c + cursor c"
  have tb: "tail_blank cells c" using assms(4) by (simp add: flashq_clean_def)
  have room: "cursor c + 68 \<le> region_size c" using assms(11) by simp
  note T = torn_image [OF tb assms(7,8,9) room assms(14)]
  have l: "length (take n bs) \<le> 61" using assms(9) by simp
  have lt: "cells (partition c0) i = cells (partition c) i" if "i < ?off" for i
    using that by (simp add: assms(14) programmed_def)
  have ge: "cells (partition c0) i = cells (partition c) i" if "active_base c + region_size c \<le> i" for i
    using that l room by (simp add: assms(14) programmed_def)
  have ro: "region_offset ?g = region_offset c" by (simp add: region_offset_def fun_eq_iff)
  note G = tail_change [OF assms(3) lt ge]
  have stop: "log_stops (cells (partition c0)) (active_base c) (region_size c) (scratch_size c) (cursor c)"
    using T(1) assms(10) by (simp add: log_stops_def)
  obtain pos where pos: "find_entry (index c) mid = Some pos"
    using assms(5) find_None_contents [of c mid cells] by (cases "find_entry (index c) mid") auto
  note C = find_contents [OF core pos]
  have "e_state (index c ! pos) = STATE_IN_FLIGHT"
    using C(3) assms(5,6) by (auto simp: stored_def state_of_def split: if_splits)
  then show ?thesis
    by (intro torn_recover_fails [OF assms(1,2) G(1), of pos])
      (use C(1) T(2) stop assms(11-13) in \<open>simp_all add: ro same_config_def\<close>)
qed

section \<open>The example\<close>

lemma space_kept:
  assumes "n + RESERVE_BYTES \<le> data_capacity c - (cursor c - data_start c)"
    and "\<not> updates_since_compaction c > of_nat (index_capacity c * 4 + 16)"
  shows "ensure_space_locked F c n = (ESP_OK, c)"
  using assms by (simp add: ensure_space_locked_def Let_def)

lemma append_cursor:
  assumes laws: "flash_laws F cells" and run: "append_locked F c bs = (ESP_OK, c')"
  shows "cursor c' = cursor c + length bs" "updates_since_compaction c' = updates_since_compaction c"
proof -
  obtain e1 c1 where w: "partition_write_verify F c (active_base c + cursor c) bs = (e1, c1)" by (metis prod.exhaust)
  note f = frame_fields [OF partition_write_verify_spec(1) [OF laws w]]
  show "cursor c' = cursor c + length bs" "updates_since_compaction c' = updates_since_compaction c"
    using run by (auto simp: append_locked_def w f split: if_splits)
qed

lemma claim_commit_cursor:
  assumes laws: "flash_laws F cells" and space: "ensure_space_locked F c (record_total_size 0 0) = (ESP_OK, c)"
    and cap: "68 \<le> scratch_size c" and run: "claim_commit F c now_us pos = (ESP_OK, r, c')"
  shows "cursor c' = cursor c + 68"
proof -
  let ?e = "index c ! pos"
  define bs where "bs = encoded (encode_update (scratch_size c) (e_id ?e) STATE_IN_FLIGHT (e_attempt_count ?e + 1)
      now_us (e_next_retry_at_us ?e) (e_last_error ?e) (next_seq c))"
  have len: "length bs = 68" unfolding bs_def using cap by (metis update_encoded)
  obtain e4 c4 where a: "append_locked F c bs = (e4, c4)" by (metis prod.exhaust)
  have e4: "e4 = ESP_OK" and q: "cursor c' = cursor c4"
    using run space bs_def a
    by (auto simp: claim_commit_def Let_def buffer_use_def simp del: record_total_size_0 split: if_splits)
  show ?thesis using append_cursor(1) [OF laws a [unfolded e4]] q len by simp
qed

lemma demo_empty_fields:
  "cursor demo_empty = 4096" "updates_since_compaction demo_empty = 0" "data_start demo_empty = 4096"
  "data_capacity demo_empty = 8192" "index_capacity demo_empty = 4" "region_size demo_empty = 12288" "scratch_size demo_empty = 164"
proof -
  note R = recover_fresh_ok [OF nor_laws demo_created_fields(1) demo_blank demo_recover_run]
  have "updates_since_compaction demo_created = 0" "data_start demo_created = 4096" "data_capacity demo_created = 8192"
    by (simp_all add: demo_created_def flashq_create_def demo_config_def demo_partitions_def)
  then show "cursor demo_empty = 4096" "updates_since_compaction demo_empty = 0" "data_start demo_empty = 4096"
    "data_capacity demo_empty = 8192" "index_capacity demo_empty = 4" "region_size demo_empty = 12288" "scratch_size demo_empty = 164"
    using R(4,8,9) demo_created_fields by (simp_all add: same_config_def)
qed

lemma demo_queued_fields: "cursor demo_queued = 4168" "updates_since_compaction demo_queued = 0"
proof -
  obtain bs where bs: "encode_message 164 demo_message (next_seq demo_empty) = Some bs"
    using demo_enqueue_run by (auto simp: op_enqueue_def demo_empty_fields split: if_splits option.splits)
  have l: "length bs = 72"
    using encode_message_Some(3) [OF bs] by (simp add: demo_message_def c_string_def record_total_size_def round4_def)
  have sp: "ensure_space_locked nor demo_empty (length bs) = (ESP_OK, demo_empty)"
    by (rule space_kept) (simp_all add: demo_empty_fields l)
  obtain e1 c1 where a: "append_locked nor demo_empty bs = (e1, c1)" by (metis prod.exhaust)
  have q: "e1 = ESP_OK" "demo_queued = c1\<lparr>index := index c1 @ [new_entry demo_message (cursor demo_empty)]\<rparr>"
    using demo_enqueue_run by (auto simp: op_enqueue_def demo_empty_fields bs sp a Let_def split: if_splits)
  show "cursor demo_queued = 4168" "updates_since_compaction demo_queued = 0"
    unfolding q(2) using append_cursor [OF nor_laws, of 24576 demo_empty bs c1] a q(1) by (simp_all add: demo_empty_fields l)
qed

lemma demo_claimed_fields: "cursor demo_claimed = 4236" "same_config demo_claimed demo_empty" "scratch_size demo_claimed = 164"
  "region_size demo_claimed = 12288"
proof -
  note Q = flashq_soundD [OF demo_queued_sound(1) [of "Suc 0"]] and C = flashq_soundD [OF demo_claimed_sound(1) [of "Suc 0"]]
  have cfg: "data_start demo_queued = 4096" "data_capacity demo_queued = 8192" "index_capacity demo_queued = 4"
    "region_size demo_queued = 12288" "scratch_size demo_queued = 164"
    using demo_queued_config demo_empty_fields by (simp_all add: same_config_def)
  obtain pos where sel: "claim_select 5000 (index demo_queued) = Some pos"
    using demo_claim_run by (auto simp: op_claim_next_def split: option.splits)
  obtain c1 scratch e3 c3 where S: "frame demo_queued c1"
    "append_state_update_locked nor (c1\<lparr>claim_scratch := scratch, index := (index demo_queued)
        [pos := (index demo_queued ! pos)\<lparr>e_last_error := EDGESYNC_ERR_STORAGE_CORRUPT\<rparr>]\<rparr>) pos STATE_DEAD_LETTER = (e3, c3)"
    "(ESP_OK = (if e3 = ESP_OK then EDGESYNC_ERR_STORAGE_CORRUPT else e3) \<and> demo_claimed = c3) \<or>
     claim_commit nor (c1\<lparr>claim_scratch := scratch\<rparr>) 5000 pos =
       (ESP_OK, Some (claimed (fresh demo_message) 5000), demo_claimed)"
    using claim_split [OF nor_laws sel demo_claim_run] by metis
  let ?c2 = "c1\<lparr>claim_scratch := scratch\<rparr>" and ?e = "index c1 ! pos"
  have f: "cursor ?c2 = 4168" "updates_since_compaction ?c2 = 0" "data_start ?c2 = 4096" "data_capacity ?c2 = 8192"
    "index_capacity ?c2 = 4" "region_size ?c2 = 12288" "scratch_size ?c2 = 164" "max_message_size ?c2 = max_message_size demo_queued"
    by (simp_all add: frame_fields [OF S(1)] demo_queued_fields cfg)
  have run: "claim_commit nor ?c2 5000 pos = (ESP_OK, Some (claimed (fresh demo_message) 5000), demo_claimed)"
    using S(3) by (auto split: if_splits)
  have sp: "ensure_space_locked nor ?c2 (record_total_size 0 0) = (ESP_OK, ?c2)"
    by (rule space_kept) (simp_all only: f record_total_size_0, simp_all)
  have "68 \<le> scratch_size ?c2" by (simp only: f)
  then show "cursor demo_claimed = 4236" using claim_commit_cursor [OF nor_laws sp _ run] f(1) by simp
  have "keeps flat nor 24576 demo_queued demo_claimed"
    by (rule claim_next_ok [OF Q(1,3,4) demo_claim_run]) simp_all
  then have "same_config demo_claimed demo_queued" using Q(6) C(6) by (rule keeps_config) simp_all
  then show "same_config demo_claimed demo_empty" "scratch_size demo_claimed = 164" "region_size demo_claimed = 12288"
    using demo_queued_config cfg by (simp_all add: same_config_def)
qed

text \<open>A publish into the example with a message in flight, interrupted within the header.\<close>

lemma torn_prefix:
  assumes "encode_message cap msg s = Some bs" "m_state msg = MSG_PENDING"
  obtains n where "8 < n" "n < HDR_SIZE" "decode_header (take n bs @ replicate (HDR_SIZE - n) 0xFF) = None"
proof (cases "decode_header (take 9 bs @ replicate 53 0xFF)")
  case None
  then show thesis using that [of 9] by simp
next
  case (Some h)
  note e = encode_message_Some [OF assms(1)]
  let ?h = "seal_hdr (message_hdr msg s) (length (c_string (m_destination msg))) (length (m_payload msg))"
  have "bs ! 9 = hdr_bytes ?h ! 9" using e(1) by (auto simp: encode_common_def Let_def nth_append split: if_splits)
  also have "\<dots> = STATE_PENDING" by (simp add: hdr_bytes_def nth_append seal_hdr_def message_hdr_def le_bytes_1)
  finally have b: "bs ! 9 = 0" .
  have t: "take 10 bs = take 9 bs @ [bs ! 9]"
    using message_type_byte(2) [OF assms(1)] take_Suc_conv_app_nth [of 9 bs] by simp
  have "decode_header (take 9 bs @ [0xFF] @ replicate 52 0xFF) = Some h"
    using Some by (simp add: numeral_eq_Suc)
  from header_burst [OF this, of "[bs ! 9]"] have "decode_header (take 9 bs @ [bs ! 9] @ replicate 52 0xFF) = None"
    by (simp add: b)
  then show thesis using that [of 10] by (simp add: t)
qed

definition demo_torn :: "byte list \<Rightarrow> mem flashq_ctx" where
  "demo_torn torn = demo_created\<lparr>partition :=
     programmed (partition demo_claimed) (active_base demo_claimed + cursor demo_claimed) torn\<rparr>"

theorem torn_publish_blocks_restart_witness:
  "\<exists>bs n. encode_message 164 (demo_message\<lparr>m_id := 8\<rparr>) (next_seq demo_claimed) = Some bs \<and> 8 < n \<and> n < HDR_SIZE \<and>
     fst (op_recover nor (demo_torn (take n bs))) = EDGESYNC_ERR_STORAGE"
proof -
  have "message_accepted 164 (demo_message\<lparr>m_id := 8\<rparr>)"
    by (simp add: message_accepted_def demo_message_def message_len_def record_total_size_def round4_def c_string_def)
  then have "encode_message 164 (demo_message\<lparr>m_id := 8\<rparr>) (next_seq demo_claimed) \<noteq> None"
    unfolding encode_message_ok message_accepted_def by simp
  then obtain bs where bs: "encode_message 164 (demo_message\<lparr>m_id := 8\<rparr>) (next_seq demo_claimed) = Some bs" by blast
  have st: "m_state (demo_message\<lparr>m_id := 8\<rparr>) = MSG_PENDING" by (simp add: demo_message_def)
  obtain n where n: "8 < n" "n < HDR_SIZE" "decode_header (take n bs @ replicate (HDR_SIZE - n) 0xFF) = None"
    by (rule torn_prefix [OF bs st])
  have "same_config demo_created demo_empty"
    using recover_fresh_ok(4) [OF nor_laws demo_created_fields(1) demo_blank demo_recover_run] by (simp add: same_config_def)
  then have "same_config (demo_torn (take n bs)) demo_claimed"
    using demo_claimed_fields(2) by (simp add: same_config_def demo_torn_def)
  moreover have "updates_since_compaction (demo_torn (take n bs)) = 0"
    by (simp add: demo_torn_def demo_created_def flashq_create_def demo_config_def demo_partitions_def)
  ultimately have "fst (op_recover nor (demo_torn (take n bs))) = EDGESYNC_ERR_STORAGE"
    by (intro torn_publish_blocks_restart [OF nor_laws reliable_reads [OF nor_reliable] demo_inv(3,9),
          of 7 "claimed (fresh demo_message) 5000" "demo_message\<lparr>m_id := 8\<rparr>" bs n])
      (use n bs in \<open>simp_all add: demo_claimed_sound(2) claimed_def demo_claimed_fields demo_torn_def\<close>)
  then show ?thesis using bs n by blast
qed

text \<open>The same queue a moment later, when the application publishes and the write is cut short.\<close>

theorem torn_tail_blocks_queue_witness:
  "\<exists>c err r c'. torn_tail flat c \<and> contents flat c = [7 \<mapsto> fresh demo_message] \<and>
     op_claim_next nor c 5000 = (err, r, c') \<and> err = EDGESYNC_ERR_STORAGE \<and> torn_tail flat c' \<and>
     fst (op_remove nor c' 7) = EDGESYNC_ERR_STORAGE"
proof -
  let ?off = "active_base demo_queued + cursor demo_queued"
  define c where "c = demo_queued\<lparr>partition := programmed (partition demo_queued) ?off (replicate 9 1)\<rparr>"
  have Q: "inv_core flat 24576 demo_queued" using demo_inv(2) by (simp add: flashq_inv_def)
  have cfg: "data_start demo_queued = 4096" "data_capacity demo_queued = 8192" "index_capacity demo_queued = 4"
    "scratch_size demo_queued = 164" "region_size demo_queued = 12288"
    using demo_queued_config demo_empty_fields by (simp_all add: same_config_def)
  have t: "torn_tail flat c"
    by (simp add: torn_tail_def c_def cfg demo_queued_fields programmed_def region_offset_def)
  have con: "contents flat c = [7 \<mapsto> fresh demo_message]"
    using tail_change(2) [OF demo_inv(2), of "partition c"] demo_queued_sound(2) [of 0]
    by (simp add: c_def programmed_def demo_queued_fields cfg)
  have idx: "index c = index demo_queued" by (simp add: c_def)
  have sel: "claim_select 5000 (index c) \<noteq> None"
    using demo_claim_run unfolding idx by (auto simp: op_claim_next_def split: option.splits)
  obtain err r c' where run: "op_claim_next nor c 5000 = (err, r, c')" by (metis prod.exhaust)
  have B: "err = EDGESYNC_ERR_STORAGE" "torn_tail flat c'" "map e_id (index c') = map e_id (index c)"
    using torn_tail_blocks_queue [where now_us = 5000, OF nor_laws [of 24576] t] sel by (simp_all add: run)
  have "7 \<in> e_id ` set (index c)" using con by (metis contents_def dom_contents_of domI fun_upd_same)
  then have "7 \<in> e_id ` set (index c')" using B(3) by (metis set_map)
  then have f: "find_entry (index c') 7 \<noteq> None" by (simp add: find_entry_None)
  have "fst (op_remove nor c' 7) = EDGESYNC_ERR_STORAGE"
    using torn_tail_blocks_queue [where mid = 7, OF nor_laws [of 24576] B(2)] f by (simp add: case_prod_beta)
  with t con run B show ?thesis by blast
qed

end
