(* ===== verification/Wakeup_Properties.thy ===== *)
theory Wakeup_Properties
  imports System_Properties
begin

text \<open>
  What the tasks of a running instance can rely on: a sleeping worker is woken for every message it
  could deliver, \<open>edgesync_worker_stop\<close> returns, and the one access to the freed worker that the
  code does not exclude.
\<close>

definition demo_worker_config :: worker_config where
  "demo_worker_config = \<lparr>wc_retry_cfg = w_retry_cfg demo_worker, wc_event_cb = True, wc_task_stack_size = 4096,
     wc_task_priority = 5, wc_task_core_id = 0\<rparr>"

lemma demo_worker_start:
  "worker_start (Some demo_worker_config) True True True True True demo_queue =
     (ESP_OK, Some demo_worker, demo_queue)"
  by (simp add: worker_start_def demo_worker_config_def demo_worker_def queue_set_wake_cb_def demo_queue_def)

text \<open>Publishing on the empty demonstration queue.\<close>

lemma demo_publish_locked:
  "publish_locked demo_queue demo_message = (ESP_OK, None, demo_queue\<lparr>q_storage_ctx := demo_queued\<rparr>)"
  by (simp add: publish_locked_def demo_queue_def flashq_ops_def demo_enqueue_run)

text \<open>The worker on the empty queue: it looks, finds nothing and sleeps.\<close>

lemma demo_claim_nothing:
  obtains q where "worker_claim demo_worker demo_queue 5000 [] = (Wait 5000, q, [])"
    "q_storage_ops q = flashq_ops nor True" "contents flat (q_storage_ctx q) = Map.empty"
proof -
  obtain out q tr where 1: "worker_claim demo_worker demo_queue 5000 [] = (out, q, tr)" by (metis prod.exhaust)
  have s: "flashq_sound flat nor 24576 4 164 (Suc 0) (q_storage_ctx demo_queue)"
    unfolding demo_queue_fields by (rule demo_empty_sound(1)) simp
  have e: "contents flat (q_storage_ctx demo_queue) = Map.empty"
    unfolding demo_queue_fields by (rule demo_empty_sound(2) [of 0]) simp
  note C = flashq_reliable.worker_claim_effect [OF demo_queue_fields(1) s 1]
  then show thesis using that [of q] 1 by (simp add: e)
qed

section \<open>Waking up\<close>

text \<open>C8: No wake-up is lost.  However publishers, the worker and the clock interleave, a worker that
  sleeps in its idle poll has a notification pending or a publisher about to give it one, or no
  stored message was due when it last looked: what becomes due later is a scheduled retry, and
  the poll interval of 5000 ms bounds how late it is noticed.\<close>

theorem no_wakeup_lost:
  assumes "worker_start config pointers_set out_valid allocated sem_created task_created q0 = (ESP_OK, Some w, q)"
    and "q_storage_ops q0 = flashq_ops F mc" "flashq_sound cells F sz cap scr (k + run_cost ls) (q_storage_ctx q0)"
    and "dom (contents cells (q_storage_ctx q0)) \<subseteq> used" "cc_run T (cc_start q w t used) ls s"
    and "cc_pc s = Waiting ms" "cc_stop s = Running"
  shows "ms = 5000 \<and> (cc_notified s \<noteq> 0 \<or> (\<exists>p\<in>set (cc_publishing s). pb_wake p) \<or>
    (\<forall>mid m. contents cells (q_storage_ctx (cc_queue s)) mid = Some m \<longrightarrow> \<not> eligible (cc_last_claim s) m))"
proof -
  note W = worker_started [OF assms(1)]
  show ?thesis
    using flashq_reliable.sleeping_worker_idle [OF assms(5) _ _ _ W(2,3) assms(6,7)] assms(2-4)
    unfolding W(4,5) notified_soon_def nothing_due_def by blast
qed

text \<open>The worker sleeps on an empty queue; then a message is published and the publisher is about to
  wake it.\<close>

theorem no_wakeup_lost_witness:
  "\<exists>s s'. cc_run demo_transport (cc_start demo_queue demo_worker 0 {}) [Work, Work] s \<and> cc_pc s = Waiting 5000 \<and>
     cc_notified s = 0 \<and> cc_publishing s = [] \<and>
     (\<forall>mid m. contents flat (q_storage_ctx (cc_queue s)) mid = Some m \<longrightarrow> \<not> eligible 5000 m) \<and>
     cc_step demo_transport s (Publish demo_message) s'"
proof -
  obtain q where q: "worker_claim demo_worker demo_queue 5000 [] = (Wait 5000, q, [])" by (rule demo_claim_nothing)
  let ?s0 = "cc_start demo_queue demo_worker (0::nat) {}"
  let ?s1 = "(use_worker ?s0)\<lparr>cc_pc := Claiming\<rparr>"
  let ?s2 = "(use_worker ?s1)\<lparr>cc_queue := q, cc_trace := [], cc_last_claim := 5000, cc_pc := Waiting 5000\<rparr>"
  have 1: "task_step demo_transport (0, 0, False) ?s0 = Some ?s1"
    by (simp add: task_step_def cc_start_def demo_worker_def)
  have 2: "task_step demo_transport (5000, 0, False) ?s1 = Some ?s2"
    using q by (simp add: task_step_def use_worker_def cc_start_def)
  have r: "cc_run demo_transport ?s0 (([] @ [Work]) @ [Work]) ?s2"
    by (rule cc_more [OF cc_more [OF cc_refl cc_step.work [OF 1]] cc_step.work [OF 2]])
  then have run: "cc_run demo_transport ?s0 [Work, Work] ?s2" by simp
  have f: "cc_pc ?s2 = Waiting 5000" "cc_stop ?s2 = Running" "cc_notified ?s2 = 0" "cc_publishing ?s2 = []"
    "cc_last_claim ?s2 = 5000" "cc_used ?s2 = {}"
    by (simp_all add: cc_start_def)
  have s: "flashq_sound flat nor 24576 4 164 (0 + run_cost [Work, Work]) (q_storage_ctx demo_queue)"
    unfolding demo_queue_fields by (rule demo_empty_sound(1)) simp
  have d: "dom (contents flat (q_storage_ctx demo_queue)) \<subseteq> {}"
    unfolding demo_queue_fields by (simp add: demo_empty_sound(2) [of 0])
  have st: "cc_step demo_transport ?s2 (Publish demo_message) (publish_enter demo_message ?s2)"
    by (rule enter) (simp add: f)
  have "\<forall>mid m. contents flat (q_storage_ctx (cc_queue ?s2)) mid = Some m \<longrightarrow> \<not> eligible 5000 m"
    using no_wakeup_lost [OF demo_worker_start demo_queue_fields(1) s d run f(1,2)] unfolding f by simp
  then show ?thesis using run st f(1,3,4) by (intro exI [of _ ?s2] exI [of _ "publish_enter demo_message ?s2"] conjI) assumption+
qed

section \<open>Stopping\<close>

text \<open>C9: \<open>edgesync_worker_stop\<close> returns.  Once it waits for the worker, the worker makes at most four
  more steps whatever the other tasks do, at most one of them a delivery; it is never blocked
  before it ends, its end lets the stopping task go on, and after the worker structure has been
  freed the worker task makes no step.\<close>

theorem stop_completes:
  assumes "worker_start config pointers_set out_valid allocated sem_created task_created q0 = (ESP_OK, Some w, q)"
    and "cc_run T (cc_start q w t used) ls0 s" "cc_stop s = Joining" "cc_run T s ls s'"
  shows "count_list ls Work \<le> 4 \<and>
    (cc_stop s' = Stopped \<and> (\<forall>env. task_step T env s' = None) \<or>
     cc_stop s' = Joining \<and> cc_pc s' = Ended \<and> (\<exists>s''. stop_step s' = Some s'' \<and> cc_stop s'' = Stopped) \<or>
     cc_stop s' = Joining \<and> cc_pc s' \<noteq> Ended \<and> (\<forall>env. task_step T env s' \<noteq> None))"
proof -
  note W = worker_started [OF assms(1)]
  have i: "stop_inv s" by (rule stop_inv_run [OF assms(2) stop_inv_start [OF W(2,3)]])
  have i': "stop_inv s'" by (rule stop_inv_run [OF assms(4) i])
  have p: "steps_left (cc_pc s') + count_list ls Work \<le> steps_left (cc_pc s)" "cc_stop s' \<in> {Joining, Stopped}"
    using run_progress [OF assms(4) i] assms(3) by simp_all
  have "steps_left (cc_pc s) \<le> 4" by (cases "cc_pc s") simp_all
  moreover have "task_step T env s' = None" if "cc_stop s' = Stopped" for env
    using i' that by (cases env) (simp add: stop_inv_def task_step_def)
  moreover have "\<exists>s''. stop_step s' = Some s'' \<and> cc_stop s'' = Stopped" if "cc_stop s' = Joining" "cc_pc s' = Ended"
    using i' that by (simp add: stop_inv_def stop_step_def)
  moreover have "task_step T env s' \<noteq> None" if "cc_stop s' = Joining" "cc_pc s' \<noteq> Ended" for env
    by (rule work_enabled [OF i' that])
  ultimately show ?thesis using p by (cases "cc_pc s' = Ended") auto
qed

theorem stop_completes_witness:
  "\<exists>s s' s''. cc_run demo_transport (cc_start demo_queue demo_worker 0 {}) [Stop, Stop, Stop] s \<and> cc_stop s = Joining \<and>
     cc_run demo_transport s [Work] s' \<and> cc_pc s' = Ended \<and> stop_step s' = Some s'' \<and> cc_stop s'' = Stopped"
proof -
  let ?s0 = "cc_start demo_queue demo_worker (0::nat) {}"
  obtain s1 where 1: "stop_step ?s0 = Some s1" "cc_stop s1 = Cleared" "cc_pc s1 = Checking"
    by (simp add: stop_step_def cc_start_def)
  obtain s2 where 2: "stop_step s1 = Some s2" "cc_stop s2 = Requested" "cc_pc s2 = Checking" "w_stop_requested (cc_worker s2)"
    using 1 by (simp add: stop_step_def)
  obtain s3 where 3: "stop_step s2 = Some s3" "cc_stop s3 = Joining" "cc_pc s3 = Checking" "w_stop_requested (cc_worker s3)"
    using 2 by (simp add: stop_step_def notify_give_def)
  obtain s4 where 4: "task_step demo_transport (0, 0, False) s3 = Some s4" "cc_pc s4 = Ended" "cc_stop s4 = Joining"
    using 3 by (simp add: task_step_def)
  have "cc_run demo_transport ?s0 ((([] @ [Stop]) @ [Stop]) @ [Stop]) s3"
    by (rule cc_more [OF cc_more [OF cc_more [OF cc_refl]]]) (rule cc_step.stop, fact)+
  then have r: "cc_run demo_transport ?s0 [Stop, Stop, Stop] s3" by simp
  have w: "cc_run demo_transport s3 [Work] s4" by (rule cc_one [OF cc_step.work [OF 4(1)]])
  obtain s5 where "stop_step s4 = Some s5" "cc_stop s5 = Stopped"
    using stop_completes [OF demo_worker_start r 3(2) w] 4(2,3) by auto
  then show ?thesis using 4(2) r 3(2) w by blast
qed

text \<open>C23: The worker structure can be used after it was freed.  Whenever a publisher has left the critical
  section with the callback it copied and \<open>edgesync_worker_stop\<close> begins, the worker and the
  stopping task can finish first, and the publisher then calls \<open>wake_cb\<close> on freed memory.\<close>

theorem late_wakeup_uses_freed_worker:
  assumes "worker_start config pointers_set out_valid allocated sem_created task_created q0 = (ESP_OK, Some w, q)"
    and "cc_run T (cc_start q w t used) ls0 s" "cc_stop s = Running" "p \<in> set (cc_publishing s)" "pb_wake p"
  shows "\<exists>ls s' s''. cc_run T s ls s' \<and> set ls \<subseteq> {Work, Stop} \<and> cc_stop s' = Stopped \<and>
    cc_step T s' (Leave p) s'' \<and> cc_fault s''"
proof -
  note W = worker_started [OF assms(1)]
  have i: "stop_inv s" by (rule stop_inv_run [OF assms(2) stop_inv_start [OF W(2,3)]])
  obtain ls s' where R: "cc_run T s ls s'" "set ls \<subseteq> {Work, Stop}" "cc_stop s' = Stopped" "cc_publishing s' = cc_publishing s"
    using stop_completes_from [OF i assms(3)] by blast
  have i': "stop_inv s'" by (rule stop_inv_run [OF R(1) i])
  have l: "cc_step T s' (Leave p) (publish_leave p s')" by (rule leave) (simp add: R(4) assms(4))
  have "cc_fault (publish_leave p s')"
    using i i' R(3) assms(4,5) by (simp add: publish_leave_notified stop_inv_def)
  then show ?thesis using R(1-3) l by blast
qed

theorem late_wakeup_uses_freed_worker_witness:
  "\<exists>ls s' s''. cc_run demo_transport (cc_start demo_queue demo_worker 0 {}) (Publish demo_message # ls) s' \<and>
     cc_stop s' = Stopped \<and> cc_step demo_transport s' (Leave \<lparr>pb_msg = demo_message, pb_err = ESP_OK, pb_dropped = None,
       pb_wake = True\<rparr>) s'' \<and> cc_fault s''"
proof -
  let ?s0 = "cc_start demo_queue demo_worker (0::nat) {}" and
    ?p = "\<lparr>pb_msg = demo_message, pb_err = ESP_OK, pb_dropped = None, pb_wake = True\<rparr>"
  let ?s1 = "publish_enter demo_message ?s0"
  have "cc_step demo_transport ?s0 (Publish demo_message) ?s1" by (rule enter) (simp add: cc_start_def)
  then have 1: "cc_run demo_transport ?s0 [Publish demo_message] ?s1" by (rule cc_one)
  have cb: "q_wake_cb demo_queue" by (simp add: demo_queue_def)
  have f: "cc_stop ?s1 = Running" "?p \<in> set (cc_publishing ?s1)"
    using demo_publish_locked cb by (simp_all add: publish_enter_def cc_start_def)
  obtain ls s' s'' where R: "cc_run demo_transport ?s1 ls s'" "cc_stop s' = Stopped" "cc_step demo_transport s' (Leave ?p) s''"
    "cc_fault s''" using late_wakeup_uses_freed_worker [OF demo_worker_start 1 f] by auto
  have "cc_run demo_transport ?s0 (Publish demo_message # ls) s'" using cc_run_append [OF R(1) 1] by simp
  then show ?thesis using R(2-4) by blast
qed

end
