(* ===== verification/Machine_Properties.thy ===== *)
theory Machine_Properties
  imports System_Properties
begin

text \<open>
  The system on the flash queue as a run of the abstract machine of \<open>ES_Machine\<close>, and how often a
  message is given to the transport.
\<close>

lemma keeps_header_id: "keeps_header (\<lambda>m. m)"
  by (simp add: keeps_header_def)

text \<open>The run of the demonstration queue: one message, published, claimed, transmitted and confirmed.\<close>

lemma demo_run:
  obtains s where "sys_run demo_transport demo_worker reboot 4 (sys_start demo_queue 0) 5 s"
    "sy_accepted s = [7 \<mapsto> demo_message]" "contents flat (q_storage_ctx (sy_queue s)) = Map.empty"
    "sy_sent s = [(claimed (fresh demo_message) 5000, DELIVERY_SUCCESS)]"
proof -
  have S5: "flashq_sound flat nor 24576 4 164 (0 + 5) (q_storage_ctx demo_queue)"
    unfolding demo_queue_fields by (rule demo_empty_sound(1)) simp
  have E: "contents flat (q_storage_ctx demo_queue) = Map.empty"
    unfolding demo_queue_fields by (rule demo_empty_sound(2) [of 0]) simp
  show thesis
    using that flashq_reliable.one_delivery [where msg = demo_message and now_us = 5000 and t = 0,
        OF demo_queue_fields(1) S5 E _ demo_accepted demo_always_delivers, where rb = reboot]
    by (auto simp: demo_message_id)
qed

text \<open>A transport whose first delivery fails: the message is transmitted twice.\<close>

definition flaky_transport :: "nat transport_ops" where
  "flaky_transport = \<lparr>tr_init = None,
     tr_deliver = (\<lambda>n m. (if n = 0 then DELIVERY_RETRYABLE_FAILURE else DELIVERY_SUCCESS, 0, Suc n)), tr_close = None\<rparr>"

abbreviation (input) demo_first :: message where "demo_first \<equiv> claimed (fresh demo_message) 5000"

abbreviation (input) demo_retried :: message where
  "demo_retried \<equiv> retried demo_first (5000 + ucast (retry_compute_delay_ms (w_retry_cfg demo_worker) 1 0) * 1000) False EDGESYNC_ERR_TRANSPORT"

lemma demo_delay: "retry_compute_delay_ms (w_retry_cfg demo_worker) 1 0 = 500"
  by (simp add: demo_worker_def) code_simp

lemma demo_retry_run:
  obtains s where "sys_run flaky_transport demo_worker rb 4 (sys_start demo_queue 0) 7 s"
    "sy_sent s = [(demo_first, DELIVERY_RETRYABLE_FAILURE), (claimed demo_retried 600000, DELIVERY_SUCCESS)]"
    "contents flat (q_storage_ctx (sy_queue s)) = Map.empty"
proof -
  have S: "flashq_sound flat nor 24576 4 164 (4 + 3) (q_storage_ctx demo_queue)"
    unfolding demo_queue_fields by (rule demo_empty_sound(1)) simp
  have E: "contents flat (q_storage_ctx demo_queue) = Map.empty"
    unfolding demo_queue_fields by (rule demo_empty_sound(2) [of 0]) simp
  obtain s1 where 1: "sys_run flaky_transport demo_worker rb 4 (sys_start demo_queue 0) 3 s1"
    "contents flat (q_storage_ctx (sy_queue s1)) = [m_id (fresh demo_message) \<mapsto> fresh demo_message]"
    "sy_sent s1 = []" "sy_task s1 = Idle" "sy_transport s1 = 0" "q_storage_ops (sy_queue s1) = flashq_ops nor True"
    "flashq_sound flat nor 24576 4 164 (2 + 2) (q_storage_ctx (sy_queue s1))"
    using flashq_reliable.first_publish [OF demo_queue_fields(1) S E _ demo_accepted,
        where T = flaky_transport and w = demo_worker and rb = rb and t = 0] by auto
  have e1: "eligible 5000 (fresh demo_message)" by (rule flashq_reliable.fresh_eligible) simp
  have d1: "tr_deliver flaky_transport (sy_transport s1) demo_first = (DELIVERY_RETRYABLE_FAILURE, 0, 1)"
    by (simp add: flaky_transport_def 1(5))
  have a1: "m_attempt_count demo_first = 1" by simp
  have st: "fst (settled (\<lambda>m. m) (w_retry_cfg demo_worker) demo_first DELIVERY_RETRYABLE_FAILURE 5000 0) = Some demo_retried"
    unfolding settled_def a1 by (simp add: demo_worker_def word_le_nat_alt)
  obtain s2 where 2: "sys_run flaky_transport demo_worker rb 4 (sys_start demo_queue 0) (3 + 2) s2"
    "contents flat (q_storage_ctx (sy_queue s2)) = [m_id demo_retried \<mapsto> demo_retried]"
    "sy_sent s2 = [(demo_first, DELIVERY_RETRYABLE_FAILURE)]" "sy_task s2 = Idle" "sy_transport s2 = 1"
    "q_storage_ops (sy_queue s2) = flashq_ops nor True"
    "flashq_sound flat nor 24576 4 164 2 (q_storage_ctx (sy_queue s2))"
    using flashq_reliable.attempt_run [OF 1(1,6,7,4,2) e1 d1, where rnd = 0] 1(3) unfolding st by auto
  have g2: "flashq_sound flat nor 24576 4 164 (0 + 2) (q_storage_ctx (sy_queue s2))" unfolding add_0 by (rule 2(7))
  have e2: "eligible 600000 demo_retried" by (simp add: eligible_def demo_delay) (simp add: retried_def)
  have d2: "tr_deliver flaky_transport (sy_transport s2) (claimed demo_retried 600000) = (DELIVERY_SUCCESS, 0, 2)"
    by (simp add: flaky_transport_def 2(5))
  have "3 + 2 + 2 = (7 :: nat)" by simp
  with flashq_reliable.attempt_run [OF 2(1,6) g2 2(4,2) e2 d2, where rnd = 0] 2(3) show thesis
    using that by (auto simp: settled_def)
qed

text \<open>C2: The system refines the abstract store-and-forward machine.  Every run of publishers, worker,
  transport, flash queue and restarts is, step for step, a run of the machine whose state is a
  map of messages, the message the worker has at hand and the transmissions so far.\<close>

theorem system_refines_machine:
  assumes "flashq_sound cells F sz cap scr n (q_storage_ctx q)" "contents cells (q_storage_ctx q) = Map.empty"
    and "q_storage_ops q = flashq_ops F mc" "sys_run T w (flashq_reboot cells) cap (sys_start q t) n s"
  shows "machine_run (\<lambda>m. m) (w_retry_cfg w) cap (message_accepted scr) True machine_start n (machine_of (contents cells) s)"
  using flashq_reliable.system_refines [where k = 0 and restarts = True, OF assms(4,3) _ assms(2)] assms(1) by simp

theorem system_refines_machine_witness:
  "\<exists>a. machine_run (\<lambda>m. m) (w_retry_cfg demo_worker) 4 (message_accepted 164) True machine_start 5 a \<and>
     ma_view a = Map.empty \<and> ma_accepted a = {7} \<and> map snd (ma_sent a) = [DELIVERY_SUCCESS]"
proof -
  obtain s where s: "sys_run demo_transport demo_worker (flashq_reboot flat) 4 (sys_start demo_queue 0) 5 s"
    "sy_accepted s = [7 \<mapsto> demo_message]" "contents flat (q_storage_ctx (sy_queue s)) = Map.empty"
    "sy_sent s = [(claimed (fresh demo_message) 5000, DELIVERY_SUCCESS)]" by (rule demo_run)
  have S: "flashq_sound flat nor 24576 4 164 5 (q_storage_ctx demo_queue)"
    unfolding demo_queue_fields by (rule demo_empty_sound(1)) simp
  have E: "contents flat (q_storage_ctx demo_queue) = Map.empty"
    unfolding demo_queue_fields by (rule demo_empty_sound(2) [of 0]) simp
  show ?thesis using system_refines_machine [OF S E demo_queue_fields(1) s(1)] s(2-4)
    by (intro exI [of _ "machine_of (contents flat) s"]) simp
qed

text \<open>C4: A message that was delivered is never sent again.  As long as the process is not restarted, once
  the transport has reported success for a message, the message is not given to it again.\<close>

theorem delivered_at_most_once:
  assumes "flashq_sound cells F sz cap scr n (q_storage_ctx q)" "contents cells (q_storage_ctx q) = Map.empty"
    and "q_storage_ops q = flashq_ops F mc" "sys_run T w (\<lambda>_ _. False) cap (sys_start q t) n s"
    and "i < j" "j < length (sy_sent s)" "m_id (fst (sy_sent s ! i)) = m_id (fst (sy_sent s ! j))"
  shows "snd (sy_sent s ! i) \<noteq> DELIVERY_SUCCESS"
proof -
  have "machine_run (\<lambda>m. m) (w_retry_cfg w) cap (message_accepted scr) False machine_start n (machine_of (contents cells) s)"
    using flashq_reliable.system_refines [where k = 0 and restarts = False, OF assms(4,3) _ assms(2)] assms(1) by simp
  from never_sent_again [OF this keeps_header_id assms(5)] show ?thesis using assms(6,7) by simp
qed

theorem delivered_at_most_once_witness:
  "\<exists>s. sys_run flaky_transport demo_worker (\<lambda>_ _. False) 4 (sys_start demo_queue 0) 7 s \<and> length (sy_sent s) = 2 \<and>
     m_id (fst (sy_sent s ! 0)) = 7 \<and> m_id (fst (sy_sent s ! 1)) = 7 \<and> snd (sy_sent s ! 0) \<noteq> DELIVERY_SUCCESS \<and>
     snd (sy_sent s ! 1) = DELIVERY_SUCCESS"
proof -
  obtain s where s: "sys_run flaky_transport demo_worker (\<lambda>_ _. False) 4 (sys_start demo_queue 0) 7 s"
    "sy_sent s = [(demo_first, DELIVERY_RETRYABLE_FAILURE), (claimed demo_retried 600000, DELIVERY_SUCCESS)]"
    by (rule demo_retry_run)
  have S: "flashq_sound flat nor 24576 4 164 7 (q_storage_ctx demo_queue)"
    unfolding demo_queue_fields by (rule demo_empty_sound(1)) simp
  have E: "contents flat (q_storage_ctx demo_queue) = Map.empty"
    unfolding demo_queue_fields by (rule demo_empty_sound(2) [of 0]) simp
  have "snd (sy_sent s ! 0) \<noteq> DELIVERY_SUCCESS"
    by (rule delivered_at_most_once [OF S E demo_queue_fields(1) s(1), of 0 1]) (simp_all add: s(2))
  then show ?thesis using s by (intro exI [of _ s]) (simp add: demo_message_id)
qed

text \<open>C18: The retry limit.  Without a restart no message is transmitted more often than \<open>max_attempts\<close>,
  unless that is zero; with restarts at any point the attempt counter of a stored message is
  never less than the number of times it was transmitted.\<close>

theorem transmissions_bounded:
  assumes "flashq_sound cells F sz cap scr n (q_storage_ctx q)" "contents cells (q_storage_ctx q) = Map.empty"
    and "q_storage_ops q = flashq_ops F mc" "n < 2 ^ 32"
    and "sys_run T w reboot cap (sys_start q t) n s" "\<And>c c'. reboot c c' \<Longrightarrow> flashq_reboot cells c c'"
  shows "(max_attempts (w_retry_cfg w) \<noteq> 0 \<longrightarrow> reboot = (\<lambda>_ _. False) \<longrightarrow>
      transmissions (sy_sent s) mid \<le> unat (max_attempts (w_retry_cfg w))) \<and>
    (contents cells (q_storage_ctx (sy_queue s)) mid = Some m \<longrightarrow>
      transmissions (sy_sent s) mid \<le> unat (m_attempt_count m))"
proof -
  let ?a = "machine_of (contents cells) s" and ?cfg = "w_retry_cfg w"
  note R = flashq_reliable.system_refines [where k = 0, OF assms(5,3) _ assms(2)]
  have "machine_run (\<lambda>m. m) ?cfg cap (message_accepted scr) True machine_start n ?a"
    using R [where restarts = True] assms(1,6) by simp
  from attempts_not_undercounted [OF this keeps_header_id machine_inv_start attempts_inv_start, of 0] assms(4)
  have I: "attempts_inv n n ?a" by simp
  have "transmissions (sy_sent s) mid \<le> unat (m_attempt_count m)"
    if "contents cells (q_storage_ctx (sy_queue s)) mid = Some m"
    using that I by (fastforce simp: attempts_inv_def started_def)
  moreover have "transmissions (sy_sent s) mid \<le> unat (max_attempts ?cfg)"
    if m: "max_attempts ?cfg \<noteq> 0" and r: "reboot = (\<lambda>_ _. False)"
  proof -
    have "machine_run (\<lambda>m. m) ?cfg cap (message_accepted scr) False machine_start n ?a"
      using R [where restarts = False] assms(1) r by simp
    from transmissions_limited [OF this keeps_header_id m machine_inv_start attempts_inv_start]
    show ?thesis by (simp add: attempts_inv_def)
  qed
  ultimately show ?thesis by blast
qed

theorem transmissions_bounded_witness:
  "\<exists>s. sys_run flaky_transport demo_worker (\<lambda>_ _. False) 4 (sys_start demo_queue 0) 7 s \<and>
     transmissions (sy_sent s) 7 = 2 \<and> transmissions (sy_sent s) 7 \<le> unat (max_attempts (w_retry_cfg demo_worker))"
proof -
  obtain s where s: "sys_run flaky_transport demo_worker (\<lambda>_ _. False) 4 (sys_start demo_queue 0) 7 s"
    "sy_sent s = [(demo_first, DELIVERY_RETRYABLE_FAILURE), (claimed demo_retried 600000, DELIVERY_SUCCESS)]"
    by (rule demo_retry_run)
  have S: "flashq_sound flat nor 24576 4 164 7 (q_storage_ctx demo_queue)"
    unfolding demo_queue_fields by (rule demo_empty_sound(1)) simp
  have E: "contents flat (q_storage_ctx demo_queue) = Map.empty"
    unfolding demo_queue_fields by (rule demo_empty_sound(2) [of 0]) simp
  have "transmissions (sy_sent s) 7 \<le> unat (max_attempts (w_retry_cfg demo_worker))"
    using transmissions_bounded [OF S E demo_queue_fields(1) _ s(1), of 7] by (simp add: demo_worker_def)
  then show ?thesis using s by (intro exI [of _ s]) (simp add: transmissions_def demo_message_id)
qed


text \<open>A message that is never delivered: three attempts, then it is a dead letter.\<close>

definition dead_transport :: "nat transport_ops" where
  "dead_transport = \<lparr>tr_init = None, tr_deliver = (\<lambda>n m. (DELIVERY_RETRYABLE_FAILURE, 0, Suc n)), tr_close = None\<rparr>"

definition demo_rounds :: "(bool \<times> i64 \<times> i64 \<times> u32) list" where
  "demo_rounds = [(False, 5000, 6000, 0), (False, 400000000, 400001000, 0), (False, 800000000, 800001000, 0)]"


end
