(* ===== verification/Nvs_Interrupted.thy ===== *)
theory Nvs_Interrupted
  imports Nvs_Properties
begin

text \<open>
  Power losses inside an operation of the NVS backend.  An operation whose library calls stop
  succeeding at some point is compared with the same operation on an ideal library: what survives
  is what the ideal library held before it, or after it.
\<close>

section \<open>The library at a power loss\<close>

text \<open>
  A commit that does not report success has made the pending changes durable or not.  A power loss
  is a call that does not succeed, and neither does any call after it.
\<close>

definition nvs_commit_law :: "'n nvs_lib \<Rightarrow> ('n \<Rightarrow> blob_map) \<Rightarrow> ('n \<Rightarrow> blob_map) \<Rightarrow> bool" where
  "nvs_commit_law N blobs durable \<longleftrightarrow>
     (\<forall>n. durable (snd (nv_commit N n)) = durable n \<or> durable (snd (nv_commit N n)) = blobs n)"

text \<open>The same context on another handle.\<close>

definition nvs_on :: "'h \<Rightarrow> 'n nvs_ctx \<Rightarrow> 'h nvs_ctx" where
  "nvs_on h c = \<lparr>n_handle = h, n_max_messages = n_max_messages c, n_max_message_size = n_max_message_size c,
     n_slot_used = n_slot_used c, n_index = n_index c, n_index_capacity = n_index_capacity c,
     n_scratch_size = n_scratch_size c, n_scratch = n_scratch c, n_claim_scratch = n_claim_scratch c,
     n_lock_created = n_lock_created c, n_fault = n_fault c\<rparr>"

lemma nvs_on_simps [simp]:
  "n_handle (nvs_on h c) = h" "n_max_messages (nvs_on h c) = n_max_messages c" "n_slot_used (nvs_on h c) = n_slot_used c"
  "n_index (nvs_on h c) = n_index c" "n_index_capacity (nvs_on h c) = n_index_capacity c"
  "n_scratch_size (nvs_on h c) = n_scratch_size c" "n_scratch (nvs_on h c) = n_scratch c"
  "n_claim_scratch (nvs_on h c) = n_claim_scratch c" "n_fault (nvs_on h c) = n_fault c"
  by (simp_all add: nvs_on_def)

lemma nvs_on_updates [simp]:
  "(nvs_on h c)\<lparr>n_handle := h'\<rparr> = nvs_on h' c" "(nvs_on h c)\<lparr>n_scratch := x\<rparr> = nvs_on h (c\<lparr>n_scratch := x\<rparr>)"
  "(nvs_on h c)\<lparr>n_fault := f\<rparr> = nvs_on h (c\<lparr>n_fault := f\<rparr>)" "(nvs_on h c)\<lparr>n_index := es\<rparr> = nvs_on h (c\<lparr>n_index := es\<rparr>)"
  "(nvs_on h c)\<lparr>n_slot_used := us\<rparr> = nvs_on h (c\<lparr>n_slot_used := us\<rparr>)"
  "(nvs_on h c)\<lparr>n_claim_scratch := x\<rparr> = nvs_on h (c\<lparr>n_claim_scratch := x\<rparr>)"
  "nvs_on h (c\<lparr>n_handle := n\<rparr>) = nvs_on h c" "nvs_on h (c\<lparr>n_handle := n, n_scratch := x\<rparr>) = nvs_on h (c\<lparr>n_scratch := x\<rparr>)"
  by (simp_all add: nvs_on_def)

lemma nvs_on_inv:
  assumes "blobs' h = blobs (n_handle c)" "durable' h = durable (n_handle c)"
  shows "nvs_inv blobs' durable' (nvs_on h c) = nvs_inv blobs durable c" "nvs_view blobs' (nvs_on h c) = nvs_view blobs c"
  using assms by (simp_all add: nvs_inv_def nvs_geometry_def nvs_slots_ok_def nvs_view_def)

section \<open>The same operation on an ideal library\<close>

text \<open>The two contexts agree, and nothing is pending in either library.\<close>

definition settled_ctx :: "('n \<Rightarrow> blob_map) \<Rightarrow> ('n \<Rightarrow> blob_map) \<Rightarrow> 'n nvs_ctx \<Rightarrow> blob_map nvs_ctx \<Rightarrow> bool" where
  "settled_ctx blobs durable c ci \<longleftrightarrow> (\<exists>m. ci = nvs_on m c \<and> blobs (n_handle c) = m \<and> durable (n_handle c) = m)"

lemma read_same:
  assumes laws: "nvs_laws N blobs durable" and s: "settled_ctx blobs durable c ci"
    and run: "read_and_verify N c slot = (err, hdr, c1)" and ideal: "read_and_verify ideal_nvs ci slot = (erri, hdri, ci1)"
  shows "err = erri \<and> hdr = hdri \<and> settled_ctx blobs durable c1 ci1 \<or>
    hdr = None \<and> err \<noteq> EDGESYNC_ERR_STORAGE_CORRUPT \<and> durable (n_handle c1) = n_handle ci"
proof -
  let ?key = "slot_key slot"
  obtain m where m: "ci = nvs_on m c" "blobs (n_handle c) = m" "durable (n_handle c) = m"
    using s by (auto simp: settled_ctx_def)
  obtain r1 n1 where 1: "nv_get_size N (n_handle c) ?key = (r1, n1)" by (metis prod.exhaust)
  note L1 = nvs_get_size [OF laws 1]
  show ?thesis
  proof (cases r1)
    case None
    then show ?thesis using run L1(2) m by (auto simp: read_and_verify_def 1)
  next
    case (Some len)
    obtain v where v: "m ?key = Some v" "length v = len" using L1(3) [OF Some] m(2) by auto
    obtain r2 n2 where 2: "nv_get_blob N n1 ?key len = (r2, n2)" by (metis prod.exhaust)
    note L2 = nvs_get_blob [OF laws 2]
    have b: "blobs n1 = m" "durable n1 = m" "blobs n2 = m" "durable n2 = m" using L1(1,2) L2(1,2) m by simp_all
    have i1: "nv_get_size ideal_nvs m ?key = (Some len, m)" "nv_get_blob ideal_nvs m ?key len = (Some v, m)"
      using v by (simp_all add: ideal_nvs_def)
    show ?thesis
    proof (cases "len > n_scratch_size c")
      case True
      then show ?thesis using run ideal m b i1 by (auto simp: read_and_verify_def 1 Some settled_ctx_def)
    next
      case False
      show ?thesis
      proof (cases r2)
        case None
        then show ?thesis using run False b m by (auto simp: read_and_verify_def 1 2 Some)
      next
        case S2: (Some u)
        have "u = v" using L2(3) [OF S2] b v(1) by simp
        then show ?thesis using run ideal False m(1) b i1
          by (auto simp: read_and_verify_def 1 2 Some S2 settled_ctx_def Let_def split: option.splits if_splits)
      qed
    qed
  qed
qed

lemma write_same:
  assumes laws: "nvs_laws N blobs durable" and com: "nvs_commit_law N blobs durable" and s: "settled_ctx blobs durable c ci"
    and run: "write_entry N c e dest src = (err, c1)" and ideal: "write_entry ideal_nvs ci e dest src = (erri, ci1)"
  shows "durable (n_handle c1) = n_handle ci \<or> durable (n_handle c1) = n_handle ci1"
proof -
  obtain m where m: "ci = nvs_on m c" "blobs (n_handle c) = m" "durable (n_handle c) = m"
    using s by (auto simp: settled_ctx_def)
  let ?enc = "encode_message_full (n_scratch_size c) (ne_id e) dest (ne_priority e) (ne_state e) (ne_attempt_count e)
    (ne_created_at_us e) (ne_last_attempt_at_us e) (ne_next_retry_at_us e) (ne_last_error e)
    (payload_bytes (n_scratch c) (c_string dest) (unat (ne_payload_len e)) src) 0"
  show ?thesis
  proof (cases ?enc)
    case None
    then show ?thesis using run m by (simp add: write_entry_def Let_def)
  next
    case (Some bs)
    let ?key = "slot_key (ne_slot e)"
    obtain ok1 n1 where 1: "nv_set_blob N (n_handle c) ?key bs = (ok1, n1)" by (metis prod.exhaust)
    obtain ok2 n2 where 2: "nv_commit N n1 = (ok2, n2)" by (metis prod.exhaust)
    note L1 = nvs_set_blob(2,3) [OF laws 1]
    have n2: "durable n2 = durable n1 \<or> durable n2 = blobs n1" using com 2 unfolding nvs_commit_law_def by (metis snd_conv)
    have i: "n_handle ci1 = m(?key \<mapsto> bs)" using ideal Some by (auto simp: write_entry_def m(1) ideal_nvs_def)
    have "n_handle c1 = (if ok1 then n2 else n1)" using run Some by (auto simp: write_entry_def 1 2 Let_def split: if_splits)
    then show ?thesis using L1 n2 m i by auto
  qed
qed

text \<open>Every operation leaves what the ideal library held before it or after it.\<close>

lemma enqueue_same:
  assumes laws: "nvs_laws N blobs durable" "nvs_commit_law N blobs durable" and s: "settled_ctx blobs durable c ci"
    and run: "nvs_op_enqueue N c msg = (err, c')" and ideal: "nvs_op_enqueue ideal_nvs ci msg = (erri, ci')"
  shows "durable (n_handle c') = n_handle ci \<or> durable (n_handle c') = n_handle ci'"
proof -
  obtain m where m: "ci = nvs_on m c" "blobs (n_handle c) = m" "durable (n_handle c) = m"
    using s by (auto simp: settled_ctx_def)
  have ff: "find_free_slot ci = find_free_slot c" by (simp add: find_free_slot_def m(1))
  show ?thesis
  proof (cases "length (n_index c) \<ge> n_index_capacity c \<or> find_free_slot c = None")
    case True
    then show ?thesis using run m by (auto simp: nvs_op_enqueue_def split: if_splits)
  next
    case False
    then obtain slot where slot: "find_free_slot c = Some slot" by auto
    let ?e = "nvs_new_entry msg slot"
    obtain e1 c1 where 1: "write_entry N c ?e (m_destination msg) (Elsewhere (m_payload msg)) = (e1, c1)" by (metis prod.exhaust)
    obtain e2 c2 where 2: "write_entry ideal_nvs ci ?e (m_destination msg) (Elsewhere (m_payload msg)) = (e2, c2)" by (metis prod.exhaust)
    have "n_handle c' = n_handle c1" using run False slot 1 by (auto simp: nvs_op_enqueue_def Let_def split: if_splits)
    moreover have "n_handle ci' = n_handle c2"
      using ideal False slot 2 ff by (auto simp: nvs_op_enqueue_def Let_def m(1) split: if_splits)
    ultimately show ?thesis using write_same [OF laws s 1 2] by simp
  qed
qed

lemma delivered_same:
  assumes laws: "nvs_laws N blobs durable" "nvs_commit_law N blobs durable" and s: "settled_ctx blobs durable c ci"
    and run: "nvs_op_mark_delivered N c mid = (err, c')" and ideal: "nvs_op_mark_delivered ideal_nvs ci mid = (erri, ci')"
  shows "durable (n_handle c') = n_handle ci \<or> durable (n_handle c') = n_handle ci'"
proof -
  obtain m where m: "ci = nvs_on m c" "blobs (n_handle c) = m" "durable (n_handle c) = m"
    using s by (auto simp: settled_ctx_def)
  have ff: "nvs_find_entry ci mid = nvs_find_entry c mid" by (simp add: nvs_find_entry_def m(1))
  show ?thesis
  proof (cases "nvs_find_entry c mid")
    case None
    then show ?thesis using run m by (simp add: nvs_op_mark_delivered_def)
  next
    case (Some pos)
    let ?key = "slot_key (ne_slot (n_index c ! pos))"
    obtain ok1 n1 where 1: "nv_erase_key N (n_handle c) ?key = (ok1, n1)" by (metis prod.exhaust)
    obtain ok2 n2 where 2: "nv_commit N n1 = (ok2, n2)" by (metis prod.exhaust)
    note L1 = nvs_erase_key(2,3) [OF laws(1) 1]
    have n2: "durable n2 = durable n1 \<or> durable n2 = blobs n1"
      using laws(2) 2 unfolding nvs_commit_law_def by (metis snd_conv)
    have h: "n_handle c' = (if ok1 then n2 else n1)"
      using run Some by (auto simp: nvs_op_mark_delivered_def 1 2 Let_def nvs_remove_entry_at_def split: if_splits)
    have i: "n_handle ci' = m(?key := None)"
      using ideal Some ff by (auto simp: nvs_op_mark_delivered_def m(1) ideal_nvs_def Let_def nvs_remove_entry_at_def split: if_splits)
    show ?thesis using L1 n2 m i h by auto
  qed
qed

lemma settled_ctx_upd:
  assumes "settled_ctx blobs durable c ci"
  shows "settled_ctx blobs durable (c\<lparr>n_index := es\<rparr>) (ci\<lparr>n_index := es\<rparr>)"
    "settled_ctx blobs durable (c\<lparr>n_claim_scratch := x\<rparr>) (ci\<lparr>n_claim_scratch := x\<rparr>)"
    "settled_ctx blobs durable (nvs_use k l c) (nvs_use k l ci)"
  using assms by (auto simp: settled_ctx_def nvs_use_def nvs_on_def)

lemma settled_ctx_fields:
  assumes "settled_ctx blobs durable c ci"
  shows "n_index ci = n_index c" "n_scratch ci = n_scratch c" "n_scratch_size ci = n_scratch_size c"
    "n_claim_scratch ci = n_claim_scratch c" "durable (n_handle c) = n_handle ci" "n_max_messages ci = n_max_messages c"
    "n_index_capacity ci = n_index_capacity c"
  using assms by (auto simp: settled_ctx_def)

lemma nvs_use_fields [simp]:
  "n_index (nvs_use k l c) = n_index c" "n_scratch (nvs_use k l c) = n_scratch c" "n_handle (nvs_use k l c) = n_handle c"
  "n_scratch_size (nvs_use k l c) = n_scratch_size c" "n_claim_scratch (nvs_use k l c) = n_claim_scratch c"
  by (simp_all add: nvs_use_def)

lemma claim_commit_same:
  assumes laws: "nvs_laws N blobs durable" "nvs_commit_law N blobs durable" and s: "settled_ctx blobs durable c ci"
    and run: "nvs_claim_commit N c now_us pos hdr = (err, r, c')" and ideal: "nvs_claim_commit ideal_nvs ci now_us pos hdr = (erri, ri, ci')"
  shows "durable (n_handle c') = n_handle ci \<or> durable (n_handle c') = n_handle ci'"
proof -
  note F = settled_ctx_fields [OF s]
  let ?body = "unat (h_destination_len hdr) + unat (h_body_len hdr)"
  let ?claim = "take ?body (drop HDR_SIZE (n_scratch c)) @ drop ?body (n_claim_scratch c)"
  let ?best = "(n_index c ! pos)\<lparr>ne_attempt_count := ne_attempt_count (n_index c ! pos) + 1, ne_state := STATE_IN_FLIGHT,
    ne_last_attempt_at_us := now_us\<rparr>"
  let ?dlen = "unat (ne_destination_len ?best)" and ?plen = "unat (ne_payload_len ?best)"
  let ?use = "\<lambda>ctx. nvs_use ?dlen EDGESYNC_MAX_DESTINATION_LEN ((nvs_use (HDR_SIZE + ?body) (n_scratch_size c) ctx)
    \<lparr>n_claim_scratch := ?claim, n_index := (n_index c)[pos := ?best]\<rparr>)"
  obtain e1 c1 where 1: "write_entry N (?use c) ?best (take ?dlen ?claim) (Elsewhere (take ?plen (drop ?dlen ?claim))) = (e1, c1)"
    by (metis prod.exhaust)
  obtain e2 c2 where 2: "write_entry ideal_nvs (?use ci) ?best (take ?dlen ?claim) (Elsewhere (take ?plen (drop ?dlen ?claim))) = (e2, c2)"
    by (metis prod.exhaust)
  have u: "settled_ctx blobs durable (?use c) (?use ci)" by (intro settled_ctx_upd s)
  have w: "snd (snd (nvs_claim_commit M d now_us pos hdr)) =
      snd (write_entry M (?use d) ?best (take ?dlen ?claim) (Elsewhere (take ?plen (drop ?dlen ?claim))))"
    if "n_index d = n_index c" "n_scratch d = n_scratch c" "n_scratch_size d = n_scratch_size c" "n_claim_scratch d = n_claim_scratch c"
    for M and d :: "'m nvs_ctx"
    unfolding nvs_claim_commit_def Let_def nvs_use_fields that by (simp add: case_prod_beta del: take_append drop_append)
  have "c' = c1" using w [of c N] unfolding run 1 by simp
  moreover have "ci' = c2" using w [of ci ideal_nvs] unfolding ideal 2 by (simp add: F)
  moreover have "n_handle (?use ci) = n_handle ci" by simp
  ultimately show ?thesis using write_same [OF laws u 1 2] by simp
qed

lemma claim_same:
  assumes laws: "nvs_laws N blobs durable" "nvs_commit_law N blobs durable" and s: "settled_ctx blobs durable c ci"
    and intact: "fst (nvs_op_claim_next ideal_nvs ci now_us) \<noteq> EDGESYNC_ERR_STORAGE_CORRUPT"
    and run: "nvs_op_claim_next N c now_us = (err, r, c')" and ideal: "nvs_op_claim_next ideal_nvs ci now_us = (erri, ri, ci')"
  shows "durable (n_handle c') = n_handle ci \<or> durable (n_handle c') = n_handle ci'"
proof -
  note F = settled_ctx_fields [OF s]
  show ?thesis
  proof (cases "nvs_claim_select now_us (n_index c)")
    case None
    then show ?thesis using run F(5) by (simp add: nvs_op_claim_next_def)
  next
    case (Some pos)
    let ?slot = "ne_slot (n_index c ! pos)"
    obtain e1 hdr c1 where 1: "read_and_verify N c ?slot = (e1, hdr, c1)" by (metis prod.exhaust)
    obtain e2 hdri c2 where 2: "read_and_verify ideal_nvs ci ?slot = (e2, hdri, c2)" by (metis prod.exhaust)
    have nc: "e2 \<noteq> EDGESYNC_ERR_STORAGE_CORRUPT"
      using intact by (auto simp: nvs_op_claim_next_def Some F(1) 2 Let_def)
    consider "e1 = e2" "hdr = hdri" "settled_ctx blobs durable c1 c2"
      | "hdr = None" "e1 \<noteq> EDGESYNC_ERR_STORAGE_CORRUPT" "durable (n_handle c1) = n_handle ci"
      using read_same [OF laws(1) s 1 2] by blast
    then show ?thesis
    proof cases
      case 1
      have h: "n_handle c2 = n_handle ci" using 2 by (auto simp: read_and_verify_def ideal_nvs_def Let_def split: option.splits if_splits)
      show ?thesis
      proof (cases hdri)
        case None
        have "c' = c1" using run nc 1(1,2) None \<open>read_and_verify N c ?slot = (e1, hdr, c1)\<close>
          by (simp add: nvs_op_claim_next_def Some)
        then show ?thesis using settled_ctx_fields(5) [OF 1(3)] h by simp
      next
        case S2: (Some x)
        have "nvs_claim_commit N c1 now_us pos x = (err, r, c')"
          using run nc 1(1,2) S2 \<open>read_and_verify N c ?slot = (e1, hdr, c1)\<close> by (simp add: nvs_op_claim_next_def Some)
        moreover have "nvs_claim_commit ideal_nvs c2 now_us pos x = (erri, ri, ci')"
          using ideal nc S2 2 by (simp add: nvs_op_claim_next_def Some F(1))
        ultimately show ?thesis using claim_commit_same [OF laws 1(3)] h by metis
      qed
    next
      case 2
      then have "c' = c1" using run \<open>read_and_verify N c ?slot = (e1, hdr, c1)\<close> by (simp add: nvs_op_claim_next_def Some)
      then show ?thesis using 2(3) by simp
    qed
  qed
qed

lemma retry_same:
  assumes laws: "nvs_laws N blobs durable" "nvs_commit_law N blobs durable" and s: "settled_ctx blobs durable c ci"
    and run: "nvs_op_schedule_retry N c mid next_us dead er = (err, c')"
    and ideal: "nvs_op_schedule_retry ideal_nvs ci mid next_us dead er = (erri, ci')"
  shows "durable (n_handle c') = n_handle ci \<or> durable (n_handle c') = n_handle ci'"
proof -
  note F = settled_ctx_fields [OF s]
  have ff: "nvs_find_entry ci mid = nvs_find_entry c mid" by (simp add: nvs_find_entry_def F)
  show ?thesis
  proof (cases "nvs_find_entry c mid")
    case None
    then show ?thesis using run F(5) by (simp add: nvs_op_schedule_retry_def)
  next
    case (Some pos)
    let ?slot = "ne_slot (n_index c ! pos)"
    obtain e1 hdr c1 where 1: "read_and_verify N c ?slot = (e1, hdr, c1)" by (metis prod.exhaust)
    obtain e2 hdri c2 where 2: "read_and_verify ideal_nvs ci ?slot = (e2, hdri, c2)" by (metis prod.exhaust)
    have h: "n_handle c2 = n_handle ci" using 2 by (auto simp: read_and_verify_def ideal_nvs_def Let_def split: option.splits if_splits)
    show ?thesis
    proof (cases hdr)
      case None
      have "c' = c1" using run None by (simp add: nvs_op_schedule_retry_def Some 1)
      then show ?thesis using read_same [OF laws(1) s 1 2] settled_ctx_fields(5) [of blobs durable c1 c2] h by auto
    next
      case S1: (Some x)
      then have s1: "settled_ctx blobs durable c1 c2" and hx: "hdri = Some x" using read_same [OF laws(1) s 1 2] by auto
      let ?dlen = "unat (h_destination_len x)"
      let ?e = "\<lambda>e. e\<lparr>ne_state := (if dead then STATE_DEAD_LETTER else STATE_PENDING),
        ne_next_retry_at_us := (if dead then 0 else next_us), ne_last_error := er\<rparr>"
      let ?use = "\<lambda>ctx. (nvs_use ?dlen EDGESYNC_MAX_DESTINATION_LEN ctx)\<lparr>n_index := (n_index c1)[pos := ?e (n_index c1 ! pos)]\<rparr>"
      have u: "settled_ctx blobs durable (?use c1) (?use c2)" by (intro settled_ctx_upd s1)
      note F1 = settled_ctx_fields [OF s1]
      have i: "n_index c1 = n_index c" using 1 by (auto simp: read_and_verify_def Let_def split: prod.splits option.splits if_splits)
      let ?w = "\<lambda>M ctx. write_entry M (?use ctx) (?e (n_index c1 ! pos)) (take ?dlen (drop HDR_SIZE (n_scratch c1))) (In_scratch (HDR_SIZE + ?dlen))"
      have "?w N c1 = (err, c')" using run by (simp add: nvs_op_schedule_retry_def Some 1 S1 body_in_scratch_def Let_def i)
      moreover have "?w ideal_nvs c2 = (erri, ci')"
        using ideal by (simp add: nvs_op_schedule_retry_def Some ff 2 hx body_in_scratch_def Let_def F1 F i)
      ultimately show ?thesis using write_same [OF laws u] h by fastforce
    qed
  qed
qed

section \<open>Recovery after an interrupted operation\<close>

text \<open>
  What a restart finds: a context created anew on the surviving blobs recovers, with a library that
  works again, and holds \<open>v\<close> with the messages that were in flight put back.
\<close>

definition nvs_survives ::
  "'n nvs_lib \<Rightarrow> ('n \<Rightarrow> blob_map) \<Rightarrow> ('n \<Rightarrow> blob_map) \<Rightarrow> 'n nvs_ctx \<Rightarrow> (message_id \<Rightarrow> message option) set \<Rightarrow> bool" where
  "nvs_survives N blobs durable c vs \<longleftrightarrow>
     (\<forall>c0. nvs_reboot blobs durable c c0 \<longrightarrow> (\<exists>d. \<exists>v\<in>vs. nvs_op_recover N c0 = (ESP_OK, d) \<and>
        nvs_view blobs d = (\<lambda>mid. map_option (requeued_with zeroed) (v mid))))"

lemma recovers_ideal:
  assumes laws: "nvs_laws N blobs durable" "nvs_reliable N blobs" and s: "nvs_sound ideal_nvs same_map same_map (n_max_messages c) (n_scratch_size c) k ci"
    and cap: "n_index_capacity c = n_max_messages c"
    and h: "durable n = n_handle ci" and rb: "nvs_reboot blobs durable (c\<lparr>n_handle := n\<rparr>) c0"
  shows "\<exists>d. nvs_op_recover N c0 = (ESP_OK, d) \<and>
    nvs_view blobs d = (\<lambda>mid. map_option (requeued_with zeroed) (nvs_view same_map ci mid))"
proof -
  let ?c = "nvs_on (n_handle c0) ci"
  note S = nvs_soundD [OF s]
  have b: "blobs (n_handle c0) = n_handle ci" "durable (n_handle c0) = n_handle ci" using rb h by (simp_all add: nvs_reboot_def)
  note on = nvs_on_inv [where blobs' = blobs and durable' = durable and blobs = same_map and durable = same_map, OF b]
  have inv: "nvs_inv blobs durable ?c" using on(1) S(2) by simp
  have "nvs_reboot blobs durable ?c c0"
    using rb h b nvs_invD(10) [OF S(2)] S(4,5) cap by (simp add: nvs_reboot_def)
  from nvs_restart [OF laws inv this] show ?thesis using on(2) by metis
qed

lemma survives_ideal:
  assumes laws: "nvs_laws N blobs durable" "nvs_reliable N blobs"
    and cap: "n_index_capacity c = n_max_messages c" and h: "durable n = n_handle ci \<or> durable n = n_handle ci'"
    and s: "nvs_sound ideal_nvs same_map same_map (n_max_messages c) (n_scratch_size c) 0 ci"
      "nvs_sound ideal_nvs same_map same_map (n_max_messages c) (n_scratch_size c) 0 ci'"
    and v: "nvs_view same_map ci \<in> vs" "nvs_view same_map ci' \<in> vs"
  shows "nvs_survives N blobs durable (c\<lparr>n_handle := n\<rparr>) vs"
  unfolding nvs_survives_def
  using recovers_ideal [OF laws s(1) cap] recovers_ideal [OF laws s(2) cap] h v by (metis (no_types, lifting))

text \<open>The ideal library that holds what the real one holds when nothing is pending.\<close>

lemma settled_ideal:
  assumes inv: "nvs_inv blobs durable c" and quiet: "durable (n_handle c) = blobs (n_handle c)"
  shows "settled_ctx blobs durable c (nvs_on (blobs (n_handle c)) c)"
    "nvs_sound ideal_nvs same_map same_map (n_max_messages c) (n_scratch_size c) k (nvs_on (blobs (n_handle c)) c)"
    "nvs_view same_map (nvs_on (blobs (n_handle c)) c) = nvs_view blobs c"
proof -
  note on = nvs_on_inv [where blobs' = same_map and durable' = same_map and blobs = blobs and durable = durable and h = "blobs (n_handle c)" and c = c,
    OF refl quiet [symmetric]]
  show "nvs_view same_map (nvs_on (blobs (n_handle c)) c) = nvs_view blobs c" by (rule on(2))
  show "nvs_sound ideal_nvs same_map same_map (n_max_messages c) (n_scratch_size c) k (nvs_on (blobs (n_handle c)) c)"
    using on(1) inv nvs_invD(10) [OF inv] ideal_nvs_laws ideal_nvs_reliable by (simp add: nvs_sound_def nvs_good_def)
  show "settled_ctx blobs durable c (nvs_on (blobs (n_handle c)) c)" using quiet by (simp add: settled_ctx_def)
qed

text \<open>What each operation on the ideal library leaves.\<close>

lemma ideal_results:
  assumes s: "nvs_sound ideal_nvs same_map same_map cap scr 0 ci"
  shows "m_id msg \<notin> dom (nvs_view same_map ci) \<Longrightarrow> nvs_op_enqueue ideal_nvs ci msg = (err, ci') \<Longrightarrow>
      nvs_sound ideal_nvs same_map same_map cap scr 0 ci' \<and>
      nvs_view same_map ci' \<in> {nvs_view same_map ci, (nvs_view same_map ci)(m_id msg \<mapsto> fresh msg)}"
    and "nvs_op_claim_next ideal_nvs ci now_us = (err, r, ci') \<Longrightarrow> nvs_sound ideal_nvs same_map same_map cap scr 0 ci' \<and>
      (nvs_view same_map ci' = nvs_view same_map ci \<or> (\<exists>msg. first_to_claim (nvs_view same_map ci) now_us msg \<and>
         nvs_view same_map ci' = (nvs_view same_map ci)(m_id msg \<mapsto> claimed msg now_us)))"
    and "nvs_op_mark_delivered ideal_nvs ci mid = (err, ci') \<Longrightarrow> nvs_sound ideal_nvs same_map same_map cap scr 0 ci' \<and>
      nvs_view same_map ci' = (nvs_view same_map ci)(mid := None)"
    and "nvs_op_schedule_retry ideal_nvs ci mid next_us dead er = (err, ci') \<Longrightarrow> nvs_sound ideal_nvs same_map same_map cap scr 0 ci' \<and>
      nvs_view same_map ci' = (nvs_view same_map ci)
        (mid := map_option (\<lambda>msg. retried (zeroed msg) next_us dead er) (nvs_view same_map ci mid))"
proof -
  let ?v = "nvs_view same_map ci"
  show "nvs_sound ideal_nvs same_map same_map cap scr 0 ci' \<and> nvs_view same_map ci' \<in> {?v, ?v(m_id msg \<mapsto> fresh msg)}"
    if new: "m_id msg \<notin> dom ?v" and run: "nvs_op_enqueue ideal_nvs ci msg = (err, ci')"
    using nvs_enqueue_sound [OF s new, of ci' 0] nvs_enqueue_total [OF s run] run s by (cases "err = ESP_OK") auto
  show "nvs_sound ideal_nvs same_map same_map cap scr 0 ci' \<and> (nvs_view same_map ci' = ?v \<or>
      (\<exists>msg. first_to_claim ?v now_us msg \<and> nvs_view same_map ci' = ?v(m_id msg \<mapsto> claimed msg now_us)))"
    if run: "nvs_op_claim_next ideal_nvs ci now_us = (err, r, ci')"
    using nvs_claim_sound(2,3) [OF s run, of 0] nvs_claim_sound(4) [OF s run] by (metis (no_types, lifting))
  show "nvs_sound ideal_nvs same_map same_map cap scr 0 ci' \<and> nvs_view same_map ci' = ?v(mid := None)"
    if run: "nvs_op_mark_delivered ideal_nvs ci mid = (err, ci')"
    using nvs_delivered_sound [OF s, of mid ci' 0] nvs_delivered_total [OF s run] run s
    by (cases "mid \<in> dom ?v") (auto simp: fun_upd_idem_iff)
  show "nvs_sound ideal_nvs same_map same_map cap scr 0 ci' \<and> nvs_view same_map ci' =
      ?v(mid := map_option (\<lambda>msg. retried (zeroed msg) next_us dead er) (?v mid))"
    if run: "nvs_op_schedule_retry ideal_nvs ci mid next_us dead er = (err, ci')"
    using nvs_retry_sound [OF s, of mid next_us dead er ci' 0] nvs_retry_total [OF s run] run s
    by (cases "mid \<in> dom ?v") (auto simp: fun_upd_idem_iff)
qed

text \<open>C28: A power loss during an enqueue, a claim, a confirmation or a rescheduling of the NVS backend
  leaves the queue as it was before the operation or as the operation makes it: whichever library
  calls succeeded before it, the restart recovers and finds all other messages, and the message of
  the operation in its old or its new state (the payload of a rescheduled message zeroed).\<close>

theorem nvs_interrupted_atomic:
  assumes "nvs_laws N blobs durable" "nvs_commit_law N blobs durable" and inv: "nvs_inv blobs durable c"
    and quiet: "durable (n_handle c) = blobs (n_handle c)" and later: "nvs_laws N' blobs durable" "nvs_reliable N' blobs"
  shows "(\<forall>msg err c'. m_id msg \<notin> dom (nvs_view blobs c) \<and> nvs_op_enqueue N c msg = (err, c') \<longrightarrow>
      nvs_survives N' blobs durable (c\<lparr>n_handle := n_handle c'\<rparr>) {nvs_view blobs c, (nvs_view blobs c)(m_id msg \<mapsto> fresh msg)}) \<and>
    (\<forall>now_us err r c'. nvs_op_claim_next N c now_us = (err, r, c') \<longrightarrow> nvs_survives N' blobs durable (c\<lparr>n_handle := n_handle c'\<rparr>)
      ({nvs_view blobs c} \<union> {(nvs_view blobs c)(m_id msg \<mapsto> claimed msg now_us) | msg. first_to_claim (nvs_view blobs c) now_us msg})) \<and>
    (\<forall>mid err c'. nvs_op_mark_delivered N c mid = (err, c') \<longrightarrow>
      nvs_survives N' blobs durable (c\<lparr>n_handle := n_handle c'\<rparr>) {nvs_view blobs c, (nvs_view blobs c)(mid := None)}) \<and>
    (\<forall>mid next_us dead er err c'. nvs_op_schedule_retry N c mid next_us dead er = (err, c') \<longrightarrow>
      nvs_survives N' blobs durable (c\<lparr>n_handle := n_handle c'\<rparr>) {nvs_view blobs c, (nvs_view blobs c)
        (mid := map_option (\<lambda>msg. retried (zeroed msg) next_us dead er) (nvs_view blobs c mid))})"
proof -
  let ?ci = "nvs_on (blobs (n_handle c)) c"
  note I = settled_ideal [OF inv quiet] and same = assms(1,2) settled_ideal(1) [OF inv quiet]
  note res = ideal_results [OF I(2), unfolded I(3)] and final = survives_ideal [OF later nvs_invD(10) [OF inv] _ I(2), unfolded I(3)]
  show ?thesis
  proof (intro conjI allI impI; (elim conjE)?)
    fix msg :: message and err c'
    assume new: "m_id msg \<notin> dom (nvs_view blobs c)" and run: "nvs_op_enqueue N c msg = (err, c')"
    obtain erri ci' where i: "nvs_op_enqueue ideal_nvs ?ci msg = (erri, ci')" by (metis prod.exhaust)
    show "nvs_survives N' blobs durable (c\<lparr>n_handle := n_handle c'\<rparr>) {nvs_view blobs c, (nvs_view blobs c)(m_id msg \<mapsto> fresh msg)}"
      by (rule final [OF enqueue_same [OF same run i]]) (use res(1) [OF new i] in simp_all)
  next
    fix now_us err r c'
    assume run: "nvs_op_claim_next N c now_us = (err, r, c')"
    obtain erri ri ci' where i: "nvs_op_claim_next ideal_nvs ?ci now_us = (erri, ri, ci')" by (metis prod.exhaust)
    have "fst (nvs_op_claim_next ideal_nvs ?ci now_us) \<noteq> EDGESYNC_ERR_STORAGE_CORRUPT"
      using nvs_claim_sound(1) [OF I(2) i] by (simp only: i fst_conv) simp
    from claim_same [OF same this run i] show "nvs_survives N' blobs durable (c\<lparr>n_handle := n_handle c'\<rparr>) ({nvs_view blobs c} \<union>
        {(nvs_view blobs c)(m_id msg \<mapsto> claimed msg now_us) | msg. first_to_claim (nvs_view blobs c) now_us msg})"
      by (rule final) (use res(2) [OF i] in auto)
  next
    fix mid err c'
    assume run: "nvs_op_mark_delivered N c mid = (err, c')"
    obtain erri ci' where i: "nvs_op_mark_delivered ideal_nvs ?ci mid = (erri, ci')" by (metis prod.exhaust)
    show "nvs_survives N' blobs durable (c\<lparr>n_handle := n_handle c'\<rparr>) {nvs_view blobs c, (nvs_view blobs c)(mid := None)}"
      by (rule final [OF delivered_same [OF same run i]]) (use res(3) [OF i] in simp_all)
  next
    fix mid next_us dead er err c'
    assume run: "nvs_op_schedule_retry N c mid next_us dead er = (err, c')"
    obtain erri ci' where i: "nvs_op_schedule_retry ideal_nvs ?ci mid next_us dead er = (erri, ci')" by (metis prod.exhaust)
    show "nvs_survives N' blobs durable (c\<lparr>n_handle := n_handle c'\<rparr>) {nvs_view blobs c, (nvs_view blobs c)
        (mid := map_option (\<lambda>msg. retried (zeroed msg) next_us dead er) (nvs_view blobs c mid))}"
      by (rule final [OF retry_same [OF same run i]]) (use res(4) [OF i] in simp_all)
  qed
qed

text \<open>A library that writes and loses power at the commit.\<close>

definition cut_nvs :: "blob_map nvs_lib" where
  "cut_nvs = ideal_nvs\<lparr>nv_commit := (\<lambda>n. (False, n))\<rparr>"

lemma cut_nvs_laws: "nvs_laws cut_nvs same_map same_map" "nvs_commit_law cut_nvs same_map same_map"
  by (auto simp: nvs_laws_def nvs_read_laws_def nvs_write_laws_def nvs_commit_law_def cut_nvs_def ideal_nvs_def Let_def
      split: option.splits if_splits)

lemma cut_never_ok: "fst (nvs_op_enqueue cut_nvs c msg) \<noteq> ESP_OK"
  by (auto simp: nvs_op_enqueue_def write_entry_def cut_nvs_def Let_def split: option.splits prod.splits if_splits)

theorem nvs_interrupted_atomic_witness:
  "\<exists>err c'. nvs_op_enqueue cut_nvs demo_nvs_empty demo_message = (err, c') \<and> err \<noteq> ESP_OK \<and>
     (let c1 = demo_nvs_empty\<lparr>n_handle := n_handle c'\<rparr> in nvs_reboot same_map same_map c1 c1) \<and>
     nvs_survives ideal_nvs same_map same_map (demo_nvs_empty\<lparr>n_handle := n_handle c'\<rparr>) {Map.empty, [7 \<mapsto> fresh demo_message]}"
proof -
  note inv = nvs_soundD(2) [OF demo_nvs_empty_sound(2) [of 0]]
  obtain err c' where run: "nvs_op_enqueue cut_nvs demo_nvs_empty demo_message = (err, c')" by (metis prod.exhaust)
  have "m_id demo_message \<notin> dom (nvs_view same_map demo_nvs_empty)" by (simp add: demo_nvs_empty_sound(3))
  then have "nvs_survives ideal_nvs same_map same_map (demo_nvs_empty\<lparr>n_handle := n_handle c'\<rparr>)
      {nvs_view same_map demo_nvs_empty, (nvs_view same_map demo_nvs_empty)(m_id demo_message \<mapsto> fresh demo_message)}"
    using nvs_interrupted_atomic [OF cut_nvs_laws inv refl ideal_nvs_laws ideal_nvs_reliable] run by blast
  then show ?thesis using run cut_never_ok [of demo_nvs_empty demo_message] using nvs_invD(2,11,12) [OF inv]
    by (simp add: demo_nvs_empty_sound(3) demo_message_id nvs_reboot_def Let_def)
qed

end
