(* ===== verification/End_To_End.thy ===== *)
theory End_To_End
  imports Core_Properties
begin

text \<open>
  From the flash queue to the HTTP request: one iteration of the worker of a handle that uses the
  built-in transport, through the dispatch of \<open>edgesync_storage.c\<close> and \<open>edgesync_transport.c\<close>.
\<close>

text \<open>What \<open>edgesync_init\<close> sets up when the application gives no transport.\<close>

lemma init_http:
  assumes "edgesync_init pf L net (Some cfg) True = Init_Ok h" "cf_transport_ops cfg = None"
  obtains ctx where "http_transport_create (Some (cf_http cfg)) True True = (ESP_OK, Some ctx)"
    "co_transport_ops h = wrapped_http_ops L" "co_transport_ctx h = Http_Transport ctx net"
proof -
  obtain err t where 1: "http_transport_create (Some (cf_http cfg)) True True = (err, t)" by (metis prod.exhaust)
  have a: "pf_allocates pf" using assms(1) by (auto simp: edgesync_init_def split: if_splits)
  have o: "err = ESP_OK" if "t \<noteq> None"
    using 1 that by (auto simp: http_transport_create_def Let_def split: option.splits if_splits)
  show thesis
    using assms 1 o that a
    by (cases t) (auto simp: edgesync_init_def transport_create_def wrapped_http_ops_def http_op_init_def Let_def
        split: option.splits prod.splits if_splits)
qed

lemma http_message_claimed [simp]:
  "http_url ctx (claimed m now_us) = http_url ctx m" "http_request_of ctx url (claimed m now_us) = http_request_of ctx url m"
proof -
  show "http_url ctx (claimed m now_us) = http_url ctx m" by (simp add: http_url_def)
  have "http_headers cfg (claimed m now_us) = http_headers cfg m" for cfg by (simp add: http_headers_def)
  then show "http_request_of ctx url (claimed m now_us) = http_request_of ctx url m" by (simp add: http_request_of_def)
qed

text \<open>The result of handing a message to the transport, and the request that was made for it.\<close>

definition http_attempt ::
  "'h http_lib \<Rightarrow> ('h \<Rightarrow> http_request option) \<Rightarrow> http_ctx \<Rightarrow> 'h \<Rightarrow> message \<Rightarrow> delivery_result \<Rightarrow> 'h \<Rightarrow> bool" where
  "http_attempt L req ctx net m result net' \<longleftrightarrow>
     (case http_url ctx m of
        None \<Rightarrow> result = DELIVERY_PERMANENT_FAILURE \<and> net' = net
      | Some url \<Rightarrow>
          if fst (hl_init L net (http_client_cfg ctx url)) then
            \<exists>n1. req n1 = Some (http_request_of ctx url m) \<and>
              (let (err, n2) = hl_perform L n1
               in net' = hl_cleanup L n2 \<and>
                  result = (if err = ESP_OK then http_outcome (ht_config ctx) (hl_get_status_code L n2) else DELIVERY_RETRYABLE_FAILURE))
          else result = DELIVERY_RETRYABLE_FAILURE)"

lemma http_attempted:
  assumes laws: "http_laws L req" and run: "http_op_deliver L ctx net msg = (result, status, net')"
  shows "http_attempt L req ctx net msg result net'"
proof (cases "http_url ctx msg")
  case None
  then show ?thesis using run by (auto simp: http_attempt_def http_op_deliver_def http_url_def Let_def split: if_splits)
next
  case (Some url)
  obtain created n0 where init: "hl_init L net (http_client_cfg ctx url) = (created, n0)" by (metis prod.exhaust)
  show ?thesis
  proof (cases created)
    case True
    have init1: "hl_init L net (http_client_cfg ctx url) = (True, n0)" using init True by simp
    obtain n1 where "req n1 = Some (http_request_of ctx url msg)"
      "http_op_deliver L ctx net msg = (let (err, h2) = hl_perform L n1 in
         if err = ESP_OK then (http_outcome (ht_config ctx) (hl_get_status_code L h2), hl_get_status_code L h2, hl_cleanup L h2)
         else (DELIVERY_RETRYABLE_FAILURE, 0, hl_cleanup L h2))"
      by (rule http_deliver_request [OF laws Some init1])
    then show ?thesis using run
      by (auto simp: http_attempt_def Some init True Let_def split: prod.splits if_splits intro!: exI [of _ n1])
  next
    case False
    then show ?thesis using run Some init
      by (auto simp: http_attempt_def http_op_deliver_def http_url_def Let_def split: if_splits)
  qed
qed

text \<open>C29: From the flash to the server and back: when a message is due, one iteration of the worker claims the
  first one, performs exactly one POST for it, to the configured URL with the stored payload as
  its body and the message identifier as its idempotency key, and records the outcome of that request in
  the flash queue: removed after a success, due again after the delay or dead-lettered otherwise;
  all other messages stay as they are.\<close>

theorem http_end_to_end:
  assumes "http_laws L req" "co_transport_ops h = wrapped_http_ops L" "co_transport_ctx h = Http_Transport ctx net"
    and "flash_handle F mc cells sz cap (k + 2) h c" "\<exists>mid m. contents cells c mid = Some m \<and> eligible claim_us m"
    and "worker_iteration (co_transport_ops h) w (co_queue h) (co_transport_ctx h) claim_us done_us rnd tr = (q', t', tr')"
  shows "\<exists>m result net' c'. first_to_claim (contents cells c) claim_us m \<and>
    http_attempt L req ctx net m result net' \<and> t' = Http_Transport ctx net' \<and>
    flash_handle F mc cells sz cap k (h\<lparr>co_queue := q'\<rparr>) c' \<and>
    contents cells c' = (contents cells c)
      (m_id m := fst (settled (\<lambda>m. m) (w_retry_cfg w) (claimed m claim_us) result done_us rnd)) \<and>
    tr' = tr @ (if w_event_cb w then map (\<lambda>ev. (ev, claimed m claim_us))
      (snd (settled (\<lambda>m. m) (w_retry_cfg w) (claimed m claim_us) result done_us rnd)) else [])"
proof -
  let ?q = "co_queue h" and ?good = "wrap_good Flashq_Ctx (flashq_sound cells F sz cap (max_record_size (co_max_message_size h)))"
  have H: "q_storage_ops ?q = wrap_ops Flashq_Ctx flashq_of (flashq_ops F mc)" "q_storage_ctx ?q = Flashq_Ctx c"
    "flashq_sound cells F sz cap (max_record_size (co_max_message_size h)) (k + 2) c"
    using assms(4) by (simp_all add: flash_handle_def)
  have good: "?good (Suc (Suc k)) (q_storage_ctx ?q)" using H(3) by (auto simp: wrap_good_def H(2))
  have v: "contents cells (flashq_of (q_storage_ctx ?q)) = contents cells c" by (simp add: H(2))
  note E = any_flashq.worker_iteration_effect [OF H(1) good assms(6), unfolded v if_P [OF assms(5)]]
  obtain m result status where m: "first_to_claim (contents cells c) claim_us m"
    "tr_deliver (co_transport_ops h) (co_transport_ctx h) (claimed m claim_us) = (result, status, t')"
    "contents cells (flashq_of (q_storage_ctx q')) = (contents cells c)
      (m_id m := fst (settled (\<lambda>m. m) (w_retry_cfg w) (claimed m claim_us) result done_us rnd))"
    "tr' = tr @ (if w_event_cb w then map (\<lambda>ev. (ev, claimed m claim_us))
      (snd (settled (\<lambda>m. m) (w_retry_cfg w) (claimed m claim_us) result done_us rnd)) else [])"
    using E by blast
  obtain net' where n: "http_op_deliver L ctx net (claimed m claim_us) = (result, status, net')" "t' = Http_Transport ctx net'"
    using m(2) by (auto simp: assms(2,3) wrapped_http_ops_def split: prod.splits)
  have a: "http_attempt L req ctx net m result net'"
    using http_attempted [OF assms(1) n(1)] unfolding http_attempt_def http_message_claimed .
  obtain c' where c': "q_storage_ctx q' = Flashq_Ctx c'" "flashq_sound cells F sz cap (max_record_size (co_max_message_size h)) k c'"
    using E unfolding wrap_good_def by blast
  then have "flash_handle F mc cells sz cap k (h\<lparr>co_queue := q'\<rparr>) c'" using E by (simp add: flash_handle_def)
  then show ?thesis using m a n(2) c'(1) by auto
qed

text \<open>The server answers 503: the request carries the payload, and the message is due again later.\<close>

definition demo_http_handle :: "(mem, blob_map, unit, http_request option, nat) core" where
  "demo_http_handle = demo_handle\<lparr>co_transport_ops := wrapped_http_ops busy_http,
     co_transport_ctx := Http_Transport demo_http_ctx None\<rparr>"

theorem http_end_to_end_witness:
  "\<exists>q' t' tr' c' url m. worker_iteration (co_transport_ops demo_http_handle) demo_worker (co_queue demo_http_handle)
       (co_transport_ctx demo_http_handle) 5000 5100 0 [] = (q', t', tr') \<and>
     t' = Http_Transport demo_http_ctx (Some (http_request_of demo_http_ctx url demo_message)) \<and>
     flash_handle nor True flat 24576 4 0 (demo_http_handle\<lparr>co_queue := q'\<rparr>) c' \<and> contents flat c' 7 = Some m \<and>
     m_state m = MSG_PENDING \<and> m_attempt_count m = 1 \<and> m_payload m = [1, 2, 3]"
proof -
  let ?h = demo_http_handle
  have t: "co_transport_ops ?h = wrapped_http_ops busy_http" "co_transport_ctx ?h = Http_Transport demo_http_ctx None"
    by (simp_all add: demo_http_handle_def)
  obtain c where c: "flash_handle nor True flat 24576 4 90 demo_handle c" "contents flat c = [7 \<mapsto> requeued (fresh demo_message)]"
    by (rule demo_handle)
  have fh: "flash_handle nor True flat 24576 4 (0 + 2) ?h c"
    using c(1) by (simp add: flash_handle_def demo_http_handle_def flashq_sound_def flashq_good_def generation_room_def)
  have r: "requeued (fresh demo_message) = fresh demo_message" by (simp add: requeued_def)
  have e: "\<exists>mid m. contents flat c mid = Some m \<and> eligible 5000 m" using demo_eligible by (simp add: c(2) r)
  obtain q' t' tr' where run: "worker_iteration (co_transport_ops ?h) demo_worker (co_queue ?h) (co_transport_ctx ?h) 5000 5100 0 [] = (q', t', tr')"
    by (metis prod.exhaust)
  obtain m result net' c' where E: "first_to_claim (contents flat c) 5000 m"
    "http_attempt busy_http (\<lambda>h. h) demo_http_ctx None m result net'" "t' = Http_Transport demo_http_ctx net'"
    "flash_handle nor True flat 24576 4 0 (?h\<lparr>co_queue := q'\<rparr>) c'"
    "contents flat c' = (contents flat c)(m_id m := fst (settled (\<lambda>m. m) (w_retry_cfg demo_worker) (claimed m 5000) result 5100 0))"
    using http_end_to_end [OF busy_http_laws t fh e run] by blast
  have m: "m = fresh demo_message" using E(1) by (auto simp: first_to_claim_def c(2) r split: if_splits)
  let ?url = "c_bytes ''https://h/in/t/a''"
  have "m_destination m = m_destination demo_http_message"
    by (simp add: m fresh_def demo_message_def demo_http_message_def c_string_def)
  then have u: "http_url demo_http_ctx m = Some ?url" using demo_http_url by (simp only: http_url_def)
  have o: "http_outcome (ht_config demo_http_ctx) 503 = DELIVERY_RETRYABLE_FAILURE"
    by (simp add: http_outcome_def default_classify_def demo_http_ctx_def http_transport_create_def demo_http_config_def Let_def)
  have n: "net' = Some (http_request_of demo_http_ctx ?url m)" "result = DELIVERY_RETRYABLE_FAILURE"
    using E(2) by (simp_all add: http_attempt_def u busy_http_def o)
  have b: "http_request_of demo_http_ctx ?url m = http_request_of demo_http_ctx ?url demo_message"
    by (simp add: http_request_of_def http_headers_def m fresh_def demo_message_def c_string_def)
  have "settled (\<lambda>m. m) (w_retry_cfg demo_worker) (claimed m 5000) result 5100 0 =
      (Some (retried (claimed m 5000) (5100 + ucast (retry_compute_delay_ms (w_retry_cfg demo_worker) 1 0) * 1000)
         False EDGESYNC_ERR_TRANSPORT), [EVENT_FAILED, EVENT_RETRY])"
    by (simp add: settled_def n(2) m demo_worker_def word_le_nat_alt)
  then have v: "contents flat c' 7 = Some (retried (claimed m 5000)
      (5100 + ucast (retry_compute_delay_ms (w_retry_cfg demo_worker) 1 0) * 1000) False EDGESYNC_ERR_TRANSPORT)"
    using E(5) by (simp add: m demo_message_id)
  show ?thesis
    by (intro exI conjI, rule run, rule E(3) [unfolded n(1) b], rule E(4), rule v)
      (simp_all add: m, simp add: demo_message_def)
qed

end
