(* ===== verification/ES_Examples.thy ===== *)
theory ES_Examples
  imports Core_Properties ES_Mqtt
begin

text \<open>
  The example programs \<open>examples/basic\<close>, \<open>examples/http\<close> and \<open>examples/mqtt\<close>: their configurations, the
  connection to a Wi-Fi network, and the loop that publishes a sequence number, on top of the
  public operations.
\<close>

section \<open>The payload\<close>

text \<open>\<open>%d\<close>, and \<open>snprintf\<close> into a buffer of \<open>n\<close> bytes, which returns the length of the whole text.\<close>

fun decimal_nat :: "nat \<Rightarrow> byte list" where
  "decimal_nat n = (if n < 10 then [0x30 + of_nat n] else decimal_nat (n div 10) @ [0x30 + of_nat (n mod 10)])"

declare decimal_nat.simps [simp del]

definition decimal :: "int \<Rightarrow> byte list" where
  "decimal i = (if i < 0 then 0x2D # decimal_nat (nat (- i)) else decimal_nat (nat i))"

definition snprintf_into :: "nat \<Rightarrow> byte list \<Rightarrow> byte list \<Rightarrow> byte list" where
  "snprintf_into n buf text = take (n - 1) text @ [0] @ drop (min (n - 1) (length text) + 1) buf"

definition seq_text :: "int \<Rightarrow> byte list" where
  "seq_text i = [0x7B, 0x22] @ c_bytes ''seq'' @ [0x22] @ c_bytes '': '' @ decimal i @ [0x7D]"

section \<open>The parts of the programs\<close>

text \<open>The transport of the basic example, which logs the destination, the attempt and the payload.\<close>

type_synonym log_line = "byte list \<times> u32 \<times> byte list"

definition logging_deliver :: "log_line list \<Rightarrow> message \<Rightarrow> delivery_result \<times> int \<times> log_line list" where
  "logging_deliver lines msg = (DELIVERY_SUCCESS, 200, lines @ [(m_destination msg, m_attempt_count msg, m_payload msg)])"

definition logging_transport :: "log_line list transport_ops" where
  "logging_transport = \<lparr>tr_init = None, tr_deliver = logging_deliver, tr_close = None\<rparr>"

text \<open>The event callback: the enumerators count from zero and index the table of names.\<close>

definition event_names :: "string list" where
  "event_names = [''QUEUED'', ''DELIVERED'', ''RETRY'', ''FAILED'', ''QUEUE_FULL'', ''DEAD_LETTER'']"

fun event_number :: "event_id \<Rightarrow> nat" where
  "event_number EVENT_QUEUED = 0"
| "event_number EVENT_DELIVERED = 1"
| "event_number EVENT_RETRY = 2"
| "event_number EVENT_FAILED = 3"
| "event_number EVENT_QUEUE_FULL = 4"
| "event_number EVENT_DEAD_LETTER = 5"

definition on_event :: "event_id \<Rightarrow> message \<Rightarrow> string \<times> string" where
  "on_event event msg = (event_names ! event_number event, id_to_hex (m_id msg))"

text \<open>
  The Wi-Fi station: what the handler does to the number of connection attempts and to the
  connected bit of the event group.
\<close>

datatype net_event = WIFI_EVENT_STA_START | WIFI_EVENT_STA_DISCONNECTED | IP_EVENT_STA_GOT_IP | Other_Event

record station =
  ws_connects :: nat
  ws_connected_bit :: bool

definition wifi_event_handler :: "station \<Rightarrow> net_event \<Rightarrow> station" where
  "wifi_event_handler st ev =
     (case ev of
        WIFI_EVENT_STA_START \<Rightarrow> st\<lparr>ws_connects := ws_connects st + 1\<rparr>
      | WIFI_EVENT_STA_DISCONNECTED \<Rightarrow> st\<lparr>ws_connects := ws_connects st + 1\<rparr>
      | IP_EVENT_STA_GOT_IP \<Rightarrow> st\<lparr>ws_connected_bit := True\<rparr>
      | Other_Event \<Rightarrow> st)"

text \<open>
  How far a program comes: \<open>ESP_ERROR_CHECK\<close> aborts it, a wait without a timeout blocks it.
  \<open>results\<close> are the results of the calls of the Wi-Fi driver that are checked, in order, \<open>events\<close>
  those that arrive.
\<close>

datatype 'a startup = Aborted | Blocked | Started 'a

definition error_check :: "esp_err \<Rightarrow> 'a startup \<Rightarrow> 'a startup" where
  "error_check err rest = (if err \<noteq> ESP_OK then Aborted else rest)"

definition wifi_init_station :: "esp_err list \<Rightarrow> net_event list \<Rightarrow> station startup" where
  "wifi_init_station results events =
     foldr error_check results
       (let st = foldl wifi_event_handler \<lparr>ws_connects = 0, ws_connected_bit = False\<rparr> events
        in if ws_connected_bit st then Started st else Blocked)"

section \<open>The programs\<close>

definition app_boot ::
  "('p, 'n) platform \<Rightarrow> 'h http_lib \<Rightarrow> 'h \<Rightarrow> ('p, 'n, 'u, 't) config \<Rightarrow> bool \<times> bool \<times> bool \<Rightarrow> ('p, 'n, 'u, 'h, 't) core startup" where
  "app_boot pf L net config task_flags =
     (case edgesync_init pf L net (Some config) True of
        Init_Failed err s t \<Rightarrow> Aborted
      | Init_Ok h \<Rightarrow>
          (case task_flags of (allocated, sem_created, task_created) \<Rightarrow>
             (case edgesync_start (Some h) allocated sem_created task_created of
                (err, Some h) \<Rightarrow> error_check err (Started h) | (err, None) \<Rightarrow> Aborted)))"

definition basic_config :: "'u \<Rightarrow> int \<Rightarrow> ('p, 'n, 'u, log_line list) config" where
  "basic_config null_storage tskNO_AFFINITY = (edgesync_default_config null_storage [] tskNO_AFFINITY)
     \<lparr>cf_transport_ops := Some logging_transport, cf_event_cb := True\<rparr>"

definition basic_app_main ::
  "('p, 'n) platform \<Rightarrow> 'h http_lib \<Rightarrow> 'h \<Rightarrow> 'u \<Rightarrow> int \<Rightarrow> bool \<times> bool \<times> bool \<Rightarrow>
   ('p, 'n, 'u, 'h, log_line list) core startup" where
  "basic_app_main pf L net null_storage tskNO_AFFINITY task_flags =
     app_boot pf L net (basic_config null_storage tskNO_AFFINITY) task_flags"

definition http_example_config :: "byte list \<Rightarrow> 'u \<Rightarrow> 't \<Rightarrow> int \<Rightarrow> ('p, 'n, 'u, 't) config" where
  "http_example_config endpoint null_storage null_transport tskNO_AFFINITY =
     (edgesync_default_config null_storage null_transport tskNO_AFFINITY)
       \<lparr>cf_http := zero_http_config\<lparr>hc_url := Some endpoint, hc_no_append_destination := True\<rparr>, cf_event_cb := True\<rparr>"

definition mqtt_example_transport :: "byte list \<Rightarrow> byte list \<Rightarrow> mqtt_config" where
  "mqtt_example_transport broker_uri topic =
     \<lparr>mq_broker_uri = Some broker_uri, mq_topic = Some topic, mq_no_append_destination = False, mq_client_id = None,
      mq_username = None, mq_password = None, mq_qos = 1, mq_retain = False, mq_timeout_ms = 0, mq_use_cert_bundle = False,
      mq_cert_pem = None, mq_skip_cert_common_name_check = False, mq_client_cert_pem = None, mq_client_key_pem = None\<rparr>"

definition http_app_main ::
  "esp_err \<Rightarrow> esp_err list \<Rightarrow> net_event list \<Rightarrow> ('p, 'n) platform \<Rightarrow> 'h http_lib \<Rightarrow> 'h \<Rightarrow> ('p, 'n, 'u, 't) config \<Rightarrow>
   bool \<times> bool \<times> bool \<Rightarrow> ('p, 'n, 'u, 'h, 't) core startup" where
  "http_app_main nvs_init results events pf L net config task_flags =
     error_check nvs_init
       (case wifi_init_station results events of
          Aborted \<Rightarrow> Aborted | Blocked \<Rightarrow> Blocked | Started st \<Rightarrow> app_boot pf L net config task_flags)"

definition mqtt_app_main ::
  "esp_err \<Rightarrow> esp_err list \<Rightarrow> net_event list \<Rightarrow> 'm mqtt_lib \<Rightarrow> mqtt_config \<Rightarrow> ('p, 'n) platform \<Rightarrow> 'h http_lib \<Rightarrow> 'h \<Rightarrow>
   'u \<Rightarrow> int \<Rightarrow> bool \<times> bool \<times> bool \<Rightarrow> ('p, 'n, 'u, 'h, 'm mqtt_ctx) core startup" where
  "mqtt_app_main nvs_init results events M mqtt_cfg pf L net null_storage tskNO_AFFINITY task_flags =
     error_check nvs_init
       (case wifi_init_station results events of
          Aborted \<Rightarrow> Aborted | Blocked \<Rightarrow> Blocked
        | Started st \<Rightarrow>
            (case mqtt_transport_create M (Some mqtt_cfg) True (pf_allocates pf) (pf_allocates pf) of
               (err, None) \<Rightarrow> Aborted
             | (err, Some ctx) \<Rightarrow>
                 app_boot pf L net ((edgesync_default_config null_storage ctx tskNO_AFFINITY)
                   \<lparr>cf_transport_ops := Some (mqtt_ops M), cf_event_cb := True\<rparr>) task_flags))"

text \<open>One turn of the loop of all three, and the loop; each list element is the time of a publish.\<close>

definition publish_seq ::
  "('p, 'n, 'u, 'h, 't) core \<Rightarrow> int \<Rightarrow> byte list \<Rightarrow> i64 \<Rightarrow> (nat \<Rightarrow> u64) \<Rightarrow> nat \<Rightarrow> event list \<Rightarrow>
   (esp_err \<times> ('p, 'n, 'u, 'h, 't) core option \<times> event list \<times> bool \<times> nat) option" where
  "publish_seq h i buf now_us rng k tr =
     (let len = length (seq_text i); payload = snprintf_into 64 buf (seq_text i)
      in edgesync_publish (Some h) (Some (c_bytes ''telemetry'')) (Some payload) len None now_us rng k tr)"

fun app_loop ::
  "('p, 'n, 'u, 'h, 't) core \<Rightarrow> int \<Rightarrow> byte list \<Rightarrow> i64 list \<Rightarrow> (nat \<Rightarrow> u64) \<Rightarrow> nat \<Rightarrow> event list \<Rightarrow>
   (esp_err list \<times> ('p, 'n, 'u, 'h, 't) core \<times> event list \<times> nat) option" where
  "app_loop h i buf [] rng k tr = Some ([], h, tr, k)"
| "app_loop h i buf (now_us # clock) rng k tr =
     (case publish_seq h i buf now_us rng k tr of
        Some (err, Some h, tr, woken, k) \<Rightarrow>
          map_option (\<lambda>(errs, rest). (err # errs, rest)) (app_loop h (i + 1) buf clock rng k tr)
      | _ \<Rightarrow> None)"

section \<open>What the programs do\<close>

text \<open>The number in a payload can be read back: no two turns publish the same payload.\<close>

lemma length_decimal_nat: "n < 10 ^ Suc d \<Longrightarrow> length (decimal_nat n) \<le> Suc d"
proof (induction d arbitrary: n)
  case 0
  then show ?case by (subst decimal_nat.simps) simp
next
  case (Suc d)
  then have "n div 10 < 10 ^ Suc d" by (simp add: div_less_iff_less_mult)
  from Suc.IH [OF this] show ?case by (subst decimal_nat.simps) simp
qed

lemma decimal_nat_nonempty [simp]: "decimal_nat n \<noteq> []"
  by (subst decimal_nat.simps) simp

lemma digit_byte: "d < 10 \<Longrightarrow> e < 10 \<Longrightarrow> (0x30 + of_nat d :: byte) = 0x30 + of_nat e \<longleftrightarrow> d = e"
  by (simp add: word_unat_eq_iff unat_word_ariths unat_of_nat)

lemma decimal_nat_inject: "decimal_nat n = decimal_nat m \<Longrightarrow> n = m"
proof (induction n arbitrary: m rule: less_induct)
  case (less n)
  have split: "decimal_nat k = (if k < 10 then [] else decimal_nat (k div 10)) @ [0x30 + of_nat (k mod 10)]" for k
    by (subst decimal_nat.simps) simp
  have e: "(if n < 10 then [] else decimal_nat (n div 10)) = (if m < 10 then [] else decimal_nat (m div 10))"
    "n mod 10 = m mod 10"
    using less.prems digit_byte [of "n mod 10" "m mod 10"] by (simp_all add: split [of n] split [of m])
  show ?case
  proof (cases "n < 10")
    case True
    then show ?thesis using e decimal_nat_nonempty [of "m div 10"] by (auto split: if_splits simp del: decimal_nat_nonempty)
  next
    case False
    then have "decimal_nat (n div 10) = decimal_nat (m div 10)" "\<not> m < 10" using e(1) by (simp_all split: if_splits)
    then have "n div 10 = m div 10" using less.IH [of "n div 10"] False by simp
    then show ?thesis using e(2) by (metis div_mult_mod_eq)
  qed
qed

lemma decimal_nat_digits: "x \<in> set (decimal_nat n) \<Longrightarrow> 0x30 \<le> x \<and> x \<le> (0x39 :: byte)"
proof (induction n rule: decimal_nat.induct)
  case (1 n)
  have d: "(0x30 :: byte) \<le> 0x30 + of_nat k \<and> 0x30 + of_nat k \<le> (0x39 :: byte)" if "k < 10" for k
    using that by (auto simp: word_le_nat_alt unat_word_ariths unat_of_nat)
  show ?case
  proof (cases "n < 10")
    case True
    then show ?thesis using "1.prems" d [of n] by (subst (asm) decimal_nat.simps) simp
  next
    case False
    then have "x \<in> set (decimal_nat (n div 10)) \<or> x = 0x30 + of_nat (n mod 10)"
      using "1.prems" by (subst (asm) decimal_nat.simps) auto
    then show ?thesis using "1.IH" [OF False] d [of "n mod 10"] by auto
  qed
qed

lemma seq_text_inject: "seq_text i = seq_text j \<Longrightarrow> i = j"
proof -
  have no: "decimal_nat n \<noteq> 0x2D # bs" for n bs
    using decimal_nat_digits [of "0x2D" n] by (cases "decimal_nat n") auto
  assume "seq_text i = seq_text j"
  then have "decimal i = decimal j" by (simp add: seq_text_def)
  then show "i = j"
    using no by (auto simp: decimal_def dest!: decimal_nat_inject split: if_splits) (metis no)+
qed

lemma seq_text_length:
  assumes "- (2 ^ 31) \<le> i" "i < 2 ^ 31"
  shows "length (seq_text i) \<le> 20"
proof -
  have "nat (- i) < 10 ^ Suc 9" "nat i < 10 ^ Suc 9" using assms by simp_all
  then have "length (decimal_nat (nat (- i))) \<le> 10" "length (decimal_nat (nat i)) \<le> 10"
    using length_decimal_nat [of _ 9] by simp_all
  then show ?thesis by (simp add: seq_text_def decimal_def c_bytes_def)
qed

text \<open>What is published is the text, with the length \<open>snprintf\<close> returned.\<close>

lemma snprintf_payload: "length text < n \<Longrightarrow> take (length text) (snprintf_into n buf text) = text"
  by (simp add: snprintf_into_def)

definition seq_message :: "message_id \<Rightarrow> int \<Rightarrow> i64 \<Rightarrow> message" where
  "seq_message mid i now_us = publish_message mid (c_bytes ''telemetry'') None now_us (seq_text i)"

lemma telemetry_length [simp]: "length (c_string (c_bytes ''telemetry'')) = 9"
  by (simp add: c_bytes_def c_string_def)

lemma publish_seq_ok:
  assumes h: "co_started h" "flash_handle F mc cells sz cap (k + 3) h c" "20 \<le> unat (co_max_message_size h)"
    and i: "- (2 ^ 31) \<le> i" "i < 2 ^ 31" and mid: "rng r \<noteq> 0" "rng r \<notin> dom (contents cells c)"
    and room: "card (dom (contents cells c)) < cap"
  obtains h' tr' woken c' where "publish_seq h i buf now_us rng r tr = Some (ESP_OK, Some h', tr', woken, Suc r)"
    "co_started h'" "co_max_message_size h' = co_max_message_size h" "flash_handle F mc cells sz cap k h' c'"
    "contents cells c' = (contents cells c)(rng r \<mapsto> seq_message (rng r) i now_us)"
proof -
  let ?text = "seq_text i" and ?dest = "c_bytes ''telemetry''"
  let ?buf = "snprintf_into 64 buf ?text"
  have l: "length ?text \<le> 20" by (rule seq_text_length [OF i])
  have p: "take (length ?text) ?buf = ?text" by (rule snprintf_payload) (use l in simp)
  have lb: "length ?text \<le> length ?buf" using l by (simp add: snprintf_into_def)
  have fits: "fits ?dest (length ?text) (co_max_message_size h)" using l h(3) by (simp add: fits_def)
  have id: "choose_id None rng r = Some (rng r, Suc r)" using id_generate_nonzero [of rng r] mid(1) by (simp add: choose_id_def)
  obtain err q tr' woken where run: "queue_publish (co_queue h) (publish_message (rng r) ?dest None now_us (take (length ?text) ?buf)) tr = (err, q, tr', woken)"
    by (metis prod.exhaust)
  let ?h = "h\<lparr>co_queue := q\<rparr>"
  have e: "edgesync_publish (Some h) (Some ?dest) (Some ?buf) (length ?text) None now_us rng r tr = Some (err, Some ?h, tr', woken, Suc r)"
    by (rule publish_run [OF h(1) lb fits id run])
  obtain c' where c': "flash_handle F mc cells sz cap k ?h c'" "err = ESP_OK"
    "contents cells c' = (contents cells c)(rng r \<mapsto> seq_message (rng r) i now_us)"
    using publish_stores [OF h(1,2) lb fits id mid(2) e] room
    by (auto simp: p seq_message_def publish_message_def)
  show thesis
    by (rule that [of ?h tr' woken c']) (use e c' h(1) in \<open>simp_all add: publish_seq_def Let_def\<close>)
qed

text \<open>
  As long as there is room, every turn of the loop is accepted: its message is on the flash with its
  number, and the messages that were there are still there.
\<close>

lemma app_loop_stores:
  "co_started h \<Longrightarrow> flash_handle F mc cells sz cap (k + 3 * length clock) h c \<Longrightarrow> 20 \<le> unat (co_max_message_size h) \<Longrightarrow>
   - (2 ^ 31) \<le> i \<Longrightarrow> i + int (length clock) \<le> 2 ^ 31 \<Longrightarrow> inj_on rng {r..<r + length clock} \<Longrightarrow>
   0 \<notin> rng ` {r..<r + length clock} \<Longrightarrow> rng ` {r..<r + length clock} \<inter> dom (contents cells c) = {} \<Longrightarrow>
   card (dom (contents cells c)) + length clock \<le> cap \<Longrightarrow>
   \<exists>h' tr' c'. app_loop h i buf clock rng r tr = Some (replicate (length clock) ESP_OK, h', tr', r + length clock) \<and>
     co_started h' \<and> flash_handle F mc cells sz cap k h' c' \<and>
     (\<forall>j<length clock. contents cells c' (rng (r + j)) = Some (seq_message (rng (r + j)) (i + int j) (clock ! j))) \<and>
     (\<forall>mid. mid \<notin> rng ` {r..<r + length clock} \<longrightarrow> contents cells c' mid = contents cells c mid)"
proof (induction clock arbitrary: h c i r tr)
  case Nil
  then show ?case by auto
next
  case (Cons now_us clock)
  let ?R = "{r..<r + length (now_us # clock)}"
  have R: "?R = insert r {Suc r..<Suc r + length clock}" by auto
  have g: "flash_handle F mc cells sz cap ((k + 3 * length clock) + 3) h c" using Cons.prems(2) by (simp add: ac_simps)
  have m: "rng r \<noteq> 0" "rng r \<notin> dom (contents cells c)" using Cons.prems(7,8) unfolding R by (metis imageI insertI1, blast)
  have i: "i < 2 ^ 31" and room: "card (dom (contents cells c)) < cap" using Cons.prems(5,9) by simp_all
  obtain h1 tr1 wk c1 where 1: "publish_seq h i buf now_us rng r tr = Some (ESP_OK, Some h1, tr1, wk, Suc r)"
    "co_started h1" "co_max_message_size h1 = co_max_message_size h" "flash_handle F mc cells sz cap (k + 3 * length clock) h1 c1"
    "contents cells c1 = (contents cells c)(rng r \<mapsto> seq_message (rng r) i now_us)"
    by (rule publish_seq_ok [where rng = rng and r = r, OF Cons.prems(1) g Cons.prems(3,4) i m room])
  have inj: "inj_on rng {Suc r..<Suc r + length clock}" "rng r \<notin> rng ` {Suc r..<Suc r + length clock}"
    using Cons.prems(6) unfolding R by (auto simp: inj_on_def)
  have fin: "finite (dom (contents cells c))"
    using g flashq_reliable.view_finite unfolding flash_handle_def by blast
  have "card (dom (contents cells c1)) + length clock \<le> cap" using Cons.prems(9) m(2) fin by (simp add: 1(5))
  moreover have "rng ` {Suc r..<Suc r + length clock} \<inter> dom (contents cells c1) = {}"
    using Cons.prems(8) inj(2) unfolding R by (simp add: 1(5))
  moreover have "0 \<notin> rng ` {Suc r..<Suc r + length clock}" using Cons.prems(7) unfolding R by blast
  ultimately obtain h' tr' c' where L: "app_loop h1 (i + 1) buf clock rng (Suc r) tr1 =
      Some (replicate (length clock) ESP_OK, h', tr', Suc r + length clock)"
    "co_started h'" "flash_handle F mc cells sz cap k h' c'"
    "\<forall>j<length clock. contents cells c' (rng (Suc r + j)) = Some (seq_message (rng (Suc r + j)) (i + 1 + int j) (clock ! j))"
    "\<forall>mid. mid \<notin> rng ` {Suc r..<Suc r + length clock} \<longrightarrow> contents cells c' mid = contents cells c1 mid"
    using Cons.IH [OF 1(2,4) _ _ _ inj(1), of "i + 1" tr1] Cons.prems(3,4,5) 1(3) by auto
  have "contents cells c' (rng (r + j)) = Some (seq_message (rng (r + j)) (i + int j) ((now_us # clock) ! j))"
    if "j < length (now_us # clock)" for j
  proof (cases j)
    case 0
    have "contents cells c' (rng r) = contents cells c1 (rng r)" using L(5) inj(2) by blast
    then show ?thesis by (simp add: 0 1(5))
  next
    case (Suc j')
    then show ?thesis using L(4) that by (simp add: add.assoc)
  qed
  moreover have "contents cells c' mid = contents cells c mid" if "mid \<notin> rng ` ?R" for mid
    using L(5) that unfolding R by (simp add: 1(5))
  ultimately show ?case using L(1-3) 1(1) by (intro exI [of _ h'] exI [of _ tr'] exI [of _ c']) simp
qed

section \<open>What their comments say\<close>

text \<open>The station connects again after each loss, and its connected bit is never cleared.\<close>

lemma station_reconnects:
  "ws_connects (foldl wifi_event_handler st events) = ws_connects st +
     length (filter (\<lambda>ev. ev = WIFI_EVENT_STA_START \<or> ev = WIFI_EVENT_STA_DISCONNECTED) events)"
  "ws_connected_bit (foldl wifi_event_handler st events) \<longleftrightarrow> ws_connected_bit st \<or> IP_EVENT_STA_GOT_IP \<in> set events"
  by (induction events arbitrary: st) (auto simp: wifi_event_handler_def split: net_event.splits)

text \<open>
  Neither networked example initialises the queue before the station has an address: until then
  nothing can be published, although their comments say that messages queue up meanwhile.
\<close>

lemma examples_wait_for_network:
  assumes "IP_EVENT_STA_GOT_IP \<notin> set events"
  shows "http_app_main nvs_init results events pf L net config flags \<in> {Aborted, Blocked}"
    "mqtt_app_main nvs_init results events M mqtt_cfg pf L net null_storage tskNO_AFFINITY flags \<in> {Aborted, Blocked}"
proof -
  have "foldr error_check results x \<in> {Aborted, x}" for x :: "station startup"
    by (induction results) (auto simp: error_check_def)
  then have "wifi_init_station results events \<in> {Aborted, Blocked}"
    using assms by (fastforce simp: wifi_init_station_def Let_def station_reconnects)
  then show "http_app_main nvs_init results events pf L net config flags \<in> {Aborted, Blocked}"
    "mqtt_app_main nvs_init results events M mqtt_cfg pf L net null_storage tskNO_AFFINITY flags \<in> {Aborted, Blocked}"
    by (auto simp: http_app_main_def mqtt_app_main_def error_check_def)
qed

text \<open>The HTTP example posts to the configured address itself, whatever the destination of a message.\<close>

lemma http_example_url:
  assumes "http_transport_create (Some (cf_http (http_example_config endpoint a b c))) True True = (ESP_OK, Some ctx)"
    "length (c_string endpoint) < 256"
  shows "http_url ctx msg = Some (c_string endpoint)"
  using assms by (auto simp: http_transport_create_def http_example_config_def zero_http_config_def http_url_def strlcpy_text_def
      Let_def split: if_splits)

end
