(* ===== verification/Spec2Isabelle.thy ===== *)
theory Spec2Isabelle
  imports ES_Types ES_Crc32 ES_Retry ES_Id Core_Properties ES_Mqtt Flashq_Torn
    Wakeup_Properties Machine_Properties Nvs_Interrupted End_To_End ES_Examples
begin

text \<open>
  A verification development for EdgeSync, a store-and-forward message queue for ESP-IDF
  (\<open>src/components/edgesync\<close>): an application publishes messages, the queue keeps them in flash
  until a worker task has delivered them through a transport, across restarts and power losses.

  \<^bold>\<open>The program and its model.\<close>  Every C struct is a \<open>record\<close>, every enum a \<open>datatype\<close> (or a word
  where the code stores the number on flash), every integer a word of its width; a function that
  changes a context returns the new context, an \<open>esp_err_t\<close> is a word and the error paths are
  branches of the definition.  A pointer that may be NULL is an \<open>option\<close>, an out parameter a result.
  Where the C code copies into a fixed buffer, the context carries a flag \<open>fault\<close> that is set when
  the copy would run over its end; the operations keep it clear under the invariants.

    \<^item> \<open>ES_Prelude\<close>, \<open>ES_Types\<close>: machine types, error codes, little-endian bytes, C strings, the
      selection loop shared by the backends; messages, states, policies, statistics
      (\<open>include/edgesync/edgesync_types.h\<close>).
    \<^item> \<open>ES_Crc32\<close>, \<open>ES_Retry\<close>, \<open>ES_Id\<close>: \<open>edgesync_crc32.c\<close>, \<open>edgesync_retry.c\<close>, \<open>edgesync_id.c\<close>.
    \<^item> \<open>Flashq_Format\<close>: the on-flash records of \<open>edgesync_flashq_format.c\<close>.
    \<^item> \<open>Flash_Device\<close>: the flash partition of ESP-IDF as a parameter, an operations record with the
      laws of NOR flash (a write clears bits only, any access may fail, an erase works by sectors).
    \<^item> \<open>Flashq_Storage\<close>, \<open>Flashq_Ops\<close>: \<open>edgesync_storage_flashq.c\<close>, from the region helpers,
      compaction and the recovery scan to the ten operations of its table and the constructor.
      \<open>Flashq_Log\<close> to \<open>Flashq_Inv\<close> hold what a region contains and the invariant \<open>flashq_inv\<close>;
      \<open>Flashq_Steps\<close> what each operation does; \<open>Flashq_Recovery\<close> and \<open>Flashq_Start\<close> recovery and
      formatting; \<open>Flashq_Live\<close> when operations succeed; \<open>Flashq_Crash\<close> and \<open>Flashq_Atomic\<close> what an
      operation leaves on flash that is cut short; \<open>Flashq_Torn\<close> what becomes of a queue with a
      torn record at its end; \<open>Flashq_Backend\<close> the contract of the storage interface;
      \<open>Flashq_Example\<close> a concrete queue for the witnesses; \<open>Flashq_Properties\<close> and
      \<open>Flashq_Guarantees\<close> the properties.
    \<^item> \<open>Nvs_Library\<close>, \<open>Nvs_Storage\<close>: the NVS library as a parameter, and \<open>edgesync_storage_nvs.c\<close> on
      top of it.  The payload pointer of \<open>write_entry\<close> may point into the buffer that is encoded
      into; the model keeps this aliasing.  \<open>ES_Keyed\<close> to \<open>Nvs_Properties\<close> hold the invariant,
      the operations, recovery, the contract and the properties; \<open>Nvs_Interrupted\<close> compares an
      operation that is cut short with the same operation on an ideal library.
    \<^item> \<open>ES_Storage\<close>: the operations table of \<open>edgesync_storage.h\<close> and, as locales, what a backend
      promises: each operation as a step on a map from identifiers to messages.
    \<^item> \<open>ES_Queue\<close>: \<open>edgesync_queue.c\<close> and \<open>edgesync_events.c\<close>; \<open>ES_Worker\<close>: \<open>edgesync_worker.c\<close>;
      \<open>ES_Delivery\<close>: one iteration of the worker, and that it drains the queue over a working
      connection; \<open>ES_Settling\<close>: that over any connection it settles every message, if there is a limit.
    \<^item> \<open>ES_System\<close>: publishers, worker, transport, storage and power losses as the step relation
      \<open>sys_step\<close>; \<open>System_Properties\<close> instantiates it with both backends.
    \<^item> \<open>ES_Machine\<close>: the abstract machine \<open>machine_step\<close>, a map of messages with the worker's task and
      the transmissions so far, which every run of the system refines; \<open>Machine_Properties\<close>.
    \<^item> \<open>ES_Wakeup\<close>: the tasks at the grain of their synchronisation, \<open>cc_step\<close>: a publisher inside and
      after its critical section (\<open>edgesync_queue_publish\<close>), the worker task with its notification and
      its idle wait (\<open>worker_task\<close>), the task in \<open>edgesync_worker_stop\<close>; \<open>Wakeup_Properties\<close>.
    \<^item> \<open>ES_Http\<close>, \<open>ES_Mqtt\<close>: the transports \<open>edgesync_http.c\<close> and \<open>edgesync_mqtt.c\<close> over the client
      libraries of ESP-IDF as parameters.
    \<^item> \<open>ES_Dispatch\<close>, \<open>ES_Core\<close>: \<open>edgesync_storage.c\<close>, \<open>edgesync_transport.c\<close> and \<open>edgesync.c\<close>; the
      \<open>void *\<close> contexts are a datatype.  \<open>Core_Properties\<close>: the public operations; \<open>End_To_End\<close>: from the
      flash queue of a handle to the HTTP request and back.
    \<^item> \<open>ES_Examples\<close>: the programs under \<open>examples\<close>, their Wi-Fi bring-up and their publishing loop.

  \<^bold>\<open>How the parts rest on each other.\<close>  The locale \<open>storage_backend\<close> and its extensions fix the
  operations of a backend, its abstract view and a goodness predicate, and assume the laws the
  queue relies on.  The lemmas about the queue, the worker and the whole system are proved inside
  these locales, once; the interpretations on the model of the flash queue, on that of the NVS backend and on
  the dispatched tables of \<open>ES_Dispatch\<close> discharge the laws, and the properties are the facts of
  these interpretations written out over the model.

  \<^bold>\<open>What is shown.\<close>  Record format: round trips, rejection of damaged and of torn headers.  Flash
  queue: the invariant is established and kept; the operations refine the map of stored messages;
  compaction changes no message; recovery finds what was stored; publishing, claiming and
  confirming are atomic under power loss, on NVS rescheduling too; on a working device nothing
  fails for want of space.  Queue and worker: the overflow policy, the events, what follows a
  delivery attempt, the worker empties a queue of due messages, and settles each message within
  its retry limit.  System: no accepted message is lost and at most one is in flight, however the parts interleave; every run is one of an abstract machine, in which a message
  reported delivered is not sent again and no message is sent more often than the retry limit.
  Tasks: no wake-up is lost, stopping takes the worker at most four steps.  Public interface: a
  publish that returns \<open>ESP_OK\<close> is durable, bad arguments change nothing, a failed initialisation closes what it opened.  Transports:
  the HTTP request that is made, TLS verification, when an MQTT delivery counts as acknowledged.
  Some theorems state what the code does where that is not what it means to do: a
  torn record blocks the queue and can block every restart (\<open>Flashq_Torn\<close>), a publisher can use
  the worker after it was freed (\<open>Wakeup_Properties\<close>), the NVS backend
  replaces the payload of a retried message by zeros (\<open>Nvs_Properties\<close>), MQTT with QoS 0 never
  succeeds, a long URL dead-letters every message.

  \<^bold>\<open>Bounds.\<close>  No definition needs fuel: the loops over arrays recurse over lists of positions, the
  recovery scan terminates because each record moves the offset forward within the region, and the loop that draws
  an identifier is an option that is \<open>None\<close> if the generator only ever yields zeros.  Generation
  numbers of regions are 32 bits wide and every compaction takes one; a goodness predicate
  therefore carries a budget \<open>k\<close> of operations that may still be performed before the counter
  could wrap, starting from any value below \<open>2 ^ 32\<close>.  Sizes and offsets are natural numbers: the
  geometry of a partition of at most 4 GiB bounds them below \<open>2 ^ 32\<close>.

  \<^bold>\<open>Limits of the statements.\<close>  A power loss in \<open>sys_step\<close> falls between storage operations; what one in
  the middle of an operation leaves is the subject of the atomicity theorems, which assume that
  the recovery that follows succeeds and that partly programmed bytes do not happen to carry
  matching CRCs.  \<open>Flashq_Torn\<close> shows a case in which that recovery does not succeed.  For the NVS
  backend \<open>Nvs_Interrupted\<close> shows that it does, if a commit that does not report success makes all
  of what was written durable or none of it.  In \<open>cc_step\<close> a section under the mutex is one step, a
  notification value is a natural number, and the steps of one task are as fine as the accesses to
  what tasks share.

  \<^bold>\<open>Not modelled.\<close>  The tests; logging and the delays of the example programs; the release of memory and the destroy
  functions, which do nothing else; the scheduler and the mutexes of FreeRTOS (the clock, random
  numbers and the timeouts of waits are inputs of the steps); the Kconfig values other than the defaults
  in the sources.  ESP-IDF itself (flash, NVS, HTTP and MQTT clients) is a parameter.
\<close>

end
